(* ===== verification/Prelude.thy ===== *)
theory Prelude
  imports Main
begin

text \<open>
  Shared vocabulary of the development: results that carry an error message
  (\<open>plugify::Result<T>\<close> is \<open>std::expected<T, std::string>\<close>), the conversions of
  C++ integers the code relies on, the decimal printing of \<open>std::format\<close>, and the generic
  lemmas on lists and maps that several components use.
\<close>

section \<open>Results\<close>

text \<open>\<open>Result<T>\<close> of include/plugify/types.hpp: the left side is the error message.\<close>

type_synonym 'a result = "string + 'a"

text \<open>
  The early return \<open>if (!r) return r.error()\<close>. \<open>'e\<close> is a message for the plugify
  core and a parse error for the version parser.
\<close>

definition rbind :: "'e + 'a \<Rightarrow> ('a \<Rightarrow> 'e + 'b) \<Rightarrow> 'e + 'b" where
  "rbind m f = (case m of Inl e \<Rightarrow> Inl e | Inr x \<Rightarrow> f x)"

named_theorems result_simps \<open>evaluation of results and their early returns\<close>

lemma rbind_Inl [simp, result_simps]: "rbind (Inl e) f = Inl e"
  by (simp add: rbind_def)

lemma rbind_Inr [simp, result_simps]: "rbind (Inr x) f = f x"
  by (simp add: rbind_def)

lemma rbind_eq_Inr [result_simps]: "rbind m f = Inr y \<longleftrightarrow> (\<exists>x. m = Inr x \<and> f x = Inr y)"
  by (cases m) auto

lemma rbind_eq_Inl: "rbind m f = Inl e \<longleftrightarrow> m = Inl e \<or> (\<exists>x. m = Inr x \<and> f x = Inl e)"
  by (cases m) auto

lemma rbind_cong [fundef_cong]:
  "m = m' \<Longrightarrow> (\<And>x. m' = Inr x \<Longrightarrow> f x = f' x) \<Longrightarrow> rbind m f = rbind m' f'"
  by (cases m') auto

section \<open>C++ integers\<close>

text \<open>
  \<open>static_cast<int>\<close> of a wider integer keeps the low 32 bits, read as two's complement.
  \<open>u64\<close> is the wrap-around of unsigned 64-bit arithmetic.
\<close>

definition int32 :: "int \<Rightarrow> int" where
  "int32 x = (x + 2 ^ 31) mod 2 ^ 32 - 2 ^ 31"

definition u64 :: "int \<Rightarrow> int" where
  "u64 x = x mod 2 ^ 64"

definition int_max :: int where
  "int_max = 2147483647"

lemma int32_id: "- (2 ^ 31) \<le> x \<Longrightarrow> x < 2 ^ 31 \<Longrightarrow> int32 x = x"
  by (simp add: int32_def)

lemma int32_range: "- (2 ^ 31) \<le> int32 x \<and> int32 x < 2 ^ 31"
proof -
  have "0 \<le> (x + 2 ^ 31) mod 2 ^ 32" and "(x + 2 ^ 31) mod 2 ^ 32 < (2 ^ 32 :: int)"
    by simp_all
  then show ?thesis by (simp add: int32_def)
qed

lemma int32_u64: "int32 (u64 x) = int32 x"
proof -
  have "(x mod 2 ^ 64) mod 2 ^ 32 = x mod (2 ^ 32 :: int)"
    by (rule mod_mod_cancel) simp
  then have "(x mod 2 ^ 64 + 2 ^ 31) mod 2 ^ 32 = (x + 2 ^ 31) mod (2 ^ 32 :: int)"
    by (metis mod_add_left_eq)
  then show ?thesis by (simp only: int32_def u64_def)
qed

section \<open>Decimal printing\<close>

text \<open>The digit \<open>'0' + d\<close> and the decimal numeral that \<open>std::format("{}", n)\<close> prints.\<close>

definition digit_char :: "nat \<Rightarrow> char" where
  "digit_char d = char_of (48 + d)"

fun show_nat :: "nat \<Rightarrow> string" where
  "show_nat n = (if n < 10 then [digit_char n] else show_nat (n div 10) @ [digit_char (n mod 10)])"

declare show_nat.simps [simp del]

definition show_int :: "int \<Rightarrow> string" where
  "show_int i = (if i < 0 then CHR ''-'' # show_nat (nat (- i)) else show_nat (nat i))"

lemma of_char_digit_char [simp]: "d < 10 \<Longrightarrow> of_char (digit_char d) = (48 + d :: nat)"
  by (simp add: digit_char_def)

lemma show_nat_nonempty [simp]: "show_nat n \<noteq> []"
  by (subst show_nat.simps) simp

lemma show_nat_small [simp]: "n < 10 \<Longrightarrow> show_nat n = [digit_char n]"
  by (subst show_nat.simps) simp

section \<open>Lists\<close>

text \<open>The separator-joined text of \<open>plg::join\<close> over parts that are already formatted.\<close>

fun join_strings :: "string \<Rightarrow> string list \<Rightarrow> string" where
  "join_strings sep [] = []"
| "join_strings sep [x] = x"
| "join_strings sep (x # y # ys) = x @ sep @ join_strings sep (y # ys)"

lemma join_strings_Cons: "ys \<noteq> [] \<Longrightarrow> join_strings sep (x # ys) = x @ sep @ join_strings sep ys"
  by (cases ys) auto

lemma join_strings_append:
  "xs \<noteq> [] \<Longrightarrow> join_strings sep (xs @ [y]) = join_strings sep xs @ sep @ y"
proof (induction xs)
  case (Cons x xs)
  then show ?case by (cases xs) (auto simp: join_strings_Cons)
qed simp

section \<open>Durations and layout of texts\<close>

text \<open>\<open>duration_cast\<close> from nanoseconds to milliseconds truncates towards zero.\<close>

definition to_milliseconds :: "int \<Rightarrow> int" where
  "to_milliseconds ns = (if 0 \<le> ns then ns div 1000000 else - ((- ns) div 1000000))"

definition show_ms :: "int \<Rightarrow> string" where
  "show_ms t = show_int t @ ''ms''"

definition newline :: string where
  "newline = [CHR 0x0A]"

text \<open>A text in single quotes, and padding to a width on either side.\<close>

definition quoted :: "string \<Rightarrow> string" where
  "quoted s = [CHR 0x27] @ s @ [CHR 0x27]"

definition pad_right :: "nat \<Rightarrow> string \<Rightarrow> string" where
  "pad_right n s = s @ replicate (n - length s) (CHR '' '')"

definition pad_left :: "nat \<Rightarrow> string \<Rightarrow> string" where
  "pad_left n s = replicate (n - length s) (CHR '' '') @ s"

end
