(* ===== verification/Version_Parser.thy ===== *)
theory Version_Parser
  imports Version_Lexer "HOL-Library.Signed_Division"
begin

text \<open>
  The version parser of include/plg/version.hpp: \<open>version_parser\<close> and
  \<open>detail::parse\<close>, over the token stream. A parser returns its out-parameter and the
  stream it has advanced, or the error; the pointer of a successful intermediate result is
  read (it may be out of range) and dropped, as every caller overwrites it.
\<close>

section \<open>Versions\<close>

datatype prerelease_identifier_type = Numeric | Alphanumeric

record prerelease_identifier =
  pi_type :: prerelease_identifier_type
  pi_identifier :: string

text \<open>\<open>plg::version<int, int, int>\<close>, the type \<open>plugify::Version\<close>.\<close>

record version =
  v_major :: int
  v_minor :: int
  v_patch :: int
  v_prerelease_tag :: string
  v_build_metadata :: string
  v_prerelease_identifiers :: "prerelease_identifier list"

text \<open>The default constructor and \<open>clear()\<close> both give 0.1.0.\<close>

definition version_default :: version where
  "version_default = \<lparr>v_major = 0, v_minor = 1, v_patch = 0, v_prerelease_tag = [],
     v_build_metadata = [], v_prerelease_identifiers = []\<rparr>"

definition version_clear :: "version \<Rightarrow> version" where
  "version_clear v = v\<lparr>v_major := 0, v_minor := 1, v_patch := 0, v_prerelease_tag := [],
     v_prerelease_identifiers := [], v_build_metadata := []\<rparr>"

section \<open>Progress of the stream\<close>

lemma ts_advance_SomeD:
  "ts_advance s = Inr (t, s') \<Longrightarrow> ts_current s < length (ts_tokens s) \<and>
     s' = s\<lparr>ts_current := Suc (ts_current s)\<rparr> \<and> t = ts_tokens s ! ts_current s"
  by (auto simp: ts_advance_def ts_get_def split: if_splits)

lemma ts_advance_if_match_SomeD:
  "ts_advance_if_match ty s = Inr (Some t, s') \<Longrightarrow> ts_current s < length (ts_tokens s) \<and>
     s' = s\<lparr>ts_current := Suc (ts_current s)\<rparr> \<and> t = ts_tokens s ! ts_current s \<and> tok_type t = ty"
  by (auto simp: ts_advance_if_match_def ts_advance_def ts_get_def result_simps split: if_splits)

lemma ts_advance_if_match_NoneD: "ts_advance_if_match ty s = Inr (None, s') \<Longrightarrow> s' = s"
  by (auto simp: ts_advance_if_match_def ts_advance_def ts_get_def result_simps split: if_splits)

section \<open>Numbers\<close>

text \<open>
  \<open>number_in_range<int>(std::uint64_t)\<close>: the signed bound below 0 never exceeds an
  unsigned value, so \<open>cmp_less\<close> compares with the upper bound only.
\<close>

definition number_in_range_int :: "int \<Rightarrow> bool" where
  "number_in_range_int n \<longleftrightarrow> - 2147483648 \<le> n \<and> n \<le> int_max"

text \<open>
  The loop \<open>while (advance_if_match(token, digit)) result = result * 10 + digit\<close> in
  64-bit unsigned arithmetic; it returns the number, the last token read and the stream.
\<close>

function digits_loop :: "token \<Rightarrow> int \<Rightarrow> token_stream \<Rightarrow> parse_error + (int \<times> token \<times> token_stream)"
where
  "digits_loop t r s =
    (case ts_advance_if_match Digit s of
       Inl e \<Rightarrow> Inl e
     | Inr (None, s') \<Rightarrow> Inr (r, t, s')
     | Inr (Some t', s') \<Rightarrow>
         rbind (get_digit t') (\<lambda>d. digits_loop t' (u64 (r * 10 + int d)) s'))"
  by pat_completeness auto
termination
  by (relation "measure (\<lambda>(t, r, s). length (ts_tokens s) - ts_current s)")
     (auto dest!: ts_advance_if_match_SomeD)

definition success_peek :: "'a \<Rightarrow> token_stream \<Rightarrow> parse_error + ('a \<times> token_stream)" where
  "success_peek x s = rbind (ts_peek s 0) (\<lambda>t. Inr (x, s))"

definition parse_number :: "token_stream \<Rightarrow> parse_error + (int \<times> token_stream)" where
  "parse_number s = rbind (ts_advance s) (\<lambda>(t, s).
     if tok_type t \<noteq> Digit then Inl (Failure (tok_lexeme t) Invalid_argument)
     else rbind (get_digit t) (\<lambda>d.
       if d = 0 then success_peek 0 s
       else rbind (digits_loop t (int d) s) (\<lambda>(r, t, s).
         if number_in_range_int r then success_peek r s
         else Inl (Failure (tok_lexeme t) Result_out_of_range))))"

section \<open>Identifiers\<close>

definition is_alphanumeric_token :: "token \<Rightarrow> bool" where
  "is_alphanumeric_token t \<longleftrightarrow> tok_type t = Hyphen \<or> tok_type t = Letter \<or> tok_type t = Digit"

text \<open>The \<open>while (true)\<close> loop of \<open>is_leading_zero\<close> from position \<open>k\<close>: (digits, alphanumerics).\<close>

function count_alphanumerics :: "token_stream \<Rightarrow> nat \<Rightarrow> parse_error + (nat \<times> nat)" where
  "count_alphanumerics s k =
    (case ts_peek s k of
       Inl e \<Rightarrow> Inl e
     | Inr t \<Rightarrow>
         if \<not> is_alphanumeric_token t then Inr (0, 0)
         else rbind (count_alphanumerics s (Suc k)) (\<lambda>(digits, alphas).
           Inr ((if tok_type t = Digit then Suc digits else digits), Suc alphas)))"
  by pat_completeness auto
termination
  by (relation "measure (\<lambda>(s, k). length (ts_tokens s) - (ts_current s + k))")
     (auto simp: ts_peek_def ts_get_def split: if_splits)

definition is_leading_zero :: "nat \<Rightarrow> token_stream \<Rightarrow> parse_error + bool" where
  "is_leading_zero d s =
    (if d \<noteq> 0 then Inr False
     else rbind (count_alphanumerics s 0) (\<lambda>(digits, alphas). Inr (0 < digits \<and> digits = alphas)))"

text \<open>The \<open>switch\<close> on the current token, with the leading-zero check of prerelease
  identifiers when \<open>pre\<close> holds; the character is appended to \<open>res\<close>.\<close>

definition identifier_char :: "bool \<Rightarrow> token \<Rightarrow> string \<Rightarrow> token_stream \<Rightarrow> parse_error + string" where
  "identifier_char pre t res s =
    (case tok_type t of
       Hyphen \<Rightarrow> Inr (res @ ''-'')
     | Letter \<Rightarrow> rbind (get_char t) (\<lambda>c. Inr (res @ [c]))
     | Digit \<Rightarrow> rbind (get_digit t) (\<lambda>d.
         rbind (if pre \<and> res = [] then is_leading_zero d s else Inr False) (\<lambda>lz.
           if lz then Inl (Failure (tok_lexeme t) Invalid_argument) else Inr (res @ [to_char d])))
     | _ \<Rightarrow> Inl (Failure (tok_lexeme t) Invalid_argument))"

text \<open>\<open>advance_if_match(hyphen) || advance_if_match(letter) || advance_if_match(digit)\<close>.\<close>

definition advance_if_alphanumeric :: "token_stream \<Rightarrow> parse_error + (token option \<times> token_stream)"
where
  "advance_if_alphanumeric s =
    rbind (ts_advance_if_match Hyphen s) (\<lambda>(m, s). if m \<noteq> None then Inr (m, s) else
    rbind (ts_advance_if_match Letter s) (\<lambda>(m, s). if m \<noteq> None then Inr (m, s) else
    ts_advance_if_match Digit s))"

lemma advance_if_alphanumeric_SomeD:
  "advance_if_alphanumeric s = Inr (Some t, s') \<Longrightarrow> ts_current s < length (ts_tokens s) \<and>
     s' = s\<lparr>ts_current := Suc (ts_current s)\<rparr>"
  by (auto simp: advance_if_alphanumeric_def result_simps
      dest: ts_advance_if_match_SomeD ts_advance_if_match_NoneD split: if_splits)

function identifier_loop ::
    "bool \<Rightarrow> token \<Rightarrow> string \<Rightarrow> token_stream \<Rightarrow> parse_error + (string \<times> token_stream)" where
  "identifier_loop pre t res s =
    rbind (identifier_char pre t res s) (\<lambda>res'.
      case advance_if_alphanumeric s of
        Inl e \<Rightarrow> Inl e
      | Inr (None, s') \<Rightarrow> success_peek res' s'
      | Inr (Some t', s') \<Rightarrow> identifier_loop pre t' res' s')"
  by pat_completeness auto
termination
  by (relation "measure (\<lambda>(pre, t, res, s). length (ts_tokens s) - ts_current s)")
     (auto dest!: advance_if_alphanumeric_SomeD)

definition parse_prerelease_identifier :: "token_stream \<Rightarrow> parse_error + (string \<times> token_stream)" where
  "parse_prerelease_identifier s = rbind (ts_advance s) (\<lambda>(t, s). identifier_loop True t [] s)"

definition parse_build_identifier :: "token_stream \<Rightarrow> parse_error + (string \<times> token_stream)" where
  "parse_build_identifier s = rbind (ts_advance s) (\<lambda>(t, s). identifier_loop False t [] s)"

definition make_prerelease_identifier :: "string \<Rightarrow> prerelease_identifier" where
  "make_prerelease_identifier ident = \<lparr>pi_type =
     (if list_ex (\<lambda>c. c = CHR ''-'' \<or> is_letter c) ident then Alphanumeric else Numeric),
     pi_identifier = ident\<rparr>"

declare identifier_loop.simps [simp del] count_alphanumerics.simps [simp del] digits_loop.simps [simp del]


lemma identifier_loop_progress:
  "identifier_loop pre t res s = Inr (x, s') \<Longrightarrow>
     ts_tokens s' = ts_tokens s \<and> ts_current s \<le> ts_current s'"
proof (induction pre t res s rule: identifier_loop.induct)
  case (1 pre t res s)
  from "1.prems" obtain res' where res': "identifier_char pre t res s = Inr res'"
    by (subst (asm) identifier_loop.simps) (auto simp: result_simps)
  show ?case
  proof (cases "advance_if_alphanumeric s")
    case (Inl e)
    with "1.prems" res' show ?thesis by (subst (asm) identifier_loop.simps) simp
  next
    case (Inr r)
    obtain m s1 where r: "r = (m, s1)" by (cases r)
    show ?thesis
    proof (cases m)
      case None
      with Inr r have "s1 = s"
        by (auto simp: advance_if_alphanumeric_def result_simps
            dest: ts_advance_if_match_NoneD split: if_splits)
      with "1.prems" res' Inr r None show ?thesis
        by (subst (asm) identifier_loop.simps) (auto simp: success_peek_def result_simps)
    next
      case (Some t')
      from Inr r Some have s1: "s1 = s\<lparr>ts_current := Suc (ts_current s)\<rparr>"
        by (auto dest: advance_if_alphanumeric_SomeD)
      from "1.prems" res' Inr r Some have "identifier_loop pre t' res' s1 = Inr (x, s')"
        by (subst (asm) identifier_loop.simps) simp
      from "1.IH" [OF res' Inr r [symmetric] Some this] s1 show ?thesis by simp
    qed
  qed
qed

lemma parse_prerelease_identifier_progress:
  "parse_prerelease_identifier s = Inr (x, s') \<Longrightarrow>
     ts_tokens s' = ts_tokens s \<and> ts_current s < ts_current s'"
  by (auto simp: parse_prerelease_identifier_def result_simps
      dest!: ts_advance_SomeD identifier_loop_progress)

lemma parse_build_identifier_progress:
  "parse_build_identifier s = Inr (x, s') \<Longrightarrow>
     ts_tokens s' = ts_tokens s \<and> ts_current s < ts_current s'"
  by (auto simp: parse_build_identifier_def result_simps
      dest!: ts_advance_SomeD identifier_loop_progress)

section \<open>Tags, metadata and whole versions\<close>

function prerelease_loop :: "string \<Rightarrow> prerelease_identifier list \<Rightarrow> token_stream
    \<Rightarrow> parse_error + ((string \<times> prerelease_identifier list) \<times> token_stream)" where
  "prerelease_loop res ids s =
    (let res0 = (if res \<noteq> [] then res @ ''.'' else res) in
     case parse_prerelease_identifier s of
       Inl e \<Rightarrow> Inl e
     | Inr (ident, s1) \<Rightarrow>
         (let res' = res0 @ ident; ids' = ids @ [make_prerelease_identifier ident] in
          case ts_advance_if_match Dot s1 of
            Inl e \<Rightarrow> Inl e
          | Inr (None, s2) \<Rightarrow> success_peek (res', ids') s2
          | Inr (Some t, s2) \<Rightarrow> prerelease_loop res' ids' s2))"
  by pat_completeness auto
termination
  by (relation "measure (\<lambda>(res, ids, s). length (ts_tokens s) - ts_current s)")
     (auto dest!: ts_advance_if_match_SomeD parse_prerelease_identifier_progress)

function build_loop :: "string \<Rightarrow> token_stream \<Rightarrow> parse_error + (string \<times> token_stream)" where
  "build_loop res s =
    (let res0 = (if res \<noteq> [] then res @ ''.'' else res) in
     case parse_build_identifier s of
       Inl e \<Rightarrow> Inl e
     | Inr (ident, s1) \<Rightarrow>
         (let res' = res0 @ ident in
          case ts_advance_if_match Dot s1 of
            Inl e \<Rightarrow> Inl e
          | Inr (None, s2) \<Rightarrow> success_peek res' s2
          | Inr (Some t, s2) \<Rightarrow> build_loop res' s2))"
  by pat_completeness auto
termination
  by (relation "measure (\<lambda>(res, s). length (ts_tokens s) - ts_current s)")
     (auto dest!: ts_advance_if_match_SomeD parse_build_identifier_progress)

declare prerelease_loop.simps [simp del] build_loop.simps [simp del]

definition parse_prerelease_tag ::
    "token_stream \<Rightarrow> parse_error + ((string \<times> prerelease_identifier list) \<times> token_stream)" where
  "parse_prerelease_tag s = prerelease_loop [] [] s"

definition parse_build_metadata :: "token_stream \<Rightarrow> parse_error + (string \<times> token_stream)" where
  "parse_build_metadata s = build_loop [] s"

text \<open>\<open>stream_.consume(dot)\<close>, or failure at the token just read.\<close>

definition expect_dot :: "token_stream \<Rightarrow> parse_error + (unit \<times> token_stream)" where
  "expect_dot s = rbind (ts_consume Dot s) (\<lambda>(b, s).
     if b then Inr ((), s) else rbind (ts_previous s) (\<lambda>t. Inl (Failure (tok_lexeme t) Invalid_argument)))"

text \<open>\<open>version_parser::parse\<close>.\<close>

definition version_parse :: "version \<Rightarrow> token_stream \<Rightarrow> parse_error + (version \<times> token_stream)" where
  "version_parse out s =
    (let v = version_clear out in
     rbind (parse_number s) (\<lambda>(ma, s).
     rbind (expect_dot s) (\<lambda>(_, s).
     rbind (parse_number s) (\<lambda>(mi, s).
     rbind (expect_dot s) (\<lambda>(_, s).
     rbind (parse_number s) (\<lambda>(pa, s).
     let v = v\<lparr>v_major := ma, v_minor := mi, v_patch := pa\<rparr> in
     rbind (ts_advance_if_match Hyphen s) (\<lambda>(h, s).
     rbind (if h \<noteq> None
            then rbind (parse_prerelease_tag s) (\<lambda>((tag, ids), s).
                   Inr (v\<lparr>v_prerelease_tag := tag, v_prerelease_identifiers := ids\<rparr>, s))
            else Inr (v, s)) (\<lambda>(v, s).
     rbind (ts_advance_if_match Plus s) (\<lambda>(p, s).
       if p \<noteq> None
       then rbind (parse_build_metadata s) (\<lambda>(build, s). Inr (v\<lparr>v_build_metadata := build\<rparr>, s))
       else Inr (v, s))))))))))"

text \<open>\<open>detail::parse(std::string_view, version&)\<close>: the version and the pointer of the result.\<close>

definition parse_version :: "string \<Rightarrow> version \<Rightarrow> parse_error + (version \<times> nat)" where
  "parse_version str out =
    rbind (lex str) (\<lambda>s.
    rbind (version_parse out s) (\<lambda>(v, s).
    rbind (ts_consume Eol s) (\<lambda>(b, s).
      if b then rbind (ts_previous s) (\<lambda>t. Inr (v, tok_lexeme t))
      else rbind (ts_previous s) (\<lambda>t. Inl (Failure (tok_lexeme t) Invalid_argument)))))"

definition valid :: "string \<Rightarrow> bool" where
  "valid str = (case parse_version str version_default of Inl e \<Rightarrow> False | Inr r \<Rightarrow> True)"

section \<open>Printing\<close>

text \<open>
  \<open>detail::length\<close> counts digits; \<open>to_chars\<close> writes them backwards from
  \<open>dest\<close>, so writing before the text \<open>dest\<close> puts them in front of it. Division
  truncates towards zero, as C++ division does.
\<close>

lemma abs_sdiv_10_less: "(n::int) sdiv 10 \<noteq> 0 \<Longrightarrow> \<bar>n sdiv 10\<bar> < \<bar>n\<bar>"
  by (auto simp: signed_divide_int_def abs_mult sgn_if split: if_splits)

lemma nonneg_sdiv_smod [simp]:
  "0 \<le> n \<Longrightarrow> (n::int) sdiv 10 = n div 10" "0 \<le> n \<Longrightarrow> (n::int) smod 10 = n mod 10"
  by (simp_all add: signed_divide_int_def signed_modulo_int_def sgn_if)

function digits_length :: "int \<Rightarrow> nat" where
  "digits_length n = (if n sdiv 10 = 0 then 1 else Suc (digits_length (n sdiv 10)))"
  by pat_completeness auto
termination
  by (relation "measure (\<lambda>n. nat \<bar>n\<bar>)") (auto simp: abs_sdiv_10_less)

function to_chars :: "string \<Rightarrow> int \<Rightarrow> string" where
  "to_chars dest n = (let dest' = char_of ((48 + n smod 10) mod 256) # dest in
     if n sdiv 10 = 0 then dest' else to_chars dest' (n sdiv 10))"
  by pat_completeness auto
termination
  by (relation "measure (\<lambda>(dest, n). nat \<bar>n\<bar>)") (auto simp: abs_sdiv_10_less)

declare digits_length.simps [simp del] to_chars.simps [simp del]

definition version_length :: "version \<Rightarrow> nat" where
  "version_length v = digits_length (v_major v) + digits_length (v_minor v)
     + digits_length (v_patch v) + 2
     + (if v_prerelease_tag v = [] then 0 else length (v_prerelease_tag v) + 1)
     + (if v_build_metadata v = [] then 0 else length (v_build_metadata v) + 1)"

text \<open>The bytes written from the end of the buffer, the last write first.\<close>

definition version_to_string :: "version \<Rightarrow> string" where
  "version_to_string v =
    (let it = [];
         it = (if v_build_metadata v \<noteq> [] then CHR ''+'' # v_build_metadata v @ it else it);
         it = (if v_prerelease_tag v \<noteq> [] then CHR ''-'' # v_prerelease_tag v @ it else it);
         it = to_chars it (v_patch v);
         it = CHR ''.'' # it;
         it = to_chars it (v_minor v);
         it = CHR ''.'' # it
     in to_chars it (v_major v))"

end
