(* ===== verification/Version_Tokens.thy ===== *)
theory Version_Tokens
  imports Version_Parser
begin

text \<open>
  What the parser does on a lexed text, as equations over the tokens that are left. A
  stream is seen as the tokens already read and those to come (\<open>stream_at\<close>); on a
  lexed rest (well-formed tokens and one end token, the last) every loop of the parser is a
  \<open>takeWhile\<close> and none of its reads is out of range.
\<close>

section \<open>Streams as past and rest\<close>

definition stream_at :: "token list \<Rightarrow> token list \<Rightarrow> token_stream" where
  "stream_at p r = \<lparr>ts_current = length p, ts_tokens = p @ r\<rparr>"

named_theorems stream_simps \<open>stream operations on a stream given by its past and its rest\<close>

lemma ts_peek_stream_at [stream_simps]:
  "ts_peek (stream_at p r) k = (if k < length r then Inr (r ! k) else Inl Out_of_bounds)"
  by (simp add: ts_peek_def ts_get_def stream_at_def nth_append)

lemma ts_advance_stream_at [stream_simps]:
  "ts_advance (stream_at p []) = Inl Out_of_bounds"
  "ts_advance (stream_at p (t # r)) = Inr (t, stream_at (p @ [t]) r)"
  by (simp_all add: ts_advance_def ts_get_def stream_at_def)

lemma ts_advance_if_match_stream_at [stream_simps]:
  "ts_advance_if_match ty (stream_at p (t # r)) =
     (if tok_type t = ty then Inr (Some t, stream_at (p @ [t]) r) else Inr (None, stream_at p (t # r)))"
  by (simp add: ts_advance_if_match_def ts_advance_def ts_get_def stream_at_def)

lemma ts_consume_stream_at [stream_simps]:
  "ts_consume ty (stream_at p (t # r)) = Inr (tok_type t = ty, stream_at (p @ [t]) r)"
  by (simp add: ts_consume_def stream_simps)

lemma ts_check_stream_at [stream_simps]:
  "ts_check ty (stream_at p (t # r)) = Inr (tok_type t = ty)"
  by (simp add: ts_check_def stream_simps)

lemma ts_previous_stream_at [stream_simps]: "ts_previous (stream_at (p @ [t]) r) = Inr t"
  by (simp add: ts_previous_def ts_get_def stream_at_def nth_append)

lemma success_peek_stream_at [stream_simps]:
  "r \<noteq> [] \<Longrightarrow> success_peek x (stream_at p r) = Inr (x, stream_at p r)"
  by (simp add: success_peek_def stream_simps)

section \<open>Lexed token lists\<close>

fun wf_token :: "token \<Rightarrow> bool" where
  "wf_token t = (case tok_type t of
     Digit \<Rightarrow> (case tok_value t of Digit_value d \<Rightarrow> d < 10 | _ \<Rightarrow> False)
   | Letter \<Rightarrow> (case tok_value t of Char_value c \<Rightarrow> is_letter c | _ \<Rightarrow> False)
   | Range_operator \<Rightarrow> (case tok_value t of Operator_value r \<Rightarrow> True | _ \<Rightarrow> False)
   | _ \<Rightarrow> True)"

declare wf_token.simps [simp del]

fun lexed :: "token list \<Rightarrow> bool" where
  "lexed [] = False"
| "lexed (t # r) = (if tok_type t = Eol then r = [] else wf_token t \<and> lexed r)"

lemma lexed_nonempty [simp]: "lexed r \<Longrightarrow> r \<noteq> []"
  by auto

definition digit_of :: "token \<Rightarrow> nat" where
  "digit_of t = (case tok_value t of Digit_value d \<Rightarrow> d | _ \<Rightarrow> 0)"

text \<open>The character a one-character token stands for.\<close>

definition tok_char :: "token \<Rightarrow> char" where
  "tok_char t = (case tok_type t of
     Space \<Rightarrow> CHR '' '' | Dot \<Rightarrow> CHR ''.'' | Plus \<Rightarrow> CHR ''+'' | Hyphen \<Rightarrow> CHR ''-''
   | Letter \<Rightarrow> (case tok_value t of Char_value c \<Rightarrow> c | _ \<Rightarrow> CHR ''?'')
   | Digit \<Rightarrow> digit_char (digit_of t)
   | _ \<Rightarrow> CHR ''?'')"

definition is_D :: "token \<Rightarrow> bool" where
  "is_D t \<longleftrightarrow> tok_type t = Digit"

lemma get_digit_wf: "tok_type t = Digit \<Longrightarrow> wf_token t \<Longrightarrow> get_digit t = Inr (digit_of t) \<and> digit_of t < 10"
  by (auto simp: get_digit_def digit_of_def wf_token.simps split: token_value.splits)

lemma get_char_wf: "tok_type t = Letter \<Longrightarrow> wf_token t \<Longrightarrow> get_char t = Inr (tok_char t) \<and> is_letter (tok_char t)"
  by (auto simp: get_char_def tok_char_def wf_token.simps split: token_value.splits)

lemma to_char_digit: "d < 10 \<Longrightarrow> to_char d = digit_char d"
  by (simp add: to_char_def digit_char_def)

lemma lexed_dropWhile: "lexed r \<Longrightarrow> \<forall>t. P t \<longrightarrow> tok_type t \<noteq> Eol \<Longrightarrow> lexed (dropWhile P r)"
  by (induction r) (auto split: if_splits)

lemma lexed_suffix: "lexed (ts @ r) \<Longrightarrow> r \<noteq> [] \<Longrightarrow> lexed r"
  by (induction ts) (auto split: if_splits)

lemma lexed_prefix_wf: "lexed (ts @ r) \<Longrightarrow> r \<noteq> [] \<Longrightarrow> t \<in> set ts \<Longrightarrow> wf_token t \<and> tok_type t \<noteq> Eol"
  by (induction ts) (auto split: if_splits)

lemma lexed_dropWhile_digit [simp]: "lexed r \<Longrightarrow> lexed (dropWhile is_D r)"
  by (rule lexed_dropWhile) (auto simp: is_D_def)

lemma lexed_dropWhile_alnum [simp]: "lexed r \<Longrightarrow> lexed (dropWhile is_alphanumeric_token r)"
  by (rule lexed_dropWhile) (auto simp: is_alphanumeric_token_def)

lemma success_peek_dropWhile [stream_simps]:
  "lexed r \<Longrightarrow> success_peek x (stream_at p (dropWhile is_D r)) = Inr (x, stream_at p (dropWhile is_D r))"
  by (rule success_peek_stream_at) (metis lexed_dropWhile_digit lexed_nonempty)

section \<open>Numbers\<close>

definition accumulate :: "int \<Rightarrow> token list \<Rightarrow> int" where
  "accumulate n ts = foldl (\<lambda>n t. n * 10 + int (digit_of t)) n ts"

lemma u64_step: "u64 (u64 n * 10 + d) = u64 (n * 10 + d)"
  by (metis (no_types) mod_add_left_eq mod_mult_left_eq u64_def)

lemma u64_idem [simp]: "u64 (u64 n) = u64 n"
  by (simp add: u64_def)

lemma u64_accumulate: "u64 (accumulate (u64 n) ts) = u64 (accumulate n ts)"
  unfolding accumulate_def
proof (induction ts arbitrary: n rule: rev_induct)
  case (snoc t ts)
  have "u64 (foldl (\<lambda>n t. n * 10 + int (digit_of t)) (u64 n) ts * 10 + int (digit_of t)) =
        u64 (u64 (foldl (\<lambda>n t. n * 10 + int (digit_of t)) (u64 n) ts) * 10 + int (digit_of t))"
    by (simp add: u64_step)
  also have "\<dots> = u64 (u64 (foldl (\<lambda>n t. n * 10 + int (digit_of t)) n ts) * 10 + int (digit_of t))"
    by (simp only: snoc.IH)
  finally show ?case by (simp add: u64_step)
qed simp

lemma digits_loop_lexed:
  "lexed r \<Longrightarrow> n = u64 n \<Longrightarrow> digits_loop t n (stream_at p r) =
     Inr (u64 (accumulate n (takeWhile is_D r)), last (t # takeWhile is_D r),
          stream_at (p @ takeWhile is_D r) (dropWhile is_D r))"
proof (induction r arbitrary: t n p)
  case (Cons x r)
  show ?case
  proof (cases "is_D x")
    case True
    with Cons.prems have x: "tok_type x = Digit" "wf_token x" "lexed r"
      by (auto simp: is_D_def)
    have "digits_loop t n (stream_at p (x # r)) =
        digits_loop x (u64 (n * 10 + int (digit_of x))) (stream_at (p @ [x]) r)"
      using x get_digit_wf [of x] by (subst digits_loop.simps) (simp add: stream_simps)
    also have "\<dots> = Inr (u64 (accumulate (u64 (n * 10 + int (digit_of x))) (takeWhile is_D r)),
        last (x # takeWhile is_D r), stream_at ((p @ [x]) @ takeWhile is_D r) (dropWhile is_D r))"
      using x(3) by (rule Cons.IH) simp
    also have "u64 (accumulate (u64 (n * 10 + int (digit_of x))) (takeWhile is_D r)) =
        u64 (accumulate n (takeWhile is_D (x # r)))"
      using True by (simp add: u64_accumulate) (simp add: accumulate_def)
    finally show ?thesis using True by simp
  next
    case False
    with Cons.prems show ?thesis
      by (subst digits_loop.simps) (simp add: stream_simps is_D_def accumulate_def)
  qed
qed simp

lemma parse_number_lexed:
  assumes "lexed (t # r)"
  shows "parse_number (stream_at p (t # r)) =
    (if \<not> is_D t then Inl (Failure (tok_lexeme t) Invalid_argument)
     else if digit_of t = 0 then Inr (0, stream_at (p @ [t]) r)
     else (let ts = takeWhile is_D r; n = u64 (accumulate (int (digit_of t)) ts) in
       if n \<le> int_max then Inr (n, stream_at (p @ t # ts) (dropWhile is_D r))
       else Inl (Failure (tok_lexeme (last (t # ts))) Result_out_of_range)))"
proof (cases "is_D t")
  case True
  with assms have t: "get_digit t = Inr (digit_of t)" "digit_of t < 10" "lexed r" "r \<noteq> []"
    using get_digit_wf [of t] by (auto simp: is_D_def)
  have nonneg: "- 2147483648 \<le> u64 x" for x
    by (simp add: u64_def)
  have "int (digit_of t) = u64 (int (digit_of t))"
    using t(2) by (simp add: u64_def)
  note loop = digits_loop_lexed [OF t(3) this, of t "p @ [t]"]
  show ?thesis
    using True t nonneg loop
    by (simp add: parse_number_def stream_simps is_D_def number_in_range_int_def Let_def)
next
  case False
  then show ?thesis by (simp add: parse_number_def stream_simps is_D_def)
qed

section \<open>Identifiers\<close>

lemma count_alphanumerics_lexed:
  "lexed (drop k r) \<Longrightarrow> count_alphanumerics (stream_at p r) k =
     (let ts = takeWhile is_alphanumeric_token (drop k r) in
      Inr (length (filter is_D ts), length ts))"
proof (induction "drop k r" arbitrary: k)
  case (Cons t ts)
  then have k: "k < length r" "r ! k = t" "drop (Suc k) r = ts"
    by (metis drop_all leI list.distinct(1), metis nth_via_drop, metis drop_Suc list.sel(3) tl_drop)
  show ?case
  proof (cases "is_alphanumeric_token t")
    case True
    then have "tok_type t \<noteq> Eol" by (auto simp: is_alphanumeric_token_def)
    with Cons.prems Cons.hyps(2) have "lexed ts" by (metis lexed.simps(2))
    with Cons.hyps(1) [of "Suc k"] k True show ?thesis
      by (subst count_alphanumerics.simps)
        (simp add: stream_simps Cons.hyps(2) [symmetric] is_D_def Let_def)
  next
    case False
    with k show ?thesis
      by (subst count_alphanumerics.simps) (simp add: stream_simps Cons.hyps(2) [symmetric])
  qed
qed simp

text \<open>A zero before nothing but digits, at the start of an identifier.\<close>

fun leading_zero :: "token list \<Rightarrow> bool" where
  "leading_zero [] = False"
| "leading_zero (t # ts) = (is_D t \<and> digit_of t = 0 \<and> ts \<noteq> [] \<and> list_all is_D ts)"

lemma filter_length_eq: "length (filter P xs) = length xs \<longleftrightarrow> list_all P xs"
  by (metis filter_True length_filter_less less_irrefl list_all_iff)

lemma is_leading_zero_lexed:
  assumes "lexed r"
  shows "is_leading_zero d (stream_at p r) =
    Inr (d = 0 \<and> (let ts = takeWhile is_alphanumeric_token r in ts \<noteq> [] \<and> list_all is_D ts))"
proof -
  let ?ts = "takeWhile is_alphanumeric_token r"
  have "0 < length (filter is_D ?ts) \<and> length (filter is_D ?ts) = length ?ts \<longleftrightarrow>
      ?ts \<noteq> [] \<and> list_all is_D ?ts"
    unfolding filter_length_eq [symmetric] by (metis length_greater_0_conv)
  then show ?thesis
    using assms count_alphanumerics_lexed [of 0 r p] by (simp add: is_leading_zero_def Let_def)
qed

lemma advance_if_alphanumeric_stream_at [stream_simps]:
  "advance_if_alphanumeric (stream_at p (t # r)) =
     (if is_alphanumeric_token t then Inr (Some t, stream_at (p @ [t]) r)
      else Inr (None, stream_at p (t # r)))"
  by (simp add: advance_if_alphanumeric_def is_alphanumeric_token_def stream_simps)

lemma identifier_char_plain:
  assumes "is_alphanumeric_token t" "wf_token t" "\<not> pre \<or> res \<noteq> []"
  shows "identifier_char pre t res s = Inr (res @ [tok_char t])"
  using assms get_char_wf [of t] get_digit_wf [of t]
  by (auto simp: is_alphanumeric_token_def identifier_char_def tok_char_def to_char_digit
     )

lemma identifier_loop_plain:
  "lexed r \<Longrightarrow> is_alphanumeric_token t \<Longrightarrow> wf_token t \<Longrightarrow> \<not> pre \<or> res \<noteq> [] \<Longrightarrow>
   identifier_loop pre t res (stream_at p r) =
     (let ts = takeWhile is_alphanumeric_token r in
      Inr (res @ map tok_char (t # ts), stream_at (p @ ts) (dropWhile is_alphanumeric_token r)))"
proof (induction r arbitrary: t res p)
  case (Cons x r)
  show ?case
  proof (cases "is_alphanumeric_token x")
    case True
    then have "tok_type x \<noteq> Eol" by (auto simp: is_alphanumeric_token_def)
    with Cons.prems(1) have "lexed r" "wf_token x" by (auto)
    with Cons.IH [of x "res @ [tok_char t]" "p @ [x]"] True Cons.prems show ?thesis
      by (subst identifier_loop.simps)
        (simp add: stream_simps identifier_char_plain Let_def)
  next
    case False
    with Cons.prems show ?thesis
      by (subst identifier_loop.simps) (simp add: stream_simps identifier_char_plain)
  qed
qed simp


text \<open>What an identifier parser accepts: a non-empty run, in prereleases without a leading zero.\<close>

definition parse_identifier :: "bool \<Rightarrow> token_stream \<Rightarrow> parse_error + (string \<times> token_stream)" where
  "parse_identifier pre s = rbind (ts_advance s) (\<lambda>(t, s). identifier_loop pre t [] s)"

lemma parse_identifier_folds:
  "parse_prerelease_identifier s = parse_identifier True s"
  "parse_build_identifier s = parse_identifier False s"
  by (simp_all add: parse_prerelease_identifier_def parse_build_identifier_def parse_identifier_def)

lemma identifier_loop_first:
  assumes "lexed r" "is_alphanumeric_token t" "wf_token t" "\<not> (pre \<and> leading_zero (t # takeWhile is_alphanumeric_token r))"
  shows "identifier_loop pre t [] (stream_at p r) =
     (let ts = takeWhile is_alphanumeric_token r in
      Inr (map tok_char (t # ts), stream_at (p @ ts) (dropWhile is_alphanumeric_token r)))"
proof (cases "pre \<and> tok_type t = Digit")
  case True
  with assms have first: "identifier_char pre t [] (stream_at p r) = Inr [tok_char t]"
    using get_digit_wf [of t] is_leading_zero_lexed [OF assms(1), of "digit_of t" p]
    by (auto simp: identifier_char_def is_D_def tok_char_def to_char_digit Let_def)
  obtain x r' where r: "r = x # r'" using assms(1) by (cases r) auto
  show ?thesis
  proof (cases "is_alphanumeric_token x")
    case True
    then have "tok_type x \<noteq> Eol" by (auto simp: is_alphanumeric_token_def)
    with assms(1) r have "lexed r'" "wf_token x" by (auto)
    with first True r show ?thesis
      by (subst identifier_loop.simps)
        (simp add: stream_simps identifier_loop_plain Let_def)
  next
    case False
    with first r show ?thesis by (subst identifier_loop.simps) (simp add: stream_simps)
  qed
next
  case False
  then have first: "identifier_char pre t [] (stream_at p r) = Inr [tok_char t]"
    using identifier_char_plain [of t False "[]" "stream_at p r"] assms
    by (auto simp: identifier_char_def is_alphanumeric_token_def)
  obtain x r' where r: "r = x # r'" using assms(1) by (cases r) auto
  show ?thesis
  proof (cases "is_alphanumeric_token x")
    case True
    then have "tok_type x \<noteq> Eol" by (auto simp: is_alphanumeric_token_def)
    with assms(1) r have "lexed r'" "wf_token x" by (auto)
    with first True r show ?thesis
      by (subst identifier_loop.simps)
        (simp add: stream_simps identifier_loop_plain Let_def)
  next
    case False
    with first r show ?thesis by (subst identifier_loop.simps) (simp add: stream_simps)
  qed
qed

lemma parse_identifier_lexed:
  assumes "lexed (t # r)"
  shows "parse_identifier pre (stream_at p (t # r)) =
    (let ts = takeWhile is_alphanumeric_token (t # r) in
     if ts = [] \<or> pre \<and> leading_zero ts then Inl (Failure (tok_lexeme t) Invalid_argument)
     else Inr (map tok_char ts, stream_at (p @ ts) (dropWhile is_alphanumeric_token (t # r))))"
proof (cases "is_alphanumeric_token t")
  case alnum: True
  then have "tok_type t \<noteq> Eol" by (auto simp: is_alphanumeric_token_def)
  with assms have t: "lexed r" "wf_token t" by (auto)
  let ?ts = "takeWhile is_alphanumeric_token r"
  show ?thesis
  proof (cases "pre \<and> leading_zero (t # ?ts)")
    case True
    with t have "identifier_loop pre t [] (stream_at (p @ [t]) r) = Inl (Failure (tok_lexeme t) Invalid_argument)"
      using get_digit_wf [of t] is_leading_zero_lexed [OF t(1), of "digit_of t" "p @ [t]"]
      by (subst identifier_loop.simps)
        (auto simp: identifier_char_def is_D_def Let_def)
    with alnum True show ?thesis
      by (simp add: parse_identifier_def stream_simps Let_def del: leading_zero.simps)
  next
    case False
    with alnum t identifier_loop_first [OF t(1) alnum t(2) False, of "p @ [t]"] show ?thesis
      by (simp add: parse_identifier_def stream_simps Let_def del: leading_zero.simps)
  qed
next
  case False
  then show ?thesis
    by (subst parse_identifier_def, subst ts_advance_stream_at, subst rbind_Inr, simp,
        subst identifier_loop.simps)
      (auto simp: identifier_char_def is_alphanumeric_token_def split: token_type.splits)
qed

end
