(* ===== verification/Version_Correct.thy ===== *)
theory Version_Correct
  imports Version_Tokens
begin

text \<open>
  Correctness of the version parser and printer: the texts that are accepted are exactly
  the semantic-version texts (up to the 64-bit wrap-around of the numeric fields), no token
  is read out of range, and printing and parsing are inverse on well-formed versions.
\<close>

section \<open>The grammar\<close>

definition ident_char :: "char \<Rightarrow> bool" where
  "ident_char c \<longleftrightarrow> c = CHR ''-'' \<or> is_letter c \<or> is_digit c"

definition valid_id :: "bool \<Rightarrow> string \<Rightarrow> bool" where
  "valid_id pre x \<longleftrightarrow> x \<noteq> [] \<and> list_all ident_char x \<and>
     (pre \<longrightarrow> \<not> (hd x = CHR ''0'' \<and> tl x \<noteq> [] \<and> list_all is_digit (tl x)))"

definition append_part :: "string \<Rightarrow> string \<Rightarrow> string" where
  "append_part res x = (if res \<noteq> [] then res @ ''.'' @ x else x)"

definition simple_token :: "token \<Rightarrow> bool" where
  "simple_token t \<longleftrightarrow> wf_token t \<and> tok_type t \<in> {Dot, Plus, Hyphen, Letter, Digit}"

definition is_failure :: "parse_error \<Rightarrow> bool" where
  "is_failure e \<longleftrightarrow> (case e of Failure _ _ \<Rightarrow> True | _ \<Rightarrow> False)"

lemma is_failure_Failure [simp]: "is_failure (Failure x c)"
  by (simp add: is_failure_def)

lemma digit_char_facts: "d < 10 \<Longrightarrow> is_digit (digit_char d) \<and> (digit_char d = CHR ''0'' \<longleftrightarrow> d = 0)"
proof -
  assume d: "d < 10"
  have "digit_char d = CHR ''0'' \<longleftrightarrow> (of_char (digit_char d) :: nat) = of_char (CHR ''0'')"
    by (simp only: of_char_eq_iff)
  with d show ?thesis by (simp add: is_digit_def)
qed

lemma letter_not_digit: "is_letter c \<Longrightarrow> \<not> is_digit c"
  by (auto simp: is_letter_def is_digit_def)

lemma not_digit_punct [simp]: "\<not> is_digit CHR ''-''" "\<not> is_digit CHR ''.''" "\<not> is_digit CHR ''+''"
  by (simp_all add: is_digit_def)

lemma not_letter_punct [simp]:
  "\<not> is_letter CHR ''-''" "\<not> is_letter CHR ''.''" "\<not> is_letter CHR ''+''" "\<not> is_letter CHR ''0''"
  by (simp_all add: is_letter_def)

lemma not_ident_punct [simp]: "\<not> ident_char CHR ''.''" "\<not> ident_char CHR ''+''"
  by (simp_all add: ident_char_def)

lemma tok_char_digit:
  "wf_token t \<Longrightarrow> tok_type t = Digit \<Longrightarrow> is_digit (tok_char t) \<and> (tok_char t = CHR ''0'' \<longleftrightarrow> digit_of t = 0)"
  using get_digit_wf [of t] digit_char_facts [of "digit_of t"] by (simp add: tok_char_def)

lemma tok_char_alnum:
  assumes "is_alphanumeric_token t" "wf_token t"
  shows "ident_char (tok_char t)" and "is_digit (tok_char t) \<longleftrightarrow> is_D t"
    and "tok_char t = CHR ''0'' \<longleftrightarrow> is_D t \<and> digit_of t = 0"
  using assms get_char_wf [of t] letter_not_digit [of "tok_char t"] tok_char_digit [of t]
  by (auto simp: is_alphanumeric_token_def ident_char_def is_D_def tok_char_def [of t]
      split: token_type.splits)

lemma list_all_map_digit:
  "list_all is_alphanumeric_token ts \<Longrightarrow> list_all wf_token ts \<Longrightarrow>
   list_all is_digit (map tok_char ts) \<longleftrightarrow> list_all is_D ts"
  by (induction ts) (auto simp: tok_char_alnum)

lemma valid_id_tokens:
  assumes "list_all is_alphanumeric_token ts" "list_all wf_token ts"
  shows "valid_id pre (map tok_char ts) \<longleftrightarrow> ts \<noteq> [] \<and> \<not> (pre \<and> leading_zero ts)"
proof -
  have "list_all ident_char (map tok_char ts)"
    using assms by (induction ts) (auto simp: tok_char_alnum)
  with assms show ?thesis
    by (cases ts) (auto simp: valid_id_def tok_char_alnum list_all_map_digit)
qed

lemma takeWhile_alnum_wf:
  "lexed r \<Longrightarrow> list_all wf_token (takeWhile is_alphanumeric_token r)"
  by (induction r) (auto simp: is_alphanumeric_token_def split: if_splits)

lemma takeWhile_list_all: "list_all P (takeWhile P xs)"
  by (induction xs) auto

lemma alnum_simple: "is_alphanumeric_token t \<Longrightarrow> wf_token t \<Longrightarrow> simple_token t"
  by (auto simp: simple_token_def is_alphanumeric_token_def)

section \<open>The identifier loops\<close>

text \<open>One identifier, read from a lexed rest, and what is left after it.\<close>

lemma parse_identifier_cases:
  assumes "lexed r"
  obtains (fail) l c where "parse_identifier pre (stream_at p r) = Inl (Failure l c)"
  | (ok) ts d q where "r = ts @ d # q" "lexed (d # q)" "\<not> is_alphanumeric_token d"
      "valid_id pre (map tok_char ts)" "list_all simple_token ts"
      "parse_identifier pre (stream_at p r) = Inr (map tok_char ts, stream_at (p @ ts) (d # q))"
proof -
  let ?ts = "takeWhile is_alphanumeric_token r"
  obtain t r0 where r: "r = t # r0" using assms by (cases r) auto
  obtain d q where dq: "dropWhile is_alphanumeric_token r = d # q"
    using assms lexed_dropWhile_alnum [of r] by (cases "dropWhile is_alphanumeric_token r") auto
  have d: "\<not> is_alphanumeric_token d" using dq by (metis hd_dropWhile list.distinct(1) list.sel(1))
  have wf: "list_all wf_token ?ts" "list_all is_alphanumeric_token ?ts"
    using assms by (simp_all only: takeWhile_alnum_wf takeWhile_list_all)
  then have simple: "list_all simple_token ?ts"
    by (auto simp: list_all_iff alnum_simple)
  have split: "r = ?ts @ d # q" using dq takeWhile_dropWhile_id [of is_alphanumeric_token r] by simp
  show thesis
  proof (cases "?ts = [] \<or> pre \<and> leading_zero ?ts")
    case True
    with parse_identifier_lexed [of t r0 pre p] assms r show thesis
      by (intro fail) (simp add: Let_def)
  next
    case False
    with wf have "valid_id pre (map tok_char ?ts)" by (simp add: valid_id_tokens)
    with False split d simple dq parse_identifier_lexed [of t r0 pre p] assms r
      lexed_dropWhile_alnum [of r] show thesis
      by (intro ok [of ?ts d q]) (simp_all only: Let_def if_False not_False_eq_True)
  qed
qed

definition loop_post :: "bool \<Rightarrow> token list \<Rightarrow> token list \<Rightarrow> token_stream \<Rightarrow> token list \<Rightarrow> token list \<Rightarrow> string list \<Rightarrow> bool"
where
  "loop_post pre p r s' ts r' parts \<longleftrightarrow> r = ts @ r' \<and> lexed r' \<and> s' = stream_at (p @ ts) r' \<and>
     parts \<noteq> [] \<and> list_all (valid_id pre) parts \<and> map tok_char ts = join_strings ''.'' parts \<and>
     list_all simple_token ts"

lemma loop_post_step:
  assumes "loop_post pre (p @ ts @ [d]) q s' ts' r' parts" "tok_type d = Dot"
    "valid_id pre (map tok_char ts)" "list_all simple_token ts"
  shows "loop_post pre p (ts @ d # q) s' (ts @ d # ts') r' (map tok_char ts # parts)"
  using assms by (auto simp: loop_post_def join_strings_Cons simple_token_def tok_char_def wf_token.simps)

lemma append_part_nonempty: "valid_id pre x \<Longrightarrow> append_part res x \<noteq> []"
  by (auto simp: append_part_def valid_id_def)

lemma append_part_join:
  "valid_id pre x \<Longrightarrow> parts \<noteq> [] \<Longrightarrow>
   append_part (append_part res x) (join_strings ''.'' parts) = append_part res (join_strings ''.'' (x # parts))"
  by (auto simp: append_part_def valid_id_def join_strings_Cons)

lemma prerelease_loop_sound:
  "lexed r \<Longrightarrow> (case prerelease_loop res ids (stream_at p r) of
      Inl e \<Rightarrow> is_failure e
    | Inr (out, s') \<Rightarrow> \<exists>ts r' parts. loop_post True p r s' ts r' parts \<and>
        out = (append_part res (join_strings ''.'' parts), ids @ map make_prerelease_identifier parts))"
proof (induction "length r" arbitrary: res ids p r rule: less_induct)
  case less
  from less.prems show ?case
  proof (cases rule: parse_identifier_cases [where pre = True and p = p])
    case (fail l c)
    then show ?thesis by (subst prerelease_loop.simps) (simp add: parse_identifier_folds)
  next
    case (ok ts d q)
    let ?x = "map tok_char ts"
    have res': "(if res \<noteq> [] then res @ ''.'' else res) @ ?x = append_part res ?x"
      by (simp add: append_part_def)
    show ?thesis
    proof (cases "tok_type d = Dot")
      case True
      with ok(2) have q: "lexed q" by simp
      have eq: "prerelease_loop res ids (stream_at p r) = prerelease_loop (append_part res ?x)
          (ids @ [make_prerelease_identifier ?x]) (stream_at (p @ ts @ [d]) q)"
        using ok(6) True res'
        by (subst prerelease_loop.simps) (simp add: parse_identifier_folds stream_simps)
      have "length q < length r" using ok(1) by simp
      then have IH: "case prerelease_loop (append_part res ?x) (ids @ [make_prerelease_identifier ?x])
            (stream_at (p @ ts @ [d]) q) of
          Inl e \<Rightarrow> is_failure e
        | Inr (out, s') \<Rightarrow> \<exists>ts' r' parts. loop_post True (p @ ts @ [d]) q s' ts' r' parts \<and>
            out = (append_part (append_part res ?x) (join_strings ''.'' parts),
              (ids @ [make_prerelease_identifier ?x]) @ map make_prerelease_identifier parts)"
        using q by (rule less.hyps)
      have step: "\<exists>ts1 r1 parts1. loop_post True p r s' ts1 r1 parts1 \<and>
          (append_part (append_part res ?x) (join_strings ''.'' parts),
            (ids @ [make_prerelease_identifier ?x]) @ map make_prerelease_identifier parts) =
          (append_part res (join_strings ''.'' parts1), ids @ map make_prerelease_identifier parts1)"
        if "loop_post True (p @ ts @ [d]) q s' ts' r' parts" for s' ts' r' parts
      proof (intro exI conjI)
        show "loop_post True p r s' (ts @ d # ts') r' (?x # parts)"
          using loop_post_step [OF that True ok(4,5)] ok(1) by simp
        from that have "parts \<noteq> []" by (simp add: loop_post_def)
        then show "(append_part (append_part res ?x) (join_strings ''.'' parts),
            (ids @ [make_prerelease_identifier ?x]) @ map make_prerelease_identifier parts) =
          (append_part res (join_strings ''.'' (?x # parts)),
            ids @ map make_prerelease_identifier (?x # parts))"
          using append_part_join [OF ok(4)] by simp
      qed
      show ?thesis
      proof (cases "prerelease_loop (append_part res ?x) (ids @ [make_prerelease_identifier ?x])
            (stream_at (p @ ts @ [d]) q)")
        case (Inl e)
        with IH show ?thesis by (simp add: eq)
      next
        case (Inr y)
        obtain out s' where y: "y = (out, s')" by (cases y)
        from IH Inr y obtain ts' r' parts where post: "loop_post True (p @ ts @ [d]) q s' ts' r' parts"
          and out: "out = (append_part (append_part res ?x) (join_strings ''.'' parts),
              (ids @ [make_prerelease_identifier ?x]) @ map make_prerelease_identifier parts)"
          by auto
        from step [OF post, folded out] show ?thesis by (simp only: eq Inr y sum.case prod.case)
      qed
    next
      case False
      with ok res' have "prerelease_loop res ids (stream_at p r) =
          Inr ((append_part res ?x, ids @ [make_prerelease_identifier ?x]), stream_at (p @ ts) (d # q))"
        by (subst prerelease_loop.simps) (simp add: parse_identifier_folds stream_simps)
      moreover have "loop_post True p r (stream_at (p @ ts) (d # q)) ts (d # q) [?x]"
        using ok by (simp add: loop_post_def)
      ultimately show ?thesis by fastforce
    qed
  qed
qed


lemma build_loop_sound:
  "lexed r \<Longrightarrow> (case build_loop res (stream_at p r) of
      Inl e \<Rightarrow> is_failure e
    | Inr (out, s') \<Rightarrow> \<exists>ts r' parts. loop_post False p r s' ts r' parts \<and>
        out = append_part res (join_strings ''.'' parts))"
proof (induction "length r" arbitrary: res p r rule: less_induct)
  case less
  from less.prems show ?case
  proof (cases rule: parse_identifier_cases [where pre = False and p = p])
    case (fail l c)
    then show ?thesis by (subst build_loop.simps) (simp add: parse_identifier_folds)
  next
    case (ok ts d q)
    let ?x = "map tok_char ts"
    have res': "(if res \<noteq> [] then res @ ''.'' else res) @ ?x = append_part res ?x"
      by (simp add: append_part_def)
    show ?thesis
    proof (cases "tok_type d = Dot")
      case True
      with ok(2) have q: "lexed q" by simp
      have eq: "build_loop res (stream_at p r) =
          build_loop (append_part res ?x) (stream_at (p @ ts @ [d]) q)"
        using ok(6) True res'
        by (subst build_loop.simps) (simp add: parse_identifier_folds stream_simps)
      have "length q < length r" using ok(1) by simp
      then have IH: "case build_loop (append_part res ?x) (stream_at (p @ ts @ [d]) q) of
          Inl e \<Rightarrow> is_failure e
        | Inr (out, s') \<Rightarrow> \<exists>ts' r' parts. loop_post False (p @ ts @ [d]) q s' ts' r' parts \<and>
            out = append_part (append_part res ?x) (join_strings ''.'' parts)"
        using q by (rule less.hyps)
      show ?thesis
      proof (cases "build_loop (append_part res ?x) (stream_at (p @ ts @ [d]) q)")
        case (Inl e)
        with IH show ?thesis by (simp add: eq)
      next
        case (Inr y)
        obtain out s' where y: "y = (out, s')" by (cases y)
        from IH Inr y obtain ts' r' parts where post: "loop_post False (p @ ts @ [d]) q s' ts' r' parts"
          and out: "out = append_part (append_part res ?x) (join_strings ''.'' parts)"
          by auto
        have "loop_post False p r s' (ts @ d # ts') r' (?x # parts)"
          using loop_post_step [OF post True ok(4,5)] ok(1) by simp
        moreover have "out = append_part res (join_strings ''.'' (?x # parts))"
          using append_part_join [OF ok(4)] post out by (simp add: loop_post_def)
        ultimately show ?thesis unfolding eq Inr y by auto
      qed
    next
      case False
      with ok res' have "build_loop res (stream_at p r) =
          Inr (append_part res ?x, stream_at (p @ ts) (d # q))"
        by (subst build_loop.simps) (simp add: parse_identifier_folds stream_simps)
      moreover have "loop_post False p r (stream_at (p @ ts) (d # q)) ts (d # q) [?x]"
        using ok by (simp add: loop_post_def)
      ultimately show ?thesis by fastforce
    qed
  qed
qed

text \<open>Conversely, a dotted list of valid identifiers is read whole.\<close>

definition ends_identifiers :: "token list \<Rightarrow> bool" where
  "ends_identifiers r \<longleftrightarrow> r \<noteq> [] \<and> \<not> is_alphanumeric_token (hd r) \<and> tok_type (hd r) \<noteq> Dot"

lemma simple_alnum:
  "simple_token t \<Longrightarrow> ident_char (tok_char t) \<Longrightarrow> is_alphanumeric_token t \<and> wf_token t"
  by (auto simp: simple_token_def is_alphanumeric_token_def tok_char_def)

lemma simple_dot: "simple_token t \<Longrightarrow> tok_char t = CHR ''.'' \<Longrightarrow> tok_type t = Dot"
  using get_char_wf [of t] tok_char_digit [of t]
  by (auto simp: simple_token_def tok_char_def [of t])

lemma parse_identifier_complete:
  assumes "lexed (ts @ d # q)" "list_all simple_token ts" "valid_id pre (map tok_char ts)"
    "\<not> is_alphanumeric_token d"
  shows "parse_identifier pre (stream_at p (ts @ d # q)) =
    Inr (map tok_char ts, stream_at (p @ ts) (d # q))"
proof -
  from assms(2,3) have al: "list_all is_alphanumeric_token ts \<and> list_all wf_token ts"
    by (auto simp: valid_id_def list_all_iff simple_alnum)
  then have tw: "takeWhile is_alphanumeric_token (ts @ d # q) = ts"
      "dropWhile is_alphanumeric_token (ts @ d # q) = d # q"
    using assms(4) by (auto simp: takeWhile_append dropWhile_append3 list_all_iff dropWhile_append)
  from assms(3) al have ne: "ts \<noteq> [] \<and> \<not> (pre \<and> leading_zero ts)" by (simp add: valid_id_tokens)
  then obtain t0 ts0 where ts: "ts = t0 # ts0" by (cases ts) auto
  from parse_identifier_lexed [of t0 "ts0 @ d # q" pre p] assms(1) ne tw show ?thesis
    unfolding ts by (simp only: append_Cons Let_def) simp
qed

lemma join_tokens_split:
  assumes "map tok_char ts = join_strings ''.'' (x # xs)" "xs \<noteq> []" "list_all simple_token ts"
  obtains tx d ts' where "ts = tx @ d # ts'" "map tok_char tx = x" "tok_type d = Dot"
    "map tok_char ts' = join_strings ''.'' xs"
proof -
  from assms(1,2) have "map tok_char ts = x @ CHR ''.'' # join_strings ''.'' xs"
    by (simp add: join_strings_Cons)
  then obtain tx tr where 1: "ts = tx @ tr" "map tok_char tx = x"
      "map tok_char tr = CHR ''.'' # join_strings ''.'' xs"
    by (auto simp: map_eq_append_conv)
  then obtain d ts' where 2: "tr = d # ts'" "tok_char d = CHR ''.''"
      "map tok_char ts' = join_strings ''.'' xs" by auto
  from 1 2 assms(3) have "tok_type d = Dot" by (intro simple_dot) auto
  with 1 2 show thesis by (intro that) auto
qed

lemma prerelease_loop_complete:
  "parts \<noteq> [] \<Longrightarrow> map tok_char ts = join_strings ''.'' parts \<Longrightarrow> list_all simple_token ts \<Longrightarrow>
   list_all (valid_id True) parts \<Longrightarrow> lexed (ts @ r) \<Longrightarrow> ends_identifiers r \<Longrightarrow>
   prerelease_loop res ids (stream_at p (ts @ r)) =
     Inr ((append_part res (join_strings ''.'' parts), ids @ map make_prerelease_identifier parts),
          stream_at (p @ ts) r)"
proof (induction parts arbitrary: ts res ids p rule: list_nonempty_induct)
  case (single x)
  then obtain d q where r: "r = d # q" by (cases r) (auto simp: ends_identifiers_def)
  with single have "parse_identifier True (stream_at p (ts @ r)) = Inr (x, stream_at (p @ ts) (d # q))"
    using parse_identifier_complete [of ts d q True p] by (simp add: ends_identifiers_def)
  with r single show ?case
    by (subst prerelease_loop.simps)
      (simp add: parse_identifier_folds stream_simps ends_identifiers_def append_part_def Let_def)
next
  case (cons x xs)
  from cons.prems(1,2) cons.hyps(1) obtain tx d ts' where ts: "ts = tx @ d # ts'" "map tok_char tx = x" "tok_type d = Dot"
    "map tok_char ts' = join_strings ''.'' xs" by (elim join_tokens_split)
  have d: "\<not> is_alphanumeric_token d" using ts(3) by (simp add: is_alphanumeric_token_def)
  have "ts' @ r \<noteq> []" using cons.prems(5) by (simp add: ends_identifiers_def)
  then have lx: "lexed (ts' @ r)"
    using cons.prems(4) ts(1) lexed_suffix [of "tx @ [d]" "ts' @ r"] by simp
  have "parse_identifier True (stream_at p (tx @ d # ts' @ r)) = Inr (x, stream_at (p @ tx) (d # ts' @ r))"
    using parse_identifier_complete [of tx d "ts' @ r" True p] cons.prems cons.hyps ts d by simp
  then have "prerelease_loop res ids (stream_at p (ts @ r)) = prerelease_loop (append_part res x)
      (ids @ [make_prerelease_identifier x]) (stream_at ((p @ tx) @ [d]) (ts' @ r))"
    using ts by (subst prerelease_loop.simps)
      (simp add: parse_identifier_folds stream_simps append_part_def Let_def)
  with cons.IH [of ts' "append_part res x" "ids @ [make_prerelease_identifier x]" "(p @ tx) @ [d]"] cons.prems cons.hyps ts lx
  show ?case by (simp add: append_part_join [of True])
qed

lemma build_loop_complete:
  "parts \<noteq> [] \<Longrightarrow> map tok_char ts = join_strings ''.'' parts \<Longrightarrow> list_all simple_token ts \<Longrightarrow>
   list_all (valid_id False) parts \<Longrightarrow> lexed (ts @ r) \<Longrightarrow> ends_identifiers r \<Longrightarrow>
   build_loop res (stream_at p (ts @ r)) =
     Inr (append_part res (join_strings ''.'' parts), stream_at (p @ ts) r)"
proof (induction parts arbitrary: ts res p rule: list_nonempty_induct)
  case (single x)
  then obtain d q where r: "r = d # q" by (cases r) (auto simp: ends_identifiers_def)
  with single have "parse_identifier False (stream_at p (ts @ r)) = Inr (x, stream_at (p @ ts) (d # q))"
    using parse_identifier_complete [of ts d q False p] by (simp add: ends_identifiers_def)
  with r single show ?case
    by (subst build_loop.simps)
      (simp add: parse_identifier_folds stream_simps ends_identifiers_def append_part_def Let_def)
next
  case (cons x xs)
  from cons.prems(1,2) cons.hyps(1) obtain tx d ts' where ts: "ts = tx @ d # ts'" "map tok_char tx = x" "tok_type d = Dot"
    "map tok_char ts' = join_strings ''.'' xs" by (elim join_tokens_split)
  have d: "\<not> is_alphanumeric_token d" using ts(3) by (simp add: is_alphanumeric_token_def)
  have "ts' @ r \<noteq> []" using cons.prems(5) by (simp add: ends_identifiers_def)
  then have lx: "lexed (ts' @ r)"
    using cons.prems(4) ts(1) lexed_suffix [of "tx @ [d]" "ts' @ r"] by simp
  have "parse_identifier False (stream_at p (tx @ d # ts' @ r)) = Inr (x, stream_at (p @ tx) (d # ts' @ r))"
    using parse_identifier_complete [of tx d "ts' @ r" False p] cons.prems cons.hyps ts d by simp
  then have "build_loop res (stream_at p (ts @ r)) =
      build_loop (append_part res x) (stream_at ((p @ tx) @ [d]) (ts' @ r))"
    using ts by (subst build_loop.simps)
      (simp add: parse_identifier_folds stream_simps append_part_def Let_def)
  with cons.IH [of ts' "append_part res x" "(p @ tx) @ [d]"] cons.prems cons.hyps ts lx
  show ?case by (simp add: append_part_join [of False])
qed


section \<open>Decimal numerals\<close>

definition decimal :: "int \<Rightarrow> string" where
  "decimal n = to_chars [] n"

lemma to_chars_decimal: "0 \<le> n \<Longrightarrow> to_chars dest n = decimal n @ dest"
  unfolding decimal_def
proof (induction "nat n" arbitrary: n dest rule: less_induct)
  case less
  show ?case
  proof (cases "n div 10 = 0")
    case True
    with less.prems show ?thesis by (simp add: to_chars.simps [of _ n])
  next
    case False
    with less.prems have "nat (n div 10) < nat n" "0 \<le> n div 10" by auto
    from less.hyps [OF this, of "char_of ((48 + n smod 10) mod 256) # dest"]
      less.hyps [OF this, of "[char_of ((48 + n smod 10) mod 256)]"] False less.prems
    show ?thesis by (simp add: to_chars.simps [of _ n])
  qed
qed

lemma char_of_digit: "0 \<le> d \<Longrightarrow> d < 10 \<Longrightarrow> char_of ((48 + d) mod 256 :: int) = digit_char (nat d)"
proof -
  assume "0 \<le> d" "d < 10"
  then have "(48 + d) mod 256 = int (48 + nat d)" by simp
  then show ?thesis by (simp only: digit_char_def char_of_nat)
qed

lemma decimal_small: "0 \<le> n \<Longrightarrow> n < 10 \<Longrightarrow> decimal n = [digit_char (nat n)]"
  using char_of_digit [of n] by (simp add: decimal_def to_chars.simps [of _ n])

lemma decimal_large: "10 \<le> n \<Longrightarrow> decimal n = decimal (n div 10) @ [digit_char (nat (n mod 10))]"
proof -
  assume n: "10 \<le> n"
  then have "to_chars [digit_char (nat (n mod 10))] (n div 10) =
      decimal (n div 10) @ [digit_char (nat (n mod 10))]"
    by (intro to_chars_decimal) simp
  moreover from n have "n div 10 \<noteq> 0" by simp
  ultimately show ?thesis
    using n char_of_digit [of "n mod 10"] by (simp add: decimal_def to_chars.simps [of _ n] Let_def)
qed

lemma accumulate_snoc: "accumulate n (ts @ [t]) = accumulate n ts * 10 + int (digit_of t)"
  by (simp add: accumulate_def)

lemma accumulate_Cons: "accumulate 0 (t # ts) = accumulate (int (digit_of t)) ts"
  by (simp add: accumulate_def)

lemma wf_digit: "is_D t \<Longrightarrow> wf_token t \<Longrightarrow> digit_of t < 10 \<and> tok_char t = digit_char (digit_of t)"
  using get_digit_wf [of t] by (simp add: is_D_def tok_char_def)

lemma decimal_accumulate:
  "ts \<noteq> [] \<Longrightarrow> list_all is_D ts \<Longrightarrow> list_all wf_token ts \<Longrightarrow> digit_of (hd ts) \<noteq> 0 \<Longrightarrow>
   0 < accumulate 0 ts \<and> decimal (accumulate 0 ts) = map tok_char ts"
proof (induction ts rule: rev_induct)
  case (snoc t ts)
  then have t: "digit_of t < 10" "tok_char t = digit_char (digit_of t)" by (simp_all add: wf_digit)
  show ?case
  proof (cases "ts = []")
    case True
    with snoc.prems t show ?thesis by (simp add: accumulate_def decimal_small)
  next
    case False
    with snoc have IH: "0 < accumulate 0 ts" "decimal (accumulate 0 ts) = map tok_char ts" by auto
    with t show ?thesis
      by (simp add: accumulate_snoc decimal_large [of "accumulate 0 ts * 10 + int (digit_of t)"])
  qed
qed simp

lemma digit_char_inj: "digit_char a = digit_char b \<Longrightarrow> a < 10 \<Longrightarrow> b < 10 \<Longrightarrow> a = b"
  by (metis add_left_cancel of_char_digit_char)

lemma simple_digit:
  "simple_token t \<Longrightarrow> is_digit (tok_char t) \<Longrightarrow> is_D t \<and> wf_token t"
  using simple_alnum [of t] tok_char_alnum [of t] by (auto simp: ident_char_def)

lemma decimal_tokens:
  "0 \<le> n \<Longrightarrow> map tok_char ts = decimal n \<Longrightarrow> list_all simple_token ts \<Longrightarrow>
   ts \<noteq> [] \<and> list_all is_D ts \<and> list_all wf_token ts \<and> accumulate 0 ts = n \<and>
   (if n = 0 then length ts = 1 else digit_of (hd ts) \<noteq> 0)"
proof (induction "nat n" arbitrary: n ts rule: less_induct)
  case less
  show ?case
  proof (cases "n < 10")
    case True
    with less.prems have "map tok_char ts = [digit_char (nat n)]" by (simp add: decimal_small)
    then obtain t where t: "ts = [t]" "tok_char t = digit_char (nat n)" by auto
    from True less.prems have d: "nat n < 10" by simp
    then have D: "is_D t" "wf_token t"
      using simple_digit [of t] digit_char_facts [of "nat n"] t less.prems(3) by auto
    then have "digit_of t = nat n" using wf_digit [OF D] t(2) d by (metis digit_char_inj)
    with t D less.prems(1) show ?thesis by (auto simp: accumulate_def)
  next
    case False
    let ?m = "n mod 10"
    from False have "map tok_char ts = decimal (n div 10) @ [digit_char (nat ?m)]"
      using less.prems(2) by (simp add: decimal_large)
    then obtain ts0 t where t: "ts = ts0 @ [t]" "map tok_char ts0 = decimal (n div 10)"
        "tok_char t = digit_char (nat ?m)"
      by (cases ts rule: rev_cases) auto
    have d: "nat ?m < 10" by simp
    have D: "is_D t" "wf_token t"
      using simple_digit [of t] digit_char_facts [OF d] t less.prems(3) by auto
    have dig: "digit_of t = nat ?m" using wf_digit [OF D] t(3) d by (metis digit_char_inj)
    have "nat (n div 10) < nat n" "0 \<le> n div 10" using False by auto
    from less.hyps [OF this t(2)] less.prems(3) t(1) False
    have "ts0 \<noteq> [] \<and> list_all is_D ts0 \<and> list_all wf_token ts0 \<and> accumulate 0 ts0 = n div 10 \<and>
        digit_of (hd ts0) \<noteq> 0" by auto
    with t(1) D dig False show ?thesis by (simp add: accumulate_snoc)
  qed
qed

section \<open>A small logic for parsers\<close>

text \<open>
  \<open>reads m p r Q\<close>: run on the rest \<open>r\<close>, the parser fails with an ordinary error, or
  has read some tokens \<open>ts\<close> of it, left a lexed rest, and \<open>Q\<close> holds of the result and
  of \<open>ts\<close>. No outcome is a read out of range or of the wrong variant.
\<close>

definition reads :: "parse_error + ('a \<times> token_stream) \<Rightarrow> token list \<Rightarrow> token list
    \<Rightarrow> ('a \<Rightarrow> token list \<Rightarrow> bool) \<Rightarrow> bool" where
  "reads m p r Q \<longleftrightarrow> (case m of Inl e \<Rightarrow> is_failure e
     | Inr (x, s') \<Rightarrow> \<exists>ts r'. r = ts @ r' \<and> lexed r' \<and> s' = stream_at (p @ ts) r' \<and> Q x ts)"

lemma reads_fail [simp]: "reads (Inl (Failure l c)) p r Q"
  by (simp add: reads_def)

lemma readsI:
  "r = ts @ r' \<Longrightarrow> lexed r' \<Longrightarrow> Q x ts \<Longrightarrow> reads (Inr (x, stream_at (p @ ts) r')) p r Q"
  by (auto simp: reads_def)

lemma reads_return: "lexed r \<Longrightarrow> Q x [] \<Longrightarrow> reads (Inr (x, stream_at p r)) p r Q"
  using readsI [of r "[]" r Q x p] by simp

lemma reads_bind:
  assumes "reads m p r Q"
    and "\<And>x ts r'. r = ts @ r' \<Longrightarrow> lexed r' \<Longrightarrow> Q x ts \<Longrightarrow>
           reads (f (x, stream_at (p @ ts) r')) (p @ ts) r' (\<lambda>y w. R y (ts @ w))"
  shows "reads (rbind m f) p r R"
proof (cases m)
  case (Inl e)
  with assms(1) show ?thesis by (simp add: reads_def)
next
  case (Inr y)
  obtain x s' where y: "y = (x, s')" by (cases y)
  from assms(1) Inr y obtain ts r' where
    1: "r = ts @ r'" "lexed r'" "s' = stream_at (p @ ts) r'" "Q x ts"
    by (auto simp: reads_def)
  from assms(2) [OF 1(1,2,4)] have "reads (f (x, s')) (p @ ts) r' (\<lambda>y w. R y (ts @ w))"
    by (simp add: 1(3))
  then show ?thesis
  proof (cases "f (x, s')")
    case (Inr z)
    obtain v s2 where z: "z = (v, s2)" by (cases z)
    from \<open>reads (f (x, s')) (p @ ts) r' (\<lambda>y w. R y (ts @ w))\<close> Inr z obtain w r2 where
      2: "r' = w @ r2" "lexed r2" "s2 = stream_at ((p @ ts) @ w) r2" "R v (ts @ w)"
      by (auto simp: reads_def)
    have "reads (Inr (v, stream_at (p @ ts @ w) r2)) p r R"
      by (rule readsI) (use 1 2 in simp_all)
    with \<open>m = Inr y\<close> y Inr z 2 show ?thesis by simp
  qed (simp add: reads_def \<open>m = Inr y\<close> y)
qed

lemma reads_mono: "reads m p r Q \<Longrightarrow> (\<And>x ts. Q x ts \<Longrightarrow> R x ts) \<Longrightarrow> reads m p r R"
  by (auto simp: reads_def split: sum.splits)

lemma reads_match:
  assumes "lexed r" "ty \<noteq> Eol"
  shows "reads (ts_advance_if_match ty (stream_at p r)) p r
    (\<lambda>m ts. case m of None \<Rightarrow> ts = [] | Some t \<Rightarrow> ts = [t] \<and> tok_type t = ty \<and> wf_token t)"
  using assms by (cases r) (auto simp: reads_def stream_simps)

lemma reads_expect_dot:
  assumes "lexed r"
  shows "reads (expect_dot (stream_at p r)) p r (\<lambda>_ ts. map tok_char ts = ''.'' \<and> list_all simple_token ts)"
proof -
  obtain t q where r: "r = t # q" using assms by (cases r) auto
  show ?thesis
  proof (cases "tok_type t = Dot")
    case True
    then show ?thesis
      using assms readsI [of r "[t]" q _ "()" p] r
      by (simp add: stream_simps expect_dot_def simple_token_def tok_char_def)
  next
    case False
    with r show ?thesis by (simp add: stream_simps expect_dot_def)
  qed
qed

definition reads_number :: "int \<Rightarrow> token list \<Rightarrow> bool" where
  "reads_number n ts \<longleftrightarrow> list_all simple_token ts \<and>
     (\<exists>m. map tok_char ts = decimal m \<and> 0 \<le> m \<and> n = u64 m \<and> n \<le> int_max)"

lemma takeWhile_digit_wf: "lexed r \<Longrightarrow> list_all wf_token (takeWhile is_D r)"
  by (induction r) (auto simp: is_D_def split: if_splits)

lemma reads_parse_number:
  assumes "lexed r"
  shows "reads (parse_number (stream_at p r)) p r reads_number"
proof -
  obtain t q where r: "r = t # q" using assms by (cases r) auto
  show ?thesis
  proof (cases "is_D t")
    case D: True
    with assms r have t: "lexed q" "wf_token t" by (auto simp: is_D_def)
    have simple: "simple_token x" if "is_D x" "wf_token x" for x
      using that by (simp add: is_D_def simple_token_def)
    show ?thesis
    proof (cases "digit_of t = 0")
      case True
      have "reads_number 0 [t]"
        using D True t(2) wf_digit [OF D t(2)]
        by (auto simp: reads_number_def simple decimal_small u64_def int_max_def intro!: exI [of _ 0])
      with D True r t show ?thesis
        using parse_number_lexed [of t q p] assms readsI [of r "[t]" q reads_number 0 p] by simp
    next
      case False
      let ?ts = "t # takeWhile is_D q"
      let ?n = "u64 (accumulate 0 ?ts)"
      have "list_all is_D ?ts" "list_all wf_token ?ts"
        using D t takeWhile_list_all [of is_D q] takeWhile_digit_wf [of q] by simp_all
      with decimal_accumulate [of ?ts] False
      have dec: "0 < accumulate 0 ?ts" "decimal (accumulate 0 ?ts) = map tok_char ?ts"
        and "list_all simple_token ?ts"
        by (auto simp: list_all_iff simple)
      then have "?n \<le> int_max \<Longrightarrow> reads_number ?n ?ts"
        unfolding reads_number_def by (metis less_imp_le)
      with D False r t show ?thesis
        using parse_number_lexed [of t q p] assms lexed_dropWhile_digit [of q]
          readsI [of r ?ts "dropWhile is_D q" reads_number ?n p]
        by (simp add: Let_def accumulate_Cons)
    qed
  next
    case False
    with assms r show ?thesis by (simp add: parse_number_lexed)
  qed
qed

lemma parse_number_complete:
  assumes "lexed (ts @ r)" "list_all simple_token ts" "map tok_char ts = decimal m"
    "0 \<le> m" "m \<le> int_max" "r \<noteq> []" "\<not> is_D (hd r)"
  shows "parse_number (stream_at p (ts @ r)) = Inr (m, stream_at (p @ ts) r)"
proof -
  from decimal_tokens [OF assms(4,3,2)] have d: "ts \<noteq> []" "list_all is_D ts" "accumulate 0 ts = m"
    "if m = 0 then length ts = 1 else digit_of (hd ts) \<noteq> 0" by auto
  from d(1) obtain t ts0 where ts: "ts = t # ts0" by (cases ts) auto
  from assms(6,7) obtain x r0 where r: "r = x # r0" "\<not> is_D x" by (cases r) auto
  have tw: "takeWhile is_D (ts0 @ r) = ts0" "dropWhile is_D (ts0 @ r) = r"
    using d(2) ts r by (auto simp: takeWhile_append dropWhile_append list_all_iff)
  have u: "u64 m = m" using assms(4,5) by (simp add: u64_def int_max_def)
  show ?thesis
  proof (cases "m = 0")
    case True
    with d ts have "ts0 = []" "digit_of t = 0" by (auto simp: accumulate_def)
    with True d ts assms(1) show ?thesis using parse_number_lexed [of t "ts0 @ r" p] by simp
  next
    case False
    with d ts assms(1,5) tw u show ?thesis
      using parse_number_lexed [of t "ts0 @ r" p] by (simp add: Let_def accumulate_Cons)
  qed
qed


section \<open>What the lexer promises\<close>

lemma ts_push_stream_at: "ts_push (stream_at [] acc) t = stream_at [] (acc @ [t])"
  by (simp add: ts_push_def stream_at_def)

lemma to_digit_bound: "is_digit c \<Longrightarrow> to_digit c < 10 \<and> digit_char (to_digit c) = c"
proof -
  assume c: "is_digit c"
  then have "48 \<le> int (of_char c)" "int (of_char c) \<le> 57" by (auto simp: is_digit_def)
  moreover from this have "(int (of_char c) - 48) mod 256 = int (of_char c) - 48" by simp
  ultimately have "to_digit c = of_char c - 48" "48 \<le> (of_char c :: nat)" "of_char c \<le> (57::nat)"
    by (auto simp: to_digit_def nat_diff_distrib)
  then show ?thesis by (simp add: digit_char_def)
qed

lemma lex_match_facts:
  "lex_match c cs pos = (b, cs', pos') \<Longrightarrow> pos' + length cs' = pos + length cs"
  by (cases cs) (auto split: if_splits)

lemma scan_token_facts:
  assumes "scan_token c cs pos = Inr (t, cs', pos')"
  shows "wf_token t" "tok_type t \<noteq> Eol" "pos' + length cs' = pos + length cs"
    "simple_token t \<Longrightarrow> cs' = cs \<and> pos' = pos \<and> tok_char t = c"
  using assms
  by (auto simp: scan_token_def add_token_def wf_token.simps simple_token_def tok_char_def to_digit_bound
      digit_of_def dest: lex_match_facts split: if_splits prod.splits bool.splits)

lemma scan_token_error: "scan_token c cs pos = Inl e \<Longrightarrow> is_failure e"
  by (auto simp: scan_token_def split: if_splits prod.splits bool.splits)

lemma scan_tokens_sound:
  "case scan_tokens s pos (stream_at [] acc) of
     Inl e \<Rightarrow> is_failure e
   | Inr st \<Rightarrow> \<exists>r e. st = stream_at [] (acc @ r @ [e]) \<and> tok_type e = Eol \<and> lexed (r @ [e]) \<and>
       tok_lexeme e = pos + length s \<and>
       (list_all simple_token r \<longrightarrow> map tok_char r = s)"
proof (induction s pos "stream_at [] acc" arbitrary: acc rule: scan_tokens.induct)
  case (1 pos)
  show ?case
    by (simp add: ts_push_stream_at, rule exI [of _ "[]"],
        rule exI [of _ "\<lparr>tok_type = Eol, tok_value = Monostate, tok_lexeme = pos\<rparr>"], simp)
next
  case (2 c cs pos)
  show ?case
  proof (cases "scan_token c cs (Suc pos)")
    case (Inl e)
    then show ?thesis by (simp add: scan_token_error)
  next
    case (Inr y)
    obtain t cs' pos' where y: "y = (t, cs', pos')" by (cases y)
    note t = scan_token_facts [OF Inr [unfolded y]]
    have IH: "case scan_tokens cs' pos' (stream_at [] (acc @ [t])) of
        Inl e \<Rightarrow> is_failure e
      | Inr st \<Rightarrow> \<exists>r e. st = stream_at [] ((acc @ [t]) @ r @ [e]) \<and> tok_type e = Eol \<and> lexed (r @ [e]) \<and>
          tok_lexeme e = pos' + length cs' \<and> (list_all simple_token r \<longrightarrow> map tok_char r = cs')"
      using 2 [OF Inr y [symmetric] refl] by (simp add: ts_push_stream_at)
    have eq: "scan_tokens (c # cs) pos (stream_at [] acc) = scan_tokens cs' pos' (stream_at [] (acc @ [t]))"
      by (simp add: Inr y ts_push_stream_at)
    show ?thesis
    proof (cases "scan_tokens cs' pos' (stream_at [] (acc @ [t]))")
      case (Inl e)
      with IH show ?thesis by (simp only: eq sum.case)
    next
      case Inr2: (Inr st)
      with IH obtain r e where r: "st = stream_at [] ((acc @ [t]) @ r @ [e])" "tok_type e = Eol"
        "lexed (r @ [e])" "tok_lexeme e = pos' + length cs'"
        "list_all simple_token r \<longrightarrow> map tok_char r = cs'" by auto
      have "st = stream_at [] (acc @ (t # r) @ [e]) \<and> lexed ((t # r) @ [e]) \<and>
          tok_lexeme e = pos + length (c # cs) \<and>
          (list_all simple_token (t # r) \<longrightarrow> map tok_char (t # r) = c # cs)"
        using r t by auto
      with r(2) show ?thesis unfolding eq Inr2 sum.case
        by (intro exI [of _ "t # r"] exI [of _ e]) simp
    qed
  qed
qed

lemma lex_sound:
  "case lex s of
     Inl e \<Rightarrow> is_failure e
   | Inr st \<Rightarrow> \<exists>r e. st = stream_at [] (r @ [e]) \<and> tok_type e = Eol \<and> lexed (r @ [e]) \<and>
       tok_lexeme e = length s \<and> (list_all simple_token r \<longrightarrow> map tok_char r = s)"
  using scan_tokens_sound [where s = s and pos = 0 and acc = "[]"]
  by (simp only: lex_def stream_at_def list.size append_Nil add_0)

definition version_char :: "char \<Rightarrow> bool" where
  "version_char c \<longleftrightarrow> ident_char c \<or> c = CHR ''.'' \<or> c = CHR ''+''"

lemma digit_not_special:
  "is_digit c \<or> is_letter c \<Longrightarrow> c \<noteq> CHR '' '' \<and> c \<noteq> CHR ''.'' \<and> c \<noteq> CHR ''-'' \<and> c \<noteq> CHR ''+''
     \<and> c \<noteq> CHR ''|'' \<and> c \<noteq> CHR ''<'' \<and> c \<noteq> CHR ''>'' \<and> c \<noteq> CHR ''=''"
  by (auto simp: is_digit_def is_letter_def)

lemma scan_token_version_char:
  "version_char c \<Longrightarrow> \<exists>t. scan_token c cs pos = Inr (t, cs, pos) \<and> simple_token t \<and> tok_char t = c"
  using digit_not_special [of c] letter_not_digit [of c]
  by (auto simp: version_char_def ident_char_def scan_token_def add_token_def simple_token_def
      wf_token.simps tok_char_def to_digit_bound digit_of_def)

lemma scan_tokens_version_text:
  "list_all version_char s \<Longrightarrow> \<exists>r e. scan_tokens s pos (stream_at [] acc) = Inr (stream_at [] (acc @ r @ [e])) \<and>
     tok_type e = Eol \<and> tok_lexeme e = pos + length s \<and> list_all simple_token r \<and> map tok_char r = s"
proof (induction s arbitrary: pos acc)
  case Nil
  show ?case by (auto simp: ts_push_stream_at)
next
  case (Cons c cs)
  from Cons.prems obtain t where t: "scan_token c cs (Suc pos) = Inr (t, cs, Suc pos)" "simple_token t"
      "tok_char t = c"
    using scan_token_version_char [of c cs "Suc pos"] by auto
  from Cons.prems Cons.IH [of "Suc pos" "acc @ [t]"] obtain r e where
    r: "scan_tokens cs (Suc pos) (stream_at [] (acc @ [t])) = Inr (stream_at [] ((acc @ [t]) @ r @ [e]))"
      "tok_type e = Eol" "tok_lexeme e = Suc pos + length cs" "list_all simple_token r" "map tok_char r = cs"
    by auto
  with t have "scan_tokens (c # cs) pos (stream_at [] acc) = Inr (stream_at [] (acc @ (t # r) @ [e])) \<and>
      tok_lexeme e = pos + length (c # cs) \<and> list_all simple_token (t # r) \<and> map tok_char (t # r) = c # cs"
    by (simp add: ts_push_stream_at)
  with r(2) show ?case by (intro exI [of _ "t # r"] exI [of _ e]) simp
qed

lemma lexed_simple_append: "list_all simple_token ts \<Longrightarrow> lexed r \<Longrightarrow> lexed (ts @ r)"
  by (induction ts) (auto simp: simple_token_def)

text \<open>The tokens that can follow a version: none of them continues it.\<close>

definition ends_version :: "token list \<Rightarrow> bool" where
  "ends_version r \<longleftrightarrow> lexed r \<and> tok_type (hd r) \<notin> {Plus, Hyphen, Letter, Digit, Dot}"

section \<open>Well-formed versions and their text\<close>

fun split_dots :: "string \<Rightarrow> string list" where
  "split_dots [] = [[]]"
| "split_dots (c # cs) = (case split_dots cs of
     [] \<Rightarrow> [[c]]
   | x # xs \<Rightarrow> if c = CHR ''.'' then [] # x # xs else (c # x) # xs)"

lemma split_dots_nonempty [simp]: "split_dots s \<noteq> []"
  by (induction s) (auto split: list.splits)

lemma join_split_dots [simp]: "join_strings ''.'' (split_dots s) = s"
  by (induction s) (auto simp: join_strings_Cons split: list.splits, (case_tac x22; simp)+)

lemma split_dots_dotfree: "list_all ident_char x \<Longrightarrow> split_dots x = [x]"
  by (induction x) auto

lemma split_dots_append: "list_all ident_char x \<Longrightarrow> split_dots (x @ CHR ''.'' # s) = x # split_dots s"
  by (induction x) (auto split: list.splits)

lemma split_dots_join:
  "parts \<noteq> [] \<Longrightarrow> list_all (list_all ident_char) parts \<Longrightarrow> split_dots (join_strings ''.'' parts) = parts"
  by (induction parts rule: list_nonempty_induct)
    (auto simp: split_dots_dotfree split_dots_append join_strings_Cons)

lemma valid_parts_ident: "list_all (valid_id pre) parts \<Longrightarrow> list_all (list_all ident_char) parts"
  by (auto simp: list_all_iff valid_id_def)

text \<open>
  The versions the parser produces: fields that fit an \<open>int\<close>, a tag whose dotted parts
  are valid prerelease identifiers and are stored classified, and dotted build metadata.
\<close>

definition wf_version :: "version \<Rightarrow> bool" where
  "wf_version v \<longleftrightarrow> 0 \<le> v_major v \<and> v_major v \<le> int_max \<and> 0 \<le> v_minor v \<and> v_minor v \<le> int_max \<and>
     0 \<le> v_patch v \<and> v_patch v \<le> int_max \<and>
     (if v_prerelease_tag v = [] then v_prerelease_identifiers v = []
      else list_all (valid_id True) (split_dots (v_prerelease_tag v)) \<and>
        v_prerelease_identifiers v = map make_prerelease_identifier (split_dots (v_prerelease_tag v))) \<and>
     (v_build_metadata v = [] \<or> list_all (valid_id False) (split_dots (v_build_metadata v)))"

definition version_text :: "int \<Rightarrow> int \<Rightarrow> int \<Rightarrow> string \<Rightarrow> string \<Rightarrow> string" where
  "version_text a b c tag build = decimal a @ ''.'' @ decimal b @ ''.'' @ decimal c @
     (if tag = [] then [] else ''-'' @ tag) @ (if build = [] then [] else ''+'' @ build)"

lemma version_to_string_text:
  "0 \<le> v_major v \<Longrightarrow> 0 \<le> v_minor v \<Longrightarrow> 0 \<le> v_patch v \<Longrightarrow>
   version_to_string v =
     version_text (v_major v) (v_minor v) (v_patch v) (v_prerelease_tag v) (v_build_metadata v)"
  by (simp add: version_to_string_def version_text_def to_chars_decimal Let_def)


section \<open>Whole versions\<close>

definition reads_version :: "version \<Rightarrow> version \<Rightarrow> token list \<Rightarrow> bool" where
  "reads_version out v ts \<longleftrightarrow> list_all simple_token ts \<and> wf_version v \<and>
     (\<exists>a b c. 0 \<le> a \<and> 0 \<le> b \<and> 0 \<le> c \<and> v_major v = u64 a \<and> v_minor v = u64 b \<and> v_patch v = u64 c \<and>
       map tok_char ts = version_text a b c (v_prerelease_tag v) (v_build_metadata v))"

lemma join_nonempty: "parts \<noteq> [] \<Longrightarrow> list_all (valid_id pre) parts \<Longrightarrow> join_strings ''.'' parts \<noteq> []"
  by (induction parts rule: list_nonempty_induct) (auto simp: valid_id_def join_strings_Cons)

lemma reads_prerelease_tag:
  assumes "lexed r"
  shows "reads (parse_prerelease_tag (stream_at p r)) p r (\<lambda>(tag, ids) ts. list_all simple_token ts \<and>
    map tok_char ts = tag \<and> tag \<noteq> [] \<and> list_all (valid_id True) (split_dots tag) \<and>
    ids = map make_prerelease_identifier (split_dots tag))"
  using prerelease_loop_sound [OF assms, where res = "[]" and ids = "[]" and p = p] unfolding parse_prerelease_tag_def reads_def
  by (auto simp: loop_post_def append_part_def split_dots_join valid_parts_ident join_nonempty
      split: sum.splits prod.splits) blast+

lemma reads_build_metadata:
  assumes "lexed r"
  shows "reads (parse_build_metadata (stream_at p r)) p r (\<lambda>build ts. list_all simple_token ts \<and>
    map tok_char ts = build \<and> build \<noteq> [] \<and> list_all (valid_id False) (split_dots build))"
  using build_loop_sound [OF assms, where res = "[]" and p = p] unfolding parse_build_metadata_def reads_def
  by (auto simp: loop_post_def append_part_def split_dots_join valid_parts_ident join_nonempty
      split: sum.splits prod.splits) blast+

definition opt_text :: "char \<Rightarrow> string \<Rightarrow> string" where
  "opt_text c x = (if x = [] then [] else c # x)"

text \<open>The two optional parts, after the three numbers.\<close>

definition parse_optional_tag :: "version \<Rightarrow> token_stream \<Rightarrow> parse_error + (version \<times> token_stream)" where
  "parse_optional_tag v s = rbind (ts_advance_if_match Hyphen s) (\<lambda>(h, s).
     if h \<noteq> None
     then rbind (parse_prerelease_tag s) (\<lambda>((tag, ids), s).
            Inr (v\<lparr>v_prerelease_tag := tag, v_prerelease_identifiers := ids\<rparr>, s))
     else Inr (v, s))"

definition parse_optional_build :: "version \<Rightarrow> token_stream \<Rightarrow> parse_error + (version \<times> token_stream)" where
  "parse_optional_build v s = rbind (ts_advance_if_match Plus s) (\<lambda>(h, s).
     if h \<noteq> None
     then rbind (parse_build_metadata s) (\<lambda>(build, s). Inr (v\<lparr>v_build_metadata := build\<rparr>, s))
     else Inr (v, s))"

lemma rbind_assoc: "rbind (rbind m f) g = rbind m (\<lambda>x. rbind (f x) g)"
  by (cases m) auto

lemma version_parse_alt:
  "version_parse out s =
     rbind (parse_number s) (\<lambda>(ma, s). rbind (expect_dot s) (\<lambda>(_, s).
     rbind (parse_number s) (\<lambda>(mi, s). rbind (expect_dot s) (\<lambda>(_, s).
     rbind (parse_number s) (\<lambda>(pa, s).
     rbind (parse_optional_tag ((version_clear out)\<lparr>v_major := ma, v_minor := mi, v_patch := pa\<rparr>) s)
       (\<lambda>(v, s). parse_optional_build v s))))))"
  by (simp add: version_parse_def parse_optional_tag_def parse_optional_build_def Let_def rbind_assoc
      case_prod_unfold)

lemma reads_optional_tag:
  assumes "lexed r" "v_prerelease_tag v = []" "v_prerelease_identifiers v = []"
  shows "reads (parse_optional_tag v (stream_at p r)) p r (\<lambda>v' ts. list_all simple_token ts \<and>
    (\<exists>tag ids. v' = v\<lparr>v_prerelease_tag := tag, v_prerelease_identifiers := ids\<rparr> \<and>
      map tok_char ts = opt_text (CHR ''-'') tag \<and>
      (if tag = [] then ids = [] else list_all (valid_id True) (split_dots tag) \<and>
         ids = map make_prerelease_identifier (split_dots tag))))"
  unfolding parse_optional_tag_def
proof (rule reads_bind [OF reads_match [OF assms(1), of Hyphen]], goal_cases)
  case (2 m ts r')
  show ?case
  proof (cases m)
    case None
    with 2 assms(2,3) show ?thesis
      by (auto simp: opt_text_def intro!: reads_return exI [of _ "[]"])
  next
    case (Some t)
    with 2 have t: "ts = [t]" "simple_token t" "tok_char t = CHR ''-''"
      by (auto simp: simple_token_def tok_char_def)
    show ?thesis
      unfolding Some prod.case
      by (simp, rule reads_bind [OF reads_prerelease_tag [OF 2(2)]])
        (use t in \<open>auto simp: opt_text_def intro!: reads_return\<close>)
  qed
qed simp

lemma reads_optional_build:
  assumes "lexed r" "v_build_metadata v = []"
  shows "reads (parse_optional_build v (stream_at p r)) p r (\<lambda>v' ts. list_all simple_token ts \<and>
    (\<exists>build. v' = v\<lparr>v_build_metadata := build\<rparr> \<and> map tok_char ts = opt_text (CHR ''+'') build \<and>
      (build = [] \<or> list_all (valid_id False) (split_dots build))))"
  unfolding parse_optional_build_def
proof (rule reads_bind [OF reads_match [OF assms(1), of Plus]], goal_cases)
  case (2 m ts r')
  show ?case
  proof (cases m)
    case None
    with 2 assms(2) show ?thesis
      by (auto simp: opt_text_def intro!: reads_return exI [of _ "[]"])
  next
    case (Some t)
    with 2 have t: "ts = [t]" "simple_token t" "tok_char t = CHR ''+''"
      by (auto simp: simple_token_def tok_char_def)
    show ?thesis
      unfolding Some prod.case
      by (simp, rule reads_bind [OF reads_build_metadata [OF 2(2)]])
        (use t in \<open>auto simp: opt_text_def intro!: reads_return\<close>)
  qed
qed simp


lemma simple_dots [simp]: "u64 n \<le> int_max \<Longrightarrow> 0 \<le> u64 n"
  by (simp add: u64_def)

lemma u64_nonneg [simp]: "0 \<le> u64 n"
  by (simp add: u64_def)

lemma reads_version_parse:
  assumes "lexed r"
  shows "reads (version_parse out (stream_at p r)) p r (reads_version out)"
  unfolding version_parse_alt
proof (rule reads_bind [OF reads_parse_number [OF assms]], unfold prod.case, goal_cases)
  case (1 ma ts1 r1)
  show ?case
  proof (rule reads_bind [OF reads_expect_dot [OF 1(2)]], unfold prod.case, goal_cases)
    case (1 _ ts2 r2)
    show ?case
    proof (rule reads_bind [OF reads_parse_number [OF 1(2)]], unfold prod.case, goal_cases)
      case (1 mi ts3 r3)
      show ?case
      proof (rule reads_bind [OF reads_expect_dot [OF 1(2)]], unfold prod.case, goal_cases)
        case (1 _ ts4 r4)
        show ?case
        proof (rule reads_bind [OF reads_parse_number [OF 1(2)]], unfold prod.case, goal_cases)
          case (1 pa ts5 r5)
          let ?v = "(version_clear out)\<lparr>v_major := ma, v_minor := mi, v_patch := pa\<rparr>"
          show ?case
          proof (rule reads_bind [OF reads_optional_tag [OF 1(2), of ?v]], simp_all only: prod.case, goal_cases)
            case 1 show ?case by (simp add: version_clear_def)
          next
            case 2 show ?case by (simp add: version_clear_def)
          next
            case (3 v1 ts6 r6)
            then obtain tag ids where tag: "v1 = ?v\<lparr>v_prerelease_tag := tag, v_prerelease_identifiers := ids\<rparr>"
              "map tok_char ts6 = opt_text (CHR ''-'') tag" "list_all simple_token ts6"
              "if tag = [] then ids = [] else list_all (valid_id True) (split_dots tag) \<and>
                 ids = map make_prerelease_identifier (split_dots tag)"
              by auto
            have "v_build_metadata v1 = []" by (simp add: tag(1) version_clear_def)
            from reads_optional_build [OF 3(2) this] show ?case
            proof (rule reads_mono, goal_cases)
              case (1 v2 ts7)
              then obtain build where b: "v2 = v1\<lparr>v_build_metadata := build\<rparr>"
                "map tok_char ts7 = opt_text (CHR ''+'') build" "list_all simple_token ts7"
                "build = [] \<or> list_all (valid_id False) (split_dots build)"
                by auto
              from \<open>reads_number ma ts1\<close> \<open>reads_number mi ts3\<close> \<open>reads_number pa ts5\<close>
              obtain a b c where n: "map tok_char ts1 = decimal a" "0 \<le> a" "ma = u64 a" "ma \<le> int_max"
                "map tok_char ts3 = decimal b" "0 \<le> b" "mi = u64 b" "mi \<le> int_max"
                "map tok_char ts5 = decimal c" "0 \<le> c" "pa = u64 c" "pa \<le> int_max"
                by (auto simp: reads_number_def)
              have dots: "map tok_char ts2 = ''.''" "map tok_char ts4 = ''.''"
                using \<open>map tok_char ts2 = ''.'' \<and> list_all simple_token ts2\<close>
                  \<open>map tok_char ts4 = ''.'' \<and> list_all simple_token ts4\<close> by simp_all
              have simple: "list_all simple_token (ts1 @ ts2 @ ts3 @ ts4 @ ts5 @ ts6 @ ts7)"
                using b(3) tag(3) \<open>reads_number ma ts1\<close> \<open>reads_number mi ts3\<close> \<open>reads_number pa ts5\<close>
                  \<open>map tok_char ts2 = ''.'' \<and> list_all simple_token ts2\<close>
                  \<open>map tok_char ts4 = ''.'' \<and> list_all simple_token ts4\<close>
                by (simp add: reads_number_def)
              have spelt: "map tok_char (ts1 @ ts2 @ ts3 @ ts4 @ ts5 @ ts6 @ ts7) = version_text a b c tag build"
                by (simp add: version_text_def opt_text_def n(1,5,9) b(2) tag(2) dots)
              have wf: "wf_version v2"
                using n b(1,4) tag(1,4) by (simp add: wf_version_def split: if_splits)
              show ?case
                unfolding reads_version_def
                by (intro conjI exI [of _ a] exI [of _ b] exI [of _ c])
                  (use simple spelt wf n b(1) tag(1) in simp_all)
            qed
          qed
        qed
      qed
    qed
  qed
qed


definition version_error :: "parse_error + 'a \<Rightarrow> bool" where
  "version_error m \<longleftrightarrow> (case m of Inl e \<Rightarrow> is_failure e | Inr _ \<Rightarrow> True)"

lemma parse_version_spec:
  "case parse_version s out of
     Inl e \<Rightarrow> is_failure e
   | Inr (v, ptr) \<Rightarrow> ptr = length s \<and> wf_version v \<and>
      (\<exists>a b c. 0 \<le> a \<and> 0 \<le> b \<and> 0 \<le> c \<and> v_major v = u64 a \<and> v_minor v = u64 b \<and> v_patch v = u64 c \<and>
        s = version_text a b c (v_prerelease_tag v) (v_build_metadata v))"
proof (cases "lex s")
  case (Inl e)
  with lex_sound [of s] show ?thesis by (simp add: parse_version_def)
next
  case (Inr st)
  with lex_sound [of s] obtain r e where r: "st = stream_at [] (r @ [e])" "tok_type e = Eol" "lexed (r @ [e])"
    "tok_lexeme e = length s" "list_all simple_token r \<longrightarrow> map tok_char r = s" by auto
  show ?thesis
  proof (cases "version_parse out st")
    case (Inl e)
    with \<open>lex s = Inr st\<close> reads_version_parse [OF r(3), of out "[]"] r(1) show ?thesis
      by (simp add: parse_version_def reads_def)
  next
    case Inr2: (Inr y)
    obtain v s' where y: "y = (v, s')" by (cases y)
    with reads_version_parse [OF r(3), of out "[]"] r(1) Inr2 obtain ts r' where
      ts: "r @ [e] = ts @ r'" "lexed r'" "s' = stream_at ts r'" "reads_version out v ts"
      by (auto simp: reads_def)
    then obtain t q where r': "r' = t # q" by (cases r') auto
    show ?thesis
    proof (cases "tok_type t = Eol")
      case True
      with ts(2) r' have "q = []" by simp
      with ts(1) r' have "r = ts" "t = e" by simp_all
      moreover from this ts(4) r(5) have "map tok_char ts = s" by (simp add: reads_version_def)
      ultimately show ?thesis
        using Inr Inr2 y ts(3,4) r' True r(4) \<open>q = []\<close>
        by (simp add: parse_version_def stream_simps reads_version_def)
    next
      case False
      with Inr Inr2 y ts(3) r' show ?thesis by (simp add: parse_version_def stream_simps)
    qed
  qed
qed


section \<open>Printed versions parse back\<close>

lemma simple_char_type:
  assumes "simple_token t"
  shows "tok_char t = CHR ''-'' \<Longrightarrow> tok_type t = Hyphen" "tok_char t = CHR ''+'' \<Longrightarrow> tok_type t = Plus"
  using assms get_char_wf [of t] tok_char_digit [of t]
  by (auto simp: simple_token_def tok_char_def [of t])

lemma parse_optional_tag_complete:
  assumes "map tok_char ts = opt_text (CHR ''-'') tag" "list_all simple_token ts" "lexed (ts @ r)"
    "r \<noteq> []" "tok_type (hd r) \<notin> {Hyphen, Letter, Digit, Dot}" "tag = [] \<or> list_all (valid_id True) (split_dots tag)"
  shows "parse_optional_tag v (stream_at p (ts @ r)) =
    Inr (if tag = [] then v else v\<lparr>v_prerelease_tag := tag,
      v_prerelease_identifiers := map make_prerelease_identifier (split_dots tag)\<rparr>, stream_at (p @ ts) r)"
proof (cases "tag = []")
  case True
  with assms show ?thesis
    by (cases r) (auto simp: parse_optional_tag_def opt_text_def stream_simps)
next
  case False
  with assms(1) obtain h ts' where h: "ts = h # ts'" "tok_char h = CHR ''-''" "map tok_char ts' = tag"
    by (auto simp: opt_text_def)
  with assms(2) have ty: "tok_type h = Hyphen" "list_all simple_token ts'" by (auto intro: simple_char_type)
  with assms(3) h(1) have h': "tok_type h = Hyphen" "lexed (ts' @ r)" "list_all simple_token ts'" by simp_all
  have "ends_identifiers r" using assms(4,5) by (auto simp: ends_identifiers_def is_alphanumeric_token_def)
  with prerelease_loop_complete [of "split_dots tag" ts' r "[]" "[]" "p @ [h]"] h h' False assms(6)
  show ?thesis
    by (simp add: parse_optional_tag_def stream_simps parse_prerelease_tag_def append_part_def)
qed

lemma parse_optional_build_complete:
  assumes "map tok_char ts = opt_text (CHR ''+'') build" "list_all simple_token ts" "lexed (ts @ r)"
    "r \<noteq> []" "tok_type (hd r) \<notin> {Plus, Hyphen, Letter, Digit, Dot}" "build = [] \<or> list_all (valid_id False) (split_dots build)"
  shows "parse_optional_build v (stream_at p (ts @ r)) =
    Inr (if build = [] then v else v\<lparr>v_build_metadata := build\<rparr>, stream_at (p @ ts) r)"
proof (cases "build = []")
  case True
  with assms show ?thesis
    by (cases r) (auto simp: parse_optional_build_def opt_text_def stream_simps)
next
  case False
  with assms(1) obtain h ts' where h: "ts = h # ts'" "tok_char h = CHR ''+''" "map tok_char ts' = build"
    by (auto simp: opt_text_def)
  with assms(2) have ty: "tok_type h = Plus" "list_all simple_token ts'" by (auto intro: simple_char_type)
  with assms(3) h(1) have h': "tok_type h = Plus" "lexed (ts' @ r)" "list_all simple_token ts'" by simp_all
  have "ends_identifiers r" using assms(4,5) by (auto simp: ends_identifiers_def is_alphanumeric_token_def)
  with build_loop_complete [of "split_dots build" ts' r "[]" "p @ [h]"] h h' False assms(6)
  show ?thesis
    by (simp add: parse_optional_build_def stream_simps parse_build_metadata_def append_part_def)
qed

lemma expect_dot_stream_at [stream_simps]:
  "tok_type t = Dot \<Longrightarrow> expect_dot (stream_at p (t # r)) = Inr ((), stream_at (p @ [t]) r)"
  by (simp add: expect_dot_def stream_simps)

definition make_version :: "int \<Rightarrow> int \<Rightarrow> int \<Rightarrow> string \<Rightarrow> string \<Rightarrow> version" where
  "make_version a b c tag build = \<lparr>v_major = a, v_minor = b, v_patch = c, v_prerelease_tag = tag,
     v_build_metadata = build, v_prerelease_identifiers =
       (if tag = [] then [] else map make_prerelease_identifier (split_dots tag))\<rparr>"

lemma wf_version_make:
  "wf_version v \<Longrightarrow> v = make_version (v_major v) (v_minor v) (v_patch v) (v_prerelease_tag v) (v_build_metadata v)"
  by (cases v) (auto simp: wf_version_def make_version_def)

lemma not_digit_type: "tok_type t \<noteq> Digit \<Longrightarrow> \<not> is_D t"
  by (simp add: is_D_def)

lemma map_eq_split:
  "map f ts = x @ c # y \<Longrightarrow> \<exists>t1 d t2. ts = t1 @ d # t2 \<and> map f t1 = x \<and> f d = c \<and> map f t2 = y"
  by (auto simp: map_eq_append_conv map_eq_Cons_conv)

lemma map_eq_append: "map f ts = x @ y \<Longrightarrow> \<exists>a b. ts = a @ b \<and> map f a = x \<and> map f b = y"
  by (auto simp: map_eq_append_conv)

lemma version_parse_complete:
  assumes "map tok_char ts = version_text a b c tag build" "list_all simple_token ts" "ends_version r"
    "wf_version (make_version a b c tag build)"
  shows "version_parse out (stream_at p (ts @ r)) = Inr (make_version a b c tag build, stream_at (p @ ts) r)"
proof -
  from assms(4) have wf: "0 \<le> a" "a \<le> int_max" "0 \<le> b" "b \<le> int_max" "0 \<le> c" "c \<le> int_max"
    "tag = [] \<or> list_all (valid_id True) (split_dots tag)"
    "build = [] \<or> list_all (valid_id False) (split_dots build)"
    by (auto simp: wf_version_def make_version_def split: if_splits)
  from assms(1) have "map tok_char ts = decimal a @ CHR ''.'' # decimal b @ CHR ''.'' # decimal c @
      opt_text (CHR ''-'') tag @ opt_text (CHR ''+'') build"
    by (simp add: version_text_def opt_text_def)
  from map_eq_split [OF this] obtain t1 d1 x1 where 1: "ts = t1 @ d1 # x1" "map tok_char t1 = decimal a"
    "tok_char d1 = CHR ''.''" "map tok_char x1 = decimal b @ CHR ''.'' # decimal c @
      opt_text (CHR ''-'') tag @ opt_text (CHR ''+'') build"
    by (elim exE conjE)
  from map_eq_split [OF 1(4)] obtain t2 d2 x2 where 2: "x1 = t2 @ d2 # x2" "map tok_char t2 = decimal b"
    "tok_char d2 = CHR ''.''" "map tok_char x2 = decimal c @ opt_text (CHR ''-'') tag @ opt_text (CHR ''+'') build"
    by (elim exE conjE)
  from map_eq_append [OF 2(4)] obtain t3 x3 where 3: "x2 = t3 @ x3" "map tok_char t3 = decimal c"
    "map tok_char x3 = opt_text (CHR ''-'') tag @ opt_text (CHR ''+'') build"
    by (elim exE conjE)
  from map_eq_append [OF 3(3)] obtain t4 t5 where 4: "x3 = t4 @ t5" "map tok_char t4 = opt_text (CHR ''-'') tag"
    "map tok_char t5 = opt_text (CHR ''+'') build"
    by (elim exE conjE)
  have eq: "ts = t1 @ d1 # t2 @ d2 # t3 @ t4 @ t5" by (simp add: 1(1) 2(1) 3(1) 4(1))
  note ts = eq 1(2,3) 2(2,3) 3(2) 4(2,3)
  from assms(2) ts(1) have simple: "list_all simple_token t1" "simple_token d1" "list_all simple_token t2"
    "simple_token d2" "list_all simple_token t3" "list_all simple_token t4" "list_all simple_token t5"
    by auto
  then have dots: "tok_type d1 = Dot" "tok_type d2 = Dot" using ts by (auto intro: simple_dot)
  from assms(3) have r: "lexed r" "r \<noteq> []" "tok_type (hd r) \<notin> {Plus, Hyphen, Letter, Digit, Dot}"
    by (auto simp: ends_version_def)
  note sfx = lexed_simple_append [OF _ r(1)]
  have lx: "lexed (t1 @ d1 # t2 @ d2 # t3 @ t4 @ t5 @ r)" "lexed (t2 @ d2 # t3 @ t4 @ t5 @ r)"
    "lexed (t3 @ t4 @ t5 @ r)" "lexed (t4 @ t5 @ r)" "lexed (t5 @ r)"
    using sfx [of "t1 @ d1 # t2 @ d2 # t3 @ t4 @ t5"] sfx [of "t2 @ d2 # t3 @ t4 @ t5"]
      sfx [of "t3 @ t4 @ t5"] sfx [of "t4 @ t5"] sfx [of t5] simple by simp_all
  have h5: "tok_type (hd (t5 @ r)) \<notin> {Hyphen, Letter, Digit, Dot}"
    using ts(8) simple(7) r simple_char_type by (cases t5) (auto simp: opt_text_def split: if_splits)
  have h4: "\<not> is_D (hd (t4 @ t5 @ r))"
    using ts(7) simple(6) h5 simple_char_type
    by (cases t4) (auto simp: opt_text_def is_D_def split: if_splits)
  note n1 = parse_number_complete [OF lx(1) simple(1) ts(2) wf(1,2)]
  note n2 = parse_number_complete [OF lx(2) simple(3) ts(4) wf(3,4)]
  note n3 = parse_number_complete [OF lx(3) simple(5) ts(6) wf(5,6)]
  note t4 = parse_optional_tag_complete [OF ts(7) simple(6) lx(4) _ h5 wf(7)]
  note t5 = parse_optional_build_complete [OF ts(8) simple(7) lx(5) _ _ wf(8)]
  have "version_parse out (stream_at p (t1 @ d1 # t2 @ d2 # t3 @ t4 @ t5 @ r)) =
      Inr (make_version a b c tag build, stream_at (p @ t1 @ d1 # t2 @ d2 # t3 @ t4 @ t5) r)"
    unfolding version_parse_alt
    by (use r in \<open>simp add: n1 n2 n3 t4 t5 h4 stream_simps dots not_digit_type\<close>)
      (simp add: make_version_def version_clear_def)
  then show ?thesis by (simp add: ts(1))
qed


lemma valid_chars: "valid_id pre x \<Longrightarrow> list_all version_char x"
  by (auto simp: valid_id_def list_all_iff version_char_def)

lemma split_valid_chars: "list_all (valid_id pre) (split_dots x) \<Longrightarrow> list_all version_char x"
proof -
  assume v: "list_all (valid_id pre) (split_dots x)"
  have "list_all (list_all version_char) parts \<Longrightarrow> list_all version_char (join_strings ''.'' parts)" for parts
    by (induction "''.''" parts rule: join_strings.induct) (auto simp: version_char_def)
  moreover have "list_all (list_all version_char) (split_dots x)"
    using v by (rule list.pred_mono_strong) (rule valid_chars)
  ultimately show ?thesis by (metis join_split_dots)
qed

lemma decimal_chars: "0 \<le> n \<Longrightarrow> list_all version_char (decimal n)"
proof (induction "nat n" arbitrary: n rule: less_induct)
  case less
  show ?case
  proof (cases "n < 10")
    case True
    with less.prems digit_char_facts [of "nat n"] show ?thesis
      by (simp add: decimal_small version_char_def ident_char_def)
  next
    case False
    with less.hyps [of "n div 10"] digit_char_facts [of "nat (n mod 10)"] show ?thesis
      by (auto simp: decimal_large version_char_def ident_char_def)
  qed
qed

lemma wf_version_chars: "wf_version v \<Longrightarrow> list_all version_char (version_to_string v)"
  by (auto simp: wf_version_def version_to_string_text version_text_def decimal_chars version_char_def
      ident_char_def dest: split_valid_chars split: if_splits)

lemma version_to_string_parses:
  assumes "wf_version v"
  shows "parse_version (version_to_string v) out = Inr (v, length (version_to_string v))"
proof -
  from assms have t: "version_to_string v =
      version_text (v_major v) (v_minor v) (v_patch v) (v_prerelease_tag v) (v_build_metadata v)"
    by (simp add: wf_version_def version_to_string_text)
  from scan_tokens_version_text [OF wf_version_chars [OF assms], where pos = 0 and acc = "[]"]
  obtain r e where r: "lex (version_to_string v) = Inr (stream_at [] (r @ [e]))" "tok_type e = Eol"
    "tok_lexeme e = length (version_to_string v)" "list_all simple_token r"
    "map tok_char r = version_to_string v"
    by (auto simp: lex_def stream_at_def)
  have "version_parse out (stream_at [] (r @ [e])) = Inr (v, stream_at ([] @ r) [e])"
    using version_parse_complete [of r _ _ _ _ _ "[e]" out "[]", OF r(5) [unfolded t] r(4)]
      assms wf_version_make [OF assms] r(2) by (simp add: ends_version_def)
  with r show ?thesis by (simp add: parse_version_def stream_simps)
qed

lemma to_chars_length: "length (to_chars dest n) = digits_length n + length dest"
  by (induction dest n rule: to_chars.induct)
    (subst to_chars.simps, subst digits_length.simps, auto simp: Let_def)

section \<open>Properties\<close>

text \<open>C1: Printing a well-formed version and parsing the text gives the same version back, and
  the parser stops at the end of the text, whatever the out-parameter held before.\<close>

theorem version_roundtrip:
  assumes "wf_version v"
  shows "parse_version (version_to_string v) out = Inr (v, length (version_to_string v))"
  using assms by (rule version_to_string_parses)

lemma version_roundtrip_witness:
  "parse_version (version_to_string (make_version 1 20 3 ''alpha.1'' ''b01'')) version_default =
     Inr (make_version 1 20 3 ''alpha.1'' ''b01'', 18)"
proof -
  have wf: "wf_version (make_version 1 20 3 ''alpha.1'' ''b01'')"
    by (simp add: wf_version_def make_version_def int_max_def valid_id_def ident_char_def is_letter_def is_digit_def)
  have len: "length (version_to_string (make_version 1 20 3 ''alpha.1'' ''b01'')) = 18"
    by (simp add: make_version_def version_to_string_def to_chars.simps)
  from version_roundtrip [OF wf] show ?thesis by (simp only: len)
qed

text \<open>Whatever text is given, the parser of versions never reads a token outside the token
  vector and never reads the wrong alternative of a token's value: its only errors are the ones
  it reports.\<close>

lemma parse_version_memory_safe:
  "parse_version str out \<noteq> Inl Out_of_bounds \<and> parse_version str out \<noteq> Inl Bad_variant"
  using parse_version_spec [of str out] by (auto simp: is_failure_def)

text \<open>C2: A text the parser accepts is a semantic-version text: three decimal numerals with no
  leading zero, separated by dots, an optional prerelease tag and optional build metadata made
  of valid identifiers. The version is well-formed and keeps the tag and the metadata, but each
  numeric field is the numeral's value modulo 2^64.\<close>

theorem parse_version_sound:
  assumes "parse_version str out = Inr (v, ptr)"
  shows "ptr = length str \<and> wf_version v \<and>
    (\<exists>a b c. 0 \<le> a \<and> 0 \<le> b \<and> 0 \<le> c \<and> v_major v = u64 a \<and> v_minor v = u64 b \<and> v_patch v = u64 c \<and>
      str = version_text a b c (v_prerelease_tag v) (v_build_metadata v))"
  using parse_version_spec [of str out] assms by simp

lemma parse_version_sound_witness:
  "wf_version (make_version 1 2 3 ''rc.1'' [])"
proof -
  have "parse_version ''1.2.3-rc.1'' version_default = Inr (make_version 1 2 3 ''rc.1'' [], 10)"
    by code_simp
  from parse_version_sound [OF this] show ?thesis by simp
qed

text \<open>The 64-bit accumulator of a numeric field wraps before the range check: a numeral of
  2^64 + 1 is accepted as the field 1, so two different texts are read as the same version.\<close>

lemma parse_version_overflow_accepted:
  "parse_version ''18446744073709551617.0.0'' version_default = Inr (make_version 1 0 0 [] [], 24) \<and>
   parse_version ''1.0.0'' version_default = Inr (make_version 1 0 0 [] [], 5)"
  by code_simp

text \<open>The buffer of \<open>to_string\<close> is exactly filled: the number of characters written
  backwards from its end is the length it was resized to, for every version.\<close>

lemma version_to_string_fills_buffer:
  "length (version_to_string v) = version_length v"
  by (simp add: version_to_string_def version_length_def to_chars_length Let_def)

end
