(* ===== verification/Version_Order.thy ===== *)
theory Version_Order
  imports Version_Correct
begin

text \<open>
  Precedence of versions: \<open>compare_parsed\<close>, \<open>prerelease_comparator\<close> and the
  operators of include/plg/version.hpp. The code returns an \<open>int\<close> of which only the sign
  is used; the interface \<open>three_way\<close> states what such a comparison promises, and the
  code's comparison is shown to keep it.
\<close>

section \<open>Three-way comparison\<close>

locale three_way =
  fixes carrier :: "'a \<Rightarrow> bool" and cmp :: "'a \<Rightarrow> 'a \<Rightarrow> int"
  assumes cmp_flip: "carrier a \<Longrightarrow> carrier b \<Longrightarrow> sgn (cmp b a) = - sgn (cmp a b)"
    and cmp_trans: "carrier a \<Longrightarrow> carrier b \<Longrightarrow> carrier c \<Longrightarrow> cmp a b \<le> 0 \<Longrightarrow> cmp b c \<le> 0 \<Longrightarrow> cmp a c \<le> 0"
begin

lemma cmp_refl: "carrier a \<Longrightarrow> cmp a a = 0"
  using cmp_flip [of a a] by (auto simp: sgn_if split: if_splits)

lemma cmp_pos_iff: "carrier a \<Longrightarrow> carrier b \<Longrightarrow> 0 < cmp a b \<longleftrightarrow> cmp b a < 0"
  using cmp_flip [of a b] by (auto simp: sgn_if split: if_splits)

lemma cmp_nonneg_iff: "carrier a \<Longrightarrow> carrier b \<Longrightarrow> 0 \<le> cmp a b \<longleftrightarrow> cmp b a \<le> 0"
  using cmp_flip [of a b] by (auto simp: sgn_if split: if_splits)

lemma cmp_zero_iff: "carrier a \<Longrightarrow> carrier b \<Longrightarrow> cmp a b = 0 \<longleftrightarrow> cmp b a = 0"
  using cmp_flip [of a b] by (auto simp: sgn_if split: if_splits)

lemma cmp_less_trans1:
  "carrier a \<Longrightarrow> carrier b \<Longrightarrow> carrier c \<Longrightarrow> cmp a b < 0 \<Longrightarrow> cmp b c \<le> 0 \<Longrightarrow> cmp a c < 0"
  using cmp_trans [of a b c] cmp_trans [of b c a] cmp_nonneg_iff [of a c] cmp_nonneg_iff [of a b]
  by (smt (verit))

lemma cmp_less_trans2:
  "carrier a \<Longrightarrow> carrier b \<Longrightarrow> carrier c \<Longrightarrow> cmp a b \<le> 0 \<Longrightarrow> cmp b c < 0 \<Longrightarrow> cmp a c < 0"
  using cmp_trans [of a b c] cmp_trans [of c a b] cmp_nonneg_iff [of a c] cmp_nonneg_iff [of b c]
  by (smt (verit))

lemma cmp_equal_trans:
  "carrier a \<Longrightarrow> carrier b \<Longrightarrow> carrier c \<Longrightarrow> cmp a b = 0 \<Longrightarrow> cmp b c = 0 \<Longrightarrow> cmp a c = 0"
  using cmp_trans [of a b c] cmp_trans [of c b a] cmp_nonneg_iff [of a c] cmp_zero_iff [of a b]
    cmp_zero_iff [of b c]
  by (smt (verit))

end

section \<open>The comparison of the code\<close>

text \<open>
  \<open>compare(std::string_view, std::string_view)\<close> is \<open>string_view::compare\<close>, of which
  the standard fixes the sign only: bytes in order, then the lengths.
\<close>

definition char_code :: "char \<Rightarrow> nat" where
  "char_code c = of_char c"

lemma char_code_eq: "char_code x = char_code y \<longleftrightarrow> x = y"
  by (simp add: char_code_def)

fun compare_strings :: "string \<Rightarrow> string \<Rightarrow> int" where
  "compare_strings [] [] = 0"
| "compare_strings [] (y # ys) = - 1"
| "compare_strings (x # xs) [] = 1"
| "compare_strings (x # xs) (y # ys) =
     (if char_code x < char_code y then - 1 else if char_code y < char_code x then 1
      else compare_strings xs ys)"

text \<open>The loop of \<open>compare_numerically\<close> over two strings of one length.\<close>

definition digit_int :: "char \<Rightarrow> int" where
  "digit_int c = int (of_char c) - 48"

fun compare_digits :: "string \<Rightarrow> string \<Rightarrow> int" where
  "compare_digits (x # xs) (y # ys) =
     (let a = digit_int x; b = digit_int y in if a \<noteq> b then a - b else compare_digits xs ys)"
| "compare_digits _ _ = 0"

definition compare_numerically :: "string \<Rightarrow> string \<Rightarrow> int" where
  "compare_numerically lhs rhs =
     (if length lhs \<noteq> length rhs then int32 (u64 (int (length lhs) - int (length rhs)))
      else compare_digits lhs rhs)"

definition compare_identifier :: "prerelease_identifier \<Rightarrow> prerelease_identifier \<Rightarrow> int" where
  "compare_identifier lhs rhs =
     (if pi_type lhs = Numeric \<and> pi_type rhs = Numeric
      then compare_numerically (pi_identifier lhs) (pi_identifier rhs)
      else if pi_type lhs = Alphanumeric \<and> pi_type rhs = Alphanumeric
      then compare_strings (pi_identifier lhs) (pi_identifier rhs)
      else if pi_type lhs = Alphanumeric then 1 else - 1)"

text \<open>The loop over the common prefix: the first non-zero result, or 0.\<close>

fun compare_identifiers ::
    "prerelease_identifier list \<Rightarrow> prerelease_identifier list \<Rightarrow> int" where
  "compare_identifiers (x # xs) (y # ys) =
     (let c = compare_identifier x y in if c \<noteq> 0 then c else compare_identifiers xs ys)"
| "compare_identifiers _ _ = 0"

definition compare_prerelease :: "version \<Rightarrow> version \<Rightarrow> int" where
  "compare_prerelease lhs rhs =
     (let l = v_prerelease_identifiers lhs; r = v_prerelease_identifiers rhs in
      if (l = []) \<noteq> (r = []) then int32 (int (length r)) - int32 (int (length l))
      else (let c = compare_identifiers l r in
        if c \<noteq> 0 then c else int32 (int (length l)) - int32 (int (length r))))"

datatype version_compare_option = Exclude_prerelease | Include_prerelease

text \<open>The fields are non-negative \<open>int\<close>s, so their differences do not overflow.\<close>

definition compare_parsed :: "version \<Rightarrow> version \<Rightarrow> version_compare_option \<Rightarrow> int" where
  "compare_parsed lhs rhs opt =
     (let result = v_major lhs - v_major rhs in if result \<noteq> 0 then result else
      let result = v_minor lhs - v_minor rhs in if result \<noteq> 0 then result else
      let result = v_patch lhs - v_patch rhs in if result \<noteq> 0 then result else
      if opt = Include_prerelease then compare_prerelease lhs rhs else result)"

definition version_eq :: "version \<Rightarrow> version \<Rightarrow> bool" where
  "version_eq lhs rhs \<longleftrightarrow> compare_parsed lhs rhs Include_prerelease = 0"

definition version_ne :: "version \<Rightarrow> version \<Rightarrow> bool" where
  "version_ne lhs rhs \<longleftrightarrow> compare_parsed lhs rhs Include_prerelease \<noteq> 0"

definition version_greater :: "version \<Rightarrow> version \<Rightarrow> bool" where
  "version_greater lhs rhs \<longleftrightarrow> 0 < compare_parsed lhs rhs Include_prerelease"

definition version_greater_eq :: "version \<Rightarrow> version \<Rightarrow> bool" where
  "version_greater_eq lhs rhs \<longleftrightarrow> 0 \<le> compare_parsed lhs rhs Include_prerelease"

definition version_less :: "version \<Rightarrow> version \<Rightarrow> bool" where
  "version_less lhs rhs \<longleftrightarrow> compare_parsed lhs rhs Include_prerelease < 0"

definition version_less_eq :: "version \<Rightarrow> version \<Rightarrow> bool" where
  "version_less_eq lhs rhs \<longleftrightarrow> compare_parsed lhs rhs Include_prerelease \<le> 0"

datatype strong_ordering = Ord_less | Ord_equal | Ord_greater

definition version_spaceship :: "version \<Rightarrow> version \<Rightarrow> strong_ordering" where
  "version_spaceship lhs rhs =
     (let compare = compare_parsed lhs rhs Include_prerelease in
      if compare = 0 then Ord_equal else if 0 < compare then Ord_greater else Ord_less)"

section \<open>The laws of the parts\<close>

text \<open>A list comparison is lexicographic; its sign is that of the first difference.\<close>

lemma compare_strings_sgn: "sgn (compare_strings ys xs) = - sgn (compare_strings xs ys)"
  by (induction xs ys rule: compare_strings.induct) auto

lemma compare_strings_zero: "compare_strings xs ys = 0 \<longleftrightarrow> xs = ys"
proof (induction xs ys rule: compare_strings.induct)
  case (4 x xs y ys)
  then show ?case using char_code_eq [of x y] by auto
qed auto

lemma compare_strings_trans:
  "compare_strings xs ys \<le> 0 \<Longrightarrow> compare_strings ys zs \<le> 0 \<Longrightarrow> compare_strings xs zs \<le> 0"
proof (induction xs ys arbitrary: zs rule: compare_strings.induct)
  case (4 x xs y ys)
  note IH = "4.IH"
  from "4.prems" show ?case
    by (cases zs) (auto split: if_splits intro: IH)
next
  case (2 y ys)
  then show ?case by (cases zs) auto
qed auto

lemma compare_digits_sgn: "length xs = length ys \<Longrightarrow> compare_digits ys xs = - compare_digits xs ys"
  by (induction xs ys rule: list_induct2) (auto simp: Let_def)

lemma compare_digits_trans:
  "length xs = length ys \<Longrightarrow> length ys = length zs \<Longrightarrow>
   compare_digits xs ys \<le> 0 \<Longrightarrow> compare_digits ys zs \<le> 0 \<Longrightarrow> compare_digits xs zs \<le> 0"
proof (induction xs ys zs rule: list_induct3)
  case (Cons x xs y ys z zs)
  then show ?case by (simp add: Let_def split: if_splits)
qed simp

text \<open>Lengths that fit an \<open>int\<close>: their difference survives the two conversions.\<close>

definition fits_int :: "'a list \<Rightarrow> bool" where
  "fits_int xs \<longleftrightarrow> length xs < 2 ^ 31"

lemma int32_length_diff:
  "fits_int xs \<Longrightarrow> fits_int ys \<Longrightarrow> int32 (u64 (int (length xs) - int (length ys))) = int (length xs) - int (length ys)"
  by (auto simp: int32_u64 fits_int_def intro!: int32_id)

lemma int32_length: "fits_int xs \<Longrightarrow> int32 (int (length xs)) = int (length xs)"
  by (auto simp: fits_int_def intro!: int32_id)

lemma compare_numerically_sgn:
  "fits_int xs \<Longrightarrow> fits_int ys \<Longrightarrow> sgn (compare_numerically ys xs) = - sgn (compare_numerically xs ys)"
  using compare_digits_sgn [of xs ys]
  by (auto simp: compare_numerically_def int32_length_diff sgn_if)

lemma compare_numerically_trans:
  "fits_int xs \<Longrightarrow> fits_int ys \<Longrightarrow> fits_int zs \<Longrightarrow> compare_numerically xs ys \<le> 0 \<Longrightarrow>
   compare_numerically ys zs \<le> 0 \<Longrightarrow> compare_numerically xs zs \<le> 0"
  using compare_digits_trans [of xs ys zs]
  by (auto simp: compare_numerically_def int32_length_diff split: if_splits)

interpretation identifier_order: three_way "\<lambda>i. fits_int (pi_identifier i)" compare_identifier
proof (unfold_locales, goal_cases)
  case (1 a b)
  then show ?case
    using compare_numerically_sgn [of "pi_identifier a" "pi_identifier b"]
      compare_strings_sgn [of "pi_identifier b" "pi_identifier a"]
    by (cases "pi_type a"; cases "pi_type b") (auto simp: compare_identifier_def)
next
  case (2 a b c)
  then show ?case
    using compare_numerically_trans [of "pi_identifier a" "pi_identifier b" "pi_identifier c"]
      compare_strings_trans [of "pi_identifier a" "pi_identifier b" "pi_identifier c"]
    by (cases "pi_type a"; cases "pi_type b"; cases "pi_type c") (auto simp: compare_identifier_def)
qed

text \<open>The identifier lists with the length as the last word.\<close>

fun lex_identifiers :: "prerelease_identifier list \<Rightarrow> prerelease_identifier list \<Rightarrow> int" where
  "lex_identifiers [] [] = 0"
| "lex_identifiers [] (y # ys) = - 1"
| "lex_identifiers (x # xs) [] = 1"
| "lex_identifiers (x # xs) (y # ys) =
     (let c = compare_identifier x y in if c \<noteq> 0 then c else lex_identifiers xs ys)"

definition fit_identifiers :: "prerelease_identifier list \<Rightarrow> bool" where
  "fit_identifiers ids \<longleftrightarrow> fits_int ids \<and> list_all (\<lambda>i. fits_int (pi_identifier i)) ids"

lemma lex_identifiers_code:
  "sgn (lex_identifiers xs ys) =
     sgn (let c = compare_identifiers xs ys in if c \<noteq> 0 then c else int (length xs) - int (length ys))"
proof (induction xs ys rule: lex_identifiers.induct)
  case (4 x xs y ys)
  then show ?case by (cases "compare_identifier x y = 0") (simp_all add: Let_def)
qed simp_all

lemma lex_identifiers_flip:
  "list_all (\<lambda>i. fits_int (pi_identifier i)) xs \<Longrightarrow> list_all (\<lambda>i. fits_int (pi_identifier i)) ys \<Longrightarrow>
   sgn (lex_identifiers ys xs) = - sgn (lex_identifiers xs ys)"
proof (induction xs ys rule: lex_identifiers.induct)
  case (4 x xs y ys)
  then show ?case
    using identifier_order.cmp_flip [of x y] identifier_order.cmp_zero_iff [of x y]
    by (auto simp: Let_def)
qed auto

lemma lex_identifiers_trans:
  "list_all (\<lambda>i. fits_int (pi_identifier i)) xs \<Longrightarrow> list_all (\<lambda>i. fits_int (pi_identifier i)) ys \<Longrightarrow>
   list_all (\<lambda>i. fits_int (pi_identifier i)) zs \<Longrightarrow>
   lex_identifiers xs ys \<le> 0 \<Longrightarrow> lex_identifiers ys zs \<le> 0 \<Longrightarrow> lex_identifiers xs zs \<le> 0"
proof (induction xs ys arbitrary: zs rule: lex_identifiers.induct)
  case (4 x xs y ys)
  from "4.prems" obtain z zs' where z: "zs = z # zs'" by (cases zs) auto
  from "4.prems" z have c: "fits_int (pi_identifier x)" "fits_int (pi_identifier y)" "fits_int (pi_identifier z)"
    by auto
  note laws = identifier_order.cmp_less_trans1 [OF c] identifier_order.cmp_less_trans2 [OF c]
    identifier_order.cmp_equal_trans [OF c]
  show ?case
    using "4.prems" z laws by (auto simp: Let_def intro: "4.IH" split: if_splits)
next
  case (2 y ys)
  then show ?case by (cases zs) auto
qed auto


text \<open>The precedence of prerelease parts: no prerelease is the greatest.\<close>

definition prerelease_order :: "prerelease_identifier list \<Rightarrow> prerelease_identifier list \<Rightarrow> int" where
  "prerelease_order l r = (if l = [] \<and> r = [] then 0 else if l = [] then 1 else if r = [] then - 1
     else lex_identifiers l r)"

lemma int32_zero [simp]: "int32 0 = 0"
  by (simp add: int32_def)

lemma compare_prerelease_sgn:
  assumes "fit_identifiers (v_prerelease_identifiers a)" "fit_identifiers (v_prerelease_identifiers b)"
  shows "sgn (compare_prerelease a b) =
    sgn (prerelease_order (v_prerelease_identifiers a) (v_prerelease_identifiers b))"
  using assms lex_identifiers_code [of "v_prerelease_identifiers a" "v_prerelease_identifiers b"]
  by (auto simp: compare_prerelease_def prerelease_order_def fit_identifiers_def int32_length Let_def)

lemma prerelease_order_flip:
  "fit_identifiers l \<Longrightarrow> fit_identifiers r \<Longrightarrow> sgn (prerelease_order r l) = - sgn (prerelease_order l r)"
  using lex_identifiers_flip [of l r] by (auto simp: prerelease_order_def fit_identifiers_def)

lemma prerelease_order_trans:
  "fit_identifiers a \<Longrightarrow> fit_identifiers b \<Longrightarrow> fit_identifiers c \<Longrightarrow>
   prerelease_order a b \<le> 0 \<Longrightarrow> prerelease_order b c \<le> 0 \<Longrightarrow> prerelease_order a c \<le> 0"
  using lex_identifiers_trans [of a b c]
  by (auto simp: prerelease_order_def fit_identifiers_def split: if_splits)

lemma sgn_same_le: "sgn x = sgn (y::int) \<Longrightarrow> x \<le> 0 \<longleftrightarrow> y \<le> 0"
  by (simp add: sgn_if split: if_splits)

lemma sgn_diff_flip: "sgn (x - y) = - sgn (y - x :: int)"
  by (metis minus_diff_eq sgn_minus)

lemma compare_prerelease_flip:
  assumes "fit_identifiers (v_prerelease_identifiers a)" "fit_identifiers (v_prerelease_identifiers b)"
  shows "sgn (compare_prerelease b a) = - sgn (compare_prerelease a b)"
  by (simp only: compare_prerelease_sgn [OF assms] compare_prerelease_sgn [OF assms(2,1)]
      prerelease_order_flip [OF assms])

lemma compare_prerelease_trans:
  assumes "fit_identifiers (v_prerelease_identifiers a)" "fit_identifiers (v_prerelease_identifiers b)"
    "fit_identifiers (v_prerelease_identifiers c)"
    "compare_prerelease a b \<le> 0" "compare_prerelease b c \<le> 0"
  shows "compare_prerelease a c \<le> 0"
  using assms prerelease_order_trans [OF assms(1-3)] sgn_same_le [OF compare_prerelease_sgn [OF assms(1,2)]]
    sgn_same_le [OF compare_prerelease_sgn [OF assms(2,3)]]
    sgn_same_le [OF compare_prerelease_sgn [OF assms(1,3)]]
  by blast

text \<open>The versions whose identifier lists have lengths an \<open>int\<close> can hold.\<close>

definition fit_version :: "version \<Rightarrow> bool" where
  "fit_version v \<longleftrightarrow> fit_identifiers (v_prerelease_identifiers v)"

interpretation version_order: three_way fit_version "\<lambda>a b. compare_parsed a b Include_prerelease"
proof (unfold_locales, goal_cases)
  case (1 a b)
  then show ?case
    using compare_prerelease_flip [of a b] sgn_diff_flip [of "v_major b" "v_major a"]
      sgn_diff_flip [of "v_minor b" "v_minor a"] sgn_diff_flip [of "v_patch b" "v_patch a"]
    by (auto simp: compare_parsed_def fit_version_def Let_def)
next
  case (2 a b c)
  then show ?case
    using compare_prerelease_trans [of a b c]
    by (auto simp: compare_parsed_def fit_version_def Let_def split: if_splits)
qed

section \<open>Numeric identifiers\<close>

definition digits_value :: "int \<Rightarrow> string \<Rightarrow> int" where
  "digits_value n s = foldl (\<lambda>n c. n * 10 + digit_int c) n s"

definition canonical_number :: "string \<Rightarrow> bool" where
  "canonical_number s \<longleftrightarrow> s \<noteq> [] \<and> list_all is_digit s \<and> (hd s = CHR ''0'' \<longrightarrow> length s = 1)"

lemma digit_int_bounds: "is_digit c \<Longrightarrow> 0 \<le> digit_int c \<and> digit_int c \<le> 9"
  by (auto simp: is_digit_def digit_int_def)

lemma digit_int_zero: "is_digit c \<Longrightarrow> c \<noteq> CHR ''0'' \<Longrightarrow> 1 \<le> digit_int c"
proof -
  assume "is_digit c" "c \<noteq> CHR ''0''"
  then have "of_char c \<noteq> (of_char CHR ''0'' :: nat)" by (simp only: of_char_eq_iff not_False_eq_True)
  with \<open>is_digit c\<close> show ?thesis by (auto simp: is_digit_def digit_int_def)
qed

lemma digits_value_less:
  "length xs = length ys \<Longrightarrow> list_all is_digit xs \<Longrightarrow> list_all is_digit ys \<Longrightarrow> m < n \<Longrightarrow>
   digits_value m xs < digits_value n ys"
proof (induction xs ys arbitrary: m n rule: list_induct2)
  case (Cons x xs y ys)
  then have "m * 10 + digit_int x < n * 10 + digit_int y"
    using digit_int_bounds [of x] digit_int_bounds [of y] by simp
  with Cons show ?case by (simp add: digits_value_def)
qed (simp add: digits_value_def)

lemma compare_digits_value:
  "length xs = length ys \<Longrightarrow> list_all is_digit xs \<Longrightarrow> list_all is_digit ys \<Longrightarrow>
   sgn (compare_digits xs ys) = sgn (digits_value n xs - digits_value n ys)"
proof (induction xs ys arbitrary: n rule: list_induct2)
  case (Cons x xs y ys)
  show ?case
  proof (cases "digit_int x = digit_int y")
    case True
    with Cons show ?thesis by (simp add: digits_value_def Let_def)
  next
    case False
    then consider "n * 10 + digit_int x < n * 10 + digit_int y" | "n * 10 + digit_int y < n * 10 + digit_int x"
      by linarith
    then show ?thesis
    proof cases
      case 1
      with Cons.prems Cons.hyps digits_value_less [OF _ _ _ 1, of xs ys] show ?thesis
        by (simp add: digits_value_def Let_def)
    next
      case 2
      with Cons.prems Cons.hyps digits_value_less [OF _ _ _ 2, of ys xs] show ?thesis
        by (simp add: digits_value_def Let_def)
    qed
  qed
qed (simp add: digits_value_def)

lemma digits_value_bounds:
  "list_all is_digit xs \<Longrightarrow> 0 \<le> n \<Longrightarrow>
   n * 10 ^ length xs \<le> digits_value n xs \<and> digits_value n xs < (n + 1) * 10 ^ length xs"
proof (induction xs arbitrary: n)
  case (Cons x xs)
  define p where "p = (10::int) ^ length xs"
  from Cons.prems have d: "0 \<le> digit_int x" "digit_int x \<le> 9" using digit_int_bounds [of x] by auto
  with Cons have IH: "(n * 10 + digit_int x) * p \<le> digits_value (n * 10 + digit_int x) xs"
    "digits_value (n * 10 + digit_int x) xs < (n * 10 + digit_int x + 1) * p"
    unfolding p_def by auto
  have p: "0 \<le> p" by (simp add: p_def)
  with d have "n * 10 * p \<le> (n * 10 + digit_int x) * p" "(n * 10 + digit_int x + 1) * p \<le> (n * 10 + 10) * p"
    by (auto intro!: mult_right_mono)
  moreover have "(10::int) ^ length (x # xs) = 10 * p" by (simp add: p_def)
  moreover have "digits_value n (x # xs) = digits_value (n * 10 + digit_int x) xs" by (simp add: digits_value_def)
  ultimately show ?case using IH by (simp only: distrib_right) linarith
qed (simp add: digits_value_def)

lemma canonical_shorter:
  assumes "canonical_number xs" "canonical_number ys" "length xs < length ys"
  shows "digits_value 0 xs < digits_value 0 ys"
proof -
  from assms obtain y ys' where ys: "ys = y # ys'" by (cases ys) (auto simp: canonical_number_def)
  with assms have y: "is_digit y" "y \<noteq> CHR ''0''" "list_all is_digit ys'" "list_all is_digit xs" "xs \<noteq> []"
    by (auto simp: canonical_number_def)
  have "digits_value 0 xs < 10 ^ length xs" using digits_value_bounds [OF y(4), of 0] by simp
  also have "(10::int) ^ length xs \<le> 10 ^ length ys'" using assms(3) ys by (intro power_increasing) auto
  also have "\<dots> \<le> digit_int y * 10 ^ length ys'" using digit_int_zero [OF y(1,2)] by simp
  also have "\<dots> \<le> digits_value 0 ys"
    using digits_value_bounds [OF y(3), of "digit_int y"] digit_int_zero [OF y(1,2)] ys
    by (simp add: digits_value_def)
  finally show ?thesis .
qed

lemma compare_numerically_value:
  assumes "canonical_number xs" "canonical_number ys" "fits_int xs" "fits_int ys"
  shows "sgn (compare_numerically xs ys) = sgn (digits_value 0 xs - digits_value 0 ys)"
proof (cases "length xs = length ys")
  case True
  with assms compare_digits_value [OF True, of 0] show ?thesis
    by (simp add: compare_numerically_def canonical_number_def)
next
  case False
  with assms canonical_shorter [of xs ys] canonical_shorter [of ys xs] show ?thesis
    by (auto simp: compare_numerically_def int32_length_diff sgn_if)
qed

section \<open>Properties\<close>

text \<open>C3: The six operators and the spaceship operator agree on one total order of versions
  (up to equality of precedence): exactly one of less, equal and greater holds, less is
  transitive and compatible with equality, and the mixed operators are their complements.\<close>

theorem version_order_total:
  assumes "fit_version a" "fit_version b" "fit_version c"
  shows "(version_spaceship a b = Ord_less \<longleftrightarrow> version_less a b) \<and>
    (version_spaceship a b = Ord_equal \<longleftrightarrow> version_eq a b) \<and>
    (version_spaceship a b = Ord_greater \<longleftrightarrow> version_less b a) \<and>
    (version_eq a b \<longleftrightarrow> version_eq b a) \<and> (version_ne a b \<longleftrightarrow> \<not> version_eq a b) \<and>
    (version_greater a b \<longleftrightarrow> version_less b a) \<and> (version_greater_eq a b \<longleftrightarrow> \<not> version_less a b) \<and>
    (version_less_eq a b \<longleftrightarrow> \<not> version_less b a) \<and>
    (version_less a b \<and> version_less_eq b c \<longrightarrow> version_less a c) \<and>
    (version_less_eq a b \<and> version_less b c \<longrightarrow> version_less a c) \<and>
    (version_eq a b \<and> version_eq b c \<longrightarrow> version_eq a c)"
  using version_order.cmp_pos_iff [OF assms(1,2)] version_order.cmp_nonneg_iff [OF assms(1,2)]
    version_order.cmp_zero_iff [OF assms(1,2)] version_order.cmp_less_trans1 [OF assms]
    version_order.cmp_less_trans2 [OF assms] version_order.cmp_equal_trans [OF assms]
  by (auto simp: version_spaceship_def version_less_def version_eq_def version_ne_def version_greater_def
      version_greater_eq_def version_less_eq_def Let_def)

lemma version_order_total_witness:
  "version_less (make_version 1 2 0 ''rc.1'' []) (make_version 1 2 0 [] []) \<and>
   version_less (make_version 1 2 0 ''rc.1'' []) (make_version 1 3 0 [] [])"
proof -
  have f: "fit_version (make_version 1 2 0 ''rc.1'' [])" "fit_version (make_version 1 2 0 [] [])"
    "fit_version (make_version 1 3 0 [] [])"
    by (simp_all add: fit_version_def fit_identifiers_def fits_int_def make_version_def
        make_prerelease_identifier_def)
  have "version_less (make_version 1 2 0 ''rc.1'' []) (make_version 1 2 0 [] [])"
    "version_less_eq (make_version 1 2 0 [] []) (make_version 1 3 0 [] [])"
    by code_simp+
  with version_order_total [OF f] show ?thesis by blast
qed

text \<open>Numeric prerelease identifiers are compared by value: for canonical numerals the sign
  of \<open>compare_numerically\<close> is that of the difference of the numbers, although the code only
  compares lengths and characters.\<close>

lemma compare_numerically_correct:
  assumes "canonical_number lhs" "canonical_number rhs" "fits_int lhs" "fits_int rhs"
  shows "sgn (compare_numerically lhs rhs) = sgn (digits_value 0 lhs - digits_value 0 rhs)"
  using assms by (rule compare_numerically_value)

lemma compare_numerically_correct_witness:
  "sgn (compare_numerically ''9'' ''10'') = - 1 \<and> digits_value 0 ''9'' < digits_value 0 ''10''"
proof -
  have h: "canonical_number ''9''" "canonical_number ''10''" "fits_int ''9''" "fits_int ''10''"
    by (simp_all add: canonical_number_def is_digit_def fits_int_def)
  have v: "digits_value 0 ''9'' = 9" "digits_value 0 ''10'' = 10" by (simp_all add: digits_value_def digit_int_def)
  from compare_numerically_correct [OF h] show ?thesis by (simp add: v)
qed

end
