(* ===== verification/Version_Range.thy ===== *)
theory Version_Range
  imports Version_Order
begin

text \<open>
  Version constraints of include/plg/version.hpp: comparators, ranges (all comparators hold),
  range sets (some range holds), their texts and their parser (\<open>range_comparator\<close>,
  \<open>range\<close>, \<open>range_set\<close>, \<open>range_parser\<close>). \<open>plugify::Constraint\<close> is a
  range set.
\<close>

section \<open>Comparators and ranges\<close>

record range_comparator =
  rc_version :: version
  rc_operator :: range_operator

definition rc_contains :: "range_comparator \<Rightarrow> version \<Rightarrow> bool" where
  "rc_contains c other = (case rc_operator c of
     Less \<Rightarrow> compare_parsed other (rc_version c) Include_prerelease < 0
   | Less_or_equal \<Rightarrow> compare_parsed other (rc_version c) Include_prerelease \<le> 0
   | Greater \<Rightarrow> 0 < compare_parsed other (rc_version c) Include_prerelease
   | Greater_or_equal \<Rightarrow> 0 \<le> compare_parsed other (rc_version c) Include_prerelease
   | Equal \<Rightarrow> compare_parsed other (rc_version c) Include_prerelease = 0)"

definition rc_to_string :: "range_comparator \<Rightarrow> string" where
  "rc_to_string c = (case rc_operator c of
     Less \<Rightarrow> ''<'' | Less_or_equal \<Rightarrow> ''<='' | Greater \<Rightarrow> ''>'' | Greater_or_equal \<Rightarrow> ''>=''
   | Equal \<Rightarrow> ''='') @ version_to_string (rc_version c)"

type_synonym range = "range_comparator list"

type_synonym range_set = "range list"

definition match_at_least_one_comparator_with_prerelease :: "range \<Rightarrow> version \<Rightarrow> bool" where
  "match_at_least_one_comparator_with_prerelease r v =
     (if v_prerelease_tag v = [] then True
      else list_ex (\<lambda>c. v_prerelease_tag (rc_version c) \<noteq> [] \<and>
        compare_parsed v (rc_version c) Exclude_prerelease = 0) r)"

definition range_contains :: "range \<Rightarrow> version \<Rightarrow> version_compare_option \<Rightarrow> bool" where
  "range_contains r v opt =
     (if opt = Exclude_prerelease \<and> \<not> match_at_least_one_comparator_with_prerelease r v then False
      else list_all (\<lambda>c. rc_contains c v) r)"

definition range_to_string :: "range \<Rightarrow> string" where
  "range_to_string r = join_strings '' '' (map rc_to_string r)"

definition range_set_contains :: "range_set \<Rightarrow> version \<Rightarrow> version_compare_option \<Rightarrow> bool" where
  "range_set_contains rs v opt = list_ex (\<lambda>r. range_contains r v opt) rs"

text \<open>\<open>range_set::contains(v)\<close> with its default argument.\<close>

definition constraint_contains :: "range_set \<Rightarrow> version \<Rightarrow> bool" where
  "constraint_contains rs v = range_set_contains rs v Exclude_prerelease"

definition range_set_to_string :: "range_set \<Rightarrow> string" where
  "range_set_to_string rs = join_strings '' '' (map range_to_string rs)"

section \<open>Progress of the version parser\<close>

definition advances :: "token_stream \<Rightarrow> token_stream \<Rightarrow> bool" where
  "advances s s' \<longleftrightarrow> ts_tokens s' = ts_tokens s \<and> ts_current s \<le> ts_current s'"

lemma advances_refl [simp]: "advances s s"
  by (simp add: advances_def)

lemma advances_trans: "advances a b \<Longrightarrow> advances b c \<Longrightarrow> advances a c"
  by (simp add: advances_def)

lemma advances_match: "ts_advance_if_match ty s = Inr (m, s') \<Longrightarrow> advances s s'"
  by (cases m) (auto simp: advances_def dest: ts_advance_if_match_SomeD ts_advance_if_match_NoneD)

lemma advances_advance: "ts_advance s = Inr (t, s') \<Longrightarrow> advances s s'"
  by (auto simp: advances_def dest: ts_advance_SomeD)

lemma advances_success_peek: "success_peek x s = Inr (y, s') \<Longrightarrow> advances s s'"
  by (auto simp: success_peek_def result_simps)

lemma advances_digits_loop: "digits_loop t r s = Inr (x, t', s') \<Longrightarrow> advances s s'"
proof (induction t r s rule: digits_loop.induct)
  case (1 t r s)
  show ?case
  proof (cases "ts_advance_if_match Digit s")
    case (Inl e)
    with "1.prems" show ?thesis by (subst (asm) digits_loop.simps) simp
  next
    case (Inr y)
    obtain m s1 where y: "y = (m, s1)" by (cases y)
    show ?thesis
    proof (cases m)
      case None
      with "1.prems" Inr y show ?thesis
        by (subst (asm) digits_loop.simps) (auto dest: advances_match)
    next
      case (Some t1)
      with "1.prems" Inr y obtain d where d: "get_digit t1 = Inr d"
        "digits_loop t1 (u64 (r * 10 + int d)) s1 = Inr (x, t', s')"
        by (subst (asm) digits_loop.simps) (auto simp: result_simps)
      from "1.IH" [OF Inr y [symmetric] Some d] Inr y advances_match show ?thesis
        by (blast intro: advances_trans)
    qed
  qed
qed

lemma advances_parse_number:
  "parse_number s = Inr (n, s') \<Longrightarrow> advances s s' \<and> ts_current s < ts_current s'"
  by (auto simp: parse_number_def result_simps advances_def split: if_splits
      dest!: ts_advance_SomeD advances_digits_loop advances_success_peek)

lemma advances_expect_dot: "expect_dot s = Inr (u, s') \<Longrightarrow> advances s s'"
  by (auto simp: expect_dot_def ts_consume_def result_simps dest!: advances_advance split: if_splits)

lemma advances_prerelease_loop: "prerelease_loop res ids s = Inr (x, s') \<Longrightarrow> advances s s'"
proof (induction res ids s rule: prerelease_loop.induct)
  case (1 res ids s)
  show ?case
  proof (cases "parse_prerelease_identifier s")
    case (Inl e)
    with "1.prems" show ?thesis by (subst (asm) prerelease_loop.simps) simp
  next
    case (Inr y)
    obtain i s1 where y: "y = (i, s1)" by (cases y)
    from Inr y have a: "advances s s1"
      by (auto simp: advances_def dest: parse_prerelease_identifier_progress)
    show ?thesis
    proof (cases "ts_advance_if_match Dot s1")
      case (Inl e)
      with "1.prems" Inr y show ?thesis by (subst (asm) prerelease_loop.simps) (simp add: Let_def)
    next
      case Inr2: (Inr z)
      obtain m s2 where z: "z = (m, s2)" by (cases z)
      from Inr2 z have b: "advances s1 s2" by (auto dest: advances_match)
      show ?thesis
      proof (cases m)
        case None
        with "1.prems" Inr y Inr2 z a b show ?thesis
          by (subst (asm) prerelease_loop.simps)
            (auto simp: Let_def dest!: advances_success_peek intro: advances_trans)
      next
        case (Some t)
        from "1.prems" Inr y Inr2 z Some have rec: "prerelease_loop
            ((if res \<noteq> [] then res @ ''.'' else res) @ i) (ids @ [make_prerelease_identifier i]) s2 = Inr (x, s')"
          by (subst (asm) prerelease_loop.simps) (simp add: Let_def)
        from "1.IH" [OF refl Inr y [symmetric] refl refl Inr2 z [symmetric] Some rec] a b show ?thesis
          by (blast intro: advances_trans)
      qed
    qed
  qed
qed

lemma advances_build_loop: "build_loop res s = Inr (x, s') \<Longrightarrow> advances s s'"
proof (induction res s rule: build_loop.induct)
  case (1 res s)
  show ?case
  proof (cases "parse_build_identifier s")
    case (Inl e)
    with "1.prems" show ?thesis by (subst (asm) build_loop.simps) simp
  next
    case (Inr y)
    obtain i s1 where y: "y = (i, s1)" by (cases y)
    from Inr y have a: "advances s s1"
      by (auto simp: advances_def dest: parse_build_identifier_progress)
    show ?thesis
    proof (cases "ts_advance_if_match Dot s1")
      case (Inl e)
      with "1.prems" Inr y show ?thesis by (subst (asm) build_loop.simps) (simp add: Let_def)
    next
      case Inr2: (Inr z)
      obtain m s2 where z: "z = (m, s2)" by (cases z)
      from Inr2 z have b: "advances s1 s2" by (auto dest: advances_match)
      show ?thesis
      proof (cases m)
        case None
        with "1.prems" Inr y Inr2 z a b show ?thesis
          by (subst (asm) build_loop.simps)
            (auto simp: Let_def dest!: advances_success_peek intro: advances_trans)
      next
        case (Some t)
        from "1.prems" Inr y Inr2 z Some have rec: "build_loop
            ((if res \<noteq> [] then res @ ''.'' else res) @ i) s2 = Inr (x, s')"
          by (subst (asm) build_loop.simps) (simp add: Let_def)
        from "1.IH" [OF refl Inr y [symmetric] refl Inr2 z [symmetric] Some rec] a b show ?thesis
          by (blast intro: advances_trans)
      qed
    qed
  qed
qed

lemma advances_version_parse:
  assumes "version_parse out s = Inr (v, s')"
  shows "advances s s' \<and> ts_current s < ts_current s'"
proof -
  from assms obtain ma s1 s2 mi s3 s4 pa s5 v6 s6 where
    "parse_number s = Inr (ma, s1)" "expect_dot s1 = Inr ((), s2)" "parse_number s2 = Inr (mi, s3)"
    "expect_dot s3 = Inr ((), s4)" "parse_number s4 = Inr (pa, s5)"
    and tag: "parse_optional_tag ((version_clear out)\<lparr>v_major := ma, v_minor := mi, v_patch := pa\<rparr>) s5 = Inr (v6, s6)"
    and build: "parse_optional_build v6 s6 = Inr (v, s')"
    by (auto simp: version_parse_alt result_simps)
  then have "advances s s5 \<and> ts_current s < ts_current s5"
    by (auto simp: advances_def dest!: advances_parse_number advances_expect_dot)
  moreover from tag have "advances s5 s6"
    by (auto simp: parse_optional_tag_def parse_prerelease_tag_def result_simps
        dest!: advances_match advances_prerelease_loop intro: advances_trans split: if_splits)
  moreover from build have "advances s6 s'"
    by (auto simp: parse_optional_build_def parse_build_metadata_def result_simps
        dest!: advances_match advances_build_loop intro: advances_trans split: if_splits)
  ultimately show ?thesis by (auto simp: advances_def)
qed


section \<open>The range parser\<close>

function skip_whitespaces :: "token_stream \<Rightarrow> parse_error + (unit \<times> token_stream)" where
  "skip_whitespaces s =
    (case ts_advance_if_match Space s of
       Inl e \<Rightarrow> Inl e
     | Inr (None, s') \<Rightarrow> Inr ((), s')
     | Inr (Some t, s') \<Rightarrow> skip_whitespaces s')"
  by pat_completeness auto
termination
  by (relation "measure (\<lambda>s. length (ts_tokens s) - ts_current s)")
     (auto dest!: ts_advance_if_match_SomeD)

declare skip_whitespaces.simps [simp del]

definition parse_range_comparator ::
    "range \<Rightarrow> token_stream \<Rightarrow> parse_error + (range \<times> token_stream)" where
  "parse_range_comparator out s =
    rbind (ts_advance_if_match Range_operator s) (\<lambda>(m, s).
    rbind (case m of None \<Rightarrow> Inr Equal | Some t \<Rightarrow> get_operator_value t) (\<lambda>op.
    rbind (skip_whitespaces s) (\<lambda>(_, s).
    rbind (version_parse version_default s) (\<lambda>(ver, s).
      success_peek (out @ [\<lparr>rc_version = ver, rc_operator = op\<rparr>]) s))))"

text \<open>\<open>stream_.check(range_operator) || stream_.check(digit)\<close>.\<close>

definition check_comparator_start :: "token_stream \<Rightarrow> parse_error + bool" where
  "check_comparator_start s =
    rbind (ts_check Range_operator s) (\<lambda>b. if b then Inr True else ts_check Digit s)"

text \<open>The body of the \<open>do\<close> loop of \<open>parse_range\<close>.\<close>

definition range_step :: "range \<Rightarrow> token_stream \<Rightarrow> parse_error + (range \<times> token_stream)" where
  "range_step out s =
    rbind (skip_whitespaces s) (\<lambda>(_, s).
    rbind (parse_range_comparator out s) (\<lambda>(out, s).
    rbind (skip_whitespaces s) (\<lambda>(_, s). Inr (out, s))))"

lemma advances_skip: "skip_whitespaces s = Inr (u, s') \<Longrightarrow> advances s s'"
proof (induction s rule: skip_whitespaces.induct)
  case (1 s)
  show ?case
  proof (cases "ts_advance_if_match Space s")
    case (Inl e)
    with "1.prems" show ?thesis by (subst (asm) skip_whitespaces.simps) simp
  next
    case (Inr y)
    obtain m s1 where y: "y = (m, s1)" by (cases y)
    show ?thesis
    proof (cases m)
      case None
      with "1.prems" Inr y show ?thesis
        by (subst (asm) skip_whitespaces.simps) (auto dest: advances_match)
    next
      case (Some t)
      with "1.prems" Inr y have "skip_whitespaces s1 = Inr (u, s')"
        by (subst (asm) skip_whitespaces.simps) simp
      from "1.IH" [OF Inr y [symmetric] Some this] Inr y advances_match show ?thesis
        by (blast intro: advances_trans)
    qed
  qed
qed

lemma advances_range_comparator:
  "parse_range_comparator out s = Inr (out', s') \<Longrightarrow> advances s s' \<and> ts_current s < ts_current s'"
  by (auto simp: parse_range_comparator_def result_simps advances_def
      dest!: advances_match advances_skip advances_version_parse advances_success_peek)

lemma advances_range_step:
  "range_step out s = Inr (out', s') \<Longrightarrow> advances s s' \<and> ts_current s < ts_current s'"
  by (auto simp: range_step_def result_simps advances_def dest!: advances_skip advances_range_comparator)

lemma check_comparator_start_bound:
  "check_comparator_start s = Inr b \<Longrightarrow> ts_current s < length (ts_tokens s)"
  by (auto simp: check_comparator_start_def ts_check_def ts_peek_def ts_get_def result_simps split: if_splits)

function parse_range :: "range \<Rightarrow> token_stream \<Rightarrow> parse_error + (range \<times> token_stream)" where
  "parse_range out s =
    (case range_step out s of
       Inl e \<Rightarrow> Inl e
     | Inr (out', s') \<Rightarrow>
         (case check_comparator_start s' of
            Inl e \<Rightarrow> Inl e
          | Inr b \<Rightarrow> if b then parse_range out' s' else success_peek out' s'))"
  by pat_completeness auto
termination
  by (relation "measure (\<lambda>(out, s). length (ts_tokens s) - ts_current s)")
     (auto simp: advances_def dest!: advances_range_step check_comparator_start_bound)

declare parse_range.simps [simp del]

lemma advances_parse_range:
  "parse_range out s = Inr (out', s') \<Longrightarrow> advances s s' \<and> ts_current s < ts_current s'"
proof (induction out s rule: parse_range.induct)
  case (1 out s)
  show ?case
  proof (cases "range_step out s")
    case (Inl e)
    with "1.prems" show ?thesis by (subst (asm) parse_range.simps) simp
  next
    case (Inr y)
    obtain o1 s1 where y: "y = (o1, s1)" by (cases y)
    from Inr y have a: "advances s s1 \<and> ts_current s < ts_current s1" by (auto dest: advances_range_step)
    show ?thesis
    proof (cases "check_comparator_start s1")
      case (Inl e)
      with "1.prems" Inr y show ?thesis by (subst (asm) parse_range.simps) simp
    next
      case Inr2: (Inr b)
      show ?thesis
      proof (cases b)
        case True
        with "1.prems" Inr y Inr2 have "parse_range o1 s1 = Inr (out', s')"
          by (subst (asm) parse_range.simps) simp
        from "1.IH" [OF Inr y [symmetric] Inr2 True this] a show ?thesis by (auto simp: advances_def)
      next
        case False
        with "1.prems" Inr y Inr2 a show ?thesis
          by (subst (asm) parse_range.simps) (auto simp: success_peek_def result_simps)
      qed
    qed
  qed
qed

function parse_ranges :: "range_set \<Rightarrow> token_stream \<Rightarrow> parse_error + (range_set \<times> token_stream)" where
  "parse_ranges ranges s =
    (case rbind (parse_range [] s) (\<lambda>(r, s). rbind (skip_whitespaces s) (\<lambda>(_, s). Inr (r, s))) of
       Inl e \<Rightarrow> Inl e
     | Inr (r, s') \<Rightarrow>
         (case ts_advance_if_match Logical_or s' of
            Inl e \<Rightarrow> Inl e
          | Inr (None, s'') \<Rightarrow> success_peek (ranges @ [r]) s''
          | Inr (Some t, s'') \<Rightarrow> parse_ranges (ranges @ [r]) s''))"
  by pat_completeness auto
termination
  by (relation "measure (\<lambda>(ranges, s). length (ts_tokens s) - ts_current s)")
     (auto simp: advances_def result_simps
      dest!: advances_parse_range advances_skip ts_advance_if_match_SomeD)

declare parse_ranges.simps [simp del]

text \<open>
  \<open>parse(std::string_view, range_set&)\<close>: the ranges and the pointer of the result. The
  end of the text is not required after the last range.
\<close>

definition parse_range_set :: "string \<Rightarrow> parse_error + (range_set \<times> nat)" where
  "parse_range_set str =
    rbind (lex str) (\<lambda>s.
    rbind (parse_ranges [] s) (\<lambda>(ranges, s).
    rbind (ts_peek s 0) (\<lambda>t. Inr (ranges, tok_lexeme t))))"

section \<open>No read out of range\<close>

lemma reads_skip:
  "lexed r \<Longrightarrow> reads (skip_whitespaces (stream_at p r)) p r (\<lambda>_ ts. list_all (\<lambda>t. tok_type t = Space) ts)"
proof (induction r arbitrary: p)
  case (Cons t r)
  show ?case
  proof (cases "tok_type t = Space")
    case True
    with Cons have "reads (skip_whitespaces (stream_at (p @ [t]) r)) (p @ [t]) r
        (\<lambda>_ ts. list_all (\<lambda>t. tok_type t = Space) ts)" by simp
    with True have "reads (rbind (Inr ((), stream_at (p @ [t]) r)) (\<lambda>(_, s). skip_whitespaces s)) p (t # r)
        (\<lambda>_ ts. list_all (\<lambda>t. tok_type t = Space) ts)"
      using Cons.prems
      by (intro reads_bind [OF readsI [of "t # r" "[t]" r "\<lambda>_ ts. ts = [t]" "()" p]])
        (auto elim: reads_mono)
    with True show ?thesis by (subst skip_whitespaces.simps) (simp add: stream_simps)
  next
    case False
    with Cons.prems show ?thesis
      by (subst skip_whitespaces.simps) (simp add: stream_simps reads_return)
  qed
qed simp

lemma reads_range_comparator:
  assumes "lexed r"
  shows "reads (parse_range_comparator out (stream_at p r)) p r (\<lambda>out' ts. ts \<noteq> [] \<and>
    (\<exists>c. out' = out @ [c] \<and> wf_version (rc_version c)))"
  unfolding parse_range_comparator_def
proof (rule reads_bind [OF reads_match [OF assms]], simp, unfold prod.case, goal_cases)
  case (1 m ts1 r1)
  then obtain op where op: "(case m of None \<Rightarrow> Inr Equal | Some t \<Rightarrow> get_operator_value t) = Inr op"
    by (auto simp: get_operator_value_def wf_token.simps split: option.splits token_value.splits)
  show ?case
    unfolding op rbind_Inr
  proof (rule reads_bind [OF reads_skip [OF 1(2)]], unfold prod.case, goal_cases)
    case (1 _ ts2 r2)
    show ?case
    proof (rule reads_bind [OF reads_version_parse [OF 1(2)]], unfold prod.case, goal_cases)
      case (1 v ts3 r3)
      then have "map tok_char ts3 \<noteq> []" "wf_version v" by (auto simp: reads_version_def version_text_def)
      with 1 show ?case by (auto simp: stream_simps intro: reads_return)
    qed
  qed
qed

lemma reads_range_step:
  assumes "lexed r"
  shows "reads (range_step out (stream_at p r)) p r (\<lambda>out' ts. ts \<noteq> [] \<and>
    (\<exists>c. out' = out @ [c] \<and> wf_version (rc_version c)))"
  unfolding range_step_def
proof (rule reads_bind [OF reads_skip [OF assms]], unfold prod.case, goal_cases)
  case (1 _ ts1 r1)
  show ?case
  proof (rule reads_bind [OF reads_range_comparator [OF 1(2)]], unfold prod.case, goal_cases)
    case (1 out' ts2 r2)
    show ?case
      by (rule reads_bind [OF reads_skip [OF 1(2)]]) (use 1 in \<open>auto intro: reads_return\<close>)
  qed
qed

definition wf_range :: "range \<Rightarrow> bool" where
  "wf_range r \<longleftrightarrow> list_all (\<lambda>c. wf_version (rc_version c)) r"

lemma reads_parse_range:
  "lexed r \<Longrightarrow> reads (parse_range out (stream_at p r)) p r (\<lambda>out' ts. ts \<noteq> [] \<and>
     (\<exists>cs. out' = out @ cs \<and> cs \<noteq> [] \<and> wf_range cs))"
proof (induction "length r" arbitrary: out p r rule: less_induct)
  case less
  show ?case
  proof (cases "range_step out (stream_at p r)")
    case (Inl e)
    with reads_range_step [OF less.prems, of out p] show ?thesis
      by (subst parse_range.simps) (simp add: reads_def)
  next
    case (Inr y)
    with reads_range_step [OF less.prems, of out p] obtain ts r' c where
      1: "r = ts @ r'" "lexed r'" "y = (out @ [c], stream_at (p @ ts) r')" "ts \<noteq> []" "wf_version (rc_version c)"
      by (cases y) (auto simp: reads_def)
    obtain t q where r': "r' = t # q" using 1(2) by (cases r') auto
    have check: "check_comparator_start (stream_at (p @ ts) r') = Inr (tok_type t = Range_operator \<or> tok_type t = Digit)"
      by (simp add: r' check_comparator_start_def stream_simps)
    show ?thesis
    proof (cases "tok_type t = Range_operator \<or> tok_type t = Digit")
      case True
      have eq: "parse_range out (stream_at p r) = rbind (Inr (out @ [c], stream_at (p @ ts) r'))
          (\<lambda>(out, s). parse_range out s)"
        using Inr 1(3) check True by (subst parse_range.simps) simp
      have "length r' < length r" using 1(1,4) by simp
      from less.hyps [OF this 1(2), of "out @ [c]" "p @ ts"] 1 show ?thesis
        unfolding eq by (intro reads_bind [OF readsI [of r ts r' "\<lambda>o' ts'. o' = out @ [c] \<and> ts' = ts"]])
          (auto simp: wf_range_def elim!: reads_mono)
    next
      case False
      have eq: "parse_range out (stream_at p r) = Inr (out @ [c], stream_at (p @ ts) r')"
        using Inr 1 check False by (subst parse_range.simps) (simp add: stream_simps)
      show ?thesis unfolding eq by (rule readsI) (use 1 in \<open>auto simp: wf_range_def\<close>)
    qed
  qed
qed


lemma reads_parse_ranges:
  "lexed r \<Longrightarrow> reads (parse_ranges ranges (stream_at p r)) p r (\<lambda>rs ts. ts \<noteq> [] \<and>
     (\<exists>new. rs = ranges @ new \<and> new \<noteq> [] \<and> list_all (\<lambda>r. r \<noteq> [] \<and> wf_range r) new))"
proof (induction "length r" arbitrary: ranges p r rule: less_induct)
  case less
  let ?m = "rbind (parse_range [] (stream_at p r)) (\<lambda>(r, s). rbind (skip_whitespaces s) (\<lambda>(_, s). Inr (r, s)))"
  have body: "reads ?m p r (\<lambda>cs ts. ts \<noteq> [] \<and> cs \<noteq> [] \<and> wf_range cs)"
  proof (rule reads_bind [OF reads_parse_range [OF less.prems]], unfold prod.case, goal_cases)
    case (1 cs ts1 r1)
    show ?case
      by (rule reads_bind [OF reads_skip [OF 1(2)]]) (use 1 in \<open>auto intro: reads_return\<close>)
  qed
  show ?case
  proof (cases ?m)
    case (Inl e)
    with body show ?thesis by (subst parse_ranges.simps) (simp add: reads_def)
  next
    case (Inr y)
    with body obtain ts r' cs where
      1: "r = ts @ r'" "lexed r'" "y = (cs, stream_at (p @ ts) r')" "ts \<noteq> []" "cs \<noteq> []" "wf_range cs"
      by (cases y) (auto simp: reads_def)
    obtain t q where r': "r' = t # q" using 1(2) by (cases r') auto
    show ?thesis
    proof (cases "tok_type t = Logical_or")
      case True
      with 1(2) r' have q: "lexed q" by simp
      have eq: "parse_ranges ranges (stream_at p r) = rbind (Inr ((), stream_at (p @ ts @ [t]) q))
          (\<lambda>(_, s). parse_ranges (ranges @ [cs]) s)"
        using Inr 1(3) r' True by (subst parse_ranges.simps) (simp add: stream_simps)
      have "length q < length r" using 1(1) r' by simp
      from less.hyps [OF this q, of "ranges @ [cs]" "p @ ts @ [t]"] 1 r' q show ?thesis
        unfolding eq by (intro reads_bind [OF readsI [of r "ts @ [t]" q "\<lambda>_ ts'. ts' = ts @ [t]"]])
          (auto elim!: reads_mono)
    next
      case False
      have eq: "parse_ranges ranges (stream_at p r) = Inr (ranges @ [cs], stream_at (p @ ts) r')"
        using Inr 1 r' False by (subst parse_ranges.simps) (simp add: stream_simps)
      show ?thesis unfolding eq by (rule readsI) (use 1 in auto)
    qed
  qed
qed

lemma parse_range_set_spec:
  "case parse_range_set s of Inl e \<Rightarrow> is_failure e
   | Inr (rs, ptr) \<Rightarrow> rs \<noteq> [] \<and> list_all (\<lambda>r. r \<noteq> [] \<and> wf_range r) rs"
proof (cases "lex s")
  case (Inl e)
  with lex_sound [of s] show ?thesis by (simp add: parse_range_set_def)
next
  case (Inr st)
  with lex_sound [of s] obtain r e where r: "st = stream_at [] (r @ [e])" "lexed (r @ [e])" by auto
  show ?thesis
  proof (cases "parse_ranges [] st")
    case (Inl e')
    with Inr reads_parse_ranges [OF r(2), of "[]" "[]"] r(1) show ?thesis
      by (simp add: parse_range_set_def reads_def)
  next
    case Inr2: (Inr y)
    with reads_parse_ranges [OF r(2), of "[]" "[]"] r(1) obtain ts r' rs where
      1: "lexed r'" "y = (rs, stream_at ts r')" "rs \<noteq> []" "list_all (\<lambda>r. r \<noteq> [] \<and> wf_range r) rs"
      by (cases y) (auto simp: reads_def)
    with Inr Inr2 show ?thesis by (cases r') (auto simp: parse_range_set_def stream_simps)
  qed
qed


section \<open>Printed ranges parse back\<close>

lemma scan_version_text:
  "list_all version_char s \<Longrightarrow> \<exists>r. scan_tokens (s @ cs) pos (stream_at [] acc) =
     scan_tokens cs (pos + length s) (stream_at [] (acc @ r)) \<and> list_all simple_token r \<and> map tok_char r = s"
proof (induction s arbitrary: pos acc)
  case Nil
  show ?case by (rule exI [of _ "[]"]) simp
next
  case (Cons c s)
  from Cons.prems obtain t where t: "scan_token c (s @ cs) (Suc pos) = Inr (t, s @ cs, Suc pos)"
      "simple_token t" "tok_char t = c"
    using scan_token_version_char [of c "s @ cs" "Suc pos"] by auto
  from Cons.prems Cons.IH [of "Suc pos" "acc @ [t]"] obtain r where
    r: "scan_tokens (s @ cs) (Suc pos) (stream_at [] (acc @ [t])) =
      scan_tokens cs (Suc pos + length s) (stream_at [] ((acc @ [t]) @ r))"
      "list_all simple_token r" "map tok_char r = s" by auto
  with t show ?case by (intro exI [of _ "t # r"]) (simp add: ts_push_stream_at)
qed

definition op_text :: "range_operator \<Rightarrow> string" where
  "op_text op = (case op of Less \<Rightarrow> ''<'' | Less_or_equal \<Rightarrow> ''<='' | Greater \<Rightarrow> ''>''
     | Greater_or_equal \<Rightarrow> ''>='' | Equal \<Rightarrow> ''='')"

definition rc_tokens :: "range_comparator \<Rightarrow> token list \<Rightarrow> bool" where
  "rc_tokens c ts \<longleftrightarrow> (\<exists>t r. ts = t # r \<and> tok_type t = Range_operator \<and> wf_token t \<and>
     get_operator_value t = Inr (rc_operator c) \<and> list_all simple_token r \<and>
     map tok_char r = version_to_string (rc_version c))"

lemma scan_operator:
  assumes "c \<noteq> CHR ''=''"
  shows "\<exists>t. scan_tokens (op_text op @ c # cs) pos (stream_at [] acc) =
      scan_tokens (c # cs) (pos + length (op_text op)) (stream_at [] (acc @ [t])) \<and>
    tok_type t = Range_operator \<and> wf_token t \<and> get_operator_value t = Inr op"
  using assms by (cases op)
    (auto simp: op_text_def scan_token_def add_token_def ts_push_stream_at get_operator_value_def wf_token.simps
      simp del: scan_tokens.simps intro!: exI simp: scan_tokens.simps(2) [of _ "_ # cs"] scan_tokens.simps(2) [of _ "_ # _ # cs"])

lemma version_text_first:
  assumes "wf_version v"
  obtains c s where "version_to_string v = c # s" "is_digit c"
proof -
  from assms have "0 \<le> v_major v" by (simp add: wf_version_def)
  then have "decimal (v_major v) \<noteq> [] \<and> is_digit (hd (decimal (v_major v)))"
  proof (induction "nat (v_major v)" arbitrary: v rule: less_induct)
    case less
    show ?case
    proof (cases "v_major v < 10")
      case True
      with less.prems digit_char_facts [of "nat (v_major v)"] show ?thesis by (simp add: decimal_small)
    next
      case False
      with less.hyps [of "v\<lparr>v_major := v_major v div 10\<rparr>"] show ?thesis by (simp add: decimal_large hd_append)
    qed
  qed
  then obtain c s where "decimal (v_major v) = c # s" "is_digit c" by (cases "decimal (v_major v)") auto
  with assms show thesis by (intro that) (auto simp: version_to_string_text wf_version_def version_text_def)
qed

lemma scan_comparator:
  assumes "wf_version (rc_version c)"
  shows "\<exists>ts. scan_tokens (rc_to_string c @ cs) pos (stream_at [] acc) =
      scan_tokens cs (pos + length (rc_to_string c)) (stream_at [] (acc @ ts)) \<and> rc_tokens c ts"
proof -
  obtain d s where v: "version_to_string (rc_version c) = d # s" "is_digit d"
    using assms by (rule version_text_first)
  then have "d \<noteq> CHR ''=''" by (auto simp: is_digit_def)
  from scan_operator [OF this, of "rc_operator c" "s @ cs" pos acc] obtain t where
    t: "scan_tokens (op_text (rc_operator c) @ d # s @ cs) pos (stream_at [] acc) =
      scan_tokens (d # s @ cs) (pos + length (op_text (rc_operator c))) (stream_at [] (acc @ [t]))"
    "tok_type t = Range_operator" "wf_token t" "get_operator_value t = Inr (rc_operator c)" by blast
  from scan_version_text [OF wf_version_chars [OF assms], of cs "pos + length (op_text (rc_operator c))" "acc @ [t]"]
  obtain r where r: "scan_tokens (d # s @ cs) (pos + length (op_text (rc_operator c))) (stream_at [] (acc @ [t])) =
      scan_tokens cs (pos + length (op_text (rc_operator c)) + length (d # s)) (stream_at [] ((acc @ [t]) @ r))"
    "list_all simple_token r" "map tok_char r = version_to_string (rc_version c)"
    by (auto simp: v(1) simp del: scan_tokens.simps)
  have spelt: "rc_to_string c = op_text (rc_operator c) @ d # s" by (simp add: rc_to_string_def op_text_def v(1))
  show ?thesis
    using t r unfolding rc_tokens_def spelt
    by (intro exI [of _ "t # r"] conjI) (simp_all del: scan_tokens.simps add: add.assoc)
qed

fun range_tokens :: "range \<Rightarrow> token list \<Rightarrow> bool" where
  "range_tokens [] ts = False"
| "range_tokens [c] ts = rc_tokens c ts"
| "range_tokens (c # d # cs) ts = (\<exists>a sp b. ts = a @ sp # b \<and> rc_tokens c a \<and> tok_type sp = Space \<and>
     range_tokens (d # cs) b)"

lemma scan_range:
  "r \<noteq> [] \<Longrightarrow> wf_range r \<Longrightarrow> \<exists>ts. scan_tokens (range_to_string r) pos (stream_at [] acc) =
      scan_tokens [] (pos + length (range_to_string r)) (stream_at [] (acc @ ts)) \<and> range_tokens r ts"
proof (induction r arbitrary: pos acc rule: list_nonempty_induct)
  case (single c)
  with scan_comparator [of c "[]" pos acc] show ?case
    by (simp add: wf_range_def range_to_string_def del: scan_tokens.simps)
next
  case (cons c r)
  then obtain d r' where r: "r = d # r'" by (cases r) auto
  have spelt: "range_to_string (c # r) = rc_to_string c @ CHR '' '' # range_to_string r"
    by (simp add: range_to_string_def r)
  from cons.prems have wf: "wf_version (rc_version c)" "wf_range r" by (auto simp: wf_range_def)
  from scan_comparator [OF wf(1), of "CHR '' '' # range_to_string r" pos acc] obtain a where
    a: "scan_tokens (range_to_string (c # r)) pos (stream_at [] acc) = scan_tokens (CHR '' '' # range_to_string r)
      (pos + length (rc_to_string c)) (stream_at [] (acc @ a))" "rc_tokens c a" by (auto simp: spelt)
  define sp where "sp = \<lparr>tok_type = Space, tok_value = Monostate, tok_lexeme = pos + length (rc_to_string c)\<rparr>"
  have sp: "scan_tokens (CHR '' '' # range_to_string r) (pos + length (rc_to_string c)) (stream_at [] (acc @ a)) =
      scan_tokens (range_to_string r) (Suc (pos + length (rc_to_string c))) (stream_at [] ((acc @ a) @ [sp]))"
    by (subst scan_tokens.simps) (simp add: scan_token_def add_token_def ts_push_stream_at sp_def)
  from cons.IH [OF wf(2), of "Suc (pos + length (rc_to_string c))" "(acc @ a) @ [sp]"] obtain b where
    b: "scan_tokens (range_to_string r) (Suc (pos + length (rc_to_string c))) (stream_at [] ((acc @ a) @ [sp])) =
      scan_tokens [] (Suc (pos + length (rc_to_string c)) + length (range_to_string r))
        (stream_at [] (((acc @ a) @ [sp]) @ b))" "range_tokens r b" by blast
  have "scan_tokens (range_to_string (c # r)) pos (stream_at [] acc) =
      scan_tokens [] (pos + length (range_to_string (c # r))) (stream_at [] (acc @ a @ sp # b))"
    unfolding a(1) sp b(1) by (simp add: spelt add.assoc del: scan_tokens.simps)
  moreover have "range_tokens (c # r) (a @ sp # b)"
    using a(2) b(2) unfolding r range_tokens.simps
    by (intro exI [of _ a] exI [of _ sp] exI [of _ b]) (simp add: sp_def)
  ultimately show ?case by blast
qed


lemma simple_digit_type: "simple_token t \<Longrightarrow> is_digit (tok_char t) \<Longrightarrow> tok_type t = Digit"
  by (auto simp: simple_token_def tok_char_def wf_token.simps is_digit_def is_letter_def
      split: token_value.splits)

lemma version_parse_tokens:
  assumes "wf_version v" "map tok_char r = version_to_string v" "list_all simple_token r" "ends_version q"
  shows "version_parse out (stream_at p (r @ q)) = Inr (v, stream_at (p @ r) q)"
proof -
  from assms(1) have "version_to_string v =
      version_text (v_major v) (v_minor v) (v_patch v) (v_prerelease_tag v) (v_build_metadata v)"
    by (simp add: wf_version_def version_to_string_text)
  with assms version_parse_complete [of r _ _ _ _ _ q out p] wf_version_make [OF assms(1)] show ?thesis by metis
qed

lemma skip_nothing: "tok_type t \<noteq> Space \<Longrightarrow> skip_whitespaces (stream_at p (t # r)) = Inr ((), stream_at p (t # r))"
  by (subst skip_whitespaces.simps) (simp add: stream_simps)

lemma skip_one: "tok_type t = Space \<Longrightarrow> tok_type t' \<noteq> Space \<Longrightarrow>
    skip_whitespaces (stream_at p (t # t' # r)) = Inr ((), stream_at (p @ [t]) (t' # r))"
  by (subst skip_whitespaces.simps) (simp add: stream_simps skip_nothing)

lemma parse_comparator_tokens:
  assumes "rc_tokens c ts" "wf_version (rc_version c)" "ends_version q"
  shows "parse_range_comparator out (stream_at p (ts @ q)) = Inr (out @ [c], stream_at (p @ ts) q)"
proof -
  from assms(1) obtain t r where t: "ts = t # r" "tok_type t = Range_operator"
    "get_operator_value t = Inr (rc_operator c)" "list_all simple_token r"
    "map tok_char r = version_to_string (rc_version c)" by (auto simp: rc_tokens_def)
  obtain d s where "version_to_string (rc_version c) = d # s" "is_digit d"
    using assms(2) by (rule version_text_first)
  with t obtain x r' where x: "r = x # r'" "tok_type x = Digit" by (cases r) (auto simp: simple_digit_type)
  have "q \<noteq> []" using assms(3) by (auto simp: ends_version_def)
  with version_parse_tokens [OF assms(2) t(5,4) assms(3), of version_default "p @ [t]"] x t(1,2,3)
  show ?thesis by (simp add: parse_range_comparator_def stream_simps skip_nothing)
qed

lemma rc_tokens_lexed: "rc_tokens c ts \<Longrightarrow> lexed q \<Longrightarrow> lexed (ts @ q)"
  by (auto simp: rc_tokens_def lexed_simple_append)

lemma rc_tokens_first: "rc_tokens c ts \<Longrightarrow> \<exists>t r. ts = t # r \<and> tok_type t = Range_operator"
  by (auto simp: rc_tokens_def)

lemma range_tokens_first: "range_tokens r ts \<Longrightarrow> \<exists>t q. ts = t # q \<and> tok_type t = Range_operator"
  by (induction r ts rule: range_tokens.induct) (auto dest!: rc_tokens_first)

lemma range_tokens_lexed: "range_tokens r ts \<Longrightarrow> lexed q \<Longrightarrow> lexed (ts @ q)"
proof (induction r ts rule: range_tokens.induct)
  case (3 c d cs ts)
  then obtain a sp b where b: "ts = a @ sp # b" "rc_tokens c a" "tok_type sp = Space" "range_tokens (d # cs) b" by auto
  with 3 have "lexed (b @ q)" by auto
  with b rc_tokens_lexed [OF b(2), of "sp # b @ q"] show ?case by (simp add: wf_token.simps)
qed (auto simp: rc_tokens_lexed)

lemma range_step_last:
  assumes "rc_tokens c ts" "wf_version (rc_version c)" "tok_type e = Eol"
  shows "range_step out (stream_at p (ts @ [e])) = Inr (out @ [c], stream_at (p @ ts) [e])"
proof -
  from assms(3) have e: "ends_version [e]" by (simp add: ends_version_def)
  obtain t r where t: "ts = t # r" "tok_type t = Range_operator" using rc_tokens_first [OF assms(1)] by blast
  have "parse_range_comparator out (stream_at p (t # r @ [e])) = Inr (out @ [c], stream_at (p @ ts) [e])"
    using parse_comparator_tokens [OF assms(1,2) e] t by simp
  with t assms(3) show ?thesis by (simp add: range_step_def skip_nothing)
qed

lemma range_step_more:
  assumes "rc_tokens c ts" "wf_version (rc_version c)" "tok_type sp = Space" "tok_type t' = Range_operator"
    "lexed (t' # q)"
  shows "range_step out (stream_at p (ts @ sp # t' # q)) = Inr (out @ [c], stream_at (p @ ts @ [sp]) (t' # q))"
proof -
  from assms have e: "ends_version (sp # t' # q)" by (simp add: ends_version_def wf_token.simps)
  obtain t r where t: "ts = t # r" "tok_type t = Range_operator" using rc_tokens_first [OF assms(1)] by blast
  have "parse_range_comparator out (stream_at p (t # r @ sp # t' # q)) =
      Inr (out @ [c], stream_at (p @ ts) (sp # t' # q))"
    using parse_comparator_tokens [OF assms(1,2) e] t by simp
  with t assms(3,4) show ?thesis by (simp add: range_step_def skip_nothing skip_one)
qed

lemma parse_range_tokens:
  "range_tokens r ts \<Longrightarrow> wf_range r \<Longrightarrow> tok_type e = Eol \<Longrightarrow>
     parse_range out (stream_at p (ts @ [e])) = Inr (out @ r, stream_at (p @ ts) [e])"
proof (induction r ts arbitrary: out p rule: range_tokens.induct)
  case (2 c ts)
  then show ?case
    by (subst parse_range.simps)
      (simp add: range_step_last wf_range_def check_comparator_start_def stream_simps)
next
  case (3 c d cs ts)
  then obtain a sp b where b: "ts = a @ sp # b" "rc_tokens c a" "tok_type sp = Space" "range_tokens (d # cs) b" by auto
  from range_tokens_first [OF b(4)] obtain t q where t: "b = t # q" "tok_type t = Range_operator" by blast
  from 3 b have IH: "parse_range (out @ [c]) (stream_at (p @ a @ [sp]) (b @ [e])) =
      Inr ((out @ [c]) @ d # cs, stream_at ((p @ a @ [sp]) @ b) [e])" by (simp add: wf_range_def)
  have "lexed (t # q @ [e])" using range_tokens_lexed [OF b(4), of "[e]"] 3(4) t by simp
  with range_step_more [OF b(2) _ b(3) t(2), of "q @ [e]" out p] 3(3)
  have "range_step out (stream_at p (ts @ [e])) = Inr (out @ [c], stream_at (p @ a @ [sp]) (b @ [e]))"
    by (simp add: b(1) t(1) wf_range_def)
  with IH t show ?case
    by (subst parse_range.simps) (simp add: check_comparator_start_def stream_simps b(1))
qed simp

lemma parse_range_set_to_string:
  assumes "r \<noteq> []" "wf_range r"
  shows "parse_range_set (range_set_to_string [r]) = Inr ([r], length (range_to_string r))"
proof -
  from scan_range [OF assms, of 0 "[]"] obtain ts where
    ts: "scan_tokens (range_to_string r) 0 (stream_at [] []) =
      scan_tokens [] (length (range_to_string r)) (stream_at [] ts)" "range_tokens r ts" by auto
  define e where "e = \<lparr>tok_type = Eol, tok_value = Monostate, tok_lexeme = length (range_to_string r)\<rparr>"
  have l: "lex (range_to_string r) = Inr (stream_at [] (ts @ [e]))"
    using ts(1) by (simp add: lex_def stream_at_def e_def ts_push_def)
  have "parse_range [] (stream_at [] (ts @ [e])) = Inr (r, stream_at ts [e])"
    using parse_range_tokens [OF ts(2) assms(2), of e "[]" "[]"] by (simp add: e_def)
  then have "parse_ranges [] (stream_at [] (ts @ [e])) = Inr ([r], stream_at ts [e])"
    by (subst parse_ranges.simps) (simp add: skip_nothing e_def stream_simps)
  with l show ?thesis by (simp add: parse_range_set_def range_set_to_string_def stream_simps e_def)
qed


section \<open>Properties\<close>

text \<open>A constraint of one range (one or more comparators on well-formed versions) is given
  back by the parser from its text, and the parser stops at the end of the text.\<close>

lemma single_range_roundtrip:
  assumes "r \<noteq> []" "wf_range r"
  shows "parse_range_set (range_set_to_string [r]) = Inr ([r], length (range_set_to_string [r]))"
  using parse_range_set_to_string [OF assms] by (simp add: range_set_to_string_def)

lemma single_range_roundtrip_witness:
  "parse_range_set ''>=1.2.0 <2.0.0'' =
     Inr ([[\<lparr>rc_version = make_version 1 2 0 [] [], rc_operator = Greater_or_equal\<rparr>,
            \<lparr>rc_version = make_version 2 0 0 [] [], rc_operator = Less\<rparr>]], 14)"
proof -
  let ?r = "[\<lparr>rc_version = make_version 1 2 0 [] [], rc_operator = Greater_or_equal\<rparr>,
            \<lparr>rc_version = make_version 2 0 0 [] [], rc_operator = Less\<rparr>]"
  have "range_set_to_string [?r] = ''>=1.2.0 <2.0.0''" by code_simp
  moreover have "wf_range ?r" by (simp add: wf_range_def wf_version_def make_version_def int_max_def)
  ultimately show ?thesis using single_range_roundtrip [of ?r] by simp
qed

text \<open>Whatever text is given, the parser of constraints never reads a token outside the
  token vector or the wrong alternative of a token's value, and a constraint it accepts has at
  least one range, none of them empty, all of well-formed versions.\<close>

lemma parse_range_set_safe:
  "parse_range_set s \<noteq> Inl Out_of_bounds \<and> parse_range_set s \<noteq> Inl Bad_variant \<and>
   (case parse_range_set s of Inl e \<Rightarrow> True
    | Inr (rs, ptr) \<Rightarrow> rs \<noteq> [] \<and> list_all (\<lambda>r. r \<noteq> [] \<and> wf_range r) rs)"
  using parse_range_set_spec [of s] by (auto simp: is_failure_def split: sum.splits)

text \<open>The text of a constraint with two alternatives does not say so: ranges are joined by a
  space and not by \<open>||\<close>, so the text is read back as one range whose comparators must all hold,
  and version 1.0.0 satisfies the constraint but not the constraint read back from its text.\<close>

lemma alternatives_lost_in_text:
  "case parse_range_set ''1.0.0 || 2.0.0'' of Inl e \<Rightarrow> False
   | Inr (rs, ptr) \<Rightarrow> range_set_to_string rs = ''=1.0.0 =2.0.0'' \<and>
      constraint_contains rs (make_version 1 0 0 [] []) \<and>
      (case parse_range_set (range_set_to_string rs) of Inl e \<Rightarrow> False
       | Inr (rs', ptr') \<Rightarrow> length rs = 2 \<and> length rs' = 1 \<and>
           \<not> constraint_contains rs' (make_version 1 0 0 [] []))"
  by code_simp

text \<open>The parser of constraints stops at the first token that continues no range and does
  not ask for the end of the text: a misspelt separator silently drops the rest of the
  constraint.\<close>

lemma constraint_rest_dropped:
  "parse_range_set ''1.0.0 - <2.0.0'' =
     Inr ([[\<lparr>rc_version = make_version 1 0 0 [] [], rc_operator = Equal\<rparr>]], 6)"
  by code_simp

lemma compare_parsed_same_triple:
  "compare_parsed a b Exclude_prerelease = 0 \<Longrightarrow>
     v_major a = v_major b \<and> v_minor a = v_minor b \<and> v_patch a = v_patch b"
  by (simp add: compare_parsed_def Let_def split: if_splits)

text \<open>A prerelease satisfies a constraint only through a range that has a comparator on a
  prerelease of the same major, minor and patch numbers and whose comparators all hold.\<close>

lemma prerelease_needs_same_triple:
  assumes "constraint_contains rs v" "v_prerelease_tag v \<noteq> []"
  shows "\<exists>r \<in> set rs. (\<forall>c \<in> set r. rc_contains c v) \<and> (\<exists>c \<in> set r. v_prerelease_tag (rc_version c) \<noteq> [] \<and>
    v_major (rc_version c) = v_major v \<and> v_minor (rc_version c) = v_minor v \<and>
    v_patch (rc_version c) = v_patch v)"
proof -
  from assms(1) obtain r where r: "r \<in> set rs" "range_contains r v Exclude_prerelease"
    by (auto simp: constraint_contains_def range_set_contains_def list_ex_iff)
  then have "match_at_least_one_comparator_with_prerelease r v" "\<forall>c \<in> set r. rc_contains c v"
    by (auto simp: range_contains_def list_all_iff split: if_splits)
  moreover from this(1) assms(2) obtain c where "c \<in> set r" "v_prerelease_tag (rc_version c) \<noteq> []"
      "compare_parsed v (rc_version c) Exclude_prerelease = 0"
    by (auto simp: match_at_least_one_comparator_with_prerelease_def list_ex_iff)
  ultimately show ?thesis using r(1) compare_parsed_same_triple by metis
qed

lemma prerelease_needs_same_triple_witness:
  "\<exists>r \<in> set [[\<lparr>rc_version = make_version 1 2 3 ''alpha'' [], rc_operator = Greater\<rparr>]].
     (\<forall>c \<in> set r. rc_contains c (make_version 1 2 3 ''beta'' [])) \<and> (\<exists>c \<in> set r.
        v_prerelease_tag (rc_version c) \<noteq> [] \<and> v_major (rc_version c) = 1 \<and>
        v_minor (rc_version c) = 2 \<and> v_patch (rc_version c) = 3)"
proof -
  have "constraint_contains [[\<lparr>rc_version = make_version 1 2 3 ''alpha'' [], rc_operator = Greater\<rparr>]]
      (make_version 1 2 3 ''beta'' [])" by code_simp
  from prerelease_needs_same_triple [OF this] show ?thesis by (simp add: make_version_def)
qed

end
