(* ===== verification/Value_Types.thy ===== *)
theory Value_Types
  imports Prelude
begin

text \<open>
  The types of values that cross a language boundary (include/plugify/value_type.hpp) and the
  signatures made of them (include/plugify/signarure.hpp): the enumeration, its names, its
  ranges (\<open>ValueUtils\<close>) and the size of each type. The ranges compare enumerators, so the
  model has the number of each (\<open>value_type_code\<close>).
\<close>

section \<open>The enumeration\<close>

datatype value_type =
    Invalid | Void | Bool | Char8 | Char16 | Int8 | Int16 | Int32 | Int64 | UInt8 | UInt16 | UInt32
  | UInt64 | Pointer | Float | Double | Function | String | Any
  | ArrayBool | ArrayChar8 | ArrayChar16 | ArrayInt8 | ArrayInt16 | ArrayInt32 | ArrayInt64
  | ArrayUInt8 | ArrayUInt16 | ArrayUInt32 | ArrayUInt64 | ArrayPointer | ArrayFloat | ArrayDouble
  | ArrayString | ArrayAny | ArrayVector2 | ArrayVector3 | ArrayVector4 | ArrayMatrix4x4
  | Vector2 | Vector3 | Vector4 | Matrix4x4

fun value_type_code :: "value_type \<Rightarrow> nat" where
  "value_type_code Invalid = 0" | "value_type_code Void = 1" | "value_type_code Bool = 2"
| "value_type_code Char8 = 3" | "value_type_code Char16 = 4" | "value_type_code Int8 = 5"
| "value_type_code Int16 = 6" | "value_type_code Int32 = 7" | "value_type_code Int64 = 8"
| "value_type_code UInt8 = 9" | "value_type_code UInt16 = 10" | "value_type_code UInt32 = 11"
| "value_type_code UInt64 = 12" | "value_type_code Pointer = 13" | "value_type_code Float = 14"
| "value_type_code Double = 15" | "value_type_code Function = 16" | "value_type_code String = 17"
| "value_type_code Any = 18" | "value_type_code ArrayBool = 19" | "value_type_code ArrayChar8 = 20"
| "value_type_code ArrayChar16 = 21" | "value_type_code ArrayInt8 = 22"
| "value_type_code ArrayInt16 = 23" | "value_type_code ArrayInt32 = 24"
| "value_type_code ArrayInt64 = 25" | "value_type_code ArrayUInt8 = 26"
| "value_type_code ArrayUInt16 = 27" | "value_type_code ArrayUInt32 = 28"
| "value_type_code ArrayUInt64 = 29" | "value_type_code ArrayPointer = 30"
| "value_type_code ArrayFloat = 31" | "value_type_code ArrayDouble = 32"
| "value_type_code ArrayString = 33" | "value_type_code ArrayAny = 34"
| "value_type_code ArrayVector2 = 35" | "value_type_code ArrayVector3 = 36"
| "value_type_code ArrayVector4 = 37" | "value_type_code ArrayMatrix4x4 = 38"
| "value_type_code Vector2 = 39" | "value_type_code Vector3 = 40" | "value_type_code Vector4 = 41"
| "value_type_code Matrix4x4 = 42"

text \<open>What the preprocessor tests of the target: \<open>_WIN32\<close>, \<open>_M_ARM64\<close> and the width of a pointer.\<close>

record target =
  t_windows :: bool
  t_arm64 :: bool
  t_ptr32 :: bool

definition hidden_param_start :: "target \<Rightarrow> value_type" where
  "hidden_param_start t = (if t_windows t \<and> \<not> t_arm64 t \<or> t_ptr32 t then Vector3 else Matrix4x4)"

fun value_name :: "target \<Rightarrow> value_type \<Rightarrow> string" where
  "value_name t Void = ''void''" | "value_name t Bool = ''bool''" | "value_name t Char8 = ''char8''"
| "value_name t Char16 = ''char16''" | "value_name t Int8 = ''int8''" | "value_name t Int16 = ''int16''"
| "value_name t Int32 = ''int32''" | "value_name t Int64 = ''int64''" | "value_name t UInt8 = ''uint8''"
| "value_name t UInt16 = ''uint16''" | "value_name t UInt32 = ''uint32''"
| "value_name t UInt64 = ''uint64''" | "value_name t Float = ''float''"
| "value_name t Double = ''double''" | "value_name t Function = ''function''"
| "value_name t String = ''string''" | "value_name t Any = ''any''"
| "value_name t ArrayBool = ''bool[]''" | "value_name t ArrayChar8 = ''char8[]''"
| "value_name t ArrayChar16 = ''char16[]''" | "value_name t ArrayInt8 = ''int8[]''"
| "value_name t ArrayInt16 = ''int16[]''" | "value_name t ArrayInt32 = ''int32[]''"
| "value_name t ArrayInt64 = ''int64[]''" | "value_name t ArrayUInt8 = ''uint8[]''"
| "value_name t ArrayUInt16 = ''uint16[]''" | "value_name t ArrayUInt32 = ''uint32[]''"
| "value_name t ArrayUInt64 = ''uint64[]''" | "value_name t ArrayFloat = ''float[]''"
| "value_name t ArrayDouble = ''double[]''" | "value_name t ArrayString = ''string[]''"
| "value_name t ArrayAny = ''any[]''" | "value_name t ArrayVector2 = ''vec2[]''"
| "value_name t ArrayVector3 = ''vec3[]''" | "value_name t ArrayVector4 = ''vec4[]''"
| "value_name t ArrayMatrix4x4 = ''mat4x4[]''" | "value_name t Vector2 = ''vec2''"
| "value_name t Vector3 = ''vec3''" | "value_name t Vector4 = ''vec4''"
| "value_name t Matrix4x4 = ''mat4x4''" | "value_name t Invalid = ''invalid''"
| "value_name t Pointer = (if t_ptr32 t then ''ptr32'' else ''ptr64'')"
| "value_name t ArrayPointer = (if t_ptr32 t then ''ptr32[]'' else ''ptr64[]'')"

section \<open>Ranges of the enumeration\<close>

definition is_between :: "value_type \<Rightarrow> value_type \<Rightarrow> value_type \<Rightarrow> bool" where
  "is_between x a b \<longleftrightarrow> value_type_code a \<le> value_type_code x \<and> value_type_code x \<le> value_type_code b"

definition is_valid_type :: "value_type \<Rightarrow> bool" where
  "is_valid_type t = is_between t Void Matrix4x4"

definition is_scalar :: "value_type \<Rightarrow> bool" where
  "is_scalar t = is_between t Void Function"

definition is_floating :: "value_type \<Rightarrow> bool" where
  "is_floating t = is_between t Float Double"

definition is_object :: "value_type \<Rightarrow> bool" where
  "is_object t = is_between t String ArrayMatrix4x4"

definition is_array :: "value_type \<Rightarrow> bool" where
  "is_array t = is_between t ArrayBool ArrayMatrix4x4"

definition is_struct :: "value_type \<Rightarrow> bool" where
  "is_struct t = is_between t Vector2 Matrix4x4"

definition is_hidden_param :: "target \<Rightarrow> value_type \<Rightarrow> bool" where
  "is_hidden_param tg t = (is_object t \<or> is_between t (hidden_param_start tg) Matrix4x4)"

text \<open>
  \<open>SizeOf\<close>. The sizes of the library's own classes are the compiler's: the string, the
  variant, a vector of any element and the function wrapper.
\<close>

record class_sizes =
  sz_string :: nat
  sz_any :: nat
  sz_vector :: nat
  sz_function :: nat

definition size_of_value :: "target \<Rightarrow> class_sizes \<Rightarrow> value_type \<Rightarrow> nat" where
  "size_of_value tg sz t = (case t of
     Bool \<Rightarrow> 1 | Char8 \<Rightarrow> 1 | Char16 \<Rightarrow> 2 | Int8 \<Rightarrow> 1 | Int16 \<Rightarrow> 2 | Int32 \<Rightarrow> 4 | Int64 \<Rightarrow> 8
   | UInt8 \<Rightarrow> 1 | UInt16 \<Rightarrow> 2 | UInt32 \<Rightarrow> 4 | UInt64 \<Rightarrow> 8
   | Pointer \<Rightarrow> (if t_ptr32 tg then 4 else 8) | Float \<Rightarrow> 4 | Double \<Rightarrow> 8
   | String \<Rightarrow> sz_string sz | Any \<Rightarrow> sz_any sz
   | Vector2 \<Rightarrow> 2 * 4 | Vector3 \<Rightarrow> 3 * 4 | Vector4 \<Rightarrow> 4 * 4 | Matrix4x4 \<Rightarrow> 16 * 4
   | Function \<Rightarrow> sz_function sz | Void \<Rightarrow> 0 | Invalid \<Rightarrow> 0
   | _ \<Rightarrow> sz_vector sz)"

section \<open>Calling conventions and signatures\<close>

datatype call_conv =
    CDecl | StdCall | FastCall | VectorCall | ThisCall | RegParm1 | RegParm2 | RegParm3
  | LightCall2 | LightCall3 | LightCall4 | SoftFloat | HardFloat | X64SystemV | X64Windows

definition max_func_args :: nat where
  "max_func_args = 32"

definition no_var_args :: nat where
  "no_var_args = 255"

text \<open>\<open>plugify::Signature\<close> and its operations; \<open>push_back\<close> of the full argument vector throws.\<close>

record signature =
  sig_call_conv :: call_conv
  sig_ret_type :: value_type
  sig_var_index :: nat
  sig_arg_types :: "value_type list"

definition signature_default :: signature where
  "signature_default = \<lparr>sig_call_conv = CDecl, sig_ret_type = Void, sig_var_index = no_var_args,
     sig_arg_types = []\<rparr>"

definition add_arg :: "value_type \<Rightarrow> signature \<Rightarrow> signature option" where
  "add_arg t s = (if length (sig_arg_types s) < max_func_args
     then Some (s\<lparr>sig_arg_types := sig_arg_types s @ [t]\<rparr>) else None)"

definition has_ret :: "signature \<Rightarrow> bool" where
  "has_ret s \<longleftrightarrow> sig_ret_type s \<noteq> Void"

section \<open>Properties\<close>

text \<open>C40: The ranges of the enumeration partition the valid types: each is a scalar, an object
  or a structure and only one of them; floating-point types are scalars and arrays are objects.\<close>

theorem type_ranges_partition:
  "(is_valid_type t \<longleftrightarrow> t \<noteq> Invalid) \<and> (is_valid_type t \<longleftrightarrow> is_scalar t \<or> is_object t \<or> is_struct t) \<and>
   \<not> (is_scalar t \<and> is_object t) \<and> \<not> (is_scalar t \<and> is_struct t) \<and> \<not> (is_object t \<and> is_struct t) \<and>
   (is_floating t \<longrightarrow> is_scalar t) \<and> (is_array t \<longrightarrow> is_object t)"
  by (cases t) (simp_all add: is_valid_type_def is_scalar_def is_object_def is_struct_def
      is_floating_def is_array_def is_between_def)

lemma type_ranges_partition_witness: "is_floating Double \<and> is_scalar Double"
  using type_ranges_partition [of Double] by (simp add: is_floating_def is_between_def)

end
