(* ===== verification/Paths.thy ===== *)
theory Paths
  imports Prelude
begin

text \<open>
  Paths of \<open>std::filesystem\<close> as the program uses them, on a POSIX target: a path is its text,
  with \<open>/\<close> as the separator. \<open>has_extension\<close> is the helper of include/plg/path.hpp.
\<close>

type_synonym path = string

section \<open>Decomposition\<close>

definition is_sep :: "char \<Rightarrow> bool" where
  "is_sep c \<longleftrightarrow> c = CHR ''/''"

definition path_is_absolute :: "path \<Rightarrow> bool" where
  "path_is_absolute p = (case p of [] \<Rightarrow> False | c # _ \<Rightarrow> is_sep c)"

definition path_filename :: "path \<Rightarrow> path" where
  "path_filename p = rev (takeWhile (\<lambda>c. \<not> is_sep c) (rev p))"

text \<open>The path up to and with its last separator: \<open>remove_filename\<close>.\<close>

definition path_remove_filename :: "path \<Rightarrow> path" where
  "path_remove_filename p = rev (dropWhile (\<lambda>c. \<not> is_sep c) (rev p))"

text \<open>\<open>parent_path\<close>: the path without its last element and the separators before it, the root
  directory being its own parent.\<close>

definition path_parent :: "path \<Rightarrow> path" where
  "path_parent p =
     (let d = dropWhile (\<lambda>c. \<not> is_sep c) (rev p); e = dropWhile is_sep d in
      if e = [] then (if d = [] then [] else ''/'') else rev e)"

definition dot_split :: "string \<Rightarrow> (string \<times> string) option" where
  "dot_split f =
     (let ext = takeWhile (\<lambda>c. c \<noteq> CHR ''.'') (rev f); rest = dropWhile (\<lambda>c. c \<noteq> CHR ''.'') (rev f) in
      case rest of [] \<Rightarrow> None | d # s \<Rightarrow> if s = [] \<or> f = ''..'' then None else Some (rev s, d # rev ext))"

definition path_stem :: "path \<Rightarrow> string" where
  "path_stem p = (case dot_split (path_filename p) of
     None \<Rightarrow> path_filename p | Some (s, e) \<Rightarrow> s)"

definition path_extension :: "path \<Rightarrow> string" where
  "path_extension p = (case dot_split (path_filename p) of None \<Rightarrow> [] | Some (s, e) \<Rightarrow> e)"

section \<open>Composition\<close>

definition path_append :: "path \<Rightarrow> path \<Rightarrow> path" where
  "path_append p q = (if path_is_absolute q then q
     else if path_filename p \<noteq> [] then p @ CHR ''/'' # q else p @ q)"

definition path_replace_filename :: "path \<Rightarrow> path \<Rightarrow> path" where
  "path_replace_filename p q = path_append (path_remove_filename p) q"

section \<open>Elements and normal form\<close>

fun split_seps :: "path \<Rightarrow> string list" where
  "split_seps [] = [[]]"
| "split_seps (c # cs) = (case split_seps cs of
     [] \<Rightarrow> [[c]]
   | x # xs \<Rightarrow> if is_sep c then [] # x # xs else (c # x) # xs)"

text \<open>What the iterator of a path visits: the root directory, the names, and an empty name after a
  trailing separator. Two paths are equal when they have the same elements.\<close>

definition path_names :: "path \<Rightarrow> string list" where
  "path_names p = (let names = filter (\<lambda>x. x \<noteq> []) (split_seps p) in
     names @ (if names \<noteq> [] \<and> p \<noteq> [] \<and> is_sep (last p) then [[]] else []))"

definition path_elements :: "path \<Rightarrow> string list" where
  "path_elements p = (if path_is_absolute p then [''/''] else []) @ path_names p"

definition path_eq :: "path \<Rightarrow> path \<Rightarrow> bool" where
  "path_eq p q \<longleftrightarrow> path_elements p = path_elements q"

text \<open>\<open>lexically_normal\<close>: dots are dropped, a name followed by dot-dot is dropped with it, dot-dot
  directly under the root is dropped. The stack holds the names kept, the last one first.\<close>

fun normal_step :: "bool \<Rightarrow> string list \<Rightarrow> string \<Rightarrow> string list" where
  "normal_step rooted st n =
     (if n = [] \<or> n = ''.'' then st
      else if n = ''..'' then
        (case st of [] \<Rightarrow> if rooted then [] else [n]
         | t # ts \<Rightarrow> if t = ''..'' then n # st else ts)
      else n # st)"

definition path_normal :: "path \<Rightarrow> path" where
  "path_normal p =
     (if p = [] then []
      else let rooted = path_is_absolute p; names = path_names p; st = foldl (normal_step rooted) [] names in
        if st = [] then (if rooted then ''/'' else ''.'')
        else (if rooted then ''/'' else []) @ join_strings ''/'' (rev st) @
          (if hd st \<noteq> ''..'' \<and> last names \<in> {[], ''.'', ''..''} then ''/'' else []))"

section \<open>Extensions of file names\<close>

text \<open>\<open>std::tolower\<close> in the C locale.\<close>

definition to_lower :: "char \<Rightarrow> char" where
  "to_lower c = (let n = of_char c :: nat in if 65 \<le> n \<and> n \<le> 90 then char_of (n + 32) else c)"

definition insensitive_equals :: "string \<Rightarrow> string \<Rightarrow> bool" where
  "insensitive_equals a b \<longleftrightarrow> length a = length b \<and> map to_lower a = map to_lower b"

definition extension_view :: "path \<Rightarrow> nat \<Rightarrow> string" where
  "extension_view p n =
     (if path_extension p = [] then []
      else if length p \<le> n then [] else drop (length p - n) p)"

definition has_extension :: "path \<Rightarrow> string \<Rightarrow> bool" where
  "has_extension p ext = insensitive_equals (extension_view p (length ext)) ext"

section \<open>Facts\<close>

lemma path_split: "path_remove_filename p @ path_filename p = p"
  by (simp add: path_remove_filename_def path_filename_def flip: rev_append)

lemma path_filename_append:
  "list_all (\<lambda>c. \<not> is_sep c) q \<Longrightarrow> path_filename (p @ CHR ''/'' # q) = q"
  by (simp add: path_filename_def is_sep_def list_all_iff takeWhile_append)

lemma path_is_absolute_append: "path_is_absolute p \<Longrightarrow> path_is_absolute (path_append p q)"
  by (auto simp: path_append_def path_is_absolute_def split: list.splits)

lemma path_append_absolute: "path_is_absolute q \<Longrightarrow> path_append p q = q"
  by (simp add: path_append_def)


lemma split_seps_nonempty [simp]: "split_seps p \<noteq> []"
  by (induction p) (auto split: list.splits)

lemma split_seps_names: "\<forall>x \<in> set (split_seps p). \<forall>c \<in> set x. \<not> is_sep c"
  by (induction p) (auto split: list.splits if_splits)

lemma path_names_relative: "\<forall>x \<in> set (path_names p). \<not> path_is_absolute x"
  using split_seps_names [of p]
  by (auto simp: path_names_def Let_def path_is_absolute_def split: list.splits if_splits)

lemma normal_step_names:
  assumes "\<not> path_is_absolute n" "\<forall>x \<in> set st. x \<noteq> [] \<and> \<not> path_is_absolute x"
  shows "\<forall>x \<in> set (normal_step rooted st n). x \<noteq> [] \<and> \<not> path_is_absolute x"
proof (cases "n = ''..''")
  case True
  with assms show ?thesis by (cases st) simp_all
next
  case False
  with assms show ?thesis by simp
qed

lemma normal_names:
  assumes "\<forall>x \<in> set ns. \<not> path_is_absolute x" "\<forall>x \<in> set st. x \<noteq> [] \<and> \<not> path_is_absolute x"
  shows "\<forall>x \<in> set (foldl (normal_step rooted) st ns). x \<noteq> [] \<and> \<not> path_is_absolute x"
  using assms
proof (induction ns arbitrary: st)
  case (Cons n ns)
  have "\<forall>x \<in> set (normal_step rooted st n). x \<noteq> [] \<and> \<not> path_is_absolute x"
    using Cons.prems by (intro normal_step_names) simp_all
  with Cons.prems(1) Cons.IH [of "normal_step rooted st n"] show ?case by (simp del: normal_step.simps)
qed simp

lemma path_normal_absolute [simp]: "path_is_absolute (path_normal p) = path_is_absolute p"
proof (cases "p = [] \<or> path_is_absolute p")
  case True
  then show ?thesis by (auto simp: path_normal_def path_is_absolute_def is_sep_def Let_def)
next
  case False
  let ?st = "foldl (normal_step False) [] (path_names p)"
  have "\<not> path_is_absolute (path_normal p)"
  proof (cases "?st = []")
    case True
    with False show ?thesis by (simp add: path_normal_def path_is_absolute_def is_sep_def Let_def)
  next
    case ne: False
    then obtain x xs where x: "rev ?st = x # xs" by (cases "rev ?st") auto
    then have "x \<in> set ?st" by (metis list.set_intros(1) set_rev)
    then have "x \<noteq> [] \<and> \<not> path_is_absolute x"
      using normal_names [OF path_names_relative [of p], where st = "[]" and rooted = False] by auto
    then obtain c cs where "x = c # cs" "\<not> is_sep c"
      by (cases x) (auto simp: path_is_absolute_def)
    with x False ne show ?thesis
      by (cases xs) (auto simp: path_normal_def path_is_absolute_def Let_def)
  qed
  with False show ?thesis by simp
qed

end
