(* ===== verification/Manifest_Types.thy ===== *)
theory Manifest_Types
  imports Version_Range Value_Types Paths
begin

text \<open>
  The data of a manifest (include/plugify/manifest.hpp and the \<open>*_impl.hpp\<close> files of src/core)
  with the getters that supply defaults. Methods own their properties, but prototypes and enums
  are shared objects: a property holds the address of one or, before \<open>Resolve\<close>, a name. The
  objects live in an explicit store, so that two properties pointing at one prototype really
  share it.
\<close>

section \<open>Shared objects and references to them\<close>

type_synonym addr = nat

text \<open>\<open>Definition<T>\<close>: a shared pointer (null when the field is absent) or a name.\<close>

datatype type_ref = Object "addr option" | Named string

fun definition_of :: "type_ref \<Rightarrow> addr option" where
  "definition_of (Object a) = a"
| "definition_of (Named n) = None"

record enum_value =
  ev_name :: string
  ev_value :: int

record enum_def =
  en_name :: string
  en_values :: "enum_value list"

record property =
  pr_type :: value_type
  pr_ref :: "bool option"
  pr_prototype :: type_ref
  pr_enumerate :: type_ref

definition is_ref :: "property \<Rightarrow> bool" where
  "is_ref p = (case pr_ref p of None \<Rightarrow> False | Some b \<Rightarrow> b)"

record method_def =
  me_param_types :: "property list"
  me_ret_type :: property
  me_name :: string
  me_func_name :: string
  me_call_conv :: "call_conv option"
  me_var_index :: "nat option"

definition get_call_conv :: "method_def \<Rightarrow> call_conv" where
  "get_call_conv m = (case me_call_conv m of None \<Rightarrow> CDecl | Some c \<Rightarrow> c)"

definition get_var_index :: "method_def \<Rightarrow> nat" where
  "get_var_index m = (case me_var_index m of None \<Rightarrow> no_var_args | Some i \<Rightarrow> i)"

text \<open>The store: the prototypes (\<open>Prototype\<close> is \<open>Method\<close>) and the enums, an address being a
  position. A shared pointer is never dangling, so a position outside is never asked for.\<close>

record store =
  st_protos :: "method_def list"
  st_enums :: "enum_def list"

section \<open>Classes\<close>

record param_alias =
  al_name :: string
  al_owner :: "bool option"

definition is_owner :: "param_alias \<Rightarrow> bool" where
  "is_owner a = (case al_owner a of None \<Rightarrow> False | Some b \<Rightarrow> b)"

record binding =
  bi_name :: string
  bi_method :: string
  bi_bind_self :: "bool option"
  bi_param_aliases :: "param_alias option list option"
  bi_ret_alias :: "param_alias option"

definition is_bind_self :: "binding \<Rightarrow> bool" where
  "is_bind_self b = (case bi_bind_self b of None \<Rightarrow> False | Some x \<Rightarrow> x)"

definition get_param_aliases :: "binding \<Rightarrow> param_alias option list" where
  "get_param_aliases b = (case bi_param_aliases b of None \<Rightarrow> [] | Some xs \<Rightarrow> xs)"

record class_def =
  cl_name :: string
  cl_handle_type :: "value_type option"
  cl_invalid_value :: "string option"
  cl_constructors :: "string list option"
  cl_destructor :: "string option"
  cl_bindings :: "binding list"

definition get_handle_type :: "class_def \<Rightarrow> value_type" where
  "get_handle_type c = (case cl_handle_type c of None \<Rightarrow> Void | Some t \<Rightarrow> t)"

definition get_invalid_value :: "class_def \<Rightarrow> string" where
  "get_invalid_value c = (case cl_invalid_value c of None \<Rightarrow> [] | Some s \<Rightarrow> s)"

definition get_constructors :: "class_def \<Rightarrow> string list" where
  "get_constructors c = (case cl_constructors c of None \<Rightarrow> [] | Some s \<Rightarrow> s)"

definition get_destructor :: "class_def \<Rightarrow> string" where
  "get_destructor c = (case cl_destructor c of None \<Rightarrow> [] | Some s \<Rightarrow> s)"

section \<open>Relations between extensions\<close>

type_synonym constraint = range_set

record dependency =
  dp_name :: string
  dp_constraints :: "constraint option"
  dp_optional :: "bool option"

definition dependency_default :: dependency where
  "dependency_default = \<lparr>dp_name = [], dp_constraints = None, dp_optional = None\<rparr>"

definition dependency_constraints :: "dependency \<Rightarrow> constraint" where
  "dependency_constraints d = (case dp_constraints d of None \<Rightarrow> [] | Some c \<Rightarrow> c)"

definition is_optional :: "dependency \<Rightarrow> bool" where
  "is_optional d = (case dp_optional d of None \<Rightarrow> False | Some b \<Rightarrow> b)"

text \<open>\<open>Obsolete\<close> is \<open>Conflict\<close>.\<close>

record conflict =
  cf_name :: string
  cf_constraints :: "constraint option"
  cf_reason :: "string option"

definition conflict_constraints :: "conflict \<Rightarrow> constraint" where
  "conflict_constraints c = (case cf_constraints c of None \<Rightarrow> [] | Some x \<Rightarrow> x)"

definition get_reason :: "conflict \<Rightarrow> string" where
  "get_reason c = (case cf_reason c of None \<Rightarrow> [] | Some s \<Rightarrow> s)"

section \<open>The manifest\<close>

text \<open>
  \<open>mf_store\<close> holds the objects the manifest's shared pointers denote: a parsed manifest owns its
  prototypes and enums, and no two manifests share one.
\<close>

record manifest =
  mf_name :: string
  mf_version :: version
  mf_language :: string
  mf_description :: "string option"
  mf_author :: "string option"
  mf_website :: "string option"
  mf_license :: "string option"
  mf_platforms :: "string list option"
  mf_dependencies :: "dependency list option"
  mf_conflicts :: "conflict list option"
  mf_obsoletes :: "conflict list option"
  mf_entry :: "string option"
  mf_methods :: "method_def list option"
  mf_classes :: "class_def list option"
  mf_prototypes :: "addr list option"
  mf_enums :: "addr list option"
  mf_runtime :: "path option"
  mf_directories :: "path list option"
  mf_store :: store

definition manifest_default :: manifest where
  "manifest_default = \<lparr>mf_name = [], mf_version = version_default, mf_language = [],
     mf_description = None, mf_author = None, mf_website = None, mf_license = None,
     mf_platforms = None, mf_dependencies = None, mf_conflicts = None, mf_obsoletes = None,
     mf_entry = None, mf_methods = None, mf_classes = None, mf_prototypes = None,
     mf_enums = None, mf_runtime = None, mf_directories = None,
     mf_store = \<lparr>st_protos = [], st_enums = []\<rparr>\<rparr>"

text \<open>
  \<open>Manifest::ResolvePaths\<close>: the runtime of a language module is \<open>bin/lib<name>.so\<close> unless the
  manifest names one, and it and the extra directories are relative to the extension's
  directory. The prefix and the suffix of a library's name are the target's.
\<close>

record library_naming =
  ln_prefix :: string
  ln_suffix :: string

definition library_name :: "library_naming \<Rightarrow> path \<Rightarrow> path" where
  "library_name n p = ln_prefix n @ path_stem p @ ln_suffix n"

definition resolve_paths :: "library_naming \<Rightarrow> path \<Rightarrow> path \<Rightarrow> manifest \<Rightarrow> manifest" where
  "resolve_paths n base file m =
     (let r = (case mf_runtime m of
                 Some p \<Rightarrow> path_replace_filename p (library_name n p)
               | None \<Rightarrow> path_append ''bin'' (library_name n file)) in
      m\<lparr>mf_runtime := Some (path_append base r),
        mf_directories := map_option (map (path_append base)) (mf_directories m)\<rparr>)"

end
