(* ===== verification/Manifest_Resolve.thy ===== *)
theory Manifest_Resolve
  imports Manifest_Types "HOL-Library.List_Lexorder" "HOL-Library.Char_ord"
begin

text \<open>
  Linking and checking a manifest (src/core/manifest.cpp): \<open>Manifest::Resolve\<close> with its table of
  types, \<open>Manifest::Validate\<close> and the checks they use.

  Two walks recurse over the graph of prototypes; the model bounds their depth by fuel and
  \<open>None\<close> means it ran out. \<open>resolve_manifest\<close> gives one more than the number of prototypes, and
  \<open>Manifest_Correct\<close> shows that this is enough. The iteration order of a hash map is an argument
  (\<open>hash_order\<close>). A failed resolution drops the manifest, so an error carries no state.
\<close>

section \<open>Where an error is\<close>

datatype position = Scope | Return_type | Param nat

datatype where_ctx = Where "where_ctx option" string string position

fun where_str :: "where_ctx \<Rightarrow> string" where
  "where_str (Where parent label name pos) =
     (let prefix = (case parent of None \<Rightarrow> label | Some p \<Rightarrow> where_str p) in
      case pos of
        Scope \<Rightarrow> prefix
      | Return_type \<Rightarrow> prefix @ '' '' @ quoted name @ '' return type''
      | Param i \<Rightarrow> prefix @ '' '' @ quoted name @ '' param['' @ show_nat i @ '']'')"

section \<open>Validation\<close>

text \<open>The first name of a list that occurs before, as inserting into a set reports it.\<close>

fun first_duplicate :: "string list \<Rightarrow> string list \<Rightarrow> string option" where
  "first_duplicate seen [] = None"
| "first_duplicate seen (x # xs) = (if x \<in> set seen then Some x else first_duplicate (x # seen) xs)"

definition validate_enum :: "enum_def \<Rightarrow> unit result" where
  "validate_enum e = (case first_duplicate [] (map ev_name (en_values e)) of
     None \<Rightarrow> Inr ()
   | Some n \<Rightarrow> Inl (''Duplicate enum value name: '' @ n @ '' in enum '' @ quoted (en_name e)))"

definition validate_property :: "property \<Rightarrow> where_ctx \<Rightarrow> bool \<Rightarrow> unit result" where
  "validate_property p ctx param =
     (if param \<and> pr_type p = Void then Inl (where_str ctx @ '': Parameter cannot be void type'')
      else case pr_prototype p of
        Named n \<Rightarrow> Inl (where_str ctx @ '': Unresolved prototype reference '' @ quoted n)
      | Object proto \<Rightarrow> (case pr_enumerate p of
          Named n \<Rightarrow> Inl (where_str ctx @ '': Unresolved enum reference '' @ quoted n)
        | Object enum \<Rightarrow>
            if pr_type p = Function \<and> proto = None then Inl (where_str ctx @ '': Function type requires prototype'')
            else Inr ()))"

fun validate_params :: "string \<Rightarrow> string \<Rightarrow> nat \<Rightarrow> property list \<Rightarrow> unit result" where
  "validate_params prefix name i [] = Inr ()"
| "validate_params prefix name i (p # ps) =
     rbind (validate_property p (Where None prefix name (Param i)) True)
       (\<lambda>_. validate_params prefix name (Suc i) ps)"

definition validate_method :: "method_def \<Rightarrow> string \<Rightarrow> unit result" where
  "validate_method m prefix =
     rbind (case me_var_index m of
        Some v \<Rightarrow> if v \<noteq> no_var_args \<and> length (me_param_types m) \<le> v
          then Inl (prefix @ '' '' @ quoted (me_name m) @ '': varIndex '' @ show_nat v @
            '' is out of range, the method takes '' @ show_nat (length (me_param_types m)) @ '' parameter(s)'')
          else Inr ()
      | None \<Rightarrow> Inr ()) (\<lambda>_.
     rbind (validate_params prefix (me_name m) 0 (me_param_types m)) (\<lambda>_.
     validate_property (me_ret_type m) (Where None prefix (me_name m) Return_type) False))"

definition is_handleless :: "class_def \<Rightarrow> bool" where
  "is_handleless c \<longleftrightarrow> get_handle_type c = Void"

fun validate_bindings :: "class_def \<Rightarrow> string list \<Rightarrow> binding list \<Rightarrow> unit result" where
  "validate_bindings c seen [] = Inr ()"
| "validate_bindings c seen (b # bs) =
     (if bi_name b \<in> set seen
      then Inl (''Class '' @ quoted (cl_name c) @ '': duplicate binding name '' @ quoted (bi_name b))
      else if is_handleless c \<and> is_bind_self b
      then Inl (''Class '' @ quoted (cl_name c) @ '': binding '' @ quoted (bi_name b) @
        '' sets bindSelf, but a handleless class has no instance to bind'')
      else validate_bindings c (bi_name b # seen) bs)"

definition validate_class :: "class_def \<Rightarrow> unit result" where
  "validate_class c =
     (if is_handleless c \<and> (cl_constructors c \<noteq> None \<or> cl_destructor c \<noteq> None)
      then Inl (''Class '' @ quoted (cl_name c) @ '': handleless classes cannot have constructors or destructors'')
      else validate_bindings c [] (cl_bindings c))"

section \<open>Objects of the store\<close>

definition property_default :: property where
  "property_default = \<lparr>pr_type = Invalid, pr_ref = None, pr_prototype = Object None, pr_enumerate = Object None\<rparr>"

definition method_default :: method_def where
  "method_default = \<lparr>me_param_types = [], me_ret_type = property_default, me_name = [], me_func_name = [],
     me_call_conv = None, me_var_index = None\<rparr>"

definition proto_at :: "store \<Rightarrow> addr \<Rightarrow> method_def" where
  "proto_at s a = (if a < length (st_protos s) then st_protos s ! a else method_default)"

definition enum_at :: "store \<Rightarrow> addr \<Rightarrow> enum_def" where
  "enum_at s a = (if a < length (st_enums s) then st_enums s ! a else \<lparr>en_name = [], en_values = []\<rparr>)"

definition proto_name :: "store \<Rightarrow> addr \<Rightarrow> string" where
  "proto_name s a = me_name (proto_at s a)"

definition enum_name :: "store \<Rightarrow> addr \<Rightarrow> string" where
  "enum_name s a = en_name (enum_at s a)"

definition put_proto :: "addr \<Rightarrow> method_def \<Rightarrow> store \<Rightarrow> store" where
  "put_proto a m s = s\<lparr>st_protos := (st_protos s)[a := m]\<rparr>"

section \<open>Equal definitions\<close>

definition definition_name :: "(addr \<Rightarrow> string) \<Rightarrow> type_ref \<Rightarrow> string" where
  "definition_name name d = (case d of
     Named n \<Rightarrow> n | Object None \<Rightarrow> [] | Object (Some a) \<Rightarrow> name a)"

definition same_property :: "store \<Rightarrow> property \<Rightarrow> property \<Rightarrow> bool" where
  "same_property s l r \<longleftrightarrow> pr_type l = pr_type r \<and> is_ref l = is_ref r \<and>
     definition_name (proto_name s) (pr_prototype l) = definition_name (proto_name s) (pr_prototype r) \<and>
     definition_name (enum_name s) (pr_enumerate l) = definition_name (enum_name s) (pr_enumerate r)"

definition same_enum :: "store \<Rightarrow> addr \<Rightarrow> addr \<Rightarrow> bool" where
  "same_enum s a b \<longleftrightarrow> en_values (enum_at s a) = en_values (enum_at s b)"

definition same_proto :: "store \<Rightarrow> addr \<Rightarrow> addr \<Rightarrow> bool" where
  "same_proto s a b =
     (let l = proto_at s a; r = proto_at s b in
      if me_func_name l \<noteq> me_func_name r \<or> me_call_conv l \<noteq> me_call_conv r \<or> me_var_index l \<noteq> me_var_index r
      then False
      else if \<not> same_property s (me_ret_type l) (me_ret_type r) then False
      else list_all2 (same_property s) (me_param_types l) (me_param_types r))"

section \<open>The table of types\<close>

text \<open>Both maps of \<open>TypeTable\<close>, entries in the order of their insertion.\<close>

type_synonym name_table = "(string \<times> addr) list"

record type_table =
  tt_protos :: name_table
  tt_enums :: name_table

definition type_table_empty :: type_table where
  "type_table_empty = \<lparr>tt_protos = [], tt_enums = []\<rparr>"

text \<open>\<open>Register\<close>: whether the definition is new, the pointer to use and the table.\<close>

definition register ::
    "(addr \<Rightarrow> string) \<Rightarrow> (addr \<Rightarrow> addr \<Rightarrow> bool) \<Rightarrow> string \<Rightarrow> where_ctx \<Rightarrow> addr option \<Rightarrow> name_table \<Rightarrow>
      (bool \<times> addr option \<times> name_table) result" where
  "register name same kind ctx d table = (case d of
     None \<Rightarrow> Inr (False, None, table)
   | Some a \<Rightarrow>
       if name a = [] then Inl (where_str ctx @ '': '' @ kind @ '' definition must have a name'')
       else (case map_of table (name a) of
         None \<Rightarrow> Inr (True, Some a, table @ [(name a, a)])
       | Some b \<Rightarrow>
           if b \<noteq> a \<and> \<not> same b a
           then Inl (where_str ctx @ '': conflicting definitions for '' @ kind @ '' '' @ quoted (name a))
           else Inr (False, Some b, table)))"

definition register_ref ::
    "(addr \<Rightarrow> string) \<Rightarrow> (addr \<Rightarrow> addr \<Rightarrow> bool) \<Rightarrow> string \<Rightarrow> where_ctx \<Rightarrow> type_ref \<Rightarrow> name_table \<Rightarrow>
      (bool \<times> type_ref \<times> name_table) result" where
  "register_ref name same kind ctx r table = (case r of
     Named n \<Rightarrow> Inr (False, r, table)
   | Object d \<Rightarrow> rbind (register name same kind ctx d table) (\<lambda>(new, d, table). Inr (new, Object d, table)))"

section \<open>Pass one: collecting the definitions\<close>

text \<open>The state of the walk: the table and the store.\<close>

type_synonym walk = "type_table \<times> store"

definition register_property :: "where_ctx \<Rightarrow> property \<Rightarrow> walk \<Rightarrow> (bool \<times> property \<times> walk) result" where
  "register_property ctx p = (\<lambda>(t, s).
     rbind (register_ref (proto_name s) (same_proto s) ''prototype'' ctx (pr_prototype p) (tt_protos t))
       (\<lambda>(new, pref, ps).
     rbind (register_ref (enum_name s) (same_enum s) ''enum'' ctx (pr_enumerate p) (tt_enums t))
       (\<lambda>(_, eref, es).
     Inr (new, p\<lparr>pr_prototype := pref, pr_enumerate := eref\<rparr>, \<lparr>tt_protos = ps, tt_enums = es\<rparr>, s))))"

text \<open>
  \<open>Collect\<close> of a property and of the properties of a method. A prototype that the property
  introduced is walked in place: it is written back after its properties have been collected,
  and no other object is walked as this one because it is in the table already.
\<close>

fun collect_property :: "nat \<Rightarrow> where_ctx \<Rightarrow> property \<Rightarrow> walk \<Rightarrow> (property \<times> walk) result option"
  and collect_params :: "nat \<Rightarrow> where_ctx \<Rightarrow> string \<Rightarrow> nat \<Rightarrow> property list \<Rightarrow> walk \<Rightarrow>
    (property list \<times> walk) result option" where
  "collect_property fuel ctx p w =
     (case register_property ctx p w of
        Inl e \<Rightarrow> Some (Inl e)
      | Inr (new, p', t, s) \<Rightarrow>
          if \<not> new then Some (Inr (p', t, s))
          else (case (fuel, definition_of (pr_prototype p')) of
              (Suc fuel', Some a) \<Rightarrow>
                let m = proto_at s a in
                (case collect_params fuel' ctx (me_name m) 0 (me_param_types m) (t, s) of
                   None \<Rightarrow> None
                 | Some (Inl e) \<Rightarrow> Some (Inl e)
                 | Some (Inr (ps, t, s)) \<Rightarrow>
                     (case collect_property fuel' (Where (Some ctx) [] (me_name m) Return_type) (me_ret_type m) (t, s) of
                        None \<Rightarrow> None
                      | Some (Inl e) \<Rightarrow> Some (Inl e)
                      | Some (Inr (r, t, s)) \<Rightarrow>
                          Some (Inr (p', t, put_proto a (m\<lparr>me_param_types := ps, me_ret_type := r\<rparr>) s))))
            | _ \<Rightarrow> None))"
| "collect_params fuel ctx name i [] w = Some (Inr ([], w))"
| "collect_params fuel ctx name i (p # ps) w =
     (case collect_property fuel (Where (Some ctx) [] name (Param i)) p w of
        None \<Rightarrow> None
      | Some (Inl e) \<Rightarrow> Some (Inl e)
      | Some (Inr (p', w)) \<Rightarrow>
          (case collect_params fuel ctx name (Suc i) ps w of
             None \<Rightarrow> None
           | Some (Inl e) \<Rightarrow> Some (Inl e)
           | Some (Inr (ps', w)) \<Rightarrow> Some (Inr (p' # ps', w))))"

declare collect_property.simps [simp del]

definition collect_method :: "nat \<Rightarrow> where_ctx \<Rightarrow> method_def \<Rightarrow> walk \<Rightarrow> (method_def \<times> walk) result option" where
  "collect_method fuel ctx m w =
     (case collect_params fuel ctx (me_name m) 0 (me_param_types m) w of
        None \<Rightarrow> None
      | Some (Inl e) \<Rightarrow> Some (Inl e)
      | Some (Inr (ps, w)) \<Rightarrow>
          (case collect_property fuel (Where (Some ctx) [] (me_name m) Return_type) (me_ret_type m) w of
             None \<Rightarrow> None
           | Some (Inl e) \<Rightarrow> Some (Inl e)
           | Some (Inr (r, w)) \<Rightarrow> Some (Inr (m\<lparr>me_param_types := ps, me_ret_type := r\<rparr>, w))))"

fun collect_methods :: "nat \<Rightarrow> method_def list \<Rightarrow> walk \<Rightarrow> (method_def list \<times> walk) result option" where
  "collect_methods fuel [] w = Some (Inr ([], w))"
| "collect_methods fuel (m # ms) w =
     (case collect_method fuel (Where None ''Method'' [] Scope) m w of
        None \<Rightarrow> None
      | Some (Inl e) \<Rightarrow> Some (Inl e)
      | Some (Inr (m', w)) \<Rightarrow>
          (case collect_methods fuel ms w of
             None \<Rightarrow> None
           | Some (Inl e) \<Rightarrow> Some (Inl e)
           | Some (Inr (ms', w)) \<Rightarrow> Some (Inr (m' # ms', w))))"

fun collect_declared :: "nat \<Rightarrow> addr list \<Rightarrow> walk \<Rightarrow> walk result option" where
  "collect_declared fuel [] w = Some (Inr w)"
| "collect_declared fuel (a # as) w =
     (case collect_method fuel (Where None ''Prototype'' [] Scope) (proto_at (snd w) a) w of
        None \<Rightarrow> None
      | Some (Inl e) \<Rightarrow> Some (Inl e)
      | Some (Inr (m, t, s)) \<Rightarrow> collect_declared fuel as (t, put_proto a m s))"

section \<open>Pass two: linking the names\<close>

definition link_ref :: "string \<Rightarrow> where_ctx \<Rightarrow> name_table \<Rightarrow> type_ref \<Rightarrow> type_ref result" where
  "link_ref kind ctx table r = (case r of
     Object d \<Rightarrow> Inr r
   | Named n \<Rightarrow> (case map_of table n of
       None \<Rightarrow> Inl (where_str ctx @ '': unknown '' @ kind @ '' '' @ quoted n)
     | Some a \<Rightarrow> Inr (Object (Some a))))"

definition link_property :: "type_table \<Rightarrow> where_ctx \<Rightarrow> property \<Rightarrow> property result" where
  "link_property t ctx p =
     rbind (link_ref ''prototype'' ctx (tt_protos t) (pr_prototype p)) (\<lambda>pref.
     rbind (link_ref ''enum'' ctx (tt_enums t) (pr_enumerate p)) (\<lambda>eref.
     Inr (p\<lparr>pr_prototype := pref, pr_enumerate := eref\<rparr>)))"

fun link_params :: "type_table \<Rightarrow> where_ctx \<Rightarrow> string \<Rightarrow> nat \<Rightarrow> property list \<Rightarrow> property list result" where
  "link_params t ctx name i [] = Inr []"
| "link_params t ctx name i (p # ps) =
     rbind (link_property t (Where (Some ctx) [] name (Param i)) p) (\<lambda>p'.
     rbind (link_params t ctx name (Suc i) ps) (\<lambda>ps'. Inr (p' # ps')))"

definition link_method :: "type_table \<Rightarrow> where_ctx \<Rightarrow> method_def \<Rightarrow> method_def result" where
  "link_method t ctx m =
     rbind (link_params t ctx (me_name m) 0 (me_param_types m)) (\<lambda>ps.
     rbind (link_property t (Where (Some ctx) [] (me_name m) Return_type) (me_ret_type m)) (\<lambda>r.
     Inr (m\<lparr>me_param_types := ps, me_ret_type := r\<rparr>)))"

fun link_methods :: "type_table \<Rightarrow> method_def list \<Rightarrow> method_def list result" where
  "link_methods t [] = Inr []"
| "link_methods t (m # ms) =
     rbind (link_method t (Where None ''Method'' [] Scope) m) (\<lambda>m'.
     rbind (link_methods t ms) (\<lambda>ms'. Inr (m' # ms')))"

fun link_protos :: "type_table \<Rightarrow> addr list \<Rightarrow> store \<Rightarrow> store result" where
  "link_protos t [] s = Inr s"
| "link_protos t (a # as) s =
     rbind (link_method t (Where None ''Prototype'' [] Scope) (proto_at s a)) (\<lambda>m.
     link_protos t as (put_proto a m s))"

section \<open>Cycles\<close>

datatype mark = Unvisited | On_stack | Done

text \<open>The prototypes a prototype's parameters and return type point at, in order.\<close>

definition proto_refs :: "store \<Rightarrow> addr \<Rightarrow> addr list" where
  "proto_refs s a = List.map_filter (\<lambda>p. definition_of (pr_prototype p))
     (me_param_types (proto_at s a) @ [me_ret_type (proto_at s a)])"

fun visit :: "nat \<Rightarrow> store \<Rightarrow> addr \<Rightarrow> (addr \<Rightarrow> mark) \<Rightarrow> (addr \<Rightarrow> mark) result option"
  and visit_all :: "nat \<Rightarrow> store \<Rightarrow> addr list \<Rightarrow> (addr \<Rightarrow> mark) \<Rightarrow> (addr \<Rightarrow> mark) result option" where
  "visit fuel s a marks = (case marks a of
     Done \<Rightarrow> Some (Inr marks)
   | On_stack \<Rightarrow> Some (Inl (''Prototype '' @ quoted (proto_name s a) @ '' is part of a reference cycle''))
   | Unvisited \<Rightarrow> (case fuel of
       0 \<Rightarrow> None
     | Suc fuel' \<Rightarrow> (case visit_all fuel' s (proto_refs s a) (marks(a := On_stack)) of
         None \<Rightarrow> None
       | Some (Inl e) \<Rightarrow> Some (Inl e)
       | Some (Inr marks) \<Rightarrow> Some (Inr (marks(a := Done))))))"
| "visit_all fuel s [] marks = Some (Inr marks)"
| "visit_all fuel s (a # as) marks = (case visit fuel s a marks of
     None \<Rightarrow> None
   | Some (Inl e) \<Rightarrow> Some (Inl e)
   | Some (Inr marks) \<Rightarrow> visit_all fuel s as marks)"

declare visit.simps [simp del]

definition detect_cycles :: "nat \<Rightarrow> store \<Rightarrow> addr list \<Rightarrow> unit result option" where
  "detect_cycles fuel s as = map_option (\<lambda>r. rbind r (\<lambda>_. Inr ())) (visit_all fuel s as (\<lambda>_. Unvisited))"

section \<open>Resolve\<close>

fun register_all ::
    "(addr \<Rightarrow> string) \<Rightarrow> (addr \<Rightarrow> addr \<Rightarrow> bool) \<Rightarrow> string \<Rightarrow> addr list \<Rightarrow> name_table \<Rightarrow> (addr list \<times> name_table) result" where
  "register_all name same kind [] table = Inr ([], table)"
| "register_all name same kind (a # as) table =
     rbind (register name same kind (Where None ''Manifest'' [] Scope) (Some a) table) (\<lambda>(_, d, table).
     rbind (register_all name same kind as table) (\<lambda>(ds, table). Inr (the d # ds, table)))"

text \<open>The table of a field, sorted by name; an empty table leaves the field as it is.\<close>

definition publish :: "addr list option \<Rightarrow> name_table \<Rightarrow> addr list option" where
  "publish field table = (if table = [] then field else Some (map snd (sort_key fst table)))"

definition opt_addrs :: "'a list option \<Rightarrow> 'a list" where
  "opt_addrs x = (case x of None \<Rightarrow> [] | Some as \<Rightarrow> as)"

text \<open>The parts of \<open>Resolve\<close> after each pass.\<close>

definition resolve_links ::
    "nat \<Rightarrow> (name_table \<Rightarrow> name_table) \<Rightarrow> manifest \<Rightarrow> method_def list \<Rightarrow> walk \<Rightarrow> manifest result option" where
  "resolve_links fuel hash_order m methods = (\<lambda>(t, s).
     case rbind (link_methods t methods) (\<lambda>ms.
          rbind (link_protos t (map snd (hash_order (tt_protos t))) s) (\<lambda>s. Inr (ms, s))) of
       Inl e \<Rightarrow> Some (Inl e)
     | Inr (ms, s) \<Rightarrow>
         (case detect_cycles fuel s (map snd (hash_order (tt_protos t))) of
            None \<Rightarrow> None
          | Some (Inl e) \<Rightarrow> Some (Inl e)
          | Some (Inr u) \<Rightarrow> Some (Inr (m\<lparr>
              mf_methods := map_option (\<lambda>_. ms) (mf_methods m),
              mf_prototypes := publish (mf_prototypes m) (tt_protos t),
              mf_enums := publish (mf_enums m) (tt_enums t), mf_store := s\<rparr>))))"

definition resolve_manifest ::
    "(name_table \<Rightarrow> name_table) \<Rightarrow> manifest \<Rightarrow> manifest result option" where
  "resolve_manifest hash_order m =
     (let s = mf_store m; fuel = Suc (length (st_protos s)) in
      case rbind (register_all (proto_name s) (same_proto s) ''prototype'' (opt_addrs (mf_prototypes m)) [])
             (\<lambda>(declared, ps).
           rbind (register_all (enum_name s) (same_enum s) ''enum'' (opt_addrs (mf_enums m)) [])
             (\<lambda>(_, es). Inr (declared, \<lparr>tt_protos = ps, tt_enums = es\<rparr>))) of
        Inl e \<Rightarrow> Some (Inl e)
      | Inr (declared, t) \<Rightarrow>
          (case collect_methods fuel (opt_addrs (mf_methods m)) (t, s) of
             None \<Rightarrow> None
           | Some (Inl e) \<Rightarrow> Some (Inl e)
           | Some (Inr (ms, w)) \<Rightarrow>
               (case collect_declared fuel declared w of
                  None \<Rightarrow> None
                | Some (Inl e) \<Rightarrow> Some (Inl e)
                | Some (Inr w) \<Rightarrow> resolve_links fuel hash_order m ms w)))"

section \<open>Validate\<close>

fun validate_methods :: "string list \<Rightarrow> string list \<Rightarrow> method_def list \<Rightarrow> unit result" where
  "validate_methods names funcs [] = Inr ()"
| "validate_methods names funcs (m # ms) =
     (if me_name m \<in> set names then Inl (''Duplicate method name: '' @ me_name m)
      else if me_func_name m \<in> set funcs then Inl (''Duplicate function name: '' @ me_func_name m)
      else rbind (validate_method m ''Method'')
        (\<lambda>_. validate_methods (me_name m # names) (me_func_name m # funcs) ms))"

fun validate_protos :: "method_def list \<Rightarrow> unit result" where
  "validate_protos [] = Inr ()"
| "validate_protos (m # ms) = rbind (validate_method m ''Prototype'') (\<lambda>_. validate_protos ms)"

fun validate_enums :: "enum_def list \<Rightarrow> unit result" where
  "validate_enums [] = Inr ()"
| "validate_enums (e # es) = rbind (validate_enum e) (\<lambda>_. validate_enums es)"

fun validate_classes :: "string list \<Rightarrow> class_def list \<Rightarrow> unit result" where
  "validate_classes names [] = Inr ()"
| "validate_classes names (c # cs) =
     (if cl_name c \<in> set names then Inl (''Duplicate class name: '' @ cl_name c)
      else rbind (validate_class c) (\<lambda>_. validate_classes (cl_name c # names) cs))"

definition validate_manifest :: "manifest \<Rightarrow> unit result" where
  "validate_manifest m =
     rbind (validate_methods [] [] (opt_addrs (mf_methods m))) (\<lambda>_.
     rbind (validate_protos (map (proto_at (mf_store m)) (opt_addrs (mf_prototypes m)))) (\<lambda>_.
     rbind (validate_enums (map (enum_at (mf_store m)) (opt_addrs (mf_enums m)))) (\<lambda>_.
     validate_classes [] (opt_addrs (mf_classes m)))))"

end
