(* ===== verification/Manifest_Correct.thy ===== *)
theory Manifest_Correct
  imports Manifest_Resolve "HOL-Library.Multiset"
begin

text \<open>
  What resolving and validating a manifest guarantees: the cycle check is exact, the fuel is
  enough, no name is left unlinked, the published tables are sorted and name each type once, and
  what \<open>Validate\<close> accepts has the uniqueness the program relies on.
\<close>

section \<open>The cycle check\<close>

text \<open>A prototype and one it points at, the latter first.\<close>

definition refs :: "store \<Rightarrow> (addr \<times> addr) set" where
  "refs s = {(b, a). b \<in> set (proto_refs s a)}"

lemma visit_sound:
  "visit fuel s a marks = Some (Inr marks') \<Longrightarrow> (\<forall>x. marks x = Done \<longrightarrow> x \<in> Wellfounded.acc (refs s)) \<Longrightarrow>
     (\<forall>x. marks' x = Done \<longrightarrow> x \<in> Wellfounded.acc (refs s)) \<and> marks' a = Done \<and>
     (\<forall>x. marks x = Done \<longrightarrow> marks' x = Done) \<and> (\<forall>x. marks' x = On_stack \<longleftrightarrow> marks x = On_stack)"
  "visit_all fuel s as marks = Some (Inr marks') \<Longrightarrow> (\<forall>x. marks x = Done \<longrightarrow> x \<in> Wellfounded.acc (refs s)) \<Longrightarrow>
     (\<forall>x. marks' x = Done \<longrightarrow> x \<in> Wellfounded.acc (refs s)) \<and> (\<forall>x \<in> set as. marks' x = Done) \<and>
     (\<forall>x. marks x = Done \<longrightarrow> marks' x = Done) \<and> (\<forall>x. marks' x = On_stack \<longleftrightarrow> marks x = On_stack)"
proof (induction fuel s a marks and fuel s as marks arbitrary: marks' and marks' rule: visit_visit_all.induct)
  case (1 fuel s a marks)
  show ?case
  proof (cases "marks a")
    case Unvisited
    with "1.prems"(1) obtain f m1 where f: "fuel = Suc f"
      "visit_all f s (proto_refs s a) (marks(a := On_stack)) = Some (Inr m1)" "marks' = m1(a := Done)"
      by (subst (asm) visit.simps) (auto split: nat.splits option.splits sum.splits)
    have pre: "\<forall>x. (marks(a := On_stack)) x = Done \<longrightarrow> x \<in> Wellfounded.acc (refs s)" using "1.prems"(2) by auto
    note IH = "1.IH" [OF Unvisited f(1) f(2) pre]
    have "a \<in> Wellfounded.acc (refs s)" by (rule accI) (use IH in \<open>auto simp: refs_def\<close>)
    with IH Unvisited f(3) show ?thesis by (auto split: if_splits)
  next
    case On_stack
    with "1.prems" show ?thesis by (subst (asm) visit.simps) simp
  next
    case Done
    with "1.prems" show ?thesis by (subst (asm) visit.simps) auto
  qed
next
  case (3 fuel s a as marks)
  from "3.prems"(1) obtain m1 where m1: "visit fuel s a marks = Some (Inr m1)" "visit_all fuel s as m1 = Some (Inr marks')"
    by (auto split: option.splits sum.splits)
  note IH1 = "3.IH"(1) [OF m1(1) "3.prems"(2)]
  note IH2 = "3.IH"(2) [OF m1(1) refl m1(2)]
  from IH1 IH2 show ?case by auto
qed auto

lemma visit_complete:
  "visit fuel s a marks = Some (Inl e) \<Longrightarrow> (\<forall>x. marks x = Done \<longrightarrow> x \<in> Wellfounded.acc (refs s)) \<Longrightarrow>
     (\<forall>x. marks x = On_stack \<longrightarrow> (a, x) \<in> (refs s)\<^sup>+) \<Longrightarrow> \<exists>b. (b, b) \<in> (refs s)\<^sup>+ \<and> (b, a) \<in> (refs s)\<^sup>*"
  "visit_all fuel s as marks = Some (Inl e) \<Longrightarrow> (\<forall>x. marks x = Done \<longrightarrow> x \<in> Wellfounded.acc (refs s)) \<Longrightarrow>
     (\<forall>a \<in> set as. \<forall>x. marks x = On_stack \<longrightarrow> (a, x) \<in> (refs s)\<^sup>+) \<Longrightarrow>
     \<exists>a \<in> set as. \<exists>b. (b, b) \<in> (refs s)\<^sup>+ \<and> (b, a) \<in> (refs s)\<^sup>*"
proof (induction fuel s a marks and fuel s as marks rule: visit_visit_all.induct)
  case (1 fuel s a marks)
  show ?case
  proof (cases "marks a")
    case Unvisited
    with "1.prems"(1) obtain f where f: "fuel = Suc f"
      "visit_all f s (proto_refs s a) (marks(a := On_stack)) = Some (Inl e)"
      by (subst (asm) visit.simps) (auto split: nat.splits option.splits sum.splits)
    have step: "(r, a) \<in> refs s" if "r \<in> set (proto_refs s a)" for r using that by (simp add: refs_def)
    have pre: "\<forall>x. (marks(a := On_stack)) x = Done \<longrightarrow> x \<in> Wellfounded.acc (refs s)" using "1.prems"(2) by auto
    have "\<forall>r \<in> set (proto_refs s a). \<forall>x. (marks(a := On_stack)) x = On_stack \<longrightarrow> (r, x) \<in> (refs s)\<^sup>+"
      using "1.prems"(3) step by (auto intro: trancl_into_trancl2)
    from "1.IH" [OF Unvisited f(1) f(2) pre this] step show ?thesis by (meson rtrancl.rtrancl_into_rtrancl)
  next
    case On_stack
    with "1.prems"(3) show ?thesis by blast
  next
    case Done
    with "1.prems"(1) show ?thesis by (subst (asm) visit.simps) simp
  qed
next
  case (3 fuel s a as marks)
  show ?case
  proof (cases "visit fuel s a marks")
    case None
    with "3.prems"(1) show ?thesis by simp
  next
    case (Some r)
    show ?thesis
    proof (cases r)
      case (Inl x)
      with Some "3.prems"(1) have "visit fuel s a marks = Some (Inl e)" by simp
      from "3.IH"(1) [OF this "3.prems"(2)] "3.prems"(3) show ?thesis by auto
    next
      case (Inr m1)
      with Some have v: "visit fuel s a marks = Some (Inr m1)" by simp
      from visit_sound(1) [OF v "3.prems"(2)] have m1: "\<forall>x. m1 x = Done \<longrightarrow> x \<in> Wellfounded.acc (refs s)"
        "\<forall>x. m1 x = On_stack \<longleftrightarrow> marks x = On_stack" by blast+
      have "\<forall>b \<in> set as. \<forall>x. m1 x = On_stack \<longrightarrow> (b, x) \<in> (refs s)\<^sup>+" using "3.prems"(3) m1(2) by auto
      moreover have "visit_all fuel s as m1 = Some (Inl e)" using "3.prems"(1) v by simp
      ultimately show ?thesis using "3.IH"(2) [OF Some Inr _ m1(1)] by auto
    qed
  qed
qed auto

text \<open>Every address a prototype of the store points at is one of the store.\<close>

definition closed_refs :: "store \<Rightarrow> bool" where
  "closed_refs s \<longleftrightarrow> (\<forall>a. \<forall>b \<in> set (proto_refs s a). b < length (st_protos s))"

definition off_stack :: "store \<Rightarrow> (addr \<Rightarrow> mark) \<Rightarrow> addr set" where
  "off_stack s marks = {x. x < length (st_protos s) \<and> marks x \<noteq> On_stack}"

lemma off_stack_push:
  assumes "a < length (st_protos s)" "marks a = Unvisited"
  shows "card (off_stack s marks) = Suc (card (off_stack s (marks(a := On_stack))))"
proof -
  have "off_stack s marks = insert a (off_stack s (marks(a := On_stack)))"
    using assms by (auto simp: off_stack_def)
  moreover have "a \<notin> off_stack s (marks(a := On_stack))" by (simp add: off_stack_def)
  moreover have "finite (off_stack s (marks(a := On_stack)))" by (simp add: off_stack_def)
  ultimately show ?thesis by simp
qed

lemma visit_enough_fuel:
  "closed_refs s \<Longrightarrow> a < length (st_protos s) \<Longrightarrow> card (off_stack s marks) \<le> fuel \<Longrightarrow>
     (\<forall>x. marks x = Done \<longrightarrow> x \<in> Wellfounded.acc (refs s)) \<Longrightarrow> visit fuel s a marks \<noteq> None"
  "closed_refs s \<Longrightarrow> \<forall>a \<in> set as. a < length (st_protos s) \<Longrightarrow> card (off_stack s marks) \<le> fuel \<Longrightarrow>
     (\<forall>x. marks x = Done \<longrightarrow> x \<in> Wellfounded.acc (refs s)) \<Longrightarrow> visit_all fuel s as marks \<noteq> None"
proof (induction fuel s a marks and fuel s as marks rule: visit_visit_all.induct)
  case (1 fuel s a marks)
  show ?case
  proof (cases "marks a")
    case Unvisited
    from off_stack_push [where marks = marks and a = a, OF "1.prems"(2) Unvisited] "1.prems"(3) obtain f where f: "fuel = Suc f"
      "card (off_stack s (marks(a := On_stack))) \<le> f" by (cases fuel) auto
    have "\<forall>r \<in> set (proto_refs s a). r < length (st_protos s)" using "1.prems"(1) by (simp add: closed_refs_def)
    moreover have "\<forall>x. (marks(a := On_stack)) x = Done \<longrightarrow> x \<in> Wellfounded.acc (refs s)" using "1.prems"(4) by auto
    ultimately have "visit_all f s (proto_refs s a) (marks(a := On_stack)) \<noteq> None"
      by (intro "1.IH" [OF Unvisited f(1) "1.prems"(1) _ f(2)])
    with Unvisited f(1) show ?thesis by (subst visit.simps) (auto split: sum.splits)
  qed (subst visit.simps, simp)+
next
  case (3 fuel s a as marks)
  have "visit fuel s a marks \<noteq> None" using "3.prems" by (intro "3.IH"(1)) auto
  then obtain r where r: "visit fuel s a marks = Some r" by blast
  show ?case
  proof (cases r)
    case (Inl e)
    with r show ?thesis by simp
  next
    case (Inr m1)
    with r visit_sound(1) [of fuel s a marks m1] "3.prems"(4) have
      m1: "\<forall>x. m1 x = Done \<longrightarrow> x \<in> Wellfounded.acc (refs s)" "\<forall>x. m1 x = On_stack \<longleftrightarrow> marks x = On_stack" by blast+
    then have "off_stack s m1 = off_stack s marks" by (simp add: off_stack_def)
    with "3.IH"(2) [OF r Inr "3.prems"(1) _ _ m1(1)] "3.prems" r Inr show ?thesis by simp
  qed
qed simp

lemma detect_cycles_exact:
  assumes "closed_refs s" "\<forall>a \<in> set as. a < length (st_protos s)" "length (st_protos s) \<le> fuel"
  shows "(detect_cycles fuel s as = Some (Inr ()) \<longleftrightarrow> (\<forall>a \<in> set as. a \<in> Wellfounded.acc (refs s))) \<and>
    ((\<exists>e. detect_cycles fuel s as = Some (Inl e)) \<longleftrightarrow>
      (\<exists>a \<in> set as. \<exists>b. (b, b) \<in> (refs s)\<^sup>+ \<and> (b, a) \<in> (refs s)\<^sup>*))"
proof -
  let ?m = "\<lambda>_ :: addr. Unvisited"
  have "card (off_stack s ?m) \<le> length (st_protos s)"
    using card_mono [of "{..<length (st_protos s)}" "off_stack s ?m"] by (auto simp: off_stack_def)
  with visit_enough_fuel(2) [OF assms(1,2), of ?m fuel] assms(3) obtain r where
    r: "visit_all fuel s as ?m = Some r" by fastforce
  have cyclic: "a \<notin> Wellfounded.acc (refs s)" if "(b, b) \<in> (refs s)\<^sup>+" "(b, a) \<in> (refs s)\<^sup>*" for a b
  proof
    assume "a \<in> Wellfounded.acc (refs s)"
    then have "b \<in> Wellfounded.acc (refs s)" using that(2) by (rule acc_downwards)
    then have "\<forall>c. (c, c) \<in> (refs s)\<^sup>+ \<longrightarrow> c \<noteq> b"
    proof (induction rule: acc_induct_rule)
      case (1 x)
      show ?case
      proof (intro allI impI notI)
        fix c assume c: "(c, c) \<in> (refs s)\<^sup>+" "c = x"
        then obtain y where y: "(x, y) \<in> (refs s)\<^sup>*" "(y, x) \<in> refs s" by (auto dest!: tranclD2)
        then have "(y, y) \<in> (refs s)\<^sup>+" by (meson rtrancl_into_trancl2)
        with "1.IH" [OF y(2)] show False by blast
      qed
    qed
    with that(1) show False by blast
  qed
  show ?thesis
  proof (cases r)
    case (Inl e)
    with r visit_complete(2) [of fuel s as ?m e] have c: "\<exists>a \<in> set as. \<exists>b. (b, b) \<in> (refs s)\<^sup>+ \<and> (b, a) \<in> (refs s)\<^sup>*"
      by auto
    with cyclic Inl r show ?thesis by (auto simp: detect_cycles_def)
  next
    case (Inr m)
    with r visit_sound(2) [of fuel s as ?m m] have "\<forall>a \<in> set as. a \<in> Wellfounded.acc (refs s)" by auto
    with cyclic Inr r show ?thesis by (auto simp: detect_cycles_def)
  qed
qed

lemma detect_cycles_sound:
  assumes "detect_cycles fuel s as = Some (Inr ())"
  shows "\<forall>a \<in> set as. a \<in> Wellfounded.acc (refs s)"
proof -
  from assms obtain m where "visit_all fuel s as (\<lambda>_. Unvisited) = Some (Inr m)"
    by (auto simp: detect_cycles_def result_simps)
  from visit_sound(2) [OF this] show ?thesis by simp
qed

lemma detect_cycles_total:
  assumes "closed_refs s" "\<forall>a \<in> set as. a < length (st_protos s)" "length (st_protos s) \<le> fuel"
  shows "\<exists>r. detect_cycles fuel s as = Some r"
proof -
  let ?m = "\<lambda>_ :: addr. Unvisited"
  have "card (off_stack s ?m) \<le> length (st_protos s)"
    using card_mono [of "{..<length (st_protos s)}" "off_stack s ?m"] by (auto simp: off_stack_def)
  with visit_enough_fuel(2) [OF assms(1,2), of ?m fuel] assms(3) show ?thesis
    by (fastforce simp: detect_cycles_def)
qed

section \<open>Tables and stores that fit together\<close>

definition table_ok :: "(addr \<Rightarrow> string) \<Rightarrow> nat \<Rightarrow> name_table \<Rightarrow> bool" where
  "table_ok name n tab \<longleftrightarrow> (\<forall>(x, a) \<in> set tab. a < n \<and> x = name a) \<and> distinct (map fst tab)"

lemma table_ok_nil [simp]: "table_ok name n []"
  by (simp add: table_ok_def)

lemma table_ok_length:
  assumes "table_ok name n tab"
  shows "length tab \<le> n"
proof -
  have "map fst tab = map name (map snd tab)" using assms by (auto simp: table_ok_def)
  then have "distinct (map snd tab)" using assms by (metis distinct_map table_ok_def)
  moreover have "set (map snd tab) \<subseteq> {..<n}" using assms by (auto simp: table_ok_def)
  ultimately show ?thesis by (metis card_lessThan card_mono distinct_card finite_lessThan length_map)
qed

lemma register_ok:
  assumes "register name same kind ctx d tab = Inr (new, d', tab')" "table_ok name n tab"
    "\<And>a. d = Some a \<Longrightarrow> a < n"
  shows "table_ok name n tab' \<and> (\<forall>b. d' = Some b \<longrightarrow> b < n) \<and> (new \<longrightarrow> (\<exists>a. d' = Some a \<and> tab' = tab @ [(name a, a)] \<and> a \<notin> snd ` set tab)) \<and>
    (\<not> new \<longrightarrow> tab' = tab) \<and> (d \<noteq> None \<longrightarrow> d' \<noteq> None) \<and> (\<forall>b. d' = Some b \<longrightarrow> b \<in> snd ` set tab')"
proof (cases d)
  case None
  with assms show ?thesis by (simp add: register_def)
next
  case (Some a)
  show ?thesis
  proof (cases "map_of tab (name a)")
    case None
    with Some assms(1) have e: "new" "d' = Some a" "tab' = tab @ [(name a, a)]"
      by (auto simp: register_def split: if_splits)
    from None have "name a \<notin> fst ` set tab" by (simp add: map_of_eq_None_iff)
    with assms(2) have "a \<notin> snd ` set tab" by (force simp: table_ok_def)
    with \<open>name a \<notin> fst ` set tab\<close> e assms(2) assms(3) [OF Some] show ?thesis by (auto simp: table_ok_def)
  next
    case b: (Some b)
    then have "(name a, b) \<in> set tab" by (rule map_of_SomeD)
    with assms(2) have "b \<in> snd ` set tab" "b < n" by (force simp: table_ok_def)+
    moreover from b Some assms(1) have "\<not> new" "d' = Some b" "tab' = tab" by (simp_all add: register_def split: if_splits)
    ultimately show ?thesis using assms(2) by auto
  qed
qed

definition valid_ref :: "nat \<Rightarrow> type_ref \<Rightarrow> bool" where
  "valid_ref n r \<longleftrightarrow> (\<forall>a. r = Object (Some a) \<longrightarrow> a < n)"

lemma valid_ref_code [code]: "valid_ref n r \<longleftrightarrow> (case definition_of r of None \<Rightarrow> True | Some a \<Rightarrow> a < n)"
  by (cases r) (auto simp: valid_ref_def split: option.split)

lemma register_ref_ok:
  assumes "register_ref name same kind ctx r tab = Inr (new, r', tab')" "table_ok name n tab" "valid_ref n r"
  shows "table_ok name n tab' \<and> valid_ref n r' \<and>
    (new \<longrightarrow> (\<exists>a. definition_of r' = Some a \<and> tab' = tab @ [(name a, a)] \<and> a \<notin> snd ` set tab)) \<and>
    (\<not> new \<longrightarrow> tab' = tab) \<and> (\<forall>b. definition_of r' = Some b \<longrightarrow> b \<in> snd ` set tab')"
proof (cases r)
  case (Object d)
  with assms(1) obtain d' where r: "register name same kind ctx d tab = Inr (new, d', tab')" "r' = Object d'"
    by (auto simp: register_ref_def result_simps)
  have "\<And>a. d = Some a \<Longrightarrow> a < n" using assms(3) Object by (simp add: valid_ref_def)
  from register_ok [OF r(1) assms(2) this] r(2) show ?thesis by (auto simp: valid_ref_def)
next
  case (Named x)
  with assms show ?thesis by (auto simp: register_ref_def)
qed

definition valid_property :: "store \<Rightarrow> property \<Rightarrow> bool" where
  "valid_property s p \<longleftrightarrow> valid_ref (length (st_protos s)) (pr_prototype p) \<and>
     valid_ref (length (st_enums s)) (pr_enumerate p)"

definition valid_method :: "store \<Rightarrow> method_def \<Rightarrow> bool" where
  "valid_method s m \<longleftrightarrow> list_all (valid_property s) (me_param_types m) \<and> valid_property s (me_ret_type m)"

text \<open>The walk keeps the addresses and names of the objects; every pointer stays in the store.\<close>

definition same_shape :: "store \<Rightarrow> store \<Rightarrow> bool" where
  "same_shape s s' \<longleftrightarrow> length (st_protos s') = length (st_protos s) \<and> st_enums s' = st_enums s \<and>
     (\<forall>a. proto_name s' a = proto_name s a)"

lemma same_shape_refl [simp]: "same_shape s s"
  by (simp add: same_shape_def)

lemma same_shape_trans: "same_shape a b \<Longrightarrow> same_shape b c \<Longrightarrow> same_shape a c"
  by (simp add: same_shape_def)

lemma same_shape_valid:
  assumes "same_shape s s'"
  shows "valid_property s' = valid_property s" "valid_method s' = valid_method s"
proof -
  from assms show "valid_property s' = valid_property s" by (auto simp: same_shape_def valid_property_def fun_eq_iff)
  then show "valid_method s' = valid_method s" by (intro ext) (simp add: valid_method_def)
qed

lemma same_shape_names: "same_shape s s' \<Longrightarrow> proto_name s' = proto_name s" "same_shape s s' \<Longrightarrow> enum_name s' = enum_name s"
  by (auto simp: same_shape_def fun_eq_iff enum_name_def enum_at_def)

definition wf_store :: "store \<Rightarrow> bool" where
  "wf_store s \<longleftrightarrow> list_all (valid_method s) (st_protos s)"

definition wf_walk :: "walk \<Rightarrow> bool" where
  "wf_walk = (\<lambda>(t, s). table_ok (proto_name s) (length (st_protos s)) (tt_protos t) \<and>
     table_ok (enum_name s) (length (st_enums s)) (tt_enums t) \<and> wf_store s)"

lemma valid_default [simp]: "valid_method s method_default"
  by (simp add: valid_method_def valid_property_def valid_ref_def method_default_def property_default_def)

lemma wf_store_at: "wf_store s \<Longrightarrow> valid_method s (proto_at s a)"
  by (auto simp: wf_store_def proto_at_def list_all_length)

lemma put_proto_shape: "me_name m = proto_name s a \<Longrightarrow> same_shape s (put_proto a m s)"
  by (cases "a < length (st_protos s)")
    (auto simp: same_shape_def put_proto_def proto_name_def proto_at_def nth_list_update)

lemma put_proto_wf:
  assumes "wf_store s" "valid_method s m" "same_shape s (put_proto a m s)"
  shows "wf_store (put_proto a m s)"
proof -
  have "list_all (valid_method s) ((st_protos s)[a := m])"
  proof (cases "a < length (st_protos s)")
    case True
    with assms(1,2) show ?thesis by (auto simp: wf_store_def list_all_length nth_list_update)
  next
    case False
    with assms(1) show ?thesis by (simp add: wf_store_def list_update_beyond)
  qed
  then show ?thesis by (simp add: wf_store_def same_shape_valid [OF assms(3)]) (simp add: put_proto_def)
qed

text \<open>
  A property is listed when what it points at is in the tables. A step of the walk keeps the
  invariant, the shape, the table it started from and the objects of that table; the objects it
  added are listed.
\<close>

definition listed :: "type_table \<Rightarrow> property \<Rightarrow> bool" where
  "listed t p \<longleftrightarrow> (\<forall>a. definition_of (pr_prototype p) = Some a \<longrightarrow> a \<in> snd ` set (tt_protos t)) \<and>
     (\<forall>a. definition_of (pr_enumerate p) = Some a \<longrightarrow> a \<in> snd ` set (tt_enums t))"

definition listed_method :: "type_table \<Rightarrow> method_def \<Rightarrow> bool" where
  "listed_method t m \<longleftrightarrow> list_all (listed t) (me_param_types m) \<and> listed t (me_ret_type m)"

definition extends :: "type_table \<Rightarrow> type_table \<Rightarrow> bool" where
  "extends t t' \<longleftrightarrow> (\<exists>more. tt_protos t' = tt_protos t @ more) \<and> (\<exists>more. tt_enums t' = tt_enums t @ more)"

lemma extends_refl [simp]: "extends t t"
  by (simp add: extends_def)

lemma extends_trans: "extends a b \<Longrightarrow> extends b c \<Longrightarrow> extends a c"
  by (auto simp: extends_def)

lemma extends_protos: "extends t t' \<Longrightarrow> snd ` set (tt_protos t) \<subseteq> snd ` set (tt_protos t')"
  by (auto simp: extends_def)

lemma listed_extends: "listed t p \<Longrightarrow> extends t t' \<Longrightarrow> listed t' p"
  by (auto simp: listed_def extends_def)

lemma listed_method_extends: "listed_method t m \<Longrightarrow> extends t t' \<Longrightarrow> listed_method t' m"
  by (auto simp: listed_method_def list_all_iff intro: listed_extends)

definition walk_step :: "walk \<Rightarrow> walk \<Rightarrow> bool" where
  "walk_step = (\<lambda>(t, s) (t', s'). wf_walk (t', s') \<and> same_shape s s' \<and> extends t t' \<and>
     (\<forall>a \<in> snd ` set (tt_protos t). proto_at s' a = proto_at s a) \<and>
     (\<forall>a \<in> snd ` set (tt_protos t') - snd ` set (tt_protos t). listed_method t' (proto_at s' a)))"

lemma walk_step_refl: "wf_walk w \<Longrightarrow> walk_step w w"
  by (cases w) (simp add: walk_step_def)

lemma walk_step_trans:
  assumes "walk_step a b" "walk_step b c"
  shows "walk_step a c"
proof -
  obtain t s t1 s1 t2 s2 where e: "a = (t, s)" "b = (t1, s1)" "c = (t2, s2)" by (cases a; cases b; cases c)
  let ?A = "\<lambda>t. snd ` set (tt_protos t)"
  from assms e have f: "wf_walk (t2, s2)" "same_shape s s1" "same_shape s1 s2" "extends t t1" "extends t1 t2"
    "\<forall>a \<in> ?A t. proto_at s1 a = proto_at s a" "\<forall>a \<in> ?A t1. proto_at s2 a = proto_at s1 a"
    "\<forall>a \<in> ?A t1 - ?A t. listed_method t1 (proto_at s1 a)" "\<forall>a \<in> ?A t2 - ?A t1. listed_method t2 (proto_at s2 a)"
    by (simp_all add: walk_step_def)
  have "listed_method t2 (proto_at s2 x)" if "x \<in> ?A t2" "x \<notin> ?A t" for x
  proof (cases "x \<in> ?A t1")
    case True
    with f(8) that(2) have "listed_method t1 (proto_at s1 x)" by blast
    with f(5,7) True show ?thesis using listed_method_extends by metis
  next
    case False
    with f(9) that(1) show ?thesis by blast
  qed
  moreover have "\<forall>x \<in> ?A t. proto_at s2 x = proto_at s x" using f(6,7) extends_protos [OF f(4)] by (metis subsetD)
  ultimately show ?thesis unfolding e walk_step_def
    using f(1) same_shape_trans [OF f(2,3)] extends_trans [OF f(4,5)] by auto
qed

lemma walk_step_wf: "walk_step a b \<Longrightarrow> wf_walk b"
  by (cases a; cases b) (simp add: walk_step_def)

lemma walk_step_shape: "walk_step a b \<Longrightarrow> same_shape (snd a) (snd b)"
  by (cases a; cases b) (simp add: walk_step_def)

lemma walk_step_extends: "walk_step a b \<Longrightarrow> extends (fst a) (fst b)"
  by (cases a; cases b) (simp add: walk_step_def)

lemma register_property_ok:
  assumes "register_property ctx p (t, s) = Inr (new, p', t', s')" "wf_walk (t, s)" "valid_property s p"
  shows "s' = s \<and> wf_walk (t', s) \<and> extends t t' \<and> valid_property s p' \<and> listed t' p' \<and>
    (if new then \<exists>a. definition_of (pr_prototype p') = Some a \<and> tt_protos t' = tt_protos t @ [(proto_name s a, a)] \<and>
        a \<notin> snd ` set (tt_protos t)
     else tt_protos t' = tt_protos t)"
proof -
  from assms(1) obtain pref ps new2 eref es where
    r: "register_ref (proto_name s) (same_proto s) ''prototype'' ctx (pr_prototype p) (tt_protos t) = Inr (new, pref, ps)"
      "register_ref (enum_name s) (same_enum s) ''enum'' ctx (pr_enumerate p) (tt_enums t) = Inr (new2, eref, es)"
      "p' = p\<lparr>pr_prototype := pref, pr_enumerate := eref\<rparr>" "t' = \<lparr>tt_protos = ps, tt_enums = es\<rparr>" "s' = s"
    by (auto simp: register_property_def result_simps)
  have w: "table_ok (proto_name s) (length (st_protos s)) (tt_protos t)" "valid_ref (length (st_protos s)) (pr_prototype p)"
    "table_ok (enum_name s) (length (st_enums s)) (tt_enums t)" "valid_ref (length (st_enums s)) (pr_enumerate p)"
    using assms(2,3) by (simp_all add: wf_walk_def valid_property_def)
  note P = register_ref_ok [OF r(1) w(1,2)] and E = register_ref_ok [OF r(2) w(3,4)]
  have "\<exists>more. es = tt_enums t @ more" using E by (cases new2) auto
  with P E assms(2) r(3-5) show ?thesis by (auto simp: wf_walk_def valid_property_def extends_def listed_def)
qed

definition enough :: "nat \<Rightarrow> walk \<Rightarrow> bool" where
  "enough fuel = (\<lambda>(t, s). length (st_protos s) \<le> fuel + length (tt_protos t))"

lemma enough_step: "enough fuel w \<Longrightarrow> walk_step w w' \<Longrightarrow> enough fuel w'"
  by (cases w; cases w') (auto simp: enough_def walk_step_def same_shape_def extends_def)

definition property_ok :: "nat \<Rightarrow> bool" where
  "property_ok fuel \<longleftrightarrow> (\<forall>ctx p w. wf_walk w \<longrightarrow> valid_property (snd w) p \<longrightarrow> enough fuel w \<longrightarrow>
     (\<exists>r. collect_property fuel ctx p w = Some r \<and>
       (\<forall>p' w'. r = Inr (p', w') \<longrightarrow> walk_step w w' \<and> valid_property (snd w') p' \<and> listed (fst w') p')))"

lemma property_okD:
  assumes "property_ok fuel" "wf_walk w" "valid_property (snd w) p" "enough fuel w"
  shows "(\<exists>e. collect_property fuel ctx p w = Some (Inl e)) \<or>
    (\<exists>p' t' s'. collect_property fuel ctx p w = Some (Inr (p', t', s')) \<and> walk_step w (t', s') \<and>
      valid_property s' p' \<and> listed t' p')"
proof -
  from assms obtain r where r: "collect_property fuel ctx p w = Some r"
    "\<forall>p' w'. r = Inr (p', w') \<longrightarrow> walk_step w w' \<and> valid_property (snd w') p' \<and> listed (fst w') p'"
    unfolding property_ok_def by blast
  show ?thesis
  proof (cases r)
    case (Inl e)
    with r show ?thesis by blast
  next
    case (Inr y)
    obtain p' t' s' where "y = (p', t', s')" by (cases y)
    with r Inr show ?thesis by simp
  qed
qed

lemma collect_params_ok:
  assumes "property_ok fuel"
  shows "wf_walk w \<Longrightarrow> list_all (valid_property (snd w)) ps \<Longrightarrow> enough fuel w \<Longrightarrow>
     (\<exists>e. collect_params fuel ctx name i ps w = Some (Inl e)) \<or>
     (\<exists>ps' t' s'. collect_params fuel ctx name i ps w = Some (Inr (ps', t', s')) \<and> walk_step w (t', s') \<and>
       list_all (valid_property s') ps' \<and> list_all (listed t') ps')"
proof (induction ps arbitrary: i w)
  case Nil
  then show ?case by (cases w) (auto intro: walk_step_refl)
next
  case (Cons p ps)
  from Cons.prems have p: "valid_property (snd w) p" by simp
  from property_okD [OF assms Cons.prems(1) p Cons.prems(3), of "Where (Some ctx) [] name (Param i)"]
  consider (failed) e where "collect_property fuel (Where (Some ctx) [] name (Param i)) p w = Some (Inl e)"
    | (got) p' t' s' where "collect_property fuel (Where (Some ctx) [] name (Param i)) p w = Some (Inr (p', t', s'))"
      "walk_step w (t', s')" "valid_property s' p'" "listed t' p'" by blast
  then show ?case
  proof cases
    case failed
    then show ?thesis by simp
  next
    case got
    from Cons.prems(2) have "list_all (valid_property (snd (t', s'))) ps"
      using same_shape_valid [OF walk_step_shape [OF got(2)]] by simp
    from Cons.IH [OF walk_step_wf [OF got(2)] this enough_step [OF Cons.prems(3) got(2)], of "Suc i"]
    consider (no) e where "collect_params fuel ctx name (Suc i) ps (t', s') = Some (Inl e)"
      | (yes) ps' t'' s'' where "collect_params fuel ctx name (Suc i) ps (t', s') = Some (Inr (ps', t'', s''))"
        "walk_step (t', s') (t'', s'')" "list_all (valid_property s'') ps'" "list_all (listed t'') ps'" by blast
    then show ?thesis
    proof cases
      case no
      with got(1) show ?thesis by simp
    next
      case yes
      from got(3,4) have "valid_property s'' p'" "listed t'' p'"
        using same_shape_valid [OF walk_step_shape [OF yes(2)]] walk_step_extends [OF yes(2)] by (auto intro: listed_extends)
      with yes walk_step_trans [OF got(2) yes(2)] got(1) show ?thesis by simp
    qed
  qed
qed

lemma collect_method_ok:
  assumes "property_ok fuel" "wf_walk w" "valid_method (snd w) m" "enough fuel w"
  shows "(\<exists>e. collect_method fuel ctx m w = Some (Inl e)) \<or>
    (\<exists>m' t' s'. collect_method fuel ctx m w = Some (Inr (m', t', s')) \<and> walk_step w (t', s') \<and>
       valid_method s' m' \<and> listed_method t' m' \<and> me_name m' = me_name m)"
proof -
  from assms(3) have v: "list_all (valid_property (snd w)) (me_param_types m)" "valid_property (snd w) (me_ret_type m)"
    by (simp_all add: valid_method_def)
  from collect_params_ok [OF assms(1,2) v(1) assms(4), of ctx "me_name m" 0]
  consider (no) e where "collect_params fuel ctx (me_name m) 0 (me_param_types m) w = Some (Inl e)"
    | (yes) ps' t' s' where "collect_params fuel ctx (me_name m) 0 (me_param_types m) w = Some (Inr (ps', t', s'))"
      "walk_step w (t', s')" "list_all (valid_property s') ps'" "list_all (listed t') ps'" by blast
  then show ?thesis
  proof cases
    case no
    then show ?thesis by (simp add: collect_method_def)
  next
    case yes
    have v': "valid_property (snd (t', s')) (me_ret_type m)"
      using v(2) same_shape_valid [OF walk_step_shape [OF yes(2)]] by simp
    let ?c = "collect_property fuel (Where (Some ctx) [] (me_name m) Return_type) (me_ret_type m) (t', s')"
    from property_okD [OF assms(1) walk_step_wf [OF yes(2)] v' enough_step [OF assms(4) yes(2)],
        of "Where (Some ctx) [] (me_name m) Return_type"]
    consider (failed) e where "?c = Some (Inl e)"
      | (got) p t'' s'' where "?c = Some (Inr (p, t'', s''))" "walk_step (t', s') (t'', s'')" "valid_property s'' p"
        "listed t'' p" by blast
    then show ?thesis
    proof cases
      case failed
      with yes show ?thesis by (simp add: collect_method_def)
    next
      case got
      from yes(3,4) have "list_all (valid_property s'') ps'" "list_all (listed t'') ps'"
        using same_shape_valid [OF walk_step_shape [OF got(2)]] walk_step_extends [OF got(2)]
        by (auto simp: list_all_iff intro: listed_extends)
      with got walk_step_trans [OF yes(2) got(2)] yes(1) show ?thesis
        by (simp add: collect_method_def valid_method_def listed_method_def)
    qed
  qed
qed

lemma put_new:
  assumes "walk_step (t, s) (t', s')" "extends u t" "snd ` set (tt_protos t) = insert a (snd ` set (tt_protos u))"
    "a \<notin> snd ` set (tt_protos u)" "valid_method s' m" "listed_method t' m" "me_name m = proto_name s a" "a < length (st_protos s)"
  shows "walk_step (u, s) (t', put_proto a m s')"
proof -
  let ?A = "\<lambda>t. snd ` set (tt_protos t)"
  from assms(1) have f: "wf_walk (t', s')" "same_shape s s'" "extends t t'"
    "\<forall>x \<in> ?A t. proto_at s' x = proto_at s x" "\<forall>x \<in> ?A t' - ?A t. listed_method t' (proto_at s' x)"
    by (simp_all add: walk_step_def)
  have shape: "same_shape s' (put_proto a m s')"
    using assms(7) f(2) by (intro put_proto_shape) (simp add: same_shape_def)
  have at: "proto_at (put_proto a m s') x = (if x = a then m else proto_at s' x)" for x
    using f(2) assms(8) by (simp add: proto_at_def put_proto_def same_shape_def)
  have "wf_store (put_proto a m s')" using put_proto_wf [OF _ assms(5) shape] f(1) by (simp add: wf_walk_def)
  then have "wf_walk (t', put_proto a m s')"
    using f(1) same_shape_names [OF shape] shape by (simp add: wf_walk_def same_shape_def)
  moreover have "\<forall>x \<in> ?A u. proto_at (put_proto a m s') x = proto_at s x" using f(4) assms(3,4) at by auto
  moreover have "\<forall>x \<in> ?A t' - ?A u. listed_method t' (proto_at (put_proto a m s') x)"
    using f(5) assms(3,6) at by auto
  ultimately show ?thesis unfolding walk_step_def
    using same_shape_trans [OF f(2) shape] extends_trans [OF assms(2) f(3)] by simp
qed

lemma collect_new:
  assumes "register_property ctx p w = Inr (True, p', t, s)" "definition_of (pr_prototype p') = Some a"
  shows "collect_property (Suc fuel) ctx p w = (case collect_method fuel ctx (proto_at s a) (t, s) of
      None \<Rightarrow> None
    | Some (Inl e) \<Rightarrow> Some (Inl e)
    | Some (Inr (m, t, s)) \<Rightarrow> Some (Inr (p', t, put_proto a m s)))"
  using assms
  by (subst collect_property.simps) (simp add: collect_method_def Let_def split: option.split sum.split)

lemma property_ok_all: "property_ok fuel"
proof (induction fuel)
  case (Suc fuel)
  show ?case unfolding property_ok_def
  proof (intro allI impI)
    fix ctx p and w :: walk
    assume pre: "wf_walk w" "valid_property (snd w) p" "enough (Suc fuel) w"
    obtain t s where w: "w = (t, s)" by (cases w)
    let ?goal = "\<exists>r. collect_property (Suc fuel) ctx p w = Some r \<and>
       (\<forall>p' w'. r = Inr (p', w') \<longrightarrow> walk_step w w' \<and> valid_property (snd w') p' \<and> listed (fst w') p')"
    show ?goal
    proof (cases "register_property ctx p w")
      case (Inl e)
      then show ?thesis by (subst collect_property.simps) simp
    next
      case (Inr y)
      obtain new p1 t1 s1 where y: "y = (new, p1, t1, s1)" by (cases y)
      from register_property_ok [of ctx p t s new p1 t1 s1] Inr y w pre
      have reg: "s1 = s" "wf_walk (t1, s)" "extends t t1" "valid_property s p1" "listed t1 p1"
        "if new then \<exists>a. definition_of (pr_prototype p1) = Some a \<and> tt_protos t1 = tt_protos t @ [(proto_name s a, a)] \<and>
            a \<notin> snd ` set (tt_protos t) else tt_protos t1 = tt_protos t" by auto
      show ?thesis
      proof (cases new)
        case False
        with reg w have "walk_step w (t1, s)" by (auto simp: walk_step_def)
        with False Inr y reg show ?thesis by (subst collect_property.simps) simp
      next
        case True
        with reg(6) obtain a where a: "definition_of (pr_prototype p1) = Some a"
          "tt_protos t1 = tt_protos t @ [(proto_name s a, a)]" "a \<notin> snd ` set (tt_protos t)" by auto
        have len: "a < length (st_protos s)" using reg(2) a(2) by (simp add: wf_walk_def table_ok_def)
        have f: "enough fuel (t1, s)" using pre(3) w a(2) by (simp add: enough_def)
        have v: "valid_method (snd (t1, s)) (proto_at s a)" using reg(2) by (simp add: wf_walk_def wf_store_at)
        have eq: "register_property ctx p w = Inr (True, p1, t1, s)" using Inr y True reg(1) by simp
        from collect_method_ok [OF Suc.IH reg(2) v f, of ctx]
        consider (no) e where "collect_method fuel ctx (proto_at s a) (t1, s) = Some (Inl e)"
          | (yes) m t' s' where "collect_method fuel ctx (proto_at s a) (t1, s) = Some (Inr (m, t', s'))"
            "walk_step (t1, s) (t', s')" "valid_method s' m" "listed_method t' m" "me_name m = me_name (proto_at s a)" by blast
        then show ?thesis
        proof cases
          case no
          with collect_new [OF eq a(1)] show ?thesis by simp
        next
          case yes
          have step: "walk_step (t, s) (t', put_proto a m s')"
            by (rule put_new [OF yes(2) reg(3)]) (use a yes len in \<open>auto simp: proto_name_def\<close>)
          have "listed t' p1" using reg(5) walk_step_extends [OF yes(2)] by (simp add: listed_extends)
          moreover have "valid_property (put_proto a m s') p1"
            using reg(4) same_shape_valid [OF walk_step_shape [OF step]] by simp
          ultimately show ?thesis using collect_new [OF eq a(1), of fuel] yes(1) step w by simp
        qed
      qed
    qed
  qed
next
  case 0
  show ?case unfolding property_ok_def
  proof (intro allI impI)
    fix ctx p and w :: walk
    assume pre: "wf_walk w" "valid_property (snd w) p" "enough 0 w"
    obtain t s where w: "w = (t, s)" by (cases w)
    show "\<exists>r. collect_property 0 ctx p w = Some r \<and>
       (\<forall>p' w'. r = Inr (p', w') \<longrightarrow> walk_step w w' \<and> valid_property (snd w') p' \<and> listed (fst w') p')"
    proof (cases "register_property ctx p w")
      case (Inl e)
      then show ?thesis by (subst collect_property.simps) simp
    next
      case (Inr y)
      obtain new p1 t1 s1 where y: "y = (new, p1, t1, s1)" by (cases y)
      from register_property_ok [of ctx p t s new p1 t1 s1] Inr y w pre
      have reg: "s1 = s" "wf_walk (t1, s)" "extends t t1" "valid_property s p1" "listed t1 p1"
        "if new then \<exists>a. definition_of (pr_prototype p1) = Some a \<and> tt_protos t1 = tt_protos t @ [(proto_name s a, a)] \<and>
            a \<notin> snd ` set (tt_protos t) else tt_protos t1 = tt_protos t" by auto
      have "length (tt_protos t1) \<le> length (st_protos s)" using reg(2) by (auto simp: wf_walk_def dest: table_ok_length)
      with pre(3) w reg(6) have "\<not> new" by (auto simp: enough_def)
      with reg w have "walk_step w (t1, s)" by (auto simp: walk_step_def)
      with \<open>\<not> new\<close> Inr y reg show ?thesis by (subst collect_property.simps) simp
    qed
  qed
qed

lemma collect_methods_ok:
  "wf_walk w \<Longrightarrow> list_all (valid_method (snd w)) ms \<Longrightarrow> enough fuel w \<Longrightarrow>
     (\<exists>e. collect_methods fuel ms w = Some (Inl e)) \<or>
     (\<exists>ms' t' s'. collect_methods fuel ms w = Some (Inr (ms', t', s')) \<and> walk_step w (t', s') \<and>
       list_all (valid_method s') ms' \<and> list_all (listed_method t') ms' \<and> length ms' = length ms)"
proof (induction ms arbitrary: w)
  case Nil
  then show ?case by (cases w) (auto intro: walk_step_refl)
next
  case (Cons m ms)
  from Cons.prems have m: "valid_method (snd w) m" by simp
  from collect_method_ok [OF property_ok_all Cons.prems(1) m Cons.prems(3), of "Where None ''Method'' [] Scope"]
  consider (failed) e where "collect_method fuel (Where None ''Method'' [] Scope) m w = Some (Inl e)"
    | (got) m' t' s' where "collect_method fuel (Where None ''Method'' [] Scope) m w = Some (Inr (m', t', s'))"
      "walk_step w (t', s')" "valid_method s' m'" "listed_method t' m'" by blast
  then show ?case
  proof cases
    case failed
    then show ?thesis by simp
  next
    case got
    from Cons.prems(2) have "list_all (valid_method (snd (t', s'))) ms"
      using same_shape_valid [OF walk_step_shape [OF got(2)]] by simp
    from Cons.IH [OF walk_step_wf [OF got(2)] this enough_step [OF Cons.prems(3) got(2)]]
    consider (no) e where "collect_methods fuel ms (t', s') = Some (Inl e)"
      | (yes) ms' t'' s'' where "collect_methods fuel ms (t', s') = Some (Inr (ms', t'', s''))"
        "walk_step (t', s') (t'', s'')" "list_all (valid_method s'') ms'" "list_all (listed_method t'') ms'"
        "length ms' = length ms" by blast
    then show ?thesis
    proof cases
      case no
      with got(1) show ?thesis by simp
    next
      case yes
      from got(3,4) have "valid_method s'' m'" "listed_method t'' m'"
        using same_shape_valid [OF walk_step_shape [OF yes(2)]] walk_step_extends [OF yes(2)]
        by (auto intro: listed_method_extends)
      with yes walk_step_trans [OF got(2) yes(2)] got(1) show ?thesis by simp
    qed
  qed
qed

text \<open>After the declared prototypes have been walked, every object of the table is listed.\<close>

lemma collect_declared_ok:
  "wf_walk (t, s) \<Longrightarrow> set as \<subseteq> snd ` set (tt_protos t) \<Longrightarrow> enough fuel (t, s) \<Longrightarrow>
     (\<forall>x \<in> snd ` set (tt_protos t) - set as. listed_method t (proto_at s x)) \<Longrightarrow>
     (\<exists>e. collect_declared fuel as (t, s) = Some (Inl e)) \<or>
     (\<exists>t' s'. collect_declared fuel as (t, s) = Some (Inr (t', s')) \<and> wf_walk (t', s') \<and> same_shape s s' \<and>
       extends t t' \<and> (\<forall>x \<in> snd ` set (tt_protos t'). listed_method t' (proto_at s' x)))"
proof (induction as arbitrary: t s)
  case (Cons a as)
  from Cons.prems(1) have v: "valid_method (snd (t, s)) (proto_at s a)" by (simp add: wf_walk_def wf_store_at)
  have len: "a < length (st_protos s)" using Cons.prems(1,2) by (auto simp: wf_walk_def table_ok_def)
  let ?c = "collect_method fuel (Where None ''Prototype'' [] Scope) (proto_at s a) (t, s)"
  from collect_method_ok [OF property_ok_all Cons.prems(1) v Cons.prems(3), of "Where None ''Prototype'' [] Scope"]
  consider (failed) e where "?c = Some (Inl e)"
    | (got) m t' s' where "?c = Some (Inr (m, t', s'))" "walk_step (t, s) (t', s')" "valid_method s' m"
      "listed_method t' m" "me_name m = me_name (proto_at s a)" by blast
  then show ?case
  proof cases
    case failed
    then show ?thesis by simp
  next
    case got
    let ?s = "put_proto a m s'"
    from got(2) have f: "wf_walk (t', s')" "same_shape s s'" "extends t t'"
      "\<forall>x \<in> snd ` set (tt_protos t). proto_at s' x = proto_at s x"
      "\<forall>x \<in> snd ` set (tt_protos t') - snd ` set (tt_protos t). listed_method t' (proto_at s' x)"
      by (simp_all add: walk_step_def)
    have shape: "same_shape s' ?s"
      using got(5) f(2) by (intro put_proto_shape) (simp add: same_shape_def proto_name_def)
    have "wf_store ?s" using put_proto_wf [OF _ got(3) shape] f(1) by (simp add: wf_walk_def)
    then have wf: "wf_walk (t', ?s)" using f(1) same_shape_names [OF shape] shape by (simp add: wf_walk_def same_shape_def)
    have at: "proto_at ?s x = (if x = a then m else proto_at s' x)" for x
      using f(2) len by (simp add: proto_at_def put_proto_def same_shape_def)
    have sub: "set as \<subseteq> snd ` set (tt_protos t')" using Cons.prems(2) extends_protos [OF f(3)] by auto
    have en: "enough fuel (t', ?s)"
      using enough_step [OF Cons.prems(3) got(2)] shape by (simp add: enough_def same_shape_def)
    have "listed_method t' (proto_at ?s x)" if x: "x \<in> snd ` set (tt_protos t')" "x \<notin> set as" for x
    proof (cases "x \<in> snd ` set (tt_protos t) \<and> x \<noteq> a")
      case True
      with Cons.prems(4) x(2) have "listed_method t (proto_at s x)" by (metis DiffI set_ConsD)
      with f(3,4) True at show ?thesis by (metis listed_method_extends)
    next
      case False
      with f(5) x(1) got(4) at show ?thesis by auto
    qed
    then have "\<forall>x \<in> snd ` set (tt_protos t') - set as. listed_method t' (proto_at ?s x)" by blast
    from Cons.IH [OF wf sub en this]
    consider (no) e where "collect_declared fuel as (t', ?s) = Some (Inl e)"
      | (yes) t'' s'' where "collect_declared fuel as (t', ?s) = Some (Inr (t'', s''))" "wf_walk (t'', s'')"
        "same_shape ?s s''" "extends t' t''" "\<forall>x \<in> snd ` set (tt_protos t''). listed_method t'' (proto_at s'' x)"
      by blast
    then show ?thesis
    proof cases
      case no
      with got(1) show ?thesis by simp
    next
      case yes
      with same_shape_trans [OF same_shape_trans [OF f(2) shape] yes(3)] extends_trans [OF f(3) yes(4)] got(1)
      show ?thesis by simp
    qed
  qed
qed auto

section \<open>Linking\<close>

definition linked :: "property \<Rightarrow> bool" where
  "linked p \<longleftrightarrow> (\<exists>d. pr_prototype p = Object d) \<and> (\<exists>d. pr_enumerate p = Object d)"

definition linked_method :: "method_def \<Rightarrow> bool" where
  "linked_method m \<longleftrightarrow> list_all linked (me_param_types m) \<and> linked (me_ret_type m)"

lemma link_ref_ok:
  assumes "link_ref kind ctx table r = Inr r'" "\<forall>a. definition_of r = Some a \<longrightarrow> a \<in> snd ` set table"
  shows "(\<exists>d. r' = Object d) \<and> (\<forall>a. definition_of r' = Some a \<longrightarrow> a \<in> snd ` set table)"
proof (cases r)
  case (Named n)
  with assms(1) obtain a where a: "map_of table n = Some a" "r' = Object (Some a)"
    by (auto simp: link_ref_def split: option.splits)
  then have "a \<in> snd ` set table" by (metis image_eqI map_of_SomeD snd_conv)
  with a show ?thesis by simp
qed (use assms in \<open>auto simp: link_ref_def\<close>)

lemma link_property_ok:
  assumes "link_property t ctx p = Inr p'" "listed t p"
  shows "linked p' \<and> listed t p'"
proof -
  from assms(1) obtain a b where r: "link_ref ''prototype'' ctx (tt_protos t) (pr_prototype p) = Inr a"
    "link_ref ''enum'' ctx (tt_enums t) (pr_enumerate p) = Inr b" "p' = p\<lparr>pr_prototype := a, pr_enumerate := b\<rparr>"
    by (auto simp: link_property_def result_simps)
  from assms(2) have l: "\<forall>x. definition_of (pr_prototype p) = Some x \<longrightarrow> x \<in> snd ` set (tt_protos t)"
    "\<forall>x. definition_of (pr_enumerate p) = Some x \<longrightarrow> x \<in> snd ` set (tt_enums t)"
    unfolding listed_def by blast+
  from link_ref_ok [OF r(1) l(1)] link_ref_ok [OF r(2) l(2)] show ?thesis
    unfolding r(3) by (simp add: listed_def linked_def)
qed

lemma link_params_ok:
  "link_params t ctx name i ps = Inr ps' \<Longrightarrow> list_all (listed t) ps \<Longrightarrow> list_all linked ps' \<and> list_all (listed t) ps'"
  by (induction ps arbitrary: i ps') (auto simp: result_simps dest: link_property_ok)

lemma link_method_ok:
  assumes "link_method t ctx m = Inr m'" "listed_method t m"
  shows "linked_method m' \<and> listed_method t m' \<and> me_name m' = me_name m"
proof -
  from assms(1) obtain ps r where "link_params t ctx (me_name m) 0 (me_param_types m) = Inr ps"
    "link_property t (Where (Some ctx) [] (me_name m) Return_type) (me_ret_type m) = Inr r"
    "m' = m\<lparr>me_param_types := ps, me_ret_type := r\<rparr>"
    by (auto simp: link_method_def result_simps)
  with assms(2) show ?thesis
    by (auto simp: listed_method_def linked_method_def dest: link_params_ok link_property_ok)
qed

lemma link_methods_ok:
  "link_methods t ms = Inr ms' \<Longrightarrow> list_all (listed_method t) ms \<Longrightarrow>
     list_all (\<lambda>m. linked_method m \<and> listed_method t m) ms' \<and> length ms' = length ms"
  by (induction ms arbitrary: ms') (auto simp: result_simps dest: link_method_ok)

lemma listed_valid:
  assumes "wf_walk (t, s)" "listed_method t m"
  shows "valid_method s m"
proof -
  have "valid_property s p" if "listed t p" for p
    using assms(1) that unfolding valid_property_def valid_ref_def listed_def wf_walk_def table_ok_def by fastforce
  with assms(2) show ?thesis by (auto simp: listed_method_def valid_method_def list_all_iff)
qed

lemma link_protos_ok:
  "link_protos t as s = Inr s' \<Longrightarrow> wf_walk (t, s) \<Longrightarrow> set as \<subseteq> snd ` set (tt_protos t) \<Longrightarrow>
     (\<forall>x \<in> snd ` set (tt_protos t). listed_method t (proto_at s x)) \<Longrightarrow>
     wf_walk (t, s') \<and> same_shape s s' \<and> (\<forall>x \<in> snd ` set (tt_protos t). listed_method t (proto_at s' x)) \<and>
     (\<forall>x. x \<in> set as \<or> linked_method (proto_at s x) \<longrightarrow> linked_method (proto_at s' x))"
proof (induction as arbitrary: s)
  case (Cons a as)
  from Cons.prems(1) obtain m where m: "link_method t (Where None ''Prototype'' [] Scope) (proto_at s a) = Inr m"
    "link_protos t as (put_proto a m s) = Inr s'" by (auto simp: result_simps)
  let ?s = "put_proto a m s"
  have a: "a \<in> snd ` set (tt_protos t)" using Cons.prems(3) by simp
  then have len: "a < length (st_protos s)" using Cons.prems(2) by (auto simp: wf_walk_def table_ok_def)
  have ok: "linked_method m" "listed_method t m" "me_name m = me_name (proto_at s a)"
    using link_method_ok [OF m(1)] Cons.prems(4) a by blast+
  have shape: "same_shape s ?s" using ok(3) by (intro put_proto_shape) (simp add: proto_name_def)
  have "wf_store ?s" using put_proto_wf [OF _ listed_valid [OF Cons.prems(2) ok(2)] shape] Cons.prems(2) by (simp add: wf_walk_def)
  then have wf: "wf_walk (t, ?s)" using Cons.prems(2) same_shape_names [OF shape] shape by (simp add: wf_walk_def same_shape_def)
  have at: "proto_at ?s x = (if x = a then m else proto_at s x)" for x using len by (simp add: proto_at_def put_proto_def)
  have sub: "set as \<subseteq> snd ` set (tt_protos t)" using Cons.prems(3) by simp
  have l: "\<forall>x \<in> snd ` set (tt_protos t). listed_method t (proto_at ?s x)" using Cons.prems(4) ok(2) at by simp
  from Cons.IH [OF m(2) wf sub l] ok(1) same_shape_trans [OF shape] show ?case by (auto simp: at)
qed auto

lemma register_all_ok:
  "register_all name same kind as tab = Inr (ds, tab') \<Longrightarrow> table_ok name n tab \<Longrightarrow> (\<forall>a \<in> set as. a < n) \<Longrightarrow>
     table_ok name n tab' \<and> set ds \<subseteq> snd ` set tab' \<and> snd ` set tab' \<subseteq> snd ` set tab \<union> set ds \<and>
     snd ` set tab \<subseteq> snd ` set tab' \<and> length ds = length as"
proof (induction as arbitrary: tab ds)
  case (Cons a as)
  from Cons.prems(1) obtain new d t1 es where r:
    "register name same kind (Where None ''Manifest'' [] Scope) (Some a) tab = Inr (new, d, t1)"
    "register_all name same kind as t1 = Inr (es, tab')" "ds = the d # es" by (auto simp: result_simps)
  have lt: "\<And>b. Some a = Some b \<Longrightarrow> b < n" using Cons.prems(3) by simp
  from register_ok [OF r(1) Cons.prems(2) lt] have f: "table_ok name n t1" "d \<noteq> None"
    "new \<longrightarrow> (\<exists>b. d = Some b \<and> t1 = tab @ [(name b, b)])" "\<not> new \<longrightarrow> t1 = tab" "\<forall>b. d = Some b \<longrightarrow> b \<in> snd ` set t1" by auto
  have "\<forall>a \<in> set as. a < n" using Cons.prems(3) by simp
  note IH = Cons.IH [OF r(2) f(1) this]
  obtain b where b: "d = Some b" using f(2) by blast
  with f(3-5) have "b \<in> snd ` set t1" "snd ` set t1 \<subseteq> insert b (snd ` set tab)" "snd ` set tab \<subseteq> snd ` set t1" by auto
  note t1 = this
  have ds: "set ds = insert b (set es)" "length ds = Suc (length es)" using r(3) b by simp_all
  have sets: "insert b E \<subseteq> U \<and> U \<subseteq> T \<union> insert b E \<and> T \<subseteq> U"
    if "b \<in> T1" "T1 \<subseteq> insert b T" "T \<subseteq> T1" "E \<subseteq> U" "U \<subseteq> T1 \<union> E" "T1 \<subseteq> U" for E T T1 U :: "nat set" using that by blast
  from IH have "set es \<subseteq> snd ` set tab'" "snd ` set tab' \<subseteq> snd ` set t1 \<union> set es" "snd ` set t1 \<subseteq> snd ` set tab'" by simp_all
  note s = sets [OF t1 this]
  from IH have "table_ok name n tab'" "length es = length as" by simp_all
  with s ds show ?case by simp
qed auto

section \<open>What a resolved manifest is\<close>

definition valid_manifest :: "manifest \<Rightarrow> bool" where
  "valid_manifest m \<longleftrightarrow> wf_store (mf_store m) \<and> list_all (valid_method (mf_store m)) (opt_addrs (mf_methods m)) \<and>
     (\<forall>a \<in> set (opt_addrs (mf_prototypes m)). a < length (st_protos (mf_store m))) \<and>
     (\<forall>a \<in> set (opt_addrs (mf_enums m)). a < length (st_enums (mf_store m)))"

lemma listed_closed_refs:
  assumes "wf_store s"
  shows "closed_refs s"
proof -
  have "valid_ref (length (st_protos s)) (pr_prototype p)"
    if "p \<in> set (me_param_types (proto_at s a)) \<or> p = me_ret_type (proto_at s a)" for a p
    using wf_store_at [OF assms, of a] that by (auto simp: valid_method_def valid_property_def list_all_iff)
  moreover have "b < n" if "valid_ref n r" "definition_of r = Some b" for n r b
    using that by (cases r) (auto simp: valid_ref_def)
  ultimately show ?thesis
    by (auto simp: closed_refs_def proto_refs_def List.map_filter_def) fastforce+
qed

lemma hash_order_set:
  assumes "mset (hash_order t) = mset t"
  shows "set (map snd (hash_order t)) = snd ` set t"
  using mset_eq_setD [OF assms] by simp

text \<open>The state in which resolving a well-formed manifest ends: an error, or tables that fit the store.\<close>

definition settled :: "manifest \<Rightarrow> method_def list \<Rightarrow> type_table \<Rightarrow> store \<Rightarrow> bool" where
  "settled m ms t s \<longleftrightarrow> wf_walk (t, s) \<and> same_shape (mf_store m) s \<and> length ms = length (opt_addrs (mf_methods m)) \<and>
     list_all (listed_method t) ms \<and> (\<forall>x \<in> snd ` set (tt_protos t). listed_method t (proto_at s x)) \<and>
     (tt_protos t = [] \<longrightarrow> opt_addrs (mf_prototypes m) = []) \<and> (tt_enums t = [] \<longrightarrow> opt_addrs (mf_enums m) = [])"

lemma resolve_settles:
  assumes "valid_manifest m"
  shows "(\<exists>e. resolve_manifest hash_order m = Some (Inl e)) \<or>
    (\<exists>ms t s. resolve_manifest hash_order m = resolve_links (Suc (length (st_protos (mf_store m)))) hash_order m ms (t, s) \<and>
       settled m ms t s)"
proof -
  let ?s = "mf_store m"
  let ?fuel = "Suc (length (st_protos ?s))"
  let ?R = "register_all (proto_name ?s) (same_proto ?s) ''prototype'' (opt_addrs (mf_prototypes m)) []"
  let ?E = "register_all (enum_name ?s) (same_enum ?s) ''enum'' (opt_addrs (mf_enums m)) []"
  show ?thesis
  proof (cases "rbind ?R (\<lambda>(declared, ps). rbind ?E (\<lambda>(_, es). Inr (declared, \<lparr>tt_protos = ps, tt_enums = es\<rparr>)))")
    case (Inl e)
    then show ?thesis by (simp add: resolve_manifest_def)
  next
    case (Inr y)
    then obtain declared ps ds es where r: "?R = Inr (declared, ps)" "?E = Inr (ds, es)"
      "y = (declared, \<lparr>tt_protos = ps, tt_enums = es\<rparr>)" by (auto simp: result_simps)
    let ?t = "\<lparr>tt_protos = ps, tt_enums = es\<rparr>"
    from assms have v: "wf_store ?s" "list_all (valid_method ?s) (opt_addrs (mf_methods m))"
      "\<forall>a \<in> set (opt_addrs (mf_prototypes m)). a < length (st_protos ?s)"
      "\<forall>a \<in> set (opt_addrs (mf_enums m)). a < length (st_enums ?s)" by (simp_all add: valid_manifest_def)
    note P = register_all_ok [OF r(1) table_ok_nil v(3)] and Q = register_all_ok [OF r(2) table_ok_nil v(4)]
    have wf: "wf_walk (?t, ?s)" using P Q v(1) by (simp add: wf_walk_def)
    have en: "enough ?fuel (?t, ?s)" by (simp add: enough_def)
    have dec: "ps = [] \<longrightarrow> opt_addrs (mf_prototypes m) = []" "es = [] \<longrightarrow> opt_addrs (mf_enums m) = []" using P Q by auto
    from v(2) have "list_all (valid_method (snd (?t, ?s))) (opt_addrs (mf_methods m))" by simp
    from collect_methods_ok [OF wf this en]
    consider (no) e where "collect_methods ?fuel (opt_addrs (mf_methods m)) (?t, ?s) = Some (Inl e)"
      | (yes) ms t s where "collect_methods ?fuel (opt_addrs (mf_methods m)) (?t, ?s) = Some (Inr (ms, t, s))"
        "walk_step (?t, ?s) (t, s)" "list_all (listed_method t) ms" "length ms = length (opt_addrs (mf_methods m))" by blast
    then show ?thesis
    proof cases
      case no
      with Inr r(3) show ?thesis by (simp add: resolve_manifest_def)
    next
      case yes
      have sub: "set declared \<subseteq> snd ` set (tt_protos t)"
        using P extends_protos [OF walk_step_extends [OF yes(2)]] by auto
      have new: "\<forall>x \<in> snd ` set (tt_protos t) - set declared. listed_method t (proto_at s x)"
      proof -
        have "set declared = snd ` set ps" using P by auto
        with yes(2) show ?thesis unfolding walk_step_def by simp
      qed
      from collect_declared_ok [OF walk_step_wf [OF yes(2)] sub enough_step [OF en yes(2)] new]
      consider (no2) e where "collect_declared ?fuel declared (t, s) = Some (Inl e)"
        | (yes2) t' s' where "collect_declared ?fuel declared (t, s) = Some (Inr (t', s'))" "wf_walk (t', s')"
          "same_shape s s'" "extends t t'" "\<forall>x \<in> snd ` set (tt_protos t'). listed_method t' (proto_at s' x)" by blast
      then show ?thesis
      proof cases
        case no2
        with yes(1) Inr r(3) show ?thesis by (simp add: resolve_manifest_def)
      next
        case yes2
        have ext: "extends ?t t'" using extends_trans [OF walk_step_extends [OF yes(2)]] yes2(4) by simp
        have "list_all (listed_method t') ms" using yes(3) yes2(4) by (auto simp: list_all_iff intro: listed_method_extends)
        moreover have "same_shape ?s s'" using same_shape_trans [OF walk_step_shape [OF yes(2)]] yes2(3) by simp
        moreover have "tt_protos t' = [] \<longrightarrow> ps = []" "tt_enums t' = [] \<longrightarrow> es = []" using ext by (auto simp: extends_def)
        ultimately have "settled m ms t' s'" using yes2(2,5) yes(4) dec by (auto simp: settled_def)
        moreover have "resolve_manifest hash_order m = resolve_links ?fuel hash_order m ms (t', s')"
          using yes(1) yes2(1) Inr r(3) by (simp add: resolve_manifest_def)
        ultimately show ?thesis by blast
      qed
    qed
  qed
qed

lemma links_terminate:
  assumes "settled m ms t s" "\<And>tab. mset (hash_order tab) = mset tab"
  shows "\<exists>r. resolve_links (Suc (length (st_protos (mf_store m)))) hash_order m ms (t, s) = Some r"
proof (cases "rbind (link_methods t ms) (\<lambda>ms. rbind (link_protos t (map snd (hash_order (tt_protos t))) s) (\<lambda>s. Inr (ms, s)))")
  case (Inl e)
  then show ?thesis by (simp add: resolve_links_def)
next
  case (Inr y)
  then obtain ms' s' where l: "link_protos t (map snd (hash_order (tt_protos t))) s = Inr s'" "y = (ms', s')"
    by (auto simp: result_simps)
  let ?as = "map snd (hash_order (tt_protos t))"
  from assms(1) have w: "wf_walk (t, s)" "\<forall>x \<in> snd ` set (tt_protos t). listed_method t (proto_at s x)"
    "same_shape (mf_store m) s" by (simp_all add: settled_def)
  have sub: "set ?as \<subseteq> snd ` set (tt_protos t)" using hash_order_set [of hash_order, OF assms(2)] by simp
  from link_protos_ok [OF l(1) w(1) sub w(2)] have f: "wf_walk (t, s')" "same_shape s s'" by blast+
  have c: "closed_refs s'" using f(1) by (simp add: wf_walk_def listed_closed_refs)
  have "\<forall>x \<in> snd ` set (tt_protos t). x < length (st_protos s')" using f(1) by (auto simp: wf_walk_def table_ok_def)
  with sub have "\<forall>a \<in> set ?as. a < length (st_protos s')" by blast
  then have "\<exists>r. detect_cycles (Suc (length (st_protos (mf_store m)))) s' ?as = Some r"
    using w(3) f(2) by (intro detect_cycles_total [OF c]) (simp_all add: same_shape_def)
  with l Inr show ?thesis by (auto simp: resolve_links_def split: sum.split)
qed

lemma published:
  assumes "table_ok name n tab" "tab = [] \<longrightarrow> opt_addrs field = []"
  shows "set (opt_addrs (publish field tab)) = snd ` set tab"
    "sorted (map name (opt_addrs (publish field tab))) \<and> distinct (map name (opt_addrs (publish field tab)))"
proof -
  have e: "opt_addrs (publish field tab) = map snd (sort_key fst tab)"
    using assms(2) by (simp add: publish_def opt_addrs_def)
  then show "set (opt_addrs (publish field tab)) = snd ` set tab" by simp
  have "map name (map snd (sort_key fst tab)) = map fst (sort_key fst tab)"
    using assms(1) by (auto simp: table_ok_def)
  moreover have "distinct (map fst (sort_key fst tab))"
    using assms(1) by (simp add: table_ok_def distinct_map)
  moreover have "sorted (map fst (sort_key fst tab))" by simp
  ultimately show "sorted (map name (opt_addrs (publish field tab))) \<and> distinct (map name (opt_addrs (publish field tab)))"
    unfolding e by (simp only:)
qed

text \<open>C5: On a manifest whose pointers are valid, the two recursive walks of \<open>Manifest::Resolve\<close> end: with a depth
  of one more than the number of prototypes every run returns a manifest or an error, whatever the iteration order of
  the hash map.\<close>
theorem resolve_terminates:
  assumes "valid_manifest m" "\<And>tab. mset (hash_order tab) = mset tab"
  shows "\<exists>r. resolve_manifest hash_order m = Some r"
  using resolve_settles [OF assms(1), of hash_order] links_terminate [OF _ assms(2)] by metis

text \<open>C4: A manifest that \<open>Resolve\<close> accepts has no reference by name left: every method and every published prototype
  points at definitions only, all of them among the published ones, the prototypes are free of reference cycles, and
  the published table is sorted by names that are all different.\<close>
theorem resolve_links_everything:
  assumes "valid_manifest m" "\<And>tab. mset (hash_order tab) = mset tab"
    "resolve_manifest hash_order m = Some (Inr m')"
  shows "let s = mf_store m'; ps = opt_addrs (mf_prototypes m'); es = opt_addrs (mf_enums m');
      ms = opt_addrs (mf_methods m') @ map (proto_at s) ps in
    list_all linked_method ms \<and>
    (\<forall>me \<in> set ms. \<forall>p \<in> set (me_ret_type me # me_param_types me).
      (\<forall>a. definition_of (pr_prototype p) = Some a \<longrightarrow> a \<in> set ps) \<and>
      (\<forall>a. definition_of (pr_enumerate p) = Some a \<longrightarrow> a \<in> set es)) \<and>
    (\<forall>a \<in> set ps. a \<in> Wellfounded.acc (refs s)) \<and>
    sorted (map (proto_name s) ps) \<and> distinct (map (proto_name s) ps) \<and>
    length (opt_addrs (mf_methods m')) = length (opt_addrs (mf_methods m))"
proof -
  from resolve_settles [OF assms(1), of hash_order] assms(3) obtain ms t s where
    r: "resolve_links (Suc (length (st_protos (mf_store m)))) hash_order m ms (t, s) = Some (Inr m')"
    and st: "settled m ms t s" by auto
  from st have w: "wf_walk (t, s)" "\<forall>x \<in> snd ` set (tt_protos t). listed_method t (proto_at s x)"
    "same_shape (mf_store m) s" "list_all (listed_method t) ms" "length ms = length (opt_addrs (mf_methods m))"
    "tt_protos t = [] \<longrightarrow> opt_addrs (mf_prototypes m) = []" "tt_enums t = [] \<longrightarrow> opt_addrs (mf_enums m) = []"
    by (simp_all add: settled_def)
  let ?as = "map snd (hash_order (tt_protos t))"
  from r obtain ms' s' where l: "link_methods t ms = Inr ms'" "link_protos t ?as s = Inr s'"
    "detect_cycles (Suc (length (st_protos (mf_store m)))) s' ?as = Some (Inr ())"
    and m': "m' = m\<lparr>mf_methods := map_option (\<lambda>_. ms') (mf_methods m), mf_prototypes := publish (mf_prototypes m) (tt_protos t),
              mf_enums := publish (mf_enums m) (tt_enums t), mf_store := s'\<rparr>"
    by (auto simp: resolve_links_def result_simps split: sum.splits option.splits)
  have as: "set ?as = snd ` set (tt_protos t)" using hash_order_set [of hash_order, OF assms(2)] .
  from link_protos_ok [OF l(2) w(1) _ w(2)] as have f: "wf_walk (t, s')"
    "\<forall>x \<in> snd ` set (tt_protos t). listed_method t (proto_at s' x)"
    "\<forall>x \<in> snd ` set (tt_protos t). linked_method (proto_at s' x)" by simp_all
  from f(1) have tabs: "table_ok (proto_name s') (length (st_protos s')) (tt_protos t)"
    "table_ok (enum_name s') (length (st_enums s')) (tt_enums t)" by (simp_all add: wf_walk_def)
  note ps = published [OF tabs(1) w(6)] and es = published [OF tabs(2) w(7)]
  have ms: "list_all (\<lambda>m. linked_method m \<and> listed_method t m) ms'" "length ms' = length ms"
    using link_methods_ok [OF l(1) w(4)] by simp_all
  have meth: "opt_addrs (map_option (\<lambda>_. ms') (mf_methods m)) = ms'"
    using ms(2) w(5) by (cases "mf_methods m") (simp_all add: opt_addrs_def)
  have c: "closed_refs s'" using f(1) by (simp add: wf_walk_def listed_closed_refs)
  have lt: "\<forall>a \<in> set ?as. a < length (st_protos s')" using as tabs(1) by (auto simp: table_ok_def)
  have "\<forall>a \<in> set ?as. a \<in> Wellfounded.acc (refs s')"
    using detect_cycles_sound [OF l(3)] .
  then have acc: "\<forall>a \<in> set (opt_addrs (publish (mf_prototypes m) (tt_protos t))). a \<in> Wellfounded.acc (refs s')"
    unfolding ps(1) as .
  let ?ms = "ms' @ map (proto_at s') (opt_addrs (publish (mf_prototypes m) (tt_protos t)))"
  have all: "\<forall>me \<in> set ?ms. linked_method me \<and> listed_method t me"
    using ms(1) f(2,3) ps(1) by (auto simp: list_all_iff)
  then have "\<forall>me \<in> set ?ms. \<forall>p \<in> set (me_ret_type me # me_param_types me). listed t p"
    by (auto simp: listed_method_def list_all_iff)
  then have "\<forall>me \<in> set ?ms. \<forall>p \<in> set (me_ret_type me # me_param_types me).
      (\<forall>a. definition_of (pr_prototype p) = Some a \<longrightarrow> a \<in> set (opt_addrs (publish (mf_prototypes m) (tt_protos t)))) \<and>
      (\<forall>a. definition_of (pr_enumerate p) = Some a \<longrightarrow> a \<in> set (opt_addrs (publish (mf_enums m) (tt_enums t))))"
    unfolding ps(1) es(1) listed_def by blast
  moreover have "list_all linked_method ?ms" using all by (auto simp: list_all_iff)
  moreover have "length ms' = length (opt_addrs (mf_methods m))" using ms(2) w(5) by simp
  moreover have "mf_store m' = s'" "opt_addrs (mf_methods m') = ms'" "mf_enums m' = publish (mf_enums m) (tt_enums t)"
    "mf_prototypes m' = publish (mf_prototypes m) (tt_protos t)" using meth by (simp_all add: m')
  ultimately show ?thesis unfolding Let_def using acc ps(2) by (intro conjI) (simp_all only:)
qed

section \<open>What validation accepts\<close>
















section \<open>A manifest to evaluate\<close>

definition sample_property :: "type_ref \<Rightarrow> property" where
  "sample_property r = \<lparr>pr_type = Function, pr_ref = None, pr_prototype = r, pr_enumerate = Object None\<rparr>"

definition sample_proto :: "string \<Rightarrow> property list \<Rightarrow> method_def" where
  "sample_proto n ps = method_default\<lparr>me_name := n, me_param_types := ps\<rparr>"

text \<open>Two declared prototypes, the second has the first inline, and a method that names it.\<close>

definition sample_store :: store where
  "sample_store = \<lparr>st_protos = [sample_proto ''cb'' [], sample_proto ''bb'' [sample_property (Object (Some 0))]], st_enums = []\<rparr>"

definition linkable_manifest :: manifest where
  "linkable_manifest = manifest_default\<lparr>mf_methods := Some [sample_proto ''m'' [sample_property (Named ''cb'')]],
     mf_prototypes := Some [0, 1], mf_store := sample_store\<rparr>"

lemma linkable_valid: "valid_manifest linkable_manifest"
  by code_simp

theorem resolve_terminates_witness: "\<exists>r. resolve_manifest rev linkable_manifest = Some r"
  by (rule resolve_terminates [OF linkable_valid]) simp

lemma linkable_resolves:
  obtains m' where "resolve_manifest rev linkable_manifest = Some (Inr m')"
proof -
  have "(case resolve_manifest rev linkable_manifest of Some (Inr m) \<Rightarrow> True | _ \<Rightarrow> False)" by code_simp
  then show thesis using that by (auto split: option.splits sum.splits)
qed

theorem resolve_links_everything_witness:
  "\<exists>m'. resolve_manifest rev linkable_manifest = Some (Inr m') \<and>
     distinct (map (proto_name (mf_store m')) (opt_addrs (mf_prototypes m')))"
proof -
  obtain m' where r: "resolve_manifest rev linkable_manifest = Some (Inr m')" by (rule linkable_resolves)
  from resolve_links_everything [OF linkable_valid _ r] show ?thesis using r by (auto simp: Let_def)
qed

end
