(* ===== verification/Config.thy ===== *)
theory Config
  imports Paths "HOL-Library.Option_ord"
begin

text \<open>
  The configuration (include/plugify/config.hpp, src/core/config.cpp): four groups of fields,
  each with the source it was last set from, and how two configurations merge.
\<close>

section \<open>Sources and severities\<close>

datatype config_source = Default | File | Builder | Override

fun source_rank :: "config_source \<Rightarrow> nat" where
  "source_rank Default = 0" | "source_rank File = 1" | "source_rank Builder = 2" | "source_rank Override = 3"

text \<open>The comparison of enumerators is the order of their declaration.\<close>

instantiation config_source :: linorder
begin

definition less_eq_config_source :: "config_source \<Rightarrow> config_source \<Rightarrow> bool" where
  "a \<le> b \<longleftrightarrow> source_rank a \<le> source_rank b"

definition less_config_source :: "config_source \<Rightarrow> config_source \<Rightarrow> bool" where
  "a < b \<longleftrightarrow> source_rank a < source_rank b"

instance
proof
  fix a b :: config_source
  show "a \<le> b \<Longrightarrow> b \<le> a \<Longrightarrow> a = b"
    by (cases a; cases b) (simp_all add: less_eq_config_source_def)
qed (auto simp: less_eq_config_source_def less_config_source_def)

end

datatype severity = Unknown_severity | Trace | Debug | Info | Warning | Error | Fatal

text \<open>The build type decides the default: with assertions compiled in it is \<open>Debug\<close>.\<close>

definition default_verbosity :: "bool \<Rightarrow> severity" where
  "default_verbosity debug_build = (if debug_build then Debug else Error)"

section \<open>The groups\<close>

record source_tracking =
  src_paths :: config_source
  src_loading :: config_source
  src_security :: config_source
  src_logging :: config_source

record paths =
  base_dir :: path
  extensions_dir :: path
  configs_dir :: path
  data_dir :: path
  logs_dir :: path
  cache_dir :: path

definition paths_default :: paths where
  "paths_default = \<lparr>base_dir = [], extensions_dir = ''extensions'', configs_dir = ''configs'',
     data_dir = ''data'', logs_dir = ''logs'', cache_dir = ''cache''\<rparr>"

definition has_custom :: "path \<Rightarrow> path \<Rightarrow> bool" where
  "has_custom p dflt \<longleftrightarrow> \<not> path_eq p dflt"

definition make_absolute :: "path \<Rightarrow> path \<Rightarrow> path" where
  "make_absolute base p = (if p \<noteq> [] \<and> \<not> path_is_absolute p \<and> base \<noteq> []
     then path_normal (path_append base p) else p)"

definition resolve_relative_paths :: "paths \<Rightarrow> paths" where
  "resolve_relative_paths p = p\<lparr>
     extensions_dir := make_absolute (base_dir p) (extensions_dir p),
     configs_dir := make_absolute (base_dir p) (configs_dir p),
     data_dir := make_absolute (base_dir p) (data_dir p),
     logs_dir := make_absolute (base_dir p) (logs_dir p),
     cache_dir := make_absolute (base_dir p) (cache_dir p)\<rparr>"

record loading =
  prefer_own_symbols :: bool
  max_concurrent_loads :: nat
  load_timeout :: int
  export_timeout :: int
  start_timeout :: int

definition loading_default :: loading where
  "loading_default = \<lparr>prefer_own_symbols = False, max_concurrent_loads = 4, load_timeout = 500,
     export_timeout = 100, start_timeout = 250\<rparr>"

record security =
  whitelisted_extensions :: "string set"
  blacklisted_extensions :: "string set"
  excluded_dirs :: "path set"

definition default_excluded_dirs :: "path set" where
  "default_excluded_dirs = {''disabled'', ''.git'', ''.svn'', ''temp'', ''tmp''}"

definition security_default :: security where
  "security_default = \<lparr>whitelisted_extensions = {}, blacklisted_extensions = {},
     excluded_dirs = default_excluded_dirs\<rparr>"

record logging =
  lg_severity :: severity
  print_report :: bool
  print_load_order :: bool
  print_dependency_graph :: bool
  print_digraph_dot :: bool
  export_digraph_dot :: path

definition logging_default :: "bool \<Rightarrow> logging" where
  "logging_default debug_build = \<lparr>lg_severity = default_verbosity debug_build, print_report = False,
     print_load_order = False, print_dependency_graph = False, print_digraph_dot = False,
     export_digraph_dot = []\<rparr>"

record config =
  cfg_sources :: source_tracking
  cfg_paths :: paths
  cfg_loading :: loading
  cfg_security :: security
  cfg_logging :: logging

definition config_default :: "bool \<Rightarrow> config" where
  "config_default debug_build = \<lparr>
     cfg_sources = \<lparr>src_paths = Default, src_loading = Default, src_security = Default, src_logging = Default\<rparr>,
     cfg_paths = paths_default, cfg_loading = loading_default, cfg_security = security_default,
     cfg_logging = logging_default debug_build\<rparr>"

section \<open>Merging\<close>

text \<open>A path is taken over when it is customized.\<close>

definition merge_path :: "path \<Rightarrow> path \<Rightarrow> path \<Rightarrow> path" where
  "merge_path dflt other own = (if has_custom other dflt then other else own)"

definition merge_paths :: "paths \<Rightarrow> paths \<Rightarrow> paths \<times> bool" where
  "merge_paths other own =
     (\<lparr>base_dir = (if base_dir other \<noteq> [] then base_dir other else base_dir own),
       extensions_dir = merge_path ''extensions'' (extensions_dir other) (extensions_dir own),
       configs_dir = merge_path ''configs'' (configs_dir other) (configs_dir own),
       data_dir = merge_path ''data'' (data_dir other) (data_dir own),
       logs_dir = merge_path ''logs'' (logs_dir other) (logs_dir own),
       cache_dir = merge_path ''cache'' (cache_dir other) (cache_dir own)\<rparr>,
      base_dir other \<noteq> [] \<or> has_custom (extensions_dir other) ''extensions'' \<or>
      has_custom (configs_dir other) ''configs'' \<or> has_custom (data_dir other) ''data'' \<or>
      has_custom (logs_dir other) ''logs'' \<or> has_custom (cache_dir other) ''cache'')"

text \<open>A value is taken over when it differs from the default.\<close>

definition merge_value :: "'a \<Rightarrow> 'a \<Rightarrow> 'a \<Rightarrow> 'a" where
  "merge_value dflt other own = (if other \<noteq> dflt then other else own)"

definition merge_loading :: "loading \<Rightarrow> loading \<Rightarrow> loading \<times> bool" where
  "merge_loading other own =
     (\<lparr>prefer_own_symbols = merge_value False (prefer_own_symbols other) (prefer_own_symbols own),
       max_concurrent_loads = merge_value 4 (max_concurrent_loads other) (max_concurrent_loads own),
       load_timeout = merge_value 500 (load_timeout other) (load_timeout own),
       export_timeout = merge_value 100 (export_timeout other) (export_timeout own),
       start_timeout = merge_value 250 (start_timeout other) (start_timeout own)\<rparr>,
      prefer_own_symbols other \<or> max_concurrent_loads other \<noteq> 4 \<or> load_timeout other \<noteq> 500 \<or>
      export_timeout other \<noteq> 100 \<or> start_timeout other \<noteq> 250)"

text \<open>Sets are replaced by an override and united by the other sources.\<close>

definition merge_set :: "config_source \<Rightarrow> bool \<Rightarrow> 'a set \<Rightarrow> 'a set \<Rightarrow> 'a set" where
  "merge_set source given other own =
     (if \<not> given then own else if source = Override then other else own \<union> other)"

definition merge_security :: "config_source \<Rightarrow> security \<Rightarrow> security \<Rightarrow> security \<times> bool" where
  "merge_security source other own =
     (let w = whitelisted_extensions other \<noteq> {}; b = blacklisted_extensions other \<noteq> {};
          x = excluded_dirs other \<noteq> default_excluded_dirs in
      (\<lparr>whitelisted_extensions = merge_set source w (whitelisted_extensions other) (whitelisted_extensions own),
        blacklisted_extensions = merge_set source b (blacklisted_extensions other) (blacklisted_extensions own),
        excluded_dirs = merge_set source x (excluded_dirs other) (excluded_dirs own)\<rparr>,
       w \<or> b \<or> x))"

definition merge_logging :: "bool \<Rightarrow> logging \<Rightarrow> logging \<Rightarrow> logging \<times> bool" where
  "merge_logging debug_build other own =
     (\<lparr>lg_severity = merge_value (default_verbosity debug_build) (lg_severity other) (lg_severity own),
       print_report = merge_value False (print_report other) (print_report own),
       print_load_order = merge_value False (print_load_order other) (print_load_order own),
       print_dependency_graph = merge_value False (print_dependency_graph other) (print_dependency_graph own),
       print_digraph_dot = merge_value False (print_digraph_dot other) (print_digraph_dot own),
       export_digraph_dot = merge_value [] (export_digraph_dot other) (export_digraph_dot own)\<rparr>,
      lg_severity other \<noteq> default_verbosity debug_build \<or> print_report other \<or> print_load_order other \<or>
      print_dependency_graph other \<or> print_digraph_dot other \<or> export_digraph_dot other \<noteq> [])"

text \<open>The guard of every group: the source must not be of lower priority than the recorded one,
  and it is recorded only when the merge changed the group.\<close>

definition merge_group :: "config_source \<Rightarrow> config_source \<Rightarrow> 'a \<Rightarrow> 'a \<times> bool \<Rightarrow> 'a \<times> config_source" where
  "merge_group source recorded own merged =
     (if recorded \<le> source then (fst merged, if snd merged then source else recorded)
      else (own, recorded))"

definition merge_from :: "bool \<Rightarrow> config \<Rightarrow> config_source \<Rightarrow> config \<Rightarrow> config" where
  "merge_from debug_build other source c =
     (let s = cfg_sources c;
          (p, sp) = merge_group source (src_paths s) (cfg_paths c) (merge_paths (cfg_paths other) (cfg_paths c));
          (l, sl) = merge_group source (src_loading s) (cfg_loading c) (merge_loading (cfg_loading other) (cfg_loading c));
          (x, sx) = merge_group source (src_security s) (cfg_security c)
            (merge_security source (cfg_security other) (cfg_security c));
          (g, sg) = merge_group source (src_logging s) (cfg_logging c)
            (merge_logging debug_build (cfg_logging other) (cfg_logging c))
      in \<lparr>cfg_sources = \<lparr>src_paths = sp, src_loading = sl, src_security = sx, src_logging = sg\<rparr>,
          cfg_paths = resolve_relative_paths p, cfg_loading = l, cfg_security = x, cfg_logging = g\<rparr>)"

definition merge_field :: "string \<Rightarrow> config \<Rightarrow> config_source \<Rightarrow> config \<Rightarrow> config" where
  "merge_field field other source c =
     (let s = cfg_sources c in
      if field = ''paths'' then
        (if src_paths s \<le> source then c\<lparr>cfg_paths := resolve_relative_paths (cfg_paths other),
           cfg_sources := s\<lparr>src_paths := source\<rparr>\<rparr> else c)
      else if field = ''loading'' then
        (if src_loading s \<le> source then c\<lparr>cfg_loading := cfg_loading other,
           cfg_sources := s\<lparr>src_loading := source\<rparr>\<rparr> else c)
      else if field = ''security'' then
        (if src_security s \<le> source then c\<lparr>cfg_security := cfg_security other,
           cfg_sources := s\<lparr>src_security := source\<rparr>\<rparr> else c)
      else if field = ''logging'' then
        (if src_logging s \<le> source then c\<lparr>cfg_logging := cfg_logging other,
           cfg_sources := s\<lparr>src_logging := source\<rparr>\<rparr> else c)
      else c)"

section \<open>Validation\<close>

definition path_list :: "paths \<Rightarrow> (string \<times> path) list" where
  "path_list p = [(''extensions'', extensions_dir p), (''configs'', configs_dir p), (''data'', data_dir p),
     (''logs'', logs_dir p), (''cache'', cache_dir p)]"

text \<open>The first collision of the nested loops.\<close>

fun collision_with :: "string \<times> path \<Rightarrow> (string \<times> path) list \<Rightarrow> string option" where
  "collision_with x [] = None"
| "collision_with x (y # ys) =
     (if path_eq (snd x) (snd y)
      then Some (fst x @ '' and '' @ fst y @ '' directories are the same: '' @ snd x)
      else collision_with x ys)"

fun first_collision :: "(string \<times> path) list \<Rightarrow> string option" where
  "first_collision [] = None"
| "first_collision (x # xs) = (case collision_with x xs of
     Some e \<Rightarrow> Some e | None \<Rightarrow> first_collision xs)"

definition config_validate :: "config \<Rightarrow> unit result" where
  "config_validate c =
     (if base_dir (cfg_paths c) = [] then Inl ''Base directory not set''
      else case first_collision (path_list (cfg_paths c)) of Some e \<Rightarrow> Inl e | None \<Rightarrow> Inr ())"


section \<open>Facts\<close>

lemma make_absolute_absolute: "path_is_absolute base \<Longrightarrow> p \<noteq> [] \<Longrightarrow> path_is_absolute (make_absolute base p)"
proof -
  assume "path_is_absolute base" "p \<noteq> []"
  moreover from this have "base \<noteq> []" by (auto simp: path_is_absolute_def)
  ultimately show ?thesis
    by (cases "path_is_absolute p") (simp_all add: make_absolute_def path_is_absolute_append)
qed

lemma make_absolute_fixed [simp]: "path_is_absolute p \<Longrightarrow> make_absolute base p = p"
  by (simp add: make_absolute_def)

lemma resolve_base [simp]: "base_dir (resolve_relative_paths p) = base_dir p"
  by (simp add: resolve_relative_paths_def)

lemma resolve_absolute:
  assumes "path_is_absolute (base_dir p)" "(n, d) \<in> set (path_list (resolve_relative_paths p))" "d \<noteq> []"
  shows "path_is_absolute d"
proof -
  obtain q where "d = make_absolute (base_dir p) q"
    using assms(2) by (auto simp: path_list_def resolve_relative_paths_def)
  with assms(1,3) show ?thesis
    by (cases "q = []") (auto simp: make_absolute_absolute, simp add: make_absolute_def)
qed

lemma merge_group_source: "merge_group source recorded own m = (x, s) \<Longrightarrow> recorded \<le> s"
  by (auto simp: merge_group_def split: if_splits)

lemma collision_with_None: "collision_with x ys = None \<longleftrightarrow> (\<forall>y \<in> set ys. \<not> path_eq (snd x) (snd y))"
  by (induction ys) auto

lemma first_collision_None:
  "first_collision xs = None \<longleftrightarrow> distinct (map (path_elements \<circ> snd) xs)"
proof (induction xs)
  case (Cons x xs)
  then show ?case using collision_with_None [of x xs]
    by (cases "collision_with x xs") (auto simp: path_eq_def)
qed simp

lemma merge_from_paths:
  "cfg_paths (merge_from dbg other source c) = resolve_relative_paths (fst (merge_group source
     (src_paths (cfg_sources c)) (cfg_paths c) (merge_paths (cfg_paths other) (cfg_paths c))))"
  by (simp add: merge_from_def Let_def case_prod_beta)

section \<open>Properties\<close>

text \<open>Once the base directory is absolute, every directory a merge leaves set is absolute.\<close>

lemma merged_paths_absolute:
  assumes "path_is_absolute (base_dir (cfg_paths (merge_from dbg other source c)))"
    "(n, d) \<in> set (path_list (cfg_paths (merge_from dbg other source c)))" "d \<noteq> []"
  shows "path_is_absolute d"
proof -
  obtain p where p: "cfg_paths (merge_from dbg other source c) = resolve_relative_paths p"
    using merge_from_paths by blast
  from assms show ?thesis unfolding p by (intro resolve_absolute [of p n d]) simp_all
qed

lemma merged_paths_absolute_witness: "path_is_absolute ''/srv/extensions''"
proof -
  let ?c = "merge_from False ((config_default False)\<lparr>cfg_paths := paths_default\<lparr>base_dir := ''/srv''\<rparr>\<rparr>) File
      (config_default False)"
  have "extensions_dir (cfg_paths ?c) = ''/srv/extensions'' \<and> base_dir (cfg_paths ?c) = ''/srv''" by code_simp
  then show ?thesis
    using merged_paths_absolute [where dbg = False and source = File and c = "config_default False" and
        other = "(config_default False)\<lparr>cfg_paths := paths_default\<lparr>base_dir := ''/srv''\<rparr>\<rparr>" and
        n = "''extensions''" and d = "''/srv/extensions''"]
    by (simp add: path_list_def path_is_absolute_def is_sep_def)
qed

text \<open>C34: A source never undoes one of higher priority: the groups recorded from a higher source
  stay as they are (up to resolving relative paths), and no recorded source is ever lowered.\<close>

theorem merge_respects_priority:
  "let c' = merge_from dbg other source c in
    (source < src_loading (cfg_sources c) \<longrightarrow> cfg_loading c' = cfg_loading c) \<and>
    (source < src_security (cfg_sources c) \<longrightarrow> cfg_security c' = cfg_security c) \<and>
    (source < src_logging (cfg_sources c) \<longrightarrow> cfg_logging c' = cfg_logging c) \<and>
    (source < src_paths (cfg_sources c) \<longrightarrow> cfg_paths c' = resolve_relative_paths (cfg_paths c)) \<and>
    src_paths (cfg_sources c) \<le> src_paths (cfg_sources c') \<and>
    src_loading (cfg_sources c) \<le> src_loading (cfg_sources c') \<and>
    src_security (cfg_sources c) \<le> src_security (cfg_sources c') \<and>
    src_logging (cfg_sources c) \<le> src_logging (cfg_sources c')"
  by (simp add: merge_from_def Let_def merge_group_def split: prod.splits)

lemma merge_respects_priority_witness:
  "cfg_loading (merge_from False (config_default False) File ((config_default False)
     \<lparr>cfg_sources := \<lparr>src_paths = Default, src_loading = Override, src_security = Default, src_logging = Default\<rparr>,
      cfg_loading := loading_default\<lparr>load_timeout := 7\<rparr>\<rparr>)) = loading_default\<lparr>load_timeout := 7\<rparr>"
  using merge_respects_priority [where dbg = False and other = "config_default False" and source = File and
      c = "(config_default False)\<lparr>cfg_sources := \<lparr>src_paths = Default, src_loading = Override,
        src_security = Default, src_logging = Default\<rparr>, cfg_loading := loading_default\<lparr>load_timeout := 7\<rparr>\<rparr>"]
  by (simp add: less_config_source_def Let_def)

text \<open>A base directory that is merged after another one does not move the directories: those
  of the first merge are absolute already, so they stay under the old base directory.\<close>

lemma base_directory_override_ignored:
  assumes "path_is_absolute (base_dir (cfg_paths c))" "other = (config_default dbg)\<lparr>cfg_paths := paths_default\<lparr>base_dir := b\<rparr>\<rparr>"
    "b \<noteq> []" "src_paths (cfg_sources c) \<le> source" "extensions_dir (cfg_paths c) \<noteq> []"
    "cfg_paths c = resolve_relative_paths (cfg_paths c)"
  shows "base_dir (cfg_paths (merge_from dbg other source c)) = b \<and>
    extensions_dir (cfg_paths (merge_from dbg other source c)) = extensions_dir (cfg_paths c)"
proof -
  have "path_is_absolute (extensions_dir (cfg_paths c))"
    using assms(1,5,6) resolve_absolute [of "cfg_paths c" "''extensions''" "extensions_dir (cfg_paths c)"]
    by (simp add: path_list_def)
  then show ?thesis
    using assms(2-4)
    by (simp add: merge_from_def Let_def merge_group_def merge_paths_def merge_path_def has_custom_def
        path_eq_def paths_default_def resolve_relative_paths_def split: prod.splits)
qed

lemma base_directory_override_ignored_witness:
  "extensions_dir (cfg_paths (merge_from False
      ((config_default False)\<lparr>cfg_paths := paths_default\<lparr>base_dir := ''/new''\<rparr>\<rparr>) Override
      (merge_from False ((config_default False)\<lparr>cfg_paths := paths_default\<lparr>base_dir := ''/old''\<rparr>\<rparr>) File
        (config_default False)))) = ''/old/extensions''"
proof -
  let ?c = "merge_from False ((config_default False)\<lparr>cfg_paths := paths_default\<lparr>base_dir := ''/old''\<rparr>\<rparr>) File
        (config_default False)"
  have p: "cfg_paths ?c = \<lparr>base_dir = ''/old'', extensions_dir = ''/old/extensions'', configs_dir = ''/old/configs'',
      data_dir = ''/old/data'', logs_dir = ''/old/logs'', cache_dir = ''/old/cache''\<rparr>" by code_simp
  have s: "src_paths (cfg_sources ?c) = File" by code_simp
  show ?thesis
    using base_directory_override_ignored [where c = ?c and dbg = False and b = "''/new''" and source = Override, OF _ refl]
    by (simp add: p s less_eq_config_source_def path_is_absolute_def is_sep_def resolve_relative_paths_def)
qed

text \<open>A merge cannot put a value back to its default, whatever its priority: a timeout a
  configuration file set stays when an override asks for the default one.\<close>

lemma override_cannot_restore_default:
  assumes "load_timeout (cfg_loading other) = 500"
  shows "load_timeout (cfg_loading (merge_from dbg other source c)) = load_timeout (cfg_loading c)"
  using assms by (simp add: merge_from_def Let_def merge_group_def merge_loading_def merge_value_def split: prod.splits)

lemma override_cannot_restore_default_witness:
  "load_timeout (cfg_loading (merge_from False (config_default False) Override
     ((config_default False)\<lparr>cfg_loading := loading_default\<lparr>load_timeout := 9\<rparr>\<rparr>))) = 9"
  using override_cannot_restore_default [of "config_default False" False Override]
  by (simp add: config_default_def loading_default_def)

text \<open>A configuration is accepted exactly when its base directory is set and no two of its
  five directories are the same path.\<close>

lemma config_validate_correct:
  "config_validate c = Inr () \<longleftrightarrow> base_dir (cfg_paths c) \<noteq> [] \<and>
     distinct (map (path_elements \<circ> snd) (path_list (cfg_paths c)))"
  by (auto simp: config_validate_def first_collision_None [symmetric] split: option.splits)

end
