(* ===== verification/Extension.thy ===== *)
theory Extension
  imports Manifest_Types
begin

text \<open>
  An extension (plugin or language module) and the registry of names
  (src/core/extension.cpp, include/plugify/extension.hpp, src/core/registrar.cpp): its
  record, its state machine, its operations, and the global map from identifiers to names that
  an extension's registrar enters and leaves.

  The clock is an argument (nanoseconds). \<open>SetState\<close> asserts that the transition is valid: in a
  release build the assertion is not compiled, so the state is set in any case, and the model
  keeps the arguments of every assertion in the field \<open>ex_asserted\<close>, which the program does not
  have and nothing reads; that no assertion fails is a property of the callers.
\<close>

section \<open>Types\<close>

type_synonym unique_id = int

definition no_id :: unique_id where
  "no_id = -1"

datatype extension_type = Unknown_type | Module | Plugin

datatype extension_state =
    Unknown | Discovered | Parsing | Parsed | Corrupted | Resolving | Resolved | Unresolved
  | Disabled | Skipped | Failed | Loading | Loaded | Exporting | Exported | Starting | Started
  | Running | Ending | Ended | Terminating | Terminated | Max_state

definition all_states :: "extension_state list" where
  "all_states = [Unknown, Discovered, Parsing, Parsed, Corrupted, Resolving, Resolved, Unresolved,
     Disabled, Skipped, Failed, Loading, Loaded, Exporting, Exported, Starting, Started, Running,
     Ending, Ended, Terminating, Terminated, Max_state]"

definition state_name :: "extension_state \<Rightarrow> string" where
  "state_name s = (case s of
     Unknown \<Rightarrow> ''Unknown'' | Discovered \<Rightarrow> ''Discovered'' | Parsing \<Rightarrow> ''Parsing''
   | Parsed \<Rightarrow> ''Parsed'' | Corrupted \<Rightarrow> ''Corrupted'' | Resolving \<Rightarrow> ''Resolving''
   | Resolved \<Rightarrow> ''Resolved'' | Unresolved \<Rightarrow> ''Unresolved'' | Disabled \<Rightarrow> ''Disabled''
   | Skipped \<Rightarrow> ''Skipped'' | Failed \<Rightarrow> ''Failed'' | Loading \<Rightarrow> ''Loading'' | Loaded \<Rightarrow> ''Loaded''
   | Exporting \<Rightarrow> ''Exporting'' | Exported \<Rightarrow> ''Exported'' | Starting \<Rightarrow> ''Starting''
   | Started \<Rightarrow> ''Started'' | Running \<Rightarrow> ''Running'' | Ending \<Rightarrow> ''Ending'' | Ended \<Rightarrow> ''Ended''
   | Terminating \<Rightarrow> ''Terminating'' | Terminated \<Rightarrow> ''Terminated'' | Max_state \<Rightarrow> ''Max'')"

definition type_name :: "extension_type \<Rightarrow> string" where
  "type_name t = (case t of Unknown_type \<Rightarrow> ''Unknown'' | Module \<Rightarrow> ''Module'' | Plugin \<Rightarrow> ''Plugin'')"

definition is_valid_transition :: "extension_state \<Rightarrow> extension_state \<Rightarrow> bool" where
  "is_valid_transition from to = (case from of
     Unknown \<Rightarrow> to = Discovered
   | Discovered \<Rightarrow> to = Parsing \<or> to = Failed
   | Parsing \<Rightarrow> to = Parsed \<or> to = Corrupted
   | Parsed \<Rightarrow> to = Resolving \<or> to = Failed \<or> to = Disabled
   | Resolving \<Rightarrow> to = Resolved \<or> to = Unresolved \<or> to = Disabled
   | Resolved \<Rightarrow> to = Loading \<or> to = Skipped \<or> to = Failed
   | Loading \<Rightarrow> to = Loaded \<or> to = Failed
   | Loaded \<Rightarrow> to = Running \<or> to = Exporting \<or> to = Skipped \<or> to = Failed
   | Exporting \<Rightarrow> to = Exported \<or> to = Skipped \<or> to = Failed
   | Exported \<Rightarrow> to = Starting \<or> to = Skipped \<or> to = Failed
   | Starting \<Rightarrow> to = Started \<or> to = Skipped \<or> to = Failed
   | Started \<Rightarrow> to = Running \<or> to = Failed
   | Running \<Rightarrow> to = Ending \<or> to = Failed
   | Ending \<Rightarrow> to = Ended \<or> to = Failed
   | Ended \<Rightarrow> to = Terminating
   | Terminating \<Rightarrow> to = Terminated
   | _ \<Rightarrow> False)"

definition get_extension_type :: "path \<Rightarrow> extension_type" where
  "get_extension_type p =
     (if has_extension p ''.pplugin'' then Plugin
      else if has_extension p ''.pmodule'' then Module
      else Unknown_type)"

section \<open>The record\<close>

record method_table =
  has_update :: bool
  has_start :: bool
  has_end :: bool
  has_export :: bool

definition method_table_default :: method_table where
  "method_table_default = \<lparr>has_update = False, has_start = False, has_end = False, has_export = False\<rparr>"

type_synonym address = int

text \<open>A reference to a method: the one at a position of an extension's manifest, or one of the
  language module's own. References are compared by the object they denote.\<close>

datatype method_ref = Method_of unique_id nat | Foreign_method nat

record method_data =
  md_method :: method_ref
  md_addr :: address

text \<open>
  \<open>Extension::Impl\<close>. Language modules and assemblies are known by their identity only (a
  pointer to the module's object, a handle of the loader).
\<close>

record extension =
  ex_id :: unique_id
  ex_type :: extension_type
  ex_state :: extension_state
  ex_method_table :: method_table
  ex_user_data :: address
  ex_language_module :: "nat option"
  ex_location :: path
  ex_version :: string
  ex_manifest :: manifest
  ex_timepoints :: "extension_state \<Rightarrow> int option"
  ex_last_start :: int
  ex_registrar :: "unique_id option"
  ex_errors :: "string list"
  ex_warnings :: "string list"
  ex_method_data :: "method_data list"
  ex_assembly :: "nat option"
  ex_asserted :: "(extension_state \<times> extension_state) list"

definition ex_name :: "extension \<Rightarrow> string" where
  "ex_name e = mf_name (ex_manifest e)"

text \<open>\<open>Extension(UniqueId, path)\<close>.\<close>

definition new_extension :: "unique_id \<Rightarrow> path \<Rightarrow> extension" where
  "new_extension i loc = \<lparr>ex_id = i, ex_type = get_extension_type loc, ex_state = Discovered,
     ex_method_table = method_table_default, ex_user_data = 0, ex_language_module = None,
     ex_location = loc, ex_version = [],
     ex_manifest = manifest_default\<lparr>mf_name := path_stem loc\<rparr>,
     ex_timepoints = Map.empty, ex_last_start = 0, ex_registrar = None, ex_errors = [],
     ex_warnings = [], ex_method_data = [], ex_assembly = None, ex_asserted = []\<rparr>"

definition is_plugin :: "extension \<Rightarrow> bool" where
  "is_plugin e \<longleftrightarrow> ex_type e = Plugin"

definition is_module :: "extension \<Rightarrow> bool" where
  "is_module e \<longleftrightarrow> ex_type e = Module"

section \<open>Getters with defaults\<close>

definition opt_string :: "string option \<Rightarrow> string" where
  "opt_string o' = (case o' of None \<Rightarrow> [] | Some s \<Rightarrow> s)"

definition opt_list :: "'a list option \<Rightarrow> 'a list" where
  "opt_list o' = (case o' of None \<Rightarrow> [] | Some xs \<Rightarrow> xs)"

definition get_description :: "extension \<Rightarrow> string" where
  "get_description e = opt_string (mf_description (ex_manifest e))"

definition get_author :: "extension \<Rightarrow> string" where
  "get_author e = opt_string (mf_author (ex_manifest e))"

definition get_website :: "extension \<Rightarrow> string" where
  "get_website e = opt_string (mf_website (ex_manifest e))"

definition get_license :: "extension \<Rightarrow> string" where
  "get_license e = opt_string (mf_license (ex_manifest e))"

definition get_platforms :: "extension \<Rightarrow> string list" where
  "get_platforms e = opt_list (mf_platforms (ex_manifest e))"

definition get_dependencies :: "extension \<Rightarrow> dependency list" where
  "get_dependencies e = opt_list (mf_dependencies (ex_manifest e))"

definition get_conflicts :: "extension \<Rightarrow> conflict list" where
  "get_conflicts e = opt_list (mf_conflicts (ex_manifest e))"

definition get_obsoletes :: "extension \<Rightarrow> conflict list" where
  "get_obsoletes e = opt_list (mf_obsoletes (ex_manifest e))"

definition get_entry :: "extension \<Rightarrow> string" where
  "get_entry e = (if ex_type e = Plugin then opt_string (mf_entry (ex_manifest e)) else [])"

definition get_methods :: "extension \<Rightarrow> method_def list" where
  "get_methods e = (if ex_type e = Plugin then opt_list (mf_methods (ex_manifest e)) else [])"

definition get_classes :: "extension \<Rightarrow> class_def list" where
  "get_classes e = (if ex_type e = Plugin then opt_list (mf_classes (ex_manifest e)) else [])"

definition get_prototypes :: "extension \<Rightarrow> addr list" where
  "get_prototypes e = (if ex_type e = Plugin then opt_list (mf_prototypes (ex_manifest e)) else [])"

definition get_enums :: "extension \<Rightarrow> addr list" where
  "get_enums e = (if ex_type e = Plugin then opt_list (mf_enums (ex_manifest e)) else [])"

definition get_methods_data :: "extension \<Rightarrow> method_data list" where
  "get_methods_data e = (if ex_type e = Plugin then ex_method_data e else [])"

definition get_runtime :: "extension \<Rightarrow> path" where
  "get_runtime e = (if ex_type e = Module then opt_string (mf_runtime (ex_manifest e)) else [])"

definition get_directories :: "extension \<Rightarrow> path list" where
  "get_directories e = (if ex_type e = Module then opt_list (mf_directories (ex_manifest e)) else [])"

definition get_assembly :: "extension \<Rightarrow> nat option" where
  "get_assembly e = (if ex_type e = Module then ex_assembly e else None)"

definition has_errors :: "extension \<Rightarrow> bool" where
  "has_errors e \<longleftrightarrow> ex_errors e \<noteq> []"

definition has_warnings :: "extension \<Rightarrow> bool" where
  "has_warnings e \<longleftrightarrow> ex_warnings e \<noteq> []"

section \<open>State and timing\<close>

definition set_state :: "extension_state \<Rightarrow> extension \<Rightarrow> extension" where
  "set_state s e = e\<lparr>ex_asserted := ex_asserted e @ [(ex_state e, s)], ex_state := s\<rparr>"

definition start_operation :: "int \<Rightarrow> extension_state \<Rightarrow> extension \<Rightarrow> extension" where
  "start_operation now s e = set_state s (e\<lparr>ex_last_start := now\<rparr>)"

definition end_operation :: "int \<Rightarrow> extension_state \<Rightarrow> extension \<Rightarrow> extension" where
  "end_operation now s e =
     (let duration = to_milliseconds (now - ex_last_start e) in
      set_state s (e\<lparr>ex_timepoints := (ex_timepoints e)(ex_state e \<mapsto> duration)\<rparr>))"

definition get_operation_time :: "extension_state \<Rightarrow> extension \<Rightarrow> int" where
  "get_operation_time s e = (case ex_timepoints e s of None \<Rightarrow> 0 | Some t \<Rightarrow> t)"

text \<open>The entries of the ordered map of timings.\<close>

definition timings :: "extension \<Rightarrow> (extension_state \<times> int) list" where
  "timings e = concat (map (\<lambda>s. case ex_timepoints e s of None \<Rightarrow> [] | Some t \<Rightarrow> [(s, t)]) all_states)"

definition get_total_time :: "extension \<Rightarrow> int" where
  "get_total_time e = foldl (\<lambda>total (_, t). total + t) 0 (timings e)"

definition timings_to_string :: "extension \<Rightarrow> string" where
  "timings_to_string e =
     concat (map (\<lambda>(s, t). ''  '' @ state_name s @ '' '' @ show_ms t @ '','' @ newline) (timings e))
     @ ''  - Total '' @ show_ms (get_total_time e)"

definition get_performance_report :: "extension \<Rightarrow> string" where
  "get_performance_report e = ex_name e @ '':'' @ newline @ timings_to_string e"

definition extension_to_string :: "extension \<Rightarrow> string" where
  "extension_to_string e = ''Extension[id='' @ show_int (ex_id e) @ '', name='' @ ex_name e @
     '', type='' @ type_name (ex_type e) @ '', state='' @ state_name (ex_state e) @
     '', errors='' @ show_nat (length (ex_errors e)) @
     '', warnings='' @ show_nat (length (ex_warnings e)) @ '']''"

section \<open>Updates\<close>

definition add_error :: "string \<Rightarrow> extension \<Rightarrow> extension" where
  "add_error err e = e\<lparr>ex_errors := ex_errors e @ [err]\<rparr>"

definition add_warning :: "string \<Rightarrow> extension \<Rightarrow> extension" where
  "add_warning w e = e\<lparr>ex_warnings := ex_warnings e @ [w]\<rparr>"

definition clear_errors :: "extension \<Rightarrow> extension" where
  "clear_errors e = e\<lparr>ex_errors := []\<rparr>"

definition clear_warnings :: "extension \<Rightarrow> extension" where
  "clear_warnings e = e\<lparr>ex_warnings := []\<rparr>"

definition set_user_data :: "address \<Rightarrow> extension \<Rightarrow> extension" where
  "set_user_data a e = e\<lparr>ex_user_data := a\<rparr>"

definition set_method_table :: "method_table \<Rightarrow> extension \<Rightarrow> extension" where
  "set_method_table t e = e\<lparr>ex_method_table := t\<rparr>"

definition set_language_module :: "nat option \<Rightarrow> extension \<Rightarrow> extension" where
  "set_language_module m e = e\<lparr>ex_language_module := m\<rparr>"

definition set_methods_data :: "method_data list \<Rightarrow> extension \<Rightarrow> extension" where
  "set_methods_data ms e = (if ex_type e = Plugin then e\<lparr>ex_method_data := ms\<rparr> else e)"

definition set_assembly :: "nat option \<Rightarrow> extension \<Rightarrow> extension" where
  "set_assembly a e = (if ex_type e = Module then e\<lparr>ex_assembly := a\<rparr> else e)"

definition add_dependency :: "string \<Rightarrow> extension \<Rightarrow> extension" where
  "add_dependency d e = e\<lparr>ex_manifest := (ex_manifest e)\<lparr>mf_dependencies :=
     Some (get_dependencies e @ [dependency_default\<lparr>dp_name := d\<rparr>])\<rparr>\<rparr>"

section \<open>The registry of names\<close>

type_synonym registry = "unique_id \<Rightarrow> string option"

text \<open>The constructor and the destructor of \<open>Registrar\<close>, and \<open>ToString\<close> of an identifier.\<close>

definition registrar_create :: "unique_id \<Rightarrow> string \<Rightarrow> registry \<Rightarrow> registry" where
  "registrar_create i name reg = reg(i \<mapsto> name)"

definition registrar_destroy :: "unique_id \<Rightarrow> registry \<Rightarrow> registry" where
  "registrar_destroy i reg = reg(i := None)"

definition id_to_string :: "registry \<Rightarrow> unique_id \<Rightarrow> string" where
  "id_to_string reg i = (case reg i of None \<Rightarrow> ''<unknown>'' | Some n \<Rightarrow> n)"

text \<open>
  \<open>Impl::Setup\<close>. The new registrar is made before the unique pointer drops the old one, whose
  destructor then removes the name under its own identifier.
\<close>

definition impl_setup :: "library_naming \<Rightarrow> extension \<times> registry \<Rightarrow> extension \<times> registry" where
  "impl_setup n = (\<lambda>(e, reg).
     let parent = path_parent (ex_location e);
         e = e\<lparr>ex_version := version_to_string (mf_version (ex_manifest e))\<rparr>;
         e = (if ex_type e = Module
              then e\<lparr>ex_manifest := resolve_paths n parent (ex_location e) (ex_manifest e)\<rparr> else e);
         e = e\<lparr>ex_location := parent\<rparr>;
         reg = registrar_create (ex_id e) (mf_name (ex_manifest e)) reg;
         reg = (case ex_registrar e of None \<Rightarrow> reg | Some i \<Rightarrow> registrar_destroy i reg)
     in (e\<lparr>ex_registrar := Some (ex_id e)\<rparr>, reg))"

definition set_manifest :: "library_naming \<Rightarrow> manifest \<Rightarrow> extension \<times> registry \<Rightarrow> extension \<times> registry" where
  "set_manifest n m = (\<lambda>(e, reg). impl_setup n (e\<lparr>ex_manifest := m\<rparr>, reg))"

text \<open>
  The destructor of an extension drops its registrar; \<open>Reset\<close> assigns a default-constructed
  extension, whose implementation pointer is null (\<open>None\<close>): every getter dereferences it.
\<close>

definition destroy_extension :: "extension \<times> registry \<Rightarrow> registry" where
  "destroy_extension = (\<lambda>(e, reg).
     case ex_registrar e of None \<Rightarrow> reg | Some i \<Rightarrow> registrar_destroy i reg)"

definition reset :: "extension \<times> registry \<Rightarrow> extension option \<times> registry" where
  "reset = (\<lambda>(e, reg). (None, destroy_extension (e, reg)))"


section \<open>What the operations keep\<close>

text \<open>No assertion of \<open>SetState\<close> made so far has failed.\<close>

definition asserts_hold :: "extension \<Rightarrow> bool" where
  "asserts_hold e \<longleftrightarrow> list_all (\<lambda>(a, b). is_valid_transition a b) (ex_asserted e)"

named_theorems extension_simps \<open>what the operations of an extension do to its fields\<close>

lemma asserts_hold_set_state [simp]:
  "asserts_hold (set_state s e) \<longleftrightarrow> asserts_hold e \<and> is_valid_transition (ex_state e) s"
  "asserts_hold (start_operation now s e) \<longleftrightarrow> asserts_hold e \<and> is_valid_transition (ex_state e) s"
  "asserts_hold (end_operation now s e) \<longleftrightarrow> asserts_hold e \<and> is_valid_transition (ex_state e) s"
  by (auto simp: asserts_hold_def set_state_def start_operation_def end_operation_def Let_def)

lemma ex_state_set_state [simp]:
  "ex_state (set_state s e) = s" "ex_state (start_operation now s e) = s"
  "ex_state (end_operation now s e) = s"
  by (simp_all add: set_state_def start_operation_def end_operation_def Let_def)

lemma set_state_frame [simp]:
  "ex_id (set_state s e) = ex_id e" "ex_type (set_state s e) = ex_type e"
  "ex_manifest (set_state s e) = ex_manifest e" "ex_errors (set_state s e) = ex_errors e"
  "ex_method_table (set_state s e) = ex_method_table e"
  "ex_language_module (set_state s e) = ex_language_module e"
  "ex_registrar (set_state s e) = ex_registrar e" "ex_user_data (set_state s e) = ex_user_data e"
  "ex_assembly (set_state s e) = ex_assembly e" "ex_warnings (set_state s e) = ex_warnings e"
  "ex_location (set_state s e) = ex_location e" "ex_method_data (set_state s e) = ex_method_data e"
  by (simp_all add: set_state_def)

lemma operation_frame [simp]:
  "ex_id (start_operation now s e) = ex_id e" "ex_id (end_operation now s e) = ex_id e"
  "ex_type (start_operation now s e) = ex_type e" "ex_type (end_operation now s e) = ex_type e"
  "ex_manifest (start_operation now s e) = ex_manifest e" "ex_manifest (end_operation now s e) = ex_manifest e"
  "ex_errors (start_operation now s e) = ex_errors e" "ex_errors (end_operation now s e) = ex_errors e"
  "ex_language_module (start_operation now s e) = ex_language_module e"
  "ex_language_module (end_operation now s e) = ex_language_module e"
  "ex_method_table (start_operation now s e) = ex_method_table e"
  "ex_method_table (end_operation now s e) = ex_method_table e"
  "ex_registrar (start_operation now s e) = ex_registrar e" "ex_registrar (end_operation now s e) = ex_registrar e"
  "ex_location (start_operation now s e) = ex_location e" "ex_location (end_operation now s e) = ex_location e"
  "ex_assembly (start_operation now s e) = ex_assembly e" "ex_assembly (end_operation now s e) = ex_assembly e"
  by (simp_all add: start_operation_def end_operation_def Let_def)

lemma update_frame [simp]:
  "ex_state (add_error err e) = ex_state e" "ex_id (add_error err e) = ex_id e"
  "ex_type (add_error err e) = ex_type e" "asserts_hold (add_error err e) = asserts_hold e"
  "ex_manifest (add_error err e) = ex_manifest e" "ex_language_module (add_error err e) = ex_language_module e"
  "ex_method_table (add_error err e) = ex_method_table e"
  "ex_state (add_warning err e) = ex_state e" "ex_id (add_warning err e) = ex_id e"
  "ex_type (add_warning err e) = ex_type e" "asserts_hold (add_warning err e) = asserts_hold e"
  "ex_manifest (add_warning err e) = ex_manifest e"
  "ex_state (add_dependency d e) = ex_state e" "ex_id (add_dependency d e) = ex_id e"
  "ex_type (add_dependency d e) = ex_type e" "asserts_hold (add_dependency d e) = asserts_hold e"
  by (simp_all add: add_error_def add_warning_def add_dependency_def asserts_hold_def)

lemma runtime_frame [simp]:
  "ex_state (set_user_data a e) = ex_state e" "ex_state (set_method_table t e) = ex_state e"
  "ex_state (set_language_module m e) = ex_state e" "ex_state (set_methods_data ms e) = ex_state e"
  "ex_state (set_assembly h e) = ex_state e"
  "ex_id (set_user_data a e) = ex_id e" "ex_id (set_method_table t e) = ex_id e"
  "ex_id (set_language_module m e) = ex_id e" "ex_id (set_methods_data ms e) = ex_id e"
  "ex_id (set_assembly h e) = ex_id e"
  "ex_type (set_user_data a e) = ex_type e" "ex_type (set_method_table t e) = ex_type e"
  "ex_type (set_language_module m e) = ex_type e" "ex_type (set_methods_data ms e) = ex_type e"
  "ex_type (set_assembly h e) = ex_type e"
  "asserts_hold (set_user_data a e) = asserts_hold e" "asserts_hold (set_method_table t e) = asserts_hold e"
  "asserts_hold (set_language_module m e) = asserts_hold e"
  "asserts_hold (set_methods_data ms e) = asserts_hold e" "asserts_hold (set_assembly h e) = asserts_hold e"
  by (simp_all add: set_user_data_def set_method_table_def set_language_module_def set_methods_data_def
      set_assembly_def asserts_hold_def)

lemma set_manifest_frame [simp]:
  "ex_state (fst (set_manifest n m x)) = ex_state (fst x)"
  "ex_id (fst (set_manifest n m x)) = ex_id (fst x)"
  "ex_type (fst (set_manifest n m x)) = ex_type (fst x)"
  "asserts_hold (fst (set_manifest n m x)) = asserts_hold (fst x)"
  "ex_registrar (fst (set_manifest n m x)) = Some (ex_id (fst x))"
  "ex_errors (fst (set_manifest n m x)) = ex_errors (fst x)"
  by (cases x; simp add: set_manifest_def impl_setup_def Let_def asserts_hold_def)+

lemma set_manifest_name [simp]: "ex_name (fst (set_manifest n m x)) = mf_name m"
  by (cases x) (simp add: set_manifest_def impl_setup_def Let_def ex_name_def resolve_paths_def)

lemma set_manifest_registry:
  "snd (set_manifest n m (e, reg)) = (case ex_registrar e of
     None \<Rightarrow> reg(ex_id e \<mapsto> mf_name m)
   | Some i \<Rightarrow> (reg(ex_id e \<mapsto> mf_name m))(i := None))"
  by (simp add: set_manifest_def impl_setup_def Let_def registrar_create_def registrar_destroy_def
      resolve_paths_def split: option.splits)

section \<open>The state machine\<close>

fun valid_run :: "extension_state \<Rightarrow> extension_state list \<Rightarrow> bool" where
  "valid_run s [] = True"
| "valid_run s (t # ts) = (is_valid_transition s t \<and> valid_run t ts)"

definition state_rank :: "extension_state \<Rightarrow> nat" where
  "state_rank s = (case s of
     Unknown \<Rightarrow> 0 | Discovered \<Rightarrow> 1 | Parsing \<Rightarrow> 2 | Parsed \<Rightarrow> 3 | Resolving \<Rightarrow> 4 | Resolved \<Rightarrow> 5
   | Loading \<Rightarrow> 6 | Loaded \<Rightarrow> 7 | Exporting \<Rightarrow> 8 | Exported \<Rightarrow> 9 | Starting \<Rightarrow> 10 | Started \<Rightarrow> 11
   | Running \<Rightarrow> 12 | Ending \<Rightarrow> 13 | Ended \<Rightarrow> 14 | Terminating \<Rightarrow> 15 | _ \<Rightarrow> 16)"

lemma transition_rank: "is_valid_transition s t \<Longrightarrow> state_rank s < state_rank t"
  by (cases s) (auto simp: is_valid_transition_def state_rank_def)

lemma state_rank_bound: "state_rank s \<le> 16"
  by (cases s) (simp_all add: state_rank_def)

lemma valid_run_rank: "valid_run s ts \<Longrightarrow> t \<in> set ts \<Longrightarrow> state_rank s < state_rank t"
  by (induction ts arbitrary: s) (auto dest!: transition_rank intro: less_trans)

lemma valid_run_length: "valid_run s ts \<Longrightarrow> length ts + state_rank s \<le> 16"
proof (induction ts arbitrary: s)
  case (Cons t ts)
  then have "length ts + state_rank t \<le> 16" "state_rank s < state_rank t" by (auto dest: transition_rank)
  then show ?case by simp
qed (simp add: state_rank_bound)

lemma valid_run_distinct: "valid_run s ts \<Longrightarrow> distinct (s # ts)"
proof (induction ts arbitrary: s)
  case (Cons t ts)
  then have "distinct (t # ts)" using Cons.IH [of t] by simp
  moreover have "s \<notin> set (t # ts)" using valid_run_rank [OF Cons.prems] by blast
  ultimately show ?case by simp
qed simp

lemma valid_run_predecessor:
  "valid_run s ts \<Longrightarrow> t \<in> set ts \<Longrightarrow> \<exists>p \<in> set (s # ts). is_valid_transition p t"
  by (induction ts arbitrary: s) auto

lemma predecessors:
  "is_valid_transition p Running \<Longrightarrow> p = Loaded \<or> p = Started"
  "is_valid_transition p Started \<Longrightarrow> p = Starting" "is_valid_transition p Starting \<Longrightarrow> p = Exported"
  "is_valid_transition p Exported \<Longrightarrow> p = Exporting" "is_valid_transition p Exporting \<Longrightarrow> p = Loaded"
  "is_valid_transition p Loaded \<Longrightarrow> p = Loading" "is_valid_transition p Loading \<Longrightarrow> p = Resolved"
  "is_valid_transition p Resolved \<Longrightarrow> p = Resolving" "is_valid_transition p Resolving \<Longrightarrow> p = Parsed"
  by (cases p; simp add: is_valid_transition_def)+

section \<open>Properties\<close>

text \<open>The state machine has no cycle: a run of valid transitions visits no state twice and
  makes at most 16 transitions.\<close>

lemma valid_runs_bounded:
  assumes "valid_run s ts"
  shows "distinct (s # ts) \<and> length ts \<le> 16"
  using valid_run_distinct [OF assms] valid_run_length [OF assms] by simp

lemma valid_runs_bounded_witness:
  "distinct [Discovered, Parsing, Parsed, Resolving, Resolved, Loading, Loaded, Running]"
proof -
  have "valid_run Discovered [Parsing, Parsed, Resolving, Resolved, Loading, Loaded, Running]"
    by (simp add: is_valid_transition_def)
  from valid_runs_bounded [OF this] show ?thesis by blast
qed

text \<open>Every valid way from discovery to running goes through a parsed manifest, resolved
  dependencies and a completed load.\<close>

lemma running_was_loaded:
  assumes "valid_run Discovered ts" "Running \<in> set ts"
  shows "{Parsed, Resolved, Loaded} \<subseteq> set ts"
proof -
  note pred = valid_run_predecessor [OF assms(1)]
  have loaded: "Loaded \<in> set ts"
  proof -
    have "Loaded \<in> set ts \<or> Started \<in> set ts" using pred [OF assms(2)] predecessors(1) by fastforce
    moreover have "Started \<in> set ts \<Longrightarrow> Starting \<in> set ts" using pred predecessors(2) by fastforce
    moreover have "Starting \<in> set ts \<Longrightarrow> Exported \<in> set ts" using pred predecessors(3) by fastforce
    moreover have "Exported \<in> set ts \<Longrightarrow> Exporting \<in> set ts" using pred predecessors(4) by fastforce
    moreover have "Exporting \<in> set ts \<Longrightarrow> Loaded \<in> set ts" using pred predecessors(5) by fastforce
    ultimately show ?thesis by blast
  qed
  then have "Loading \<in> set ts" using pred predecessors(6) by fastforce
  then have resolved: "Resolved \<in> set ts" using pred predecessors(7) by fastforce
  then have "Resolving \<in> set ts" using pred predecessors(8) by fastforce
  then have "Parsed \<in> set ts" using pred predecessors(9) by fastforce
  with loaded resolved show ?thesis by simp
qed

lemma running_was_loaded_witness:
  "{Parsed, Resolved, Loaded} \<subseteq> set [Parsing, Parsed, Resolving, Resolved, Loading, Loaded, Running]"
  by (rule running_was_loaded) (simp_all add: is_valid_transition_def)

text \<open>Setting an extension's manifest enters its name in the registry the first time and
  takes it out again the second time: the old registrar is destroyed after the new one has
  registered the same identifier, so the identifier of a live extension reads as unknown.\<close>

lemma second_manifest_unregisters:
  assumes "ex_registrar e = None"
  shows "id_to_string (snd (set_manifest n m (e, reg))) (ex_id e) = mf_name m \<and>
    id_to_string (snd (set_manifest n m' (set_manifest n m (e, reg)))) (ex_id e) = ''<unknown>''"
proof -
  obtain e' reg' where e': "set_manifest n m (e, reg) = (e', reg')" by (cases "set_manifest n m (e, reg)")
  then have "ex_registrar e' = Some (ex_id e)" "ex_id e' = ex_id e" "reg' = reg(ex_id e \<mapsto> mf_name m)"
    using set_manifest_frame [of n m "(e, reg)"] set_manifest_registry [of n m e reg] assms by simp_all
  then show ?thesis unfolding e' by (simp add: id_to_string_def set_manifest_registry)
qed

lemma second_manifest_unregisters_witness:
  "id_to_string (snd (set_manifest \<lparr>ln_prefix = ''lib'', ln_suffix = ''.so''\<rparr> manifest_default
     (set_manifest \<lparr>ln_prefix = ''lib'', ln_suffix = ''.so''\<rparr> (manifest_default\<lparr>mf_name := ''a''\<rparr>)
       (new_extension 7 ''/p/a.pplugin'', Map.empty)))) 7 = ''<unknown>''"
  using second_manifest_unregisters [of "new_extension 7 ''/p/a.pplugin''" _ "manifest_default\<lparr>mf_name := ''a''\<rparr>"]
  by (simp add: new_extension_def)

end
