(* ===== verification/Resolver.thy ===== *)
theory Resolver
  imports Extension "HOL-Library.AList"
begin

text \<open>
  The dependency resolver (src/core/libsolv_dependency_resolver.cpp) and its report
  (include/plugify/dependency_resolver.hpp). The solver is libsolv: the model builds what the
  program puts into its pool and reads from its answer, and takes the solver itself as an
  argument (\<open>solver\<close>). The pool interns its identifiers, so an identifier is written as the
  string or the relation that was interned, and the identifier zero as \<open>Null_id\<close>.
\<close>

section \<open>The report\<close>

record dependency_issue =
  di_affected :: unique_id
  di_involved :: unique_id
  di_problem :: string
  di_description :: string
  di_suggested_fixes :: "string list option"
  di_is_blocking :: bool

definition issue_default :: dependency_issue where
  "issue_default = \<lparr>di_affected = no_id, di_involved = no_id, di_problem = [], di_description = [],
     di_suggested_fixes = None, di_is_blocking = True\<rparr>"

text \<open>\<open>GetDetailedDescription\<close>: the format string of a suggestion has no placeholder, so the
  argument is not printed.\<close>

definition get_detailed_description :: "dependency_issue \<Rightarrow> string" where
  "get_detailed_description i = di_problem i @ '': '' @ di_description i @
     (case di_suggested_fixes i of
        None \<Rightarrow> []
      | Some fixes \<Rightarrow> if fixes = [] then []
          else newline @ ''  Suggestions:'' @ concat (map (\<lambda>fix. newline @ ''    - '') fixes))"

record resolution_report =
  rr_issues :: "unique_id \<Rightarrow> dependency_issue list option"
  rr_graph :: "unique_id \<Rightarrow> unique_id list option"
  rr_reverse_graph :: "unique_id \<Rightarrow> unique_id list option"
  rr_load_order :: "unique_id list"
  rr_valid :: bool

definition report_empty :: resolution_report where
  "report_empty = \<lparr>rr_issues = Map.empty, rr_graph = Map.empty, rr_reverse_graph = Map.empty,
     rr_load_order = [], rr_valid = False\<rparr>"

section \<open>The pool\<close>

datatype rel_flags = Rel_flags (rel_lt: bool) (rel_eq: bool) (rel_gt: bool) | Rel_and | Rel_or

datatype dep = Null_id | Str string | Rel dep dep rel_flags

type_synonym solvable_id = nat

record solvable =
  sv_name :: string
  sv_evr :: string
  sv_vendor :: "string option"
  sv_provides :: "dep list"
  sv_requires :: "dep list"
  sv_recommends :: "dep list"
  sv_conflicts :: "dep list"
  sv_obsoletes :: "dep list"

text \<open>The solvables of the pool, in order: the first two identifiers are the pool's own.\<close>

type_synonym pool = "solvable list"

definition first_solvable :: solvable_id where
  "first_solvable = 2"

definition pool_solvable :: "pool \<Rightarrow> solvable_id \<Rightarrow> solvable option" where
  "pool_solvable p i = (if first_solvable \<le> i \<and> i < first_solvable + length p
     then Some (p ! (i - first_solvable)) else None)"

text \<open>A problem of the solver: the identifiers of its rule (zero for none), its text and the
  steps of each solution; an answer: whether problems were detected, the problems, the ordered
  steps of the transaction if there is one, and what provides a dependency.\<close>

record solver_problem =
  sp_source :: solvable_id
  sp_target :: solvable_id
  sp_text :: string
  sp_solutions :: "string list list"

record solver_answer =
  sa_failed :: bool
  sa_problems :: "solver_problem list"
  sa_transaction :: "solvable_id list option"
  sa_providers :: "dep \<Rightarrow> solvable_id list"

type_synonym solver = "pool \<Rightarrow> solvable_id list \<Rightarrow> solver_answer"

text \<open>The resolver object: its two maps live as long as it does.\<close>

record resolver =
  rs_to_solvable :: "(unique_id \<times> solvable_id) list"
  rs_to_extension :: "solvable_id \<Rightarrow> unique_id option"

definition resolver_new :: resolver where
  "resolver_new = \<lparr>rs_to_solvable = [], rs_to_extension = Map.empty\<rparr>"

section \<open>Constraints\<close>

definition convert_comparison :: "range_operator \<Rightarrow> rel_flags" where
  "convert_comparison op = (case op of
     Less \<Rightarrow> Rel_flags True False False
   | Less_or_equal \<Rightarrow> Rel_flags True True False
   | Equal \<Rightarrow> Rel_flags False True False
   | Greater_or_equal \<Rightarrow> Rel_flags False True True
   | Greater \<Rightarrow> Rel_flags False False True)"

fun range_dep :: "string \<Rightarrow> dep \<Rightarrow> range \<Rightarrow> dep" where
  "range_dep name inner [] = inner"
| "range_dep name inner (c # cs) =
     (let d = Rel (Str name) (Str (version_to_string (rc_version c))) (convert_comparison (rc_operator c)) in
      range_dep name (if inner = Null_id then d else Rel inner d Rel_and) cs)"

fun ranges_dep :: "string \<Rightarrow> dep \<Rightarrow> range_set \<Rightarrow> dep" where
  "ranges_dep name result [] = result"
| "ranges_dep name result (r # rs) =
     (let inner = range_dep name Null_id r in
      ranges_dep name (if result = Null_id then inner else Rel result inner Rel_or) rs)"

definition make_dep_constraint :: "string \<Rightarrow> constraint option \<Rightarrow> dep" where
  "make_dep_constraint name constraints = (case constraints of
     None \<Rightarrow> Str name
   | Some rs \<Rightarrow> if rs = [] then Str name else ranges_dep name Null_id rs)"

section \<open>Filling the pool\<close>

definition add_solvable :: "manifest \<Rightarrow> solvable" where
  "add_solvable m =
     (let name = mf_name m; evr = version_to_string (mf_version m) in
      \<lparr>sv_name = name, sv_evr = evr, sv_vendor = mf_author m,
       sv_provides = [Rel (Str name) (Str evr) (Rel_flags False True False)],
       sv_requires = [], sv_recommends = [], sv_conflicts = [], sv_obsoletes = []\<rparr>)"

definition setup_dependencies :: "manifest \<Rightarrow> solvable \<Rightarrow> solvable" where
  "setup_dependencies m s = foldl (\<lambda>s d.
     let i = make_dep_constraint (dp_name d) (dp_constraints d) in
     if is_optional d then s\<lparr>sv_recommends := sv_recommends s @ [i]\<rparr>
     else s\<lparr>sv_requires := sv_requires s @ [i]\<rparr>) s (opt_list (mf_dependencies m))"

definition setup_conflicts :: "manifest \<Rightarrow> solvable \<Rightarrow> solvable" where
  "setup_conflicts m s = foldl (\<lambda>s c.
     s\<lparr>sv_conflicts := sv_conflicts s @ [make_dep_constraint (cf_name c) (cf_constraints c)]\<rparr>) s
     (opt_list (mf_conflicts m))"

definition setup_obsoletes :: "manifest \<Rightarrow> solvable \<Rightarrow> solvable" where
  "setup_obsoletes m s = foldl (\<lambda>s c.
     s\<lparr>sv_obsoletes := sv_obsoletes s @ [make_dep_constraint (cf_name c) (cf_constraints c)]\<rparr>) s
     (opt_list (mf_obsoletes m))"

definition add_extension :: "extension \<Rightarrow> pool \<times> resolver \<Rightarrow> pool \<times> resolver" where
  "add_extension e = (\<lambda>(pool, rs).
     let m = ex_manifest e; i = first_solvable + length pool in
     (pool @ [setup_obsoletes m (setup_conflicts m (setup_dependencies m (add_solvable m)))],
      rs\<lparr>rs_to_solvable := AList.update (ex_id e) i (rs_to_solvable rs),
         rs_to_extension := (rs_to_extension rs)(i \<mapsto> ex_id e)\<rparr>))"

definition add_extensions_to_pool :: "extension list \<Rightarrow> pool \<times> resolver \<Rightarrow> pool \<times> resolver" where
  "add_extensions_to_pool es x = fold add_extension es x"

section \<open>Reading the answer\<close>

definition solution_text :: "nat \<Rightarrow> string list \<Rightarrow> string" where
  "solution_text k steps = ''Solution '' @ show_nat k @ '': '' @
     (if steps \<noteq> [] then join_strings '', '' steps else ''Adjust installation requirements'')"

definition extract_solutions :: "string list list \<Rightarrow> string list" where
  "extract_solutions sols =
     (if sols = [] then [''Check extension availability'', ''Review version constraints'',
        ''Consider removing conflicting extensions'']
      else map2 solution_text [1..<Suc (length sols)] sols)"

definition lookup_extension :: "resolver \<Rightarrow> solvable_id \<Rightarrow> unique_id" where
  "lookup_extension rs i = (if i = 0 then no_id
     else case rs_to_extension rs i of None \<Rightarrow> no_id | Some e \<Rightarrow> e)"

definition append_at :: "'k \<Rightarrow> 'v \<Rightarrow> ('k \<Rightarrow> 'v list option) \<Rightarrow> 'k \<Rightarrow> 'v list option" where
  "append_at k v m = m(k \<mapsto> (case m k of None \<Rightarrow> [] | Some vs \<Rightarrow> vs) @ [v])"

definition process_problem ::
    "resolver \<Rightarrow> nat \<Rightarrow> nat \<times> solver_problem \<Rightarrow> resolution_report \<Rightarrow> resolution_report" where
  "process_problem rs count = (\<lambda>(k, p) r.
     let issue = issue_default\<lparr>di_problem := ''Problem '' @ show_nat k @ ''/'' @ show_nat count,
           di_affected := lookup_extension rs (sp_source p), di_involved := lookup_extension rs (sp_target p),
           di_description := sp_text p, di_suggested_fixes := Some (extract_solutions (sp_solutions p))\<rparr>
     in if di_affected issue \<noteq> no_id
        then r\<lparr>rr_issues := append_at (di_affected issue) issue (rr_issues r)\<rparr> else r)"

definition process_solver_problems :: "resolver \<Rightarrow> solver_problem list \<Rightarrow> resolution_report \<Rightarrow> resolution_report" where
  "process_solver_problems rs ps r =
     fold (process_problem rs (length ps)) (zip [1..<Suc (length ps)] ps) r"

text \<open>One provider of a requirement of the solvable \<open>p\<close>, whose extension is \<open>e\<close>.\<close>

definition add_provider ::
    "resolver \<Rightarrow> solvable_id \<Rightarrow> unique_id \<Rightarrow> solvable_id \<Rightarrow> resolution_report \<Rightarrow> resolution_report" where
  "add_provider rs p e q r = (case rs_to_extension rs q of
     None \<Rightarrow> r
   | Some d \<Rightarrow> if q = p then r
       else r\<lparr>rr_graph := append_at e d (rr_graph r), rr_reverse_graph := append_at d e (rr_reverse_graph r)\<rparr>)"

text \<open>The requirements of a solvable, read up to the zero that ends the array.\<close>

definition requirements :: "pool \<Rightarrow> solvable_id \<Rightarrow> dep list" where
  "requirements pool p = (case pool_solvable pool p of
     None \<Rightarrow> [] | Some s \<Rightarrow> takeWhile (\<lambda>d. d \<noteq> Null_id) (sv_requires s))"

definition order_step ::
    "pool \<Rightarrow> (dep \<Rightarrow> solvable_id list) \<Rightarrow> resolver \<Rightarrow> solvable_id \<Rightarrow> resolution_report \<Rightarrow> resolution_report" where
  "order_step pool providers rs p r = (case rs_to_extension rs p of
     None \<Rightarrow> r
   | Some e \<Rightarrow> fold (add_provider rs p e) (concat (map providers (requirements pool p)))
       (r\<lparr>rr_load_order := rr_load_order r @ [e]\<rparr>))"

definition compute_installation_order ::
    "pool \<Rightarrow> (dep \<Rightarrow> solvable_id list) \<Rightarrow> resolver \<Rightarrow> solvable_id list \<Rightarrow> resolution_report \<Rightarrow> resolution_report" where
  "compute_installation_order pool providers rs steps r =
     (fold (order_step pool providers rs) steps r)\<lparr>rr_valid := True\<rparr>"

section \<open>Resolve\<close>

text \<open>The jobs are pushed in the iteration order of the hash map, an argument (\<open>hash_order\<close>).\<close>

definition run_solver ::
    "solver \<Rightarrow> ((unique_id \<times> solvable_id) list \<Rightarrow> (unique_id \<times> solvable_id) list) \<Rightarrow> pool \<times> resolver \<Rightarrow>
      resolution_report" where
  "run_solver solve hash_order = (\<lambda>(pool, rs).
     let answer = solve pool (map snd (hash_order (rs_to_solvable rs)));
         r = (if sa_failed answer then process_solver_problems rs (sa_problems answer) report_empty
              else report_empty)
     in case sa_transaction answer of
          None \<Rightarrow> r
        | Some steps \<Rightarrow> compute_installation_order pool (sa_providers answer) rs steps r)"

definition resolve ::
    "solver \<Rightarrow> ((unique_id \<times> solvable_id) list \<Rightarrow> (unique_id \<times> solvable_id) list) \<Rightarrow> extension list \<Rightarrow>
      resolver \<Rightarrow> resolution_report \<times> resolver" where
  "resolve solve hash_order es rs =
     (let x = add_extensions_to_pool es ([], rs) in (run_solver solve hash_order x, snd x))"


section \<open>What a dependency asks for\<close>





lemma range_dep_null [simp]: "range_dep name inner r = Null_id \<longleftrightarrow> inner = Null_id \<and> r = []"
  by (induction name inner r rule: range_dep.induct) (auto simp: Let_def)


lemma ranges_dep_null:
  "ranges_dep name result rs = Null_id \<longleftrightarrow> result = Null_id \<and> list_all (\<lambda>r. r = []) rs"
  by (induction name result rs rule: ranges_dep.induct) (auto simp: Let_def)


section \<open>The dependency graphs\<close>

definition edges :: "(unique_id \<Rightarrow> unique_id list option) \<Rightarrow> unique_id \<Rightarrow> unique_id list" where
  "edges g i = (case g i of None \<Rightarrow> [] | Some ds \<Rightarrow> ds)"

text \<open>The two graphs are each other's converse, counting parallel edges.\<close>

definition converse_graphs :: "resolution_report \<Rightarrow> bool" where
  "converse_graphs r \<longleftrightarrow> (\<forall>e d. count_list (edges (rr_graph r) e) d = count_list (edges (rr_reverse_graph r) d) e)"

lemma edges_append_at [simp]: "edges (append_at k v g) i = (if i = k then edges g i @ [v] else edges g i)"
  by (simp add: edges_def append_at_def)

lemma converse_add_provider: "converse_graphs r \<Longrightarrow> converse_graphs (add_provider rs p e q r)"
  by (auto simp: converse_graphs_def add_provider_def split: option.splits)

lemma converse_add_providers: "converse_graphs r \<Longrightarrow> converse_graphs (fold (add_provider rs p e) qs r)"
  by (induction qs arbitrary: r) (auto intro: converse_add_provider)

lemma converse_order_step: "converse_graphs r \<Longrightarrow> converse_graphs (order_step pool providers rs p r)"
proof (cases "rs_to_extension rs p")
  case (Some e)
  assume "converse_graphs r"
  then have "converse_graphs (r\<lparr>rr_load_order := rr_load_order r @ [e]\<rparr>)" by (simp add: converse_graphs_def)
  with Some show ?thesis by (simp add: order_step_def converse_add_providers)
qed (simp add: order_step_def)

lemma converse_order_steps: "converse_graphs r \<Longrightarrow> converse_graphs (fold (order_step pool providers rs) ps r)"
  by (induction ps arbitrary: r) (auto intro: converse_order_step)

lemma process_problem_frame [simp]:
  "rr_graph (process_problem rs n p r) = rr_graph r"
  "rr_reverse_graph (process_problem rs n p r) = rr_reverse_graph r"
  "rr_load_order (process_problem rs n p r) = rr_load_order r" "rr_valid (process_problem rs n p r) = rr_valid r"
  by (auto simp: process_problem_def Let_def split: prod.splits)

lemma process_problems_frame:
  "rr_graph (fold (process_problem rs n) ps r) = rr_graph r \<and>
   rr_reverse_graph (fold (process_problem rs n) ps r) = rr_reverse_graph r \<and>
   rr_load_order (fold (process_problem rs n) ps r) = rr_load_order r \<and>
   rr_valid (fold (process_problem rs n) ps r) = rr_valid r"
  by (induction ps arbitrary: r) simp_all

lemma load_order_add_providers [simp]:
  "rr_load_order (fold (add_provider rs p e) qs r) = rr_load_order r"
  by (induction qs arbitrary: r) (auto simp: add_provider_def split: option.splits)

lemma load_order_steps:
  "rr_load_order (fold (order_step pool providers rs) ps r) =
     rr_load_order r @ List.map_filter (rs_to_extension rs) ps"
  by (induction ps arbitrary: r) (auto simp: order_step_def map_filter_simps split: option.splits)

lemma added_extensions:
  "add_extensions_to_pool es (pool, rs) = (pool', rs') \<Longrightarrow>
     ran (rs_to_extension rs') \<subseteq> ran (rs_to_extension rs) \<union> ex_id ` set es \<and> length pool' = length pool + length es"
proof (induction es arbitrary: pool rs)
  case (Cons e es)
  obtain p1 r1 where 1: "add_extension e (pool, rs) = (p1, r1)" by (cases "add_extension e (pool, rs)")
  then have "length p1 = Suc (length pool)" "ran (rs_to_extension r1) \<subseteq> insert (ex_id e) (ran (rs_to_extension rs))"
    by (auto simp: add_extension_def Let_def ran_def split: if_splits)
  with Cons.IH [of p1 r1] Cons.prems 1 show ?case by (force simp: add_extensions_to_pool_def)
qed (auto simp: add_extensions_to_pool_def)

section \<open>Properties\<close>



lemma resolve_converse_graphs: "converse_graphs (fst (resolve solve hash_order es rs))"
proof -
  obtain pool rs' where p: "add_extensions_to_pool es ([], rs) = (pool, rs')"
    by (cases "add_extensions_to_pool es ([], rs)")
  have empty: "converse_graphs report_empty" by (simp add: converse_graphs_def report_empty_def edges_def)
  have "converse_graphs (process_solver_problems rs' ps report_empty)" for ps
    using process_problems_frame [of rs' "length ps" "zip [1..<Suc (length ps)] ps" report_empty] empty
    by (simp add: converse_graphs_def process_solver_problems_def)
  with empty have "converse_graphs (run_solver solve hash_order (pool, rs'))"
    by (auto simp: run_solver_def Let_def compute_installation_order_def split: option.splits
        intro!: converse_order_steps [unfolded converse_graphs_def] simp: converse_graphs_def)
  with p show ?thesis by (simp add: resolve_def Let_def)
qed

lemma converse_edge: "converse_graphs r \<Longrightarrow> d \<in> set (edges (rr_graph r) e) \<longleftrightarrow> e \<in> set (edges (rr_reverse_graph r) d)"
  unfolding converse_graphs_def by (metis count_list_0_iff)

text \<open>In every report of the resolver the reverse dependency graph is the converse of the
  dependency graph, parallel edges included, whatever the solver answers.\<close>

lemma report_graphs_converse:
  "case resolve solve hash_order es rs of (r, rs') \<Rightarrow>
     count_list (edges (rr_graph r) e) d = count_list (edges (rr_reverse_graph r) d) e"
  using resolve_converse_graphs [of solve hash_order es rs] by (auto simp: converse_graphs_def split: prod.split)

text \<open>A fresh resolver puts into the load order only extensions it was given, one for each step
  of the transaction that is a known package and in the order of the steps, and declares the
  order valid exactly when the solver made a transaction, even when it reported problems.\<close>

lemma load_order_from_transaction:
  assumes "resolve solve hash_order es resolver_new = (r, rs')"
  shows "set (rr_load_order r) \<subseteq> ex_id ` set es \<and>
    (\<exists>pool jobs. length pool = length es \<and>
      (rr_valid r \<longleftrightarrow> sa_transaction (solve pool jobs) \<noteq> None) \<and>
      rr_load_order r = (case sa_transaction (solve pool jobs) of None \<Rightarrow> []
        | Some steps \<Rightarrow> List.map_filter (rs_to_extension rs') steps))"
proof -
  obtain pool rs2 where p: "add_extensions_to_pool es ([], resolver_new) = (pool, rs2)"
    by (cases "add_extensions_to_pool es ([], resolver_new)")
  with assms have r: "r = run_solver solve hash_order (pool, rs')" "rs2 = rs'"
    by (auto simp: resolve_def Let_def)
  have ran: "ran (rs_to_extension rs') \<subseteq> ex_id ` set es" "length pool = length es"
    using added_extensions [OF p] r(2) by (auto simp: resolver_new_def)
  let ?jobs = "map snd (hash_order (rs_to_solvable rs'))"
  let ?a = "solve pool ?jobs"
  define r0 where "r0 = (if sa_failed ?a then process_solver_problems rs' (sa_problems ?a) report_empty else report_empty)"
  have r0: "rr_load_order r0 = []" "\<not> rr_valid r0"
    using process_problems_frame [of rs' "length (sa_problems ?a)"
        "zip [1..<Suc (length (sa_problems ?a))] (sa_problems ?a)" report_empty]
    by (simp_all add: r0_def process_solver_problems_def report_empty_def)
  have order: "rr_load_order r = (case sa_transaction ?a of None \<Rightarrow> []
        | Some steps \<Rightarrow> List.map_filter (rs_to_extension rs') steps)"
    and valid: "rr_valid r \<longleftrightarrow> sa_transaction ?a \<noteq> None"
  proof -
    have "r = (case sa_transaction ?a of None \<Rightarrow> r0
        | Some steps \<Rightarrow> compute_installation_order pool (sa_providers ?a) rs' steps r0)"
      unfolding r(1) run_solver_def Let_def prod.case r0_def [symmetric] ..
    with r0 show "rr_load_order r = (case sa_transaction ?a of None \<Rightarrow> []
        | Some steps \<Rightarrow> List.map_filter (rs_to_extension rs') steps)"
      "rr_valid r \<longleftrightarrow> sa_transaction ?a \<noteq> None"
      by (simp_all add: compute_installation_order_def load_order_steps split: option.splits)
  qed
  have "x \<in> ran m" if "x \<in> set (List.map_filter m steps)" for x and m :: "solvable_id \<Rightarrow> unique_id option" and steps
    using that by (auto simp: List.map_filter_def ran_def)
  with order ran(1) have "set (rr_load_order r) \<subseteq> ex_id ` set es" by (auto split: option.splits)
  with order valid ran(2) show ?thesis by blast
qed

lemma load_order_from_transaction_witness:
  "set (rr_load_order (fst (resolve (\<lambda>p js. \<lparr>sa_failed = False, sa_problems = [], sa_transaction = Some js,
     sa_providers = (\<lambda>d. [])\<rparr>) (\<lambda>m. m) [new_extension 4 ''/e/a.pplugin''] resolver_new))) \<subseteq> {4}"
proof -
  let ?solve = "\<lambda>p js. \<lparr>sa_failed = False, sa_problems = [], sa_transaction = Some js, sa_providers = (\<lambda>d. [])\<rparr>"
  obtain r rs where r: "resolve ?solve (\<lambda>m. m) [new_extension 4 ''/e/a.pplugin''] resolver_new = (r, rs)"
    by (cases "resolve ?solve (\<lambda>m. m) [new_extension 4 ''/e/a.pplugin''] resolver_new")
  from load_order_from_transaction [OF r] show ?thesis unfolding r by (simp add: new_extension_def)
qed

text \<open>The maps of a resolver are not cleared when it resolves again: the extension of the first
  run is still asked for as an install job of the second one, although the new pool has no such
  package.\<close>

lemma second_resolve_keeps_old_jobs:
  "let rs = snd (resolve solve hash_order [e] resolver_new) in
     fst (resolve solve hash_order [] rs) = run_solver solve hash_order ([], rs) \<and>
     rs_to_solvable rs = [(ex_id e, first_solvable)] \<and> pool_solvable [] first_solvable = None"
  by (simp add: resolve_def add_extensions_to_pool_def add_extension_def resolver_new_def Let_def
      first_solvable_def pool_solvable_def)

text \<open>The suggested fixes of an issue are not printed: two issues that differ only in the text
  of their suggestions, but have as many, have the same description.\<close>

lemma suggestions_not_printed:
  assumes "length sols = length sols'"
  shows "get_detailed_description (i\<lparr>di_suggested_fixes := Some sols\<rparr>) =
    get_detailed_description (i\<lparr>di_suggested_fixes := Some sols'\<rparr>)"
proof -
  have "concat (map (\<lambda>f. c) xs) = concat (map (\<lambda>f. c) ys)" if "length xs = length ys"
    for c :: string and xs ys :: "string list"
    using that by (induction xs ys rule: list_induct2) simp_all
  from this [OF assms] assms show ?thesis
    by (cases sols; cases sols') (simp_all add: get_detailed_description_def)
qed

lemma suggestions_not_printed_witness:
  "get_detailed_description (issue_default\<lparr>di_suggested_fixes := Some [''Update core'']\<rparr>) =
   get_detailed_description (issue_default\<lparr>di_suggested_fixes := Some [''Remove core'']\<rparr>)"
  by (rule suggestions_not_printed) simp

end
