(* ===== verification/Pipeline.thy ===== *)
theory Pipeline
  imports Prelude "HOL-Library.Multiset"
begin

text \<open>
  The pipeline of stages (src/core/pipeline.hpp, src/core/stages.hpp), over items \<open>'a\<close> and the
  state \<open>'s\<close> the stages share. A transform stage processes its items in parallel: its tasks run
  in the order of a schedule (a permutation of the positions), each as one step, and what does
  not depend on the schedule is proved in the locale \<open>independent_tasks\<close>. A sequential stage may
  hold pointers into the container, so its operation has the whole container and the position.
\<close>

section \<open>Stages\<close>

datatype ('a, 's) stage_body =
    Transform "'s \<Rightarrow> 'a \<Rightarrow> bool" "'a \<times> 's \<Rightarrow> unit result \<times> 'a \<times> 's"
  | Barrier "'a list \<times> 's \<Rightarrow> unit result \<times> 'a list \<times> 's"
  | Sequential bool "'s \<Rightarrow> 'a \<Rightarrow> bool" "nat \<Rightarrow> nat \<Rightarrow> 'a list \<times> 's \<Rightarrow> unit result \<times> 'a list \<times> 's"

record ('a, 's) stage =
  sg_name :: string
  sg_setup :: "'a list \<times> 's \<Rightarrow> 'a list \<times> 's"
  sg_teardown :: "'a list \<times> 's \<Rightarrow> 'a list \<times> 's"
  sg_body :: "('a, 's) stage_body"

text \<open>The default \<open>ShouldProcess\<close>, \<open>Setup\<close> and \<open>Teardown\<close>.\<close>

definition should_process_default :: "'s \<Rightarrow> 'a \<Rightarrow> bool" where
  "should_process_default s a = True"

definition no_setup :: "'a list \<times> 's \<Rightarrow> 'a list \<times> 's" where
  "no_setup x = x"

definition stage_type_name :: "('a, 's) stage \<Rightarrow> string" where
  "stage_type_name sg = (case sg_body sg of
     Transform f g \<Rightarrow> ''Transform'' | Barrier f \<Rightarrow> ''Barrier'' | Sequential c f g \<Rightarrow> ''Sequential'')"

record stage_statistics =
  ss_items_in :: nat
  ss_items_out :: nat
  ss_succeeded :: nat
  ss_failed :: nat
  ss_elapsed :: int
  ss_errors :: "(string \<times> string) list"

definition statistics_zero :: stage_statistics where
  "statistics_zero = \<lparr>ss_items_in = 0, ss_items_out = 0, ss_succeeded = 0, ss_failed = 0,
     ss_elapsed = 0, ss_errors = []\<rparr>"

text \<open>What one processed item adds to the statistics.\<close>

definition count_result :: "string \<Rightarrow> unit result \<Rightarrow> stage_statistics \<Rightarrow> stage_statistics" where
  "count_result name r st = (case r of
     Inr u \<Rightarrow> st\<lparr>ss_succeeded := Suc (ss_succeeded st)\<rparr>
   | Inl e \<Rightarrow> st\<lparr>ss_failed := Suc (ss_failed st), ss_errors := ss_errors st @ [(name, e)]\<rparr>)"

section \<open>Executing a stage\<close>

text \<open>One task of a transform stage, on the item at a position.\<close>

definition transform_task ::
    "('a \<Rightarrow> string) \<Rightarrow> ('s \<Rightarrow> 'a \<Rightarrow> bool) \<Rightarrow> ('a \<times> 's \<Rightarrow> unit result \<times> 'a \<times> 's) \<Rightarrow> nat \<Rightarrow>
      'a list \<times> 's \<times> stage_statistics \<Rightarrow> 'a list \<times> 's \<times> stage_statistics" where
  "transform_task nm should process i = (\<lambda>(items, s, st).
     if \<not> should s (items ! i) then (items, s, st)
     else (case process (items ! i, s) of (r, a, s') \<Rightarrow>
       (items[i := a], s', count_result (nm a) r st)))"

definition execute_transform ::
    "('a \<Rightarrow> string) \<Rightarrow> nat list \<Rightarrow> ('s \<Rightarrow> 'a \<Rightarrow> bool) \<Rightarrow> ('a \<times> 's \<Rightarrow> unit result \<times> 'a \<times> 's) \<Rightarrow>
      'a list \<times> 's \<times> stage_statistics \<Rightarrow> 'a list \<times> 's \<times> stage_statistics" where
  "execute_transform nm order should process x = fold (transform_task nm should process) order x"

definition execute_barrier ::
    "string \<Rightarrow> ('a list \<times> 's \<Rightarrow> unit result \<times> 'a list \<times> 's) \<Rightarrow>
      'a list \<times> 's \<times> stage_statistics \<Rightarrow> 'a list \<times> 's \<times> stage_statistics" where
  "execute_barrier name process = (\<lambda>(items, s, st).
     let n = length items in
     case process (items, s) of
       (Inr u, items', s') \<Rightarrow> (items', s', st\<lparr>ss_succeeded := n, ss_failed := 0\<rparr>)
     | (Inl e, items', s') \<Rightarrow> (items', s', st\<lparr>ss_succeeded := 0, ss_failed := n,
         ss_errors := ss_errors st @ [(name, e)]\<rparr>))"

text \<open>The loop of a sequential stage over the positions that are left.\<close>

fun sequential_loop ::
    "('a \<Rightarrow> string) \<Rightarrow> bool \<Rightarrow> nat \<Rightarrow> ('s \<Rightarrow> 'a \<Rightarrow> bool) \<Rightarrow>
      (nat \<Rightarrow> nat \<Rightarrow> 'a list \<times> 's \<Rightarrow> unit result \<times> 'a list \<times> 's) \<Rightarrow> nat list \<Rightarrow>
      'a list \<times> 's \<times> stage_statistics \<Rightarrow> 'a list \<times> 's \<times> stage_statistics" where
  "sequential_loop nm continue tot should process [] x = x"
| "sequential_loop nm continue tot should process (i # is) (items, s, st) =
     (if \<not> should s (items ! i) then sequential_loop nm continue tot should process is (items, s, st)
      else if 0 < ss_failed st \<and> \<not> continue then (items, s, st)
      else (case process i tot (items, s) of (r, items', s') \<Rightarrow>
        sequential_loop nm continue tot should process is
          (items', s', count_result (nm (items' ! i)) r st)))"

definition execute_sequential ::
    "('a \<Rightarrow> string) \<Rightarrow> bool \<Rightarrow> ('s \<Rightarrow> 'a \<Rightarrow> bool) \<Rightarrow>
      (nat \<Rightarrow> nat \<Rightarrow> 'a list \<times> 's \<Rightarrow> unit result \<times> 'a list \<times> 's) \<Rightarrow>
      'a list \<times> 's \<times> stage_statistics \<Rightarrow> 'a list \<times> 's \<times> stage_statistics" where
  "execute_sequential nm continue should process = (\<lambda>(items, s, st).
     sequential_loop nm continue (length items) should process [0..<length items] (items, s, st))"

text \<open>
  \<open>ExecuteStage\<close>: \<open>sched n\<close> is the schedule of a transform over \<open>n\<close> items, \<open>start\<close> and \<open>stop\<close> the
  readings of the clock in nanoseconds.
\<close>

definition execute_stage ::
    "('a \<Rightarrow> string) \<Rightarrow> (nat \<Rightarrow> nat list) \<Rightarrow> int \<Rightarrow> int \<Rightarrow> ('a, 's) stage \<Rightarrow> 'a list \<times> 's \<Rightarrow>
      stage_statistics \<times> 'a list \<times> 's" where
  "execute_stage nm sched start stop sg x =
     (let st = statistics_zero\<lparr>ss_items_in := length (fst x)\<rparr>;
          (items, s) = sg_setup sg x;
          (items, s, st) = (case sg_body sg of
              Transform should process \<Rightarrow>
                execute_transform nm (sched (length items)) should process (items, s, st)
            | Barrier process \<Rightarrow> execute_barrier (sg_name sg) process (items, s, st)
            | Sequential continue should process \<Rightarrow>
                execute_sequential nm continue should process (items, s, st));
          (items, s) = sg_teardown sg (items, s)
      in (st\<lparr>ss_items_out := length items, ss_elapsed := to_milliseconds (stop - start)\<rparr>, items, s))"

section \<open>Executing the pipeline\<close>

text \<open>
  The loop of \<open>Execute\<close> over the stages, each with whether it is required; the clock readings of
  the \<open>k\<close>-th stage are number \<open>2k+1\<close> and \<open>2k+2\<close>.
\<close>

fun run_stages ::
    "('a \<Rightarrow> string) \<Rightarrow> (nat \<Rightarrow> nat list) \<Rightarrow> (nat \<Rightarrow> int) \<Rightarrow> nat \<Rightarrow> (('a, 's) stage \<times> bool) list \<Rightarrow>
      'a list \<times> 's \<Rightarrow> (string \<times> stage_statistics) list \<times> 'a list \<times> 's" where
  "run_stages nm sched clk k [] x = ([], x)"
| "run_stages nm sched clk k ((sg, required) # rest) x =
     (let title = sg_name sg @ '' ['' @ stage_type_name sg @ '']'';
          (st, y) = execute_stage nm sched (clk (2 * k + 1)) (clk (2 * k + 2)) sg x
      in if 0 < ss_failed st \<and> required then ([(title, st)], y)
         else (case run_stages nm sched clk (Suc k) rest y of (rs, z) \<Rightarrow> ((title, st) # rs, z)))"

record report =
  rp_stages :: "(string \<times> stage_statistics) list"
  rp_total_time :: int
  rp_initial_items :: nat
  rp_final_items :: nat

definition execute ::
    "('a \<Rightarrow> string) \<Rightarrow> (nat \<Rightarrow> nat list) \<Rightarrow> (nat \<Rightarrow> int) \<Rightarrow> (('a, 's) stage \<times> bool) list \<Rightarrow>
      'a list \<times> 's \<Rightarrow> report \<times> 'a list \<times> 's" where
  "execute nm sched clk stages x =
     (case run_stages nm sched clk 0 stages x of (rs, items, s) \<Rightarrow>
       (\<lparr>rp_stages = rs, rp_total_time = to_milliseconds (clk (2 * length rs + 1) - clk 0),
         rp_initial_items = length (fst x), rp_final_items = length items\<rparr>, items, s))"

section \<open>The report\<close>

definition stage_summary :: "nat \<Rightarrow> string \<times> stage_statistics \<Rightarrow> string" where
  "stage_summary i = (\<lambda>(n, s).
     ''  Stage '' @ show_nat i @ '' ('' @ n @ ''): '' @ show_nat (ss_items_in s) @ '' -> '' @
     show_nat (ss_items_out s) @ '' items, '' @ show_nat (ss_succeeded s) @ '' succeeded, '' @
     show_nat (ss_failed s) @ '' failed ('' @ show_ms (ss_elapsed s) @ '')'' @ newline @
     (let max_width = foldl (\<lambda>w (key, _). max w (length key)) 0 (ss_errors s) in
      concat (map (\<lambda>(key, value). ''    '' @ pad_right max_width key @ '' : '' @ value @ newline)
        (ss_errors s))))"

definition report_summary :: "report \<Rightarrow> string" where
  "report_summary r = newline @ ''=== Pipeline Report ==='' @ newline @
     ''Items: '' @ show_nat (rp_initial_items r) @ '' -> '' @ show_nat (rp_final_items r) @
     '' ('' @ show_ms (rp_total_time r) @ '' total)'' @ newline @
     concat (map2 stage_summary [0..<length (rp_stages r)] (rp_stages r))"

definition total_failed :: "report \<Rightarrow> nat" where
  "total_failed r = foldl (\<lambda>n (_, s). n + ss_failed s) 0 (rp_stages r)"

text \<open>The bullet of an error line is the three bytes of its UTF-8 encoding.\<close>

definition stage_error :: "string \<times> stage_statistics \<Rightarrow> string" where
  "stage_error = (\<lambda>(name, s).
     if 0 < ss_failed s \<or> ss_errors s \<noteq> [] then
       ''Stage '' @ quoted name @ '': '' @ show_nat (ss_failed s) @ '' failed'' @ newline @
       concat (map (\<lambda>(item, err). ''  '' @ [CHR 0xE2, CHR 0x80, CHR 0xA2] @ '' '' @ item @ '': '' @ err @ newline)
         (ss_errors s)) @ newline
     else [])"

definition report_error :: "report \<Rightarrow> string" where
  "report_error r = (if total_failed r = 0 then ''No errors occurred.''
     else newline @ ''=== Pipeline Failed ==='' @ newline @
       show_nat (total_failed r) @ '' item(s) failed to process:'' @ newline @ newline @
       concat (map stage_error (rp_stages r)))"


section \<open>Independence from the schedule\<close>

text \<open>
  The contract of a transform stage: the tasks of two items with different keys commute, on
  their results, on their items and on the shared state, where the items are well-formed.
\<close>

locale independent_tasks =
  fixes should :: "'s \<Rightarrow> 'a \<Rightarrow> bool"
    and process :: "'a \<times> 's \<Rightarrow> unit result \<times> 'a \<times> 's"
    and key :: "'a \<Rightarrow> 'k"
    and wf :: "'a \<Rightarrow> bool"
  assumes keeps_key: "process (a, s) = (r, a', s') \<Longrightarrow> key a' = key a"
    and keeps_wf: "wf a \<Longrightarrow> process (a, s) = (r, a', s') \<Longrightarrow> wf a'"
    and keeps_should: "key a \<noteq> key b \<Longrightarrow> process (a, s) = (r, a', s') \<Longrightarrow> should s' b = should s b"
    and commutes: "key a \<noteq> key b \<Longrightarrow> wf a \<Longrightarrow> wf b \<Longrightarrow> process (a, s) = (ra, a', s1) \<Longrightarrow> process (b, s1) = (rb, b', s2) \<Longrightarrow>
      \<exists>s3. process (b, s) = (rb, b', s3) \<and> process (a, s3) = (ra, a', s2)"
begin

abbreviation task where "task nm \<equiv> transform_task nm should process"

text \<open>What a schedule must not influence: everything but the order of the error lines.\<close>

definition outcome :: "'a list \<times> 's \<times> stage_statistics \<Rightarrow> 'a list \<times> 's \<times> nat \<times> nat \<times> (string \<times> string) multiset" where
  "outcome = (\<lambda>(items, s, st). (items, s, ss_succeeded st, ss_failed st, mset (ss_errors st)))"

lemma outcome_count:
  "outcome (items, s, st) = outcome (items', s', st') \<Longrightarrow>
     outcome (xs, t, count_result n r st) = outcome (xs, t, count_result n r st')"
  by (auto simp: outcome_def count_result_def split: sum.splits)

lemma outcome_task: "outcome x = outcome y \<Longrightarrow> outcome (task nm i x) = outcome (task nm i y)"
proof -
  assume o': "outcome x = outcome y"
  obtain items s st where x: "x = (items, s, st)" by (cases x)
  with o' obtain st' where y: "y = (items, s, st')" by (cases y) (auto simp: outcome_def)
  obtain r a t where "process (items ! i, s) = (r, a, t)" by (cases "process (items ! i, s)")
  then show ?thesis using outcome_count [OF o' [unfolded x y]] o'
    by (simp add: x y transform_task_def)
qed

lemma outcome_fold: "outcome x = outcome y \<Longrightarrow> outcome (fold (task nm) is x) = outcome (fold (task nm) is y)"
proof (induction "is" arbitrary: x y)
  case (Cons i "is")
  show ?case using Cons.IH [OF outcome_task [OF Cons.prems]] by simp
qed simp

lemma task_keys: "map key (fst (task nm i x)) = map key (fst x)"
proof -
  obtain items s st where x: "x = (items, s, st)" by (cases x)
  obtain r a t where p: "process (items ! i, s) = (r, a, t)" by (cases "process (items ! i, s)")
  show ?thesis
  proof (cases "i < length items")
    case True
    with keeps_key [OF p] show ?thesis
      by (simp add: x p transform_task_def map_update)
        (metis length_map list_update_id map_update nth_map)
  next
    case False
    then show ?thesis by (simp add: x p transform_task_def list_update_beyond)
  qed
qed

lemma task_wf:
  assumes "list_all wf (fst x)"
  shows "list_all wf (fst (task nm i x))"
proof -
  obtain items s st where x: "x = (items, s, st)" by (cases x)
  obtain r a t where p: "process (items ! i, s) = (r, a, t)" by (cases "process (items ! i, s)")
  have "list_all wf (items[i := a])"
  proof (cases "i < length items")
    case True
    with keeps_wf [OF _ p] assms x show ?thesis by (auto simp: list_all_length nth_list_update)
  next
    case False
    with assms x show ?thesis by (simp add: list_update_beyond)
  qed
  with assms show ?thesis by (simp add: x p transform_task_def)
qed

lemma task_swap:
  assumes "i \<noteq> j" "i < length (fst x)" "j < length (fst x)" "distinct (map key (fst x))" "list_all wf (fst x)"
  shows "outcome (task nm i (task nm j x)) = outcome (task nm j (task nm i x))"
proof -
  obtain items s st where x: "x = (items, s, st)" by (cases x)
  obtain ra a' s1 where a: "process (items ! i, s) = (ra, a', s1)" by (cases "process (items ! i, s)")
  obtain rb b' s2 where b: "process (items ! j, s1) = (rb, b', s2)" by (cases "process (items ! j, s1)")
  from assms x have ne: "key (items ! i) \<noteq> key (items ! j)" by (simp add: distinct_conv_nth)
  from assms(2,3,5) x have wf: "wf (items ! i)" "wf (items ! j)" by (simp_all add: list_all_length)
  from commutes [OF ne wf a b] obtain s3 where c: "process (items ! j, s) = (rb, b', s3)"
    "process (items ! i, s3) = (ra, a', s2)" by blast
  have sh: "should s1 (items ! j) = should s (items ! j)" "should s3 (items ! i) = should s (items ! i)"
    using keeps_should [OF ne a] keeps_should [OF ne [symmetric] c(1)] by simp_all
  have "mset (ss_errors (count_result n ra (count_result m rb st))) =
      mset (ss_errors (count_result m rb (count_result n ra st)))" for n m
    by (cases ra; cases rb) (simp_all add: count_result_def)
  moreover have "ss_failed (count_result n ra (count_result m rb st)) =
      ss_failed (count_result m rb (count_result n ra st))" for n m
    by (cases ra; cases rb) (simp_all add: count_result_def)
  moreover have "ss_succeeded (count_result n ra (count_result m rb st)) =
      ss_succeeded (count_result m rb (count_result n ra st))" for n m
    by (cases ra; cases rb) (simp_all add: count_result_def)
  ultimately show ?thesis
    using assms(1-3) x a b c sh
    by (auto simp: outcome_def transform_task_def list_update_swap)
qed

lemma task_move_front:
  assumes "i \<notin> set is" "list_all (\<lambda>k. k < length (fst x)) (i # is)" "distinct (map key (fst x))" "list_all wf (fst x)"
  shows "outcome (fold (task nm) (is @ [i]) x) = outcome (fold (task nm) (i # is) x)"
  using assms
proof (induction "is" arbitrary: x)
  case (Cons j js)
  let ?y = "task nm j x"
  have keys: "map key (fst ?y) = map key (fst x)" by (rule task_keys)
  then have "length (fst ?y) = length (fst x)" by (metis length_map)
  with Cons have "outcome (fold (task nm) (js @ [i]) ?y) = outcome (fold (task nm) (i # js) ?y)"
    by (intro Cons.IH) (auto simp: keys intro: task_wf)
  also have "\<dots> = outcome (fold (task nm) js (task nm i ?y))" by simp
  also have "outcome (task nm i ?y) = outcome (task nm j (task nm i x))"
    using Cons.prems by (intro task_swap) auto
  from outcome_fold [OF this] have "outcome (fold (task nm) js (task nm i ?y)) =
      outcome (fold (task nm) js (task nm j (task nm i x)))" .
  finally show ?case by simp
qed simp

lemma fold_task_permuted:
  assumes "mset is = mset js" "distinct is" "list_all (\<lambda>k. k < length (fst x)) is" "distinct (map key (fst x))"
    "list_all wf (fst x)"
  shows "outcome (fold (task nm) is x) = outcome (fold (task nm) js x)"
  using assms
proof (induction "is" arbitrary: js x)
  case (Cons i "is")
  have "i \<in> set js" using Cons.prems(1) by (metis list.set_intros(1) set_mset_mset)
  then obtain us vs where js: "js = us @ i # vs" by (auto simp: in_set_conv_decomp)
  have rest: "mset is = mset (us @ vs)" using Cons.prems(1) js by simp
  let ?y = "task nm i x"
  have keys: "map key (fst ?y) = map key (fst x)" by (rule task_keys)
  then have len: "length (fst ?y) = length (fst x)" by (metis length_map)
  have "outcome (fold (task nm) is ?y) = outcome (fold (task nm) (us @ vs) ?y)"
    using Cons.prems rest by (intro Cons.IH) (auto simp: keys len intro: task_wf)
  also have "\<dots> = outcome (fold (task nm) vs (fold (task nm) (i # us) x))" by simp
  also have "\<dots> = outcome (fold (task nm) vs (fold (task nm) (us @ [i]) x))"
  proof (rule outcome_fold, rule task_move_front [symmetric])
    have "set is = set us \<union> set vs" using rest by (metis set_append set_mset_mset)
    with Cons.prems(2,3) show "i \<notin> set us" "list_all (\<lambda>k. k < length (fst x)) (i # us)"
      by (auto simp: list_all_iff)
  qed (rule Cons.prems(4), rule Cons.prems(5))
  finally show ?case by (simp add: js)
qed simp

end

section \<open>The contract of a stage\<close>

text \<open>
  A stage takes an invariant of the container and the shared state to another one that its body
  keeps, and it keeps the keys of the items: a barrier may reorder the container, but neither
  loses nor invents an item.
\<close>

definition body_keeps :: "('a list \<times> 's \<Rightarrow> bool) \<Rightarrow> ('a \<Rightarrow> 'k) \<Rightarrow> ('a, 's) stage_body \<Rightarrow> bool" where
  "body_keeps post key body = (case body of
     Transform should process \<Rightarrow> (\<forall>i xs s r a s'. post (xs, s) \<and> i < length xs \<and> should s (xs ! i) \<and>
       process (xs ! i, s) = (r, a, s') \<longrightarrow> post (xs[i := a], s') \<and> key a = key (xs ! i))
   | Barrier process \<Rightarrow> (\<forall>xs s r xs' s'. post (xs, s) \<and> distinct (map key xs) \<and>
       process (xs, s) = (r, xs', s') \<longrightarrow> post (xs', s') \<and> mset (map key xs') = mset (map key xs))
   | Sequential continue should process \<Rightarrow> (\<forall>i n xs s r xs' s'. post (xs, s) \<and> i < length xs \<and> should s (xs ! i) \<and>
       process i n (xs, s) = (r, xs', s') \<longrightarrow> post (xs', s') \<and> map key xs' = map key xs))"

locale stage_contract =
  fixes sg :: "('a, 's) stage" and pre :: "'a list \<times> 's \<Rightarrow> bool" and post :: "'a list \<times> 's \<Rightarrow> bool"
    and key :: "'a \<Rightarrow> 'k"
  assumes setup_keeps: "pre x \<Longrightarrow> sg_setup sg x = y \<Longrightarrow> post y \<and> map key (fst y) = map key (fst x)"
    and teardown_keeps: "post x \<Longrightarrow> sg_teardown sg x = y \<Longrightarrow> post y \<and> map key (fst y) = map key (fst x)"
    and body_keeps: "body_keeps post key (sg_body sg)"
begin

lemma transform_body:
  assumes "sg_body sg = Transform should process" "post (xs, s)" "i < length xs" "should s (xs ! i)"
    "process (xs ! i, s) = (r, a, s')"
  shows "post (xs[i := a], s')" "key a = key (xs ! i)"
proof -
  from body_keeps have "\<forall>i xs s r a s'. post (xs, s) \<and> i < length xs \<and> should s (xs ! i) \<and>
       process (xs ! i, s) = (r, a, s') \<longrightarrow> post (xs[i := a], s') \<and> key a = key (xs ! i)"
    unfolding body_keeps_def assms(1) stage_body.case .
  with assms(2-) show "post (xs[i := a], s')" "key a = key (xs ! i)" by blast+
qed

lemma barrier_body:
  assumes "sg_body sg = Barrier process" "post (xs, s)" "distinct (map key xs)" "process (xs, s) = (r, xs', s')"
  shows "post (xs', s')" "mset (map key xs') = mset (map key xs)"
proof -
  from body_keeps have "\<forall>xs s r xs' s'. post (xs, s) \<and> distinct (map key xs) \<and>
       process (xs, s) = (r, xs', s') \<longrightarrow> post (xs', s') \<and> mset (map key xs') = mset (map key xs)"
    unfolding body_keeps_def assms(1) stage_body.case .
  with assms(2-) show "post (xs', s')" "mset (map key xs') = mset (map key xs)" by blast+
qed

lemma sequential_body:
  assumes "sg_body sg = Sequential continue should process" "post (xs, s)" "i < length xs" "should s (xs ! i)"
    "process i n (xs, s) = (r, xs', s')"
  shows "post (xs', s')" "map key xs' = map key xs"
proof -
  from body_keeps have "\<forall>i n xs s r xs' s'. post (xs, s) \<and> i < length xs \<and> should s (xs ! i) \<and>
      process i n (xs, s) = (r, xs', s') \<longrightarrow> post (xs', s') \<and> map key xs' = map key xs"
    unfolding body_keeps_def assms(1) stage_body.case .
  with assms(2-) show "post (xs', s')" "map key xs' = map key xs" by blast+
qed

lemma transform_keeps:
  assumes "sg_body sg = Transform should process" "post (xs, s)" "list_all (\<lambda>i. i < length xs) order"
    "fold (transform_task nm should process) order (xs, s, st) = (xs', s', st')"
  shows "post (xs', s') \<and> map key xs' = map key xs"
  using assms(2-)
proof (induction order arbitrary: xs s st)
  case (Cons i order)
  obtain r a t where p: "process (xs ! i, s) = (r, a, t)" by (cases "process (xs ! i, s)")
  have i: "i < length xs" using Cons.prems by simp
  obtain ys t' st'' where y: "transform_task nm should process i (xs, s, st) = (ys, t', st'')"
    by (cases "transform_task nm should process i (xs, s, st)")
  have k: "post (ys, t') \<and> map key ys = map key xs"
  proof (cases "should s (xs ! i)")
    case True
    note k = transform_body [OF assms(1) Cons.prems(1) i True p]
    then have "map key (xs[i := a]) = map key xs" by (metis list_update_id map_update)
    with True p k y show ?thesis by (auto simp: transform_task_def)
  next
    case False
    with Cons.prems(1) y show ?thesis by (simp add: transform_task_def)
  qed
  then have "length ys = length xs" by (metis length_map)
  with Cons.IH [of ys t' st''] Cons.prems y k show ?case by simp
qed simp

lemma sequential_keeps:
  assumes "sg_body sg = Sequential continue should process" "post (xs, s)" "list_all (\<lambda>i. i < length xs) is"
    "sequential_loop nm continue n should process is (xs, s, st) = (xs', s', st')"
  shows "post (xs', s') \<and> map key xs' = map key xs"
  using assms(2-)
proof (induction "is" arbitrary: xs s st)
  case (Cons i "is")
  obtain r ys t where p: "process i n (xs, s) = (r, ys, t)" by (cases "process i n (xs, s)")
  have i: "i < length xs" using Cons.prems by simp
  consider (skip) "\<not> should s (xs ! i)" | (stop) "should s (xs ! i)" "0 < ss_failed st \<and> \<not> continue"
    | (run) "should s (xs ! i)" "\<not> (0 < ss_failed st \<and> \<not> continue)" by blast
  then show ?case
  proof cases
    case skip
    with Cons.IH [of xs s st] Cons.prems show ?thesis by simp
  next
    case stop
    with Cons.prems show ?thesis by simp
  next
    case run
    note k = sequential_body [OF assms(1) Cons.prems(1) i run(1) p]
    then have "length ys = length xs" by (metis length_map)
    with Cons.prems(2) have "list_all (\<lambda>i. i < length ys) is" by simp
    moreover have "sequential_loop nm continue n should process is
        (ys, t, count_result (nm (ys ! i)) r st) = (xs', s', st')"
      using Cons.prems(3) run p by (simp only: sequential_loop.simps not_True_eq_False if_False prod.case)
    ultimately show ?thesis using Cons.IH k by metis
  qed
qed simp

lemma stage_keeps:
  assumes "pre (xs, s)" "distinct (map key xs)" "\<And>n. set (sched n) \<subseteq> {0..<n}"
    "execute_stage nm sched t0 t1 sg (xs, s) = (st, xs', s')"
  shows "post (xs', s') \<and> mset (map key xs') = mset (map key xs)"
proof -
  obtain xs1 s1 where 1: "sg_setup sg (xs, s) = (xs1, s1)" by (cases "sg_setup sg (xs, s)")
  with setup_keeps [OF assms(1)] have k1: "post (xs1, s1)" "map key xs1 = map key xs" by simp_all
  let ?st = "statistics_zero\<lparr>ss_items_in := length xs\<rparr>"
  obtain xs2 s2 st2 where 2: "(case sg_body sg of
              Transform should process \<Rightarrow>
                execute_transform nm (sched (length xs1)) should process (xs1, s1, ?st)
            | Barrier process \<Rightarrow> execute_barrier (sg_name sg) process (xs1, s1, ?st)
            | Sequential continue should process \<Rightarrow>
                execute_sequential nm continue should process (xs1, s1, ?st)) = (xs2, s2, st2)"
    by (cases "case sg_body sg of
              Transform should process \<Rightarrow>
                execute_transform nm (sched (length xs1)) should process (xs1, s1, ?st)
            | Barrier process \<Rightarrow> execute_barrier (sg_name sg) process (xs1, s1, ?st)
            | Sequential continue should process \<Rightarrow>
                execute_sequential nm continue should process (xs1, s1, ?st)") blast
  have k2: "post (xs2, s2) \<and> mset (map key xs2) = mset (map key xs)"
  proof (cases "sg_body sg")
    case (Transform should process)
    have "list_all (\<lambda>i. i < length xs1) (sched (length xs1))" using assms(3) by (force simp: list_all_iff)
    from transform_keeps [OF Transform k1(1) this, of nm ?st xs2 s2 st2] Transform 2 k1(2) show ?thesis
      by (simp add: execute_transform_def)
  next
    case (Barrier process)
    obtain r ys t where p: "process (xs1, s1) = (r, ys, t)" by (cases "process (xs1, s1)")
    have "post (ys, t) \<and> mset (map key ys) = mset (map key xs)"
      using barrier_body [OF Barrier k1(1) _ p] k1(2) assms(2) by simp
    with Barrier 2 p show ?thesis by (auto simp: execute_barrier_def Let_def split: sum.splits)
  next
    case (Sequential continue should process)
    have "list_all (\<lambda>i. i < length xs1) [0..<length xs1]" by (simp add: list_all_iff)
    from sequential_keeps [OF Sequential k1(1) this, of nm "length xs1" ?st xs2 s2 st2] Sequential 2 k1(2)
    show ?thesis by (simp add: execute_sequential_def)
  qed
  obtain xs3 s3 where 3: "sg_teardown sg (xs2, s2) = (xs3, s3)" by (cases "sg_teardown sg (xs2, s2)")
  with k2 teardown_keeps [of "(xs2, s2)"] have "post (xs3, s3) \<and> map key xs3 = map key xs2" by simp
  moreover have "xs' = xs3" "s' = s3"
    using assms(4) 1 2 3 by (simp_all add: execute_stage_def Let_def)
  ultimately show ?thesis using k2 by simp
qed

end

text \<open>A pipeline whose stages take the invariants of a sequence to the next one ends in one of them.\<close>

lemma run_stages_keep:
  assumes "\<And>j. j < length stages \<Longrightarrow> stage_contract (fst (stages ! j)) (I (n + j)) (I (Suc (n + j))) key"
    "I n (xs, s)" "distinct (map key xs)" "\<And>n. set (sched n) \<subseteq> {0..<n}"
    "run_stages nm sched clk k stages (xs, s) = (rs, xs', s')"
  shows "\<exists>j \<le> length stages. I (n + j) (xs', s') \<and> mset (map key xs') = mset (map key xs)"
  using assms
proof (induction stages arbitrary: k n xs s rs)
  case (Cons entry stages)
  obtain sg required where e: "entry = (sg, required)" by (cases entry)
  obtain st ys t where st: "execute_stage nm sched (clk (2 * k + 1)) (clk (2 * k + 2)) sg (xs, s) = (st, ys, t)"
    by (cases "execute_stage nm sched (clk (2 * k + 1)) (clk (2 * k + 2)) sg (xs, s)")
  have "stage_contract sg (I n) (I (Suc n)) key" using Cons.prems(1) [of 0] e by simp
  from stage_contract.stage_keeps [OF this Cons.prems(2-4) st]
  have k1: "I (Suc n) (ys, t)" "mset (map key ys) = mset (map key xs)" by simp_all
  then have d: "distinct (map key ys)" using Cons.prems(3) by (metis mset_eq_imp_distinct_iff)
  show ?case
  proof (cases "0 < ss_failed st \<and> required")
    case True
    with Cons.prems(5) st e have "xs' = ys" "s' = t" by (auto simp: Let_def)
    with k1 show ?thesis by (intro exI [of _ 1]) simp
  next
    case False
    with Cons.prems(5) st e obtain rs2 where r: "run_stages nm sched clk (Suc k) stages (ys, t) = (rs2, xs', s')"
      by (auto simp: Let_def split: prod.splits)
    have c: "stage_contract (fst (stages ! j)) (I (Suc n + j)) (I (Suc (Suc n + j))) key" if "j < length stages" for j
      using Cons.prems(1) [of "Suc j"] that by simp
    from Cons.IH [OF c k1(1) d Cons.prems(4) r] obtain j where
      "j \<le> length stages" "I (Suc n + j) (xs', s')" "mset (map key xs') = mset (map key ys)" by blast
    with k1(2) show ?thesis by (intro exI [of _ "Suc j"]) simp
  qed
qed (auto intro!: exI [of _ 0])

section \<open>Counting\<close>

definition counted :: "stage_statistics \<Rightarrow> nat" where
  "counted st = ss_succeeded st + ss_failed st"

lemma count_result_facts [simp]:
  "counted (count_result n r st) = Suc (counted st)"
  "length (ss_errors st) = ss_failed st \<Longrightarrow>
     length (ss_errors (count_result n r st)) = ss_failed (count_result n r st)"
  by (auto simp: counted_def count_result_def split: sum.splits)

lemma transform_counts:
  assumes "fold (transform_task nm should process) order (xs, s, st) = (xs', s', st')"
    "length (ss_errors st) = ss_failed st"
  shows "counted st' \<le> counted st + length order \<and> length (ss_errors st') = ss_failed st' \<and> length xs' = length xs"
  using assms
proof (induction order arbitrary: xs s st)
  case (Cons i order)
  obtain ys t st'' where y: "transform_task nm should process i (xs, s, st) = (ys, t, st'')"
    by (cases "transform_task nm should process i (xs, s, st)")
  then have "counted st'' \<le> Suc (counted st) \<and> length (ss_errors st'') = ss_failed st'' \<and> length ys = length xs"
    using Cons.prems(2) by (auto simp: transform_task_def split: if_splits prod.splits)
  with Cons.IH [of ys t st''] Cons.prems y show ?case by force
qed simp

lemma sequential_counts:
  assumes "sequential_loop nm continue n should process is (xs, s, st) = (xs', s', st')"
    "length (ss_errors st) = ss_failed st"
  shows "counted st' \<le> counted st + length is \<and> length (ss_errors st') = ss_failed st'"
  using assms
proof (induction "is" arbitrary: xs s st)
  case (Cons i "is")
  obtain r ys t where p: "process i n (xs, s) = (r, ys, t)" by (cases "process i n (xs, s)")
  consider (skip) "\<not> should s (xs ! i)" | (stop) "should s (xs ! i)" "0 < ss_failed st \<and> \<not> continue"
    | (go) "should s (xs ! i)" "\<not> (0 < ss_failed st \<and> \<not> continue)" by blast
  then show ?case
  proof cases
    case skip
    with Cons.IH [of xs s st] Cons.prems show ?thesis by force
  next
    case stop
    with Cons.prems show ?thesis by simp
  next
    case go
    let ?st = "count_result (nm (ys ! i)) r st"
    have "sequential_loop nm continue n should process is (ys, t, ?st) = (xs', s', st')"
      using Cons.prems(1) go p by (simp only: sequential_loop.simps not_True_eq_False if_False prod.case)
    from Cons.IH [OF this] Cons.prems(2) show ?thesis by (simp del: One_nat_def)
  qed
qed simp

section \<open>Properties\<close>



text \<open>In a transform or sequential stage whose setup and teardown do nothing, every failed item
  has exactly one error line and no more items are counted than went in.\<close>

lemma stage_counts:
  assumes "sg_setup sg = no_setup" "sg_teardown sg = no_setup" "\<And>n. length (sched n) \<le> n"
    "\<And>f. sg_body sg \<noteq> Barrier f" "execute_stage nm sched t0 t1 sg x = (st, y)"
  shows "length (ss_errors st) = ss_failed st \<and> ss_succeeded st + ss_failed st \<le> ss_items_in st"
proof -
  obtain xs s where x: "x = (xs, s)" by (cases x)
  let ?st = "statistics_zero\<lparr>ss_items_in := length xs\<rparr>"
  have zero: "length (ss_errors ?st) = ss_failed ?st" "counted ?st = 0" by (simp_all add: statistics_zero_def counted_def)
  have items_in: "ss_items_in (count_result n r w) = ss_items_in w" for n r w
    by (cases r) (simp_all add: count_result_def)
  show ?thesis
  proof (cases "sg_body sg")
    case (Transform should process)
    obtain xs' s' st' where f: "fold (transform_task nm should process) (sched (length xs)) (xs, s, ?st) = (xs', s', st')"
      by (cases "fold (transform_task nm should process) (sched (length xs)) (xs, s, ?st)")
    have "ss_items_in (snd (snd (fold (transform_task nm should process) is z))) = ss_items_in (snd (snd z))" for "is" z
      by (induction "is" arbitrary: z) (auto simp: transform_task_def items_in split: prod.splits)
    from this [of "sched (length xs)" "(xs, s, ?st)"] transform_counts [OF f zero(1)] zero(2) assms(1,2,5) f x Transform
      assms(3) [of "length xs"]
    show ?thesis by (auto simp: execute_stage_def no_setup_def execute_transform_def Let_def counted_def)
  next
    case (Sequential continue should process)
    let ?loop = "sequential_loop nm continue (length xs) should process"
    obtain xs' s' st' where f: "?loop [0..<length xs] (xs, s, ?st) = (xs', s', st')"
      by (cases "?loop [0..<length xs] (xs, s, ?st)")
    have "ss_items_in (snd (snd (?loop is z))) = ss_items_in (snd (snd z))" for "is" z
      by (induction "is" arbitrary: z) (auto simp: items_in split: prod.splits)
    from this [of "[0..<length xs]" "(xs, s, ?st)"] sequential_counts [OF f zero(1)] zero(2) assms(1,2,5) f x Sequential
    show ?thesis by (auto simp: execute_stage_def no_setup_def execute_sequential_def Let_def counted_def)
  qed (use assms(4) in blast)
qed

lemma stage_counts_witness:
  "length (ss_errors (fst (execute_stage (\<lambda>a. a) (\<lambda>n. [0..<n]) 0 0 \<lparr>sg_name = ''A'', sg_setup = no_setup,
     sg_teardown = no_setup, sg_body = Transform should_process_default (\<lambda>(a, s). (Inl ''bad'', a, s))\<rparr>
     ([''x'', ''y''], ())))) = 2"
proof -
  let ?sg = "\<lparr>sg_name = ''A'', sg_setup = no_setup, sg_teardown = no_setup,
      sg_body = Transform should_process_default (\<lambda>(a, s). (Inl ''bad'', a, s))\<rparr> :: (string, unit) stage"
  obtain st y where r: "execute_stage (\<lambda>a. a) (\<lambda>n. [0..<n]) 0 0 ?sg ([''x'', ''y''], ()) = (st, y)"
    by (cases "execute_stage (\<lambda>a. a) (\<lambda>n. [0..<n]) 0 0 ?sg ([''x'', ''y''], ())")
  from stage_counts [OF _ _ _ _ r] have "length (ss_errors st) = ss_failed st" by simp
  moreover have "ss_failed (fst (execute_stage (\<lambda>a. a) (\<lambda>n. [0..<n]) 0 0 ?sg ([''x'', ''y''], ()))) = 2"
    by (simp add: execute_stage_def execute_transform_def transform_task_def should_process_default_def
        no_setup_def count_result_def statistics_zero_def)
  ultimately show ?thesis unfolding r by simp
qed

text \<open>A barrier that fails on an empty container fails no item: the error is in the report
  but the number of failures is zero, so even a required stage lets the pipeline go on.\<close>

lemma empty_barrier_failure_ignored:
  assumes "process ([], s) = (Inl e, [], s')"
  shows "run_stages nm sched clk k ((\<lparr>sg_name = name, sg_setup = no_setup, sg_teardown = no_setup,
       sg_body = Barrier process\<rparr>, True) # rest) ([], s) =
    (case run_stages nm sched clk (Suc k) rest ([], s') of (rs, y) \<Rightarrow>
       ((name @ '' [Barrier]'', statistics_zero\<lparr>ss_errors := [(name, e)],
          ss_elapsed := to_milliseconds (clk (2 * k + 2) - clk (2 * k + 1))\<rparr>) # rs, y))"
  using assms by (simp add: execute_stage_def no_setup_def execute_barrier_def Let_def statistics_zero_def
      stage_type_name_def)

lemma empty_barrier_failure_ignored_witness:
  "length (fst (run_stages (\<lambda>a. a) (\<lambda>n. [0..<n]) (\<lambda>k. 0) 0 [(\<lparr>sg_name = ''R'', sg_setup = no_setup,
     sg_teardown = no_setup, sg_body = Barrier (\<lambda>(xs, s). (Inl ''none'', xs, s))\<rparr>, True)] ([], ()))) = 1"
  using empty_barrier_failure_ignored [of "\<lambda>(xs, s). (Inl ''none'', xs, s)" "()" "''none''" "()"
      "\<lambda>a. a" "\<lambda>n. [0..<n]" "\<lambda>k. 0" 0 "''R''" "[]"]
  by (simp del: run_stages.simps(2))

end
