(* ===== verification/Loader.thy ===== *)
theory Loader
  imports Extension Config "HOL-Library.Word"
begin

unbundle bit_operations_syntax

text \<open>
  The loader of extensions (src/core/extension_loader.hpp): what it asks of the assembly loader,
  of the language modules and of the lifecycle observer, its cache of assemblies and its
  statistics.

  What is not code of the program is the record \<open>environment\<close>: each answer is a function of the
  history of all calls made so far (\<open>w_trace\<close>), so a language module may answer the same call
  differently each time. A call through a null pointer is undefined behaviour: the model records
  the event \<open>Null_call\<close> and the properties show where it cannot happen. The profiler's zones are
  left out.
\<close>

section \<open>The environment\<close>

datatype event =
    Load_assembly path "32 word" "path list" | Get_symbol nat string | Call_entry address
  | Initialize nat unique_id | Shutdown nat | On_update nat int
  | Plugin_load nat unique_id | Plugin_start nat unique_id | Plugin_update nat unique_id int
  | Plugin_end nat unique_id | Method_export nat unique_id unique_id
  | Life_load unique_id | Life_start unique_id | Life_update unique_id int | Life_export unique_id
  | Life_end unique_id | Life_unload unique_id
  | Null_call
  | Log string severity | Flush_log | Write_file path string | Create_directory path | Mark_frame string

text \<open>How a call into a language module ends: it returns a result or an exception leaves it.\<close>

datatype 'a outcome = Returned "'a result" | Bad_alloc | Exception string | Unknown_exception

record load_data =
  ldt_methods :: "method_data list"
  ldt_data :: address
  ldt_table :: method_table

record environment =
  env_target :: target
  env_debug_build :: bool
  env_naming :: library_naming
  env_platform :: string
  env_lifecycle :: bool
  env_absolute_path :: "path \<Rightarrow> path result"
  env_load :: "event list \<Rightarrow> path \<Rightarrow> 32 word \<Rightarrow> path list \<Rightarrow> nat result"
  env_symbol :: "event list \<Rightarrow> nat \<Rightarrow> string \<Rightarrow> address result"
  env_entry :: "event list \<Rightarrow> address \<Rightarrow> nat option"
  env_is_debug :: "nat \<Rightarrow> bool"
  env_initialize :: "event list \<Rightarrow> nat \<Rightarrow> unique_id \<Rightarrow> method_table outcome"
  env_plugin_load :: "event list \<Rightarrow> nat \<Rightarrow> unique_id \<Rightarrow> load_data outcome"
  env_call :: "event list \<Rightarrow> event \<Rightarrow> unit outcome"
  env_elapsed :: "event list \<Rightarrow> event list \<Rightarrow> int"
  env_clock :: "event list \<Rightarrow> unique_id \<Rightarrow> extension_state \<Rightarrow> int"

section \<open>State\<close>

record load_statistics =
  ls_modules_loaded :: int
  ls_plugins_loaded :: int
  ls_total_load_time :: int
  ls_slowest_module_load :: int
  ls_slowest_module :: unique_id
  ls_slowest_plugin_load :: int
  ls_slowest_plugin :: unique_id

definition load_statistics_default :: load_statistics where
  "load_statistics_default = \<lparr>ls_modules_loaded = 0, ls_plugins_loaded = 0, ls_total_load_time = 0,
     ls_slowest_module_load = 0, ls_slowest_module = no_id, ls_slowest_plugin_load = 0,
     ls_slowest_plugin = no_id\<rparr>"

record world =
  w_trace :: "event list"
  w_registry :: registry
  w_stats :: load_statistics
  w_assemblies :: "path \<Rightarrow> nat option"

definition world_start :: world where
  "world_start = \<lparr>w_trace = [], w_registry = Map.empty, w_stats = load_statistics_default,
     w_assemblies = Map.empty\<rparr>"

definition emit :: "event \<Rightarrow> world \<Rightarrow> world" where
  "emit ev w = w\<lparr>w_trace := w_trace w @ [ev]\<rparr>"

definition notify :: "environment \<Rightarrow> event \<Rightarrow> world \<Rightarrow> world" where
  "notify env ev w = (if env_lifecycle env then emit ev w else w)"

definition load_statistics_summary :: "registry \<Rightarrow> load_statistics \<Rightarrow> string" where
  "load_statistics_summary reg s = newline @ ''=== Loader Report ==='' @ newline @
     ''  Modules loaded: '' @ show_int (ls_modules_loaded s) @ newline @
     ''  Plugins loaded: '' @ show_int (ls_plugins_loaded s) @ newline @
     ''  Slowest module: '' @ show_ms (ls_slowest_module_load s) @ '' - '' @ id_to_string reg (ls_slowest_module s) @ newline @
     ''  Slowest plugin: '' @ show_ms (ls_slowest_plugin_load s) @ '' - '' @ id_to_string reg (ls_slowest_plugin s) @ newline @
     ''  Total load time: '' @ show_ms (ls_total_load_time s) @ newline"

definition reset_statistics :: "world \<Rightarrow> world" where
  "reset_statistics w = w\<lparr>w_stats := load_statistics_default\<rparr>"

definition clear_assemblies :: "world \<Rightarrow> world" where
  "clear_assemblies w = w\<lparr>w_assemblies := Map.empty\<rparr>"

section \<open>Calls into language modules\<close>

definition safe_call :: "string \<Rightarrow> string \<Rightarrow> 'a outcome \<Rightarrow> 'a result" where
  "safe_call op name out' = (case out' of
     Returned r \<Rightarrow> r
   | Bad_alloc \<Rightarrow> Inl (op @ '': out of memory'')
   | Exception what \<Rightarrow> Inl (op @ '' failed for '' @ quoted name @ '': '' @ what)
   | Unknown_exception \<Rightarrow> Inl (op @ '' failed for '' @ quoted name @ '': unknown exception''))"

text \<open>A guarded call of a language module that answers with no value.\<close>

definition module_call ::
    "environment \<Rightarrow> string \<Rightarrow> string \<Rightarrow> nat option \<Rightarrow> (nat \<Rightarrow> event) \<Rightarrow> world \<Rightarrow> unit result \<times> world" where
  "module_call env op name lm ev w = (case lm of
     None \<Rightarrow> (Inr (), emit Null_call w)
   | Some m \<Rightarrow> (safe_call op name (env_call env (w_trace w) (ev m)), emit (ev m) w))"

section \<open>Assemblies\<close>

definition flag_lazy_binding :: "32 word" where "flag_lazy_binding = 1"
definition flag_global_symbols :: "32 word" where "flag_global_symbols = 2"
definition flag_deep_bind :: "32 word" where "flag_deep_bind = 8"
definition flag_secure_search :: "32 word" where "flag_secure_search = 16"

definition get_load_flags :: "config \<Rightarrow> 32 word" where
  "get_load_flags cfg =
     (let flags = flag_lazy_binding OR flag_global_symbols OR flag_secure_search in
      if prefer_own_symbols (cfg_loading cfg) then flags OR flag_deep_bind else flags)"

definition get_or_load_assembly ::
    "environment \<Rightarrow> config \<Rightarrow> path \<Rightarrow> path list \<Rightarrow> world \<Rightarrow> nat result \<times> world" where
  "get_or_load_assembly env cfg p search w = (case env_absolute_path env p of
     Inl e \<Rightarrow> (Inl e, w)
   | Inr q \<Rightarrow> (case w_assemblies w q of
       Some a \<Rightarrow> (Inr a, w)
     | None \<Rightarrow>
         let flags = get_load_flags cfg;
             answer = env_load env (w_trace w) q flags search;
             w = emit (Load_assembly q flags search) w
         in case answer of
           Inl e \<Rightarrow> (Inl e, w)
         | Inr a \<Rightarrow> (Inr a, w\<lparr>w_assemblies := (w_assemblies w)(q \<mapsto> a)\<rparr>)))"

section \<open>Language modules\<close>

definition load_language_module ::
    "environment \<Rightarrow> nat \<Rightarrow> extension \<times> world \<Rightarrow> unit result \<times> extension \<times> world" where
  "load_language_module env assembly = (\<lambda>(m, w).
     let symbol = env_symbol env (w_trace w) assembly ''GetLanguageModule'';
         w = emit (Get_symbol assembly ''GetLanguageModule'') w
     in case symbol of
       Inl e \<Rightarrow> (Inl e, m, w)
     | Inr address \<Rightarrow>
         let entry = env_entry env (w_trace w) address;
             w = emit (Call_entry address) w
         in case entry of
           None \<Rightarrow> (Inl (''Invalid address from '' @ quoted ''GetLanguageModule''), m, w)
         | Some lm \<Rightarrow>
             if t_windows (env_target env) \<and> env_is_debug env lm \<noteq> env_debug_build env
             then (Inl (''Build type mismatch: plugify='' @ (if env_debug_build env then ''debug'' else ''release'') @
                 '', module='' @ (if env_is_debug env lm then ''debug'' else ''release'')), m, w)
             else
               let init = safe_call ''Initialize'' (ex_name m) (env_initialize env (w_trace w) lm (ex_id m));
                   w = emit (Initialize lm (ex_id m)) w
               in case init of
                 Inl e \<Rightarrow> (Inl e, m, w)
               | Inr table \<Rightarrow>
                   (Inr (), set_method_table table (set_assembly (Some assembly) (set_language_module (Some lm) m)), w))"

text \<open>What the scoped timers of the two load operations do when they end.\<close>

definition time_module :: "int \<Rightarrow> unique_id \<Rightarrow> world \<Rightarrow> world" where
  "time_module elapsed i w =
     (let s = w_stats w; s = s\<lparr>ls_total_load_time := ls_total_load_time s + elapsed\<rparr> in
      w\<lparr>w_stats := (if elapsed > ls_slowest_module_load s
        then s\<lparr>ls_slowest_module_load := elapsed, ls_slowest_module := i\<rparr> else s)\<rparr>)"

definition time_plugin :: "int \<Rightarrow> unique_id \<Rightarrow> world \<Rightarrow> world" where
  "time_plugin elapsed i w =
     (let s = w_stats w; s = s\<lparr>ls_total_load_time := ls_total_load_time s + elapsed\<rparr> in
      w\<lparr>w_stats := (if elapsed > ls_slowest_plugin_load s
        then s\<lparr>ls_slowest_plugin_load := elapsed, ls_slowest_plugin := i\<rparr> else s)\<rparr>)"

definition count_modules :: "int \<Rightarrow> world \<Rightarrow> world" where
  "count_modules d w = w\<lparr>w_stats := (w_stats w)\<lparr>ls_modules_loaded := u64 (ls_modules_loaded (w_stats w) + d)\<rparr>\<rparr>"

definition count_plugins :: "int \<Rightarrow> world \<Rightarrow> world" where
  "count_plugins d w = w\<lparr>w_stats := (w_stats w)\<lparr>ls_plugins_loaded := u64 (ls_plugins_loaded (w_stats w) + d)\<rparr>\<rparr>"

definition load_module_body ::
    "environment \<Rightarrow> config \<Rightarrow> extension \<times> world \<Rightarrow> unit result \<times> extension \<times> world" where
  "load_module_body env cfg = (\<lambda>(m, w).
     case get_or_load_assembly env cfg (get_runtime m) (get_directories m) w of
       (Inl e, w) \<Rightarrow> (Inl e, m, w)
     | (Inr a, w) \<Rightarrow> (case load_language_module env a (m, w) of
         (Inl e, m, w) \<Rightarrow> (Inl e, m, w)
       | (Inr u, m, w) \<Rightarrow> (Inr (), m, count_modules 1 (notify env (Life_load (ex_id m)) w))))"

definition load_module ::
    "environment \<Rightarrow> config \<Rightarrow> extension \<times> world \<Rightarrow> unit result \<times> extension \<times> world" where
  "load_module env cfg = (\<lambda>(m, w). case load_module_body env cfg (m, w) of
     (r, m', w') \<Rightarrow> (r, m', time_module (env_elapsed env (w_trace w) (w_trace w')) (ex_id m') w'))"

definition update_module :: "environment \<Rightarrow> int \<Rightarrow> extension \<times> world \<Rightarrow> unit result \<times> extension \<times> world" where
  "update_module env dt = (\<lambda>(m, w).
     if \<not> has_update (ex_method_table m) then (Inr (), m, w)
     else case module_call env ''OnUpdate'' (ex_name m) (ex_language_module m) (\<lambda>lm. On_update lm dt) w of
       (r, w) \<Rightarrow> (r, m, notify env (Life_update (ex_id m) dt) w))"

definition unload_module :: "environment \<Rightarrow> extension \<times> world \<Rightarrow> unit result \<times> extension \<times> world" where
  "unload_module env = (\<lambda>(m, w).
     let (r, m, w) = (case ex_language_module m of
           None \<Rightarrow> (Inr (), m, w)
         | Some lm \<Rightarrow> (case module_call env ''Shutdown'' (ex_name m) (Some lm) Shutdown w of
             (r, w) \<Rightarrow> (r, set_language_module None m, w)));
         (m, w) = (case get_assembly m of
           None \<Rightarrow> (m, w)
         | Some a \<Rightarrow> (set_assembly None m, w\<lparr>w_assemblies := (w_assemblies w)(get_runtime m := None)\<rparr>))
     in (r, m, count_modules (-1) (notify env (Life_unload (ex_id m)) w)))"

section \<open>Plugins\<close>

text \<open>The loop over the methods a plugin gave and those its manifest exports.\<close>

fun method_errors :: "unique_id \<Rightarrow> nat \<Rightarrow> nat \<Rightarrow> method_def list \<Rightarrow> method_data list \<Rightarrow> string list \<Rightarrow> string list" where
  "method_errors i total' k (e # es) (d # ds) errors =
     (if md_method d \<noteq> Method_of i k \<or> md_addr d = 0 then
        (let errors = errors @ [pad_left 3 (show_nat (k + 1)) @ ''. '' @ me_name e] in
         if 100 \<le> length errors then errors @ [''... and '' @ show_nat (total' - 100) @ '' more'']
         else method_errors i total' (Suc k) es ds errors)
      else method_errors i total' (Suc k) es ds errors)"
| "method_errors i total' k es ds errors = errors"

definition validate_and_set_plugin_data :: "load_data \<Rightarrow> extension \<Rightarrow> unit result \<times> extension" where
  "validate_and_set_plugin_data d p =
     (let exported = get_methods p in
      if length (ldt_methods d) \<noteq> length exported
      then (Inl (''Method count mismatch: expected '' @ show_nat (length exported) @ '', got '' @
        show_nat (length (ldt_methods d))), p)
      else
        let errors = method_errors (ex_id p) (length (ldt_methods d)) 0 exported (ldt_methods d) [] in
        if errors \<noteq> [] then (Inl (''Invalid methods:'' @ [CHR 0x09, CHR 0x0A] @ join_strings [CHR 0x09, CHR 0x0A] errors), p)
        else (Inr (), set_methods_data (ldt_methods d) (set_method_table (ldt_table d) (set_user_data (ldt_data d) p))))"

definition load_plugin_body ::
    "environment \<Rightarrow> nat option \<Rightarrow> extension \<times> world \<Rightarrow> unit result \<times> extension \<times> world" where
  "load_plugin_body env lm = (\<lambda>(p, w). case lm of
     None \<Rightarrow> (Inl ''Language module not available'', p, w)
   | Some m \<Rightarrow>
       let p = set_language_module (Some m) p;
           loaded = safe_call ''OnPluginLoad'' (ex_name p) (env_plugin_load env (w_trace w) m (ex_id p));
           w = emit (Plugin_load m (ex_id p)) w
       in case loaded of
         Inl e \<Rightarrow> (Inl e, p, w)
       | Inr d \<Rightarrow> (case validate_and_set_plugin_data d p of
           (Inl e, p) \<Rightarrow> (Inl e, p, w)
         | (Inr u, p) \<Rightarrow> (Inr (), p, count_plugins 1 (notify env (Life_load (ex_id p)) w))))"

definition load_plugin ::
    "environment \<Rightarrow> extension \<Rightarrow> extension \<times> world \<Rightarrow> unit result \<times> extension \<times> world" where
  "load_plugin env m = (\<lambda>(p, w). case load_plugin_body env (ex_language_module m) (p, w) of
     (r, p', w') \<Rightarrow> (r, p', time_plugin (env_elapsed env (w_trace w) (w_trace w')) (ex_id p') w'))"

text \<open>The three operations that call a plugin's entry when its table has it.\<close>

definition plugin_call ::
    "environment \<Rightarrow> bool \<Rightarrow> string \<Rightarrow> (nat \<Rightarrow> event) \<Rightarrow> event \<Rightarrow> extension \<times> world \<Rightarrow> unit result \<times> extension \<times> world" where
  "plugin_call env present op ev life = (\<lambda>(p, w).
     if \<not> present then (Inr (), p, w)
     else case module_call env op (ex_name p) (ex_language_module p) ev w of
       (r, w) \<Rightarrow> (r, p, notify env life w))"

definition start_plugin :: "environment \<Rightarrow> extension \<times> world \<Rightarrow> unit result \<times> extension \<times> world" where
  "start_plugin env x = plugin_call env (has_start (ex_method_table (fst x))) ''OnPluginStart''
     (\<lambda>lm. Plugin_start lm (ex_id (fst x))) (Life_start (ex_id (fst x))) x"

definition end_plugin :: "environment \<Rightarrow> extension \<times> world \<Rightarrow> unit result \<times> extension \<times> world" where
  "end_plugin env x = plugin_call env (has_end (ex_method_table (fst x))) ''OnPluginEnd''
     (\<lambda>lm. Plugin_end lm (ex_id (fst x))) (Life_end (ex_id (fst x))) x"

definition update_plugin :: "environment \<Rightarrow> int \<Rightarrow> extension \<times> world \<Rightarrow> unit result \<times> extension \<times> world" where
  "update_plugin env dt x = plugin_call env (has_update (ex_method_table (fst x))) ''OnPluginUpdate''
     (\<lambda>lm. Plugin_update lm (ex_id (fst x)) dt) (Life_update (ex_id (fst x)) dt) x"

definition unload_plugin :: "environment \<Rightarrow> extension \<times> world \<Rightarrow> unit result \<times> extension \<times> world" where
  "unload_plugin env = (\<lambda>(p, w).
     let p = set_methods_data [] (set_method_table method_table_default (set_user_data 0 (set_language_module None p)))
     in (Inr (), p, count_plugins (-1) (notify env (Life_unload (ex_id p)) w)))"

text \<open>\<open>MethodExport\<close> tells a language module the methods of a plugin; the pointer is the module's.\<close>

definition method_export ::
    "environment \<Rightarrow> extension \<Rightarrow> extension \<times> world \<Rightarrow> unit result \<times> extension \<times> world" where
  "method_export env m = (\<lambda>(p, w).
     if \<not> has_export (ex_method_table p) then (Inr (), p, w)
     else case module_call env ''OnMethodExport'' (ex_name m) (ex_language_module m)
         (\<lambda>lm. Method_export lm (ex_id m) (ex_id p)) w of
       (r, w) \<Rightarrow> (r, p, notify env (Life_export (ex_id p)) w))"


section \<open>What the loader leaves alone\<close>

text \<open>No operation of the loader touches an extension's identity, manifest or state, or the
  registry; each only appends to the history.\<close>

definition loader_frame :: "extension \<times> world \<Rightarrow> extension \<times> world \<Rightarrow> bool" where
  "loader_frame = (\<lambda>(e, w) (e', w').
     ex_id e' = ex_id e \<and> ex_type e' = ex_type e \<and> ex_state e' = ex_state e \<and>
     ex_asserted e' = ex_asserted e \<and> ex_manifest e' = ex_manifest e \<and> ex_registrar e' = ex_registrar e \<and>
     ex_errors e' = ex_errors e \<and>
     w_registry w' = w_registry w \<and> (\<exists>evs. w_trace w' = w_trace w @ evs))"

lemma loader_frameD:
  assumes "loader_frame (e, w) (e', w')"
  shows "ex_id e' = ex_id e" "ex_type e' = ex_type e" "ex_state e' = ex_state e"
    "ex_asserted e' = ex_asserted e" "ex_manifest e' = ex_manifest e" "w_registry w' = w_registry w"
    "\<exists>evs. w_trace w' = w_trace w @ evs" "ex_registrar e' = ex_registrar e"
  using assms by (simp_all add: loader_frame_def)

lemma loader_frame_refl [simp]: "loader_frame x x"
  by (cases x) (simp add: loader_frame_def)

lemma loader_frame_trans: "loader_frame x y \<Longrightarrow> loader_frame y z \<Longrightarrow> loader_frame x z"
  by (cases x; cases y; cases z) (auto simp: loader_frame_def)

lemma loader_frame_emit [simp]:
  "loader_frame (e, w) (e, emit ev w)" "loader_frame (e, w) (e, notify env ev w)"
  by (auto simp: loader_frame_def emit_def notify_def)

lemma loader_frame_stats [simp]:
  "loader_frame x (e, count_modules d w) = loader_frame x (e, w)"
  "loader_frame x (e, count_plugins d w) = loader_frame x (e, w)"
  "loader_frame x (e, time_module t i w) = loader_frame x (e, w)"
  "loader_frame x (e, time_plugin t i w) = loader_frame x (e, w)"
  "loader_frame x (e, w\<lparr>w_assemblies := a\<rparr>) = loader_frame x (e, w)"
  by (cases x; simp add: loader_frame_def count_modules_def count_plugins_def time_module_def
      time_plugin_def Let_def)+

lemma loader_frame_set [simp]:
  "loader_frame x (set_language_module lm e, w) = loader_frame x (e, w)"
  "loader_frame x (set_method_table t e, w) = loader_frame x (e, w)"
  "loader_frame x (set_assembly a e, w) = loader_frame x (e, w)"
  "loader_frame x (set_user_data u e, w) = loader_frame x (e, w)"
  "loader_frame x (set_methods_data ms e, w) = loader_frame x (e, w)"
  by (cases x; simp add: loader_frame_def set_language_module_def set_method_table_def set_assembly_def
      set_user_data_def set_methods_data_def)+

lemma module_call_frame: "module_call env op name lm ev w = (r, w') \<Longrightarrow> loader_frame (e, w) (e, w')"
  by (auto simp: module_call_def split: option.splits)

lemma loader_frame_notify: "loader_frame x (e, w) \<Longrightarrow> loader_frame x (e, notify env ev w)"
  by (rule loader_frame_trans, assumption) simp

lemma loader_frame_emitI: "loader_frame x (e, w) \<Longrightarrow> loader_frame x (e, emit ev w)"
  by (rule loader_frame_trans, assumption) simp

lemma get_or_load_frame:
  "get_or_load_assembly env cfg p search w = (r, w') \<Longrightarrow> loader_frame (e, w) (e, w')"
  by (auto simp: get_or_load_assembly_def Let_def split: sum.splits option.splits)

lemma load_language_module_frame:
  "load_language_module env a (e, w) = (r, e', w') \<Longrightarrow> loader_frame (e, w) (e', w')"
  by (auto simp: load_language_module_def Let_def intro!: loader_frame_emitI
      split: sum.splits option.splits if_splits)

lemma load_module_frame:
  assumes "load_module env cfg (e, w) = (r, e', w')"
  shows "loader_frame (e, w) (e', w')"
proof -
  from assms obtain w1 where b: "load_module_body env cfg (e, w) = (r, e', w1)"
    and w: "w' = time_module (env_elapsed env (w_trace w) (w_trace w1)) (ex_id e') w1"
    by (auto simp: load_module_def split: prod.splits)
  obtain ra w2 where g: "get_or_load_assembly env cfg (get_runtime e) (get_directories e) w = (ra, w2)"
    by (cases "get_or_load_assembly env cfg (get_runtime e) (get_directories e) w")
  note f = get_or_load_frame [OF g]
  have "loader_frame (e, w) (e', w1)"
  proof (cases ra)
    case (Inl x)
    with b g f show ?thesis by (simp add: load_module_body_def)
  next
    case (Inr a)
    obtain rb e2 w3 where l: "load_language_module env a (e, w2) = (rb, e2, w3)"
      by (cases "load_language_module env a (e, w2)")
    note f2 = loader_frame_trans [OF f load_language_module_frame [OF l]]
    with b g l Inr show ?thesis
      by (cases rb) (auto simp: load_module_body_def intro: loader_frame_notify)
  qed
  then show ?thesis by (simp add: w)
qed

lemma plugin_call_frame:
  "plugin_call env present op ev life (e, w) = (r, e', w') \<Longrightarrow> loader_frame (e, w) (e', w')"
  by (auto simp: plugin_call_def split: if_splits prod.splits dest: module_call_frame intro!: loader_frame_notify)

lemma method_export_frame:
  "method_export env m (e, w) = (r, e', w') \<Longrightarrow> loader_frame (e, w) (e', w')"
  by (auto simp: method_export_def split: if_splits prod.splits dest: module_call_frame intro!: loader_frame_notify)

lemma update_module_frame:
  "update_module env dt (e, w) = (r, e', w') \<Longrightarrow> loader_frame (e, w) (e', w')"
  by (auto simp: update_module_def split: if_splits prod.splits dest: module_call_frame intro!: loader_frame_notify)

lemma validate_frame:
  "validate_and_set_plugin_data d e = (r, e') \<Longrightarrow> loader_frame (e, w) (e', w)"
  by (auto simp: validate_and_set_plugin_data_def Let_def split: if_splits)

lemma load_plugin_frame:
  assumes "load_plugin env m (e, w) = (r, e', w')"
  shows "loader_frame (e, w) (e', w')"
proof -
  from assms obtain w1 where b: "load_plugin_body env (ex_language_module m) (e, w) = (r, e', w1)"
    and w: "w' = time_plugin (env_elapsed env (w_trace w) (w_trace w1)) (ex_id e') w1"
    by (auto simp: load_plugin_def split: prod.splits)
  have "loader_frame (e, w) (e', w1)"
  proof (cases "ex_language_module m")
    case None
    with b show ?thesis by (simp add: load_plugin_body_def)
  next
    case (Some lm)
    let ?e = "set_language_module (Some lm) e"
    let ?w = "emit (Plugin_load lm (ex_id ?e)) w"
    have f: "loader_frame (e, w) (?e, ?w)" by (simp del: runtime_frame)
    show ?thesis
    proof (cases "safe_call ''OnPluginLoad'' (ex_name ?e) (env_plugin_load env (w_trace w) lm (ex_id ?e))")
      case (Inl x)
      with b Some f show ?thesis by (auto simp: load_plugin_body_def Let_def)
    next
      case (Inr d)
      obtain rv e2 where v: "validate_and_set_plugin_data d ?e = (rv, e2)"
        by (cases "validate_and_set_plugin_data d ?e")
      note f2 = loader_frame_trans [OF f validate_frame [OF v]]
      with b Some Inr v show ?thesis
        by (cases rv) (auto simp: load_plugin_body_def Let_def intro: loader_frame_notify)
    qed
  qed
  then show ?thesis by (simp add: w)
qed

lemma unload_plugin_frame: "unload_plugin env (e, w) = (r, e', w') \<Longrightarrow> loader_frame (e, w) (e', w')"
  by (auto simp: unload_plugin_def Let_def intro!: loader_frame_notify)

lemma unload_module_frame:
  assumes "unload_module env (e, w) = (r, e', w')"
  shows "loader_frame (e, w) (e', w')"
proof -
  obtain r1 e1 w1 where 1: "(case ex_language_module e of
           None \<Rightarrow> (Inr (), e, w)
         | Some lm \<Rightarrow> (case module_call env ''Shutdown'' (ex_name e) (Some lm) Shutdown w of
             (r, w) \<Rightarrow> (r, set_language_module None e, w))) = (r1, e1, w1)"
    by (metis prod_cases3)
  then have f: "loader_frame (e, w) (e1, w1)"
    by (auto split: option.splits prod.splits dest: module_call_frame)
  with assms 1 show ?thesis
    by (auto simp: unload_module_def Let_def split: option.splits intro!: loader_frame_notify)
qed


section \<open>No call through a null pointer\<close>

definition null_free :: "world \<Rightarrow> bool" where
  "null_free w \<longleftrightarrow> Null_call \<notin> set (w_trace w)"

text \<open>An extension with a method in its table has the language module that would be called.\<close>

definition table_backed :: "extension \<Rightarrow> bool" where
  "table_backed e \<longleftrightarrow> ex_language_module e \<noteq> None \<or> ex_method_table e = method_table_default"

lemma null_free_simps [simp]:
  "ev \<noteq> Null_call \<Longrightarrow> null_free (emit ev w) = null_free w"
  "ev \<noteq> Null_call \<Longrightarrow> null_free (notify env ev w) = null_free w"
  "null_free (count_modules d w) = null_free w" "null_free (count_plugins d w) = null_free w"
  "null_free (time_module t i w) = null_free w" "null_free (time_plugin t i w) = null_free w"
  "null_free (w\<lparr>w_assemblies := a\<rparr>) = null_free w"
  by (auto simp: null_free_def emit_def notify_def count_modules_def count_plugins_def time_module_def
      time_plugin_def Let_def)

lemma module_call_null_free:
  "module_call env op name lm ev w = (r, w') \<Longrightarrow> lm \<noteq> None \<Longrightarrow> (\<And>m. ev m \<noteq> Null_call) \<Longrightarrow> null_free w' = null_free w"
  by (auto simp: module_call_def)

lemma table_default [simp]:
  "\<not> has_update method_table_default" "\<not> has_start method_table_default"
  "\<not> has_end method_table_default" "\<not> has_export method_table_default"
  by (simp_all add: method_table_default_def)

lemma load_module_runtime:
  assumes "load_module env cfg (e, w) = (r, e', w')"
  shows "(r = Inr () \<longrightarrow> ex_language_module e' \<noteq> None) \<and> (\<forall>x. r = Inl x \<longrightarrow> e' = e) \<and> null_free w' = null_free w"
proof -
  from assms obtain w1 where b: "load_module_body env cfg (e, w) = (r, e', w1)"
    and w: "w' = time_module (env_elapsed env (w_trace w) (w_trace w1)) (ex_id e') w1"
    by (auto simp: load_module_def split: prod.splits)
  obtain ra w2 where g: "get_or_load_assembly env cfg (get_runtime e) (get_directories e) w = (ra, w2)"
    by (cases "get_or_load_assembly env cfg (get_runtime e) (get_directories e) w")
  then have n: "null_free w2 = null_free w"
    by (auto simp: get_or_load_assembly_def Let_def split: sum.splits option.splits)
  have "(r = Inr () \<longrightarrow> ex_language_module e' \<noteq> None) \<and> (\<forall>x. r = Inl x \<longrightarrow> e' = e) \<and> null_free w1 = null_free w"
  proof (cases ra)
    case (Inl x)
    with b g n show ?thesis by (auto simp: load_module_body_def)
  next
    case (Inr a)
    obtain rb e2 w3 where l: "load_language_module env a (e, w2) = (rb, e2, w3)"
      by (cases "load_language_module env a (e, w2)")
    then have "(rb = Inr () \<longrightarrow> ex_language_module e2 \<noteq> None) \<and> (\<forall>x. rb = Inl x \<longrightarrow> e2 = e) \<and> null_free w3 = null_free w2"
      by (auto simp: load_language_module_def Let_def set_method_table_def set_assembly_def set_language_module_def
          split: sum.splits option.splits if_splits)
    with b g l Inr n show ?thesis
      by (cases rb) (auto simp: load_module_body_def)
  qed
  then show ?thesis by (simp add: w)
qed

lemma load_plugin_runtime:
  assumes "load_plugin env m (e, w) = (r, e', w')" "table_backed e"
  shows "table_backed e' \<and> null_free w' = null_free w"
proof -
  from assms obtain w1 where b: "load_plugin_body env (ex_language_module m) (e, w) = (r, e', w1)"
    and w: "w' = time_plugin (env_elapsed env (w_trace w) (w_trace w1)) (ex_id e') w1"
    by (auto simp: load_plugin_def split: prod.splits)
  have "table_backed e' \<and> null_free w1 = null_free w"
  proof (cases "ex_language_module m")
    case None
    with b assms(2) show ?thesis by (simp add: load_plugin_body_def)
  next
    case (Some lm)
    have v: "ex_language_module e2 = Some lm"
      if "validate_and_set_plugin_data d (set_language_module (Some lm) e) = (rv, e2)" for d rv e2
      using that by (auto simp: validate_and_set_plugin_data_def Let_def set_methods_data_def set_method_table_def
          set_user_data_def set_language_module_def split: if_splits)
    with b Some show ?thesis
      by (auto simp: load_plugin_body_def Let_def table_backed_def set_language_module_def
          split: sum.splits prod.splits)
  qed
  then show ?thesis by (simp add: w)
qed

lemma plugin_call_null_free:
  assumes "plugin_call env present op ev life (e, w) = (r, e', w')" "present \<Longrightarrow> ex_language_module e \<noteq> None"
    "\<And>m. ev m \<noteq> Null_call" "life \<noteq> Null_call"
  shows "e' = e \<and> null_free w' = null_free w"
  using assms by (auto simp: plugin_call_def split: if_splits prod.splits dest: module_call_null_free)

lemma start_plugin_null_free:
  "start_plugin env (e, w) = (r, e', w') \<Longrightarrow> table_backed e \<Longrightarrow> e' = e \<and> null_free w' = null_free w"
  unfolding start_plugin_def fst_conv by (erule plugin_call_null_free) (auto simp: table_backed_def)

lemma end_plugin_null_free:
  "end_plugin env (e, w) = (r, e', w') \<Longrightarrow> table_backed e \<Longrightarrow> e' = e \<and> null_free w' = null_free w"
  unfolding end_plugin_def fst_conv by (erule plugin_call_null_free) (auto simp: table_backed_def)

lemma update_plugin_null_free:
  "update_plugin env dt (e, w) = (r, e', w') \<Longrightarrow> table_backed e \<Longrightarrow> e' = e \<and> null_free w' = null_free w"
  unfolding update_plugin_def fst_conv by (erule plugin_call_null_free) (auto simp: table_backed_def)

lemma update_module_null_free:
  "update_module env dt (e, w) = (r, e', w') \<Longrightarrow> table_backed e \<Longrightarrow> e' = e \<and> null_free w' = null_free w"
  by (auto simp: update_module_def table_backed_def split: if_splits prod.splits dest!: module_call_null_free)

lemma method_export_null_free:
  "method_export env m (e, w) = (r, e', w') \<Longrightarrow> ex_language_module m \<noteq> None \<Longrightarrow> e' = e \<and> null_free w' = null_free w"
  by (auto simp: method_export_def split: if_splits prod.splits dest!: module_call_null_free)

lemma unload_module_null_free:
  "unload_module env (e, w) = (r, e', w') \<Longrightarrow> null_free w' = null_free w"
  by (auto simp: unload_module_def module_call_def Let_def split: option.splits)

lemma unload_plugin_null_free:
  "unload_plugin env (e, w) = (r, e', w') \<Longrightarrow> table_backed e' \<and> null_free w' = null_free w"
  by (auto simp: unload_plugin_def Let_def table_backed_def set_methods_data_def set_method_table_def)

section \<open>An environment for examples\<close>

text \<open>A POSIX target whose assembly loader, language modules and observer all answer with success;
  a loaded plugin exports one method at address 64 and has every entry.\<close>

definition all_methods :: method_table where
  "all_methods = \<lparr>has_update = True, has_start = True, has_end = True, has_export = True\<rparr>"

definition sample_env :: environment where
  "sample_env = \<lparr>
     env_target = \<lparr>t_windows = False, t_arm64 = False, t_ptr32 = False\<rparr>, env_debug_build = False,
     env_naming = \<lparr>ln_prefix = ''lib'', ln_suffix = ''.so''\<rparr>, env_platform = ''linux'', env_lifecycle = True,
     env_absolute_path = (\<lambda>p. Inr (if path_is_absolute p then p else path_append ''/cwd'' p)),
     env_load = (\<lambda>h p f s. Inr (length h)), env_symbol = (\<lambda>h a n. Inr 4096),
     env_entry = (\<lambda>h a. Some 1), env_is_debug = (\<lambda>m. False),
     env_initialize = (\<lambda>h m i. Returned (Inr all_methods)),
     env_plugin_load = (\<lambda>h m i. Returned (Inr \<lparr>ldt_methods = [\<lparr>md_method = Method_of i 0, md_addr = 64\<rparr>],
       ldt_data = 8, ldt_table = all_methods\<rparr>)),
     env_call = (\<lambda>h e. Returned (Inr ())), env_elapsed = (\<lambda>a b. int (length b - length a)),
     env_clock = (\<lambda>h i s. 0)\<rparr>"

definition sample_config :: config where
  "sample_config = config_default False"

definition sample_method :: method_def where
  "sample_method = \<lparr>me_param_types = [], me_ret_type = \<lparr>pr_type = Void, pr_ref = None, pr_prototype = Object None,
     pr_enumerate = Object None\<rparr>, me_name = ''Ping'', me_func_name = ''Ping_fn'', me_call_conv = None,
     me_var_index = None\<rparr>"

definition sample_plugin :: extension where
  "sample_plugin = (new_extension 3 ''/e/p/p.pplugin'')\<lparr>ex_manifest :=
     manifest_default\<lparr>mf_name := ''p'', mf_methods := Some [sample_method]\<rparr>\<rparr>"

definition sample_module :: extension where
  "sample_module = (new_extension 1 ''/e/m/m.pmodule'')\<lparr>ex_manifest :=
     manifest_default\<lparr>mf_name := ''m'', mf_runtime := Some ''bin/libm.so''\<rparr>\<rparr>"

section \<open>Properties\<close>

lemma method_errors_grow: "\<exists>more. method_errors i n k es ds errors = errors @ more"
  by (induction i n k es ds errors rule: method_errors.induct) (auto simp: Let_def)

lemma method_errors_none:
  "method_errors i n k es ds [] = [] \<Longrightarrow> length ds = length es \<Longrightarrow> j < length ds \<Longrightarrow>
     md_method (ds ! j) = Method_of i (k + j) \<and> md_addr (ds ! j) \<noteq> 0"
proof (induction ds arbitrary: k j es)
  case (Cons d ds)
  then obtain e es' where es: "es = e # es'" by (cases es) auto
  have ok: "md_method d = Method_of i k" "md_addr d \<noteq> 0" "method_errors i n (Suc k) es' ds [] = []"
  proof -
    have "method_errors i n (Suc k) es' ds [x] \<noteq> []" for x
      using method_errors_grow [of i n "Suc k" es' ds "[x]"] by auto
    with Cons.prems(1) show "md_method d = Method_of i k" "md_addr d \<noteq> 0" "method_errors i n (Suc k) es' ds [] = []"
      by (auto simp: es Let_def split: if_splits)
  qed
  with Cons.IH [OF ok(3), of "j - 1"] Cons.prems show ?case by (cases j) (auto simp: es)
qed simp

text \<open>C31: A plugin that loads has given one entry for every method its manifest exports, in the
  order of the manifest, each a reference to the plugin's own method with a non-null address.\<close>

theorem loaded_plugin_methods:
  assumes "load_plugin env m (p, w) = (Inr (), p', w')" "ex_type p = Plugin"
  shows "length (get_methods_data p') = length (get_methods p) \<and>
    (\<forall>k < length (get_methods p). md_method (get_methods_data p' ! k) = Method_of (ex_id p) k \<and>
       md_addr (get_methods_data p' ! k) \<noteq> 0)"
proof -
  from assms(1) obtain lm d w1 where v: "validate_and_set_plugin_data d (set_language_module (Some lm) p) = (Inr (), p')"
    by (auto simp: load_plugin_def load_plugin_body_def Let_def split: prod.splits option.splits sum.splits)
  let ?p = "set_language_module (Some lm) p"
  have same: "get_methods ?p = get_methods p" "ex_id ?p = ex_id p"
    by (simp_all add: get_methods_def set_language_module_def)
  from v have len: "length (ldt_methods d) = length (get_methods p)"
    and none: "method_errors (ex_id p) (length (ldt_methods d)) 0 (get_methods p) (ldt_methods d) [] = []"
    and p': "p' = set_methods_data (ldt_methods d) (set_method_table (ldt_table d) (set_user_data (ldt_data d) ?p))"
    unfolding validate_and_set_plugin_data_def Let_def same by (auto split: if_splits)
  have "get_methods_data p' = ldt_methods d"
    using assms(2) by (simp add: p' get_methods_data_def set_methods_data_def set_method_table_def set_user_data_def
        set_language_module_def)
  with len method_errors_none [OF none len] show ?thesis by simp
qed

lemma loaded_plugin_methods_witness:
  "md_addr (get_methods_data (fst (snd (load_plugin sample_env (set_language_module (Some 1) sample_module)
     (sample_plugin, world_start)))) ! 0) \<noteq> 0"
proof -
  have "fst (load_plugin sample_env (set_language_module (Some 1) sample_module) (sample_plugin, world_start)) = Inr ()"
    by code_simp
  then obtain p' w' where l: "load_plugin sample_env (set_language_module (Some 1) sample_module)
      (sample_plugin, world_start) = (Inr (), p', w')"
    by (cases "load_plugin sample_env (set_language_module (Some 1) sample_module) (sample_plugin, world_start)") auto
  have "ex_type sample_plugin = Plugin" "length (get_methods sample_plugin) = 1" by code_simp+
  with loaded_plugin_methods [OF l] show ?thesis unfolding l by simp
qed

text \<open>C32: Loading a module either succeeds and leaves it with a language module to call, or fails
  and changes nothing in the extension.\<close>

theorem load_module_all_or_nothing:
  "case load_module env cfg (m, w) of
     (Inr u, m', w') \<Rightarrow> ex_language_module m' \<noteq> None
   | (Inl e, m', w') \<Rightarrow> m' = m"
  using load_module_runtime [of env cfg m w] by (cases "load_module env cfg (m, w)") (auto split: sum.splits)

text \<open>An assembly is asked of the assembly loader once: after a load that succeeded, the next
  request for the same absolute path is answered from the cache, without a call.\<close>

lemma assembly_loaded_once:
  assumes "get_or_load_assembly env cfg p search w = (Inr a, w')" "env_absolute_path env q = env_absolute_path env p"
  shows "get_or_load_assembly env cfg q search' w' = (Inr a, w')"
  using assms by (auto simp: get_or_load_assembly_def Let_def emit_def split: sum.splits option.splits)

lemma assembly_loaded_once_witness:
  "get_or_load_assembly sample_env sample_config ''/cwd/bin/libm.so'' []
     (snd (get_or_load_assembly sample_env sample_config ''bin/libm.so'' [] world_start)) =
   (Inr 0, snd (get_or_load_assembly sample_env sample_config ''bin/libm.so'' [] world_start))"
proof -
  have "fst (get_or_load_assembly sample_env sample_config ''bin/libm.so'' [] world_start) = Inr 0" by code_simp
  then obtain w' where g: "get_or_load_assembly sample_env sample_config ''bin/libm.so'' [] world_start = (Inr 0, w')"
    by (cases "get_or_load_assembly sample_env sample_config ''bin/libm.so'' [] world_start") auto
  have "env_absolute_path sample_env ''/cwd/bin/libm.so'' = env_absolute_path sample_env ''bin/libm.so''" by code_simp
  from assembly_loaded_once [OF g this] show ?thesis unfolding g by simp
qed

text \<open>Unloading a module clears its cache entry only under the path of its runtime, while the
  entry was made under the absolute path: when the two differ, the assembly stays in the cache.\<close>

lemma unload_leaves_assembly_cached:
  assumes "w_assemblies w q = Some a" "get_runtime m \<noteq> q" "unload_module env (m, w) = (r, m', w')"
  shows "w_assemblies w' q = Some a"
proof -
  have keep: "w_assemblies (emit ev x) = w_assemblies x" "w_assemblies (notify env ev x) = w_assemblies x"
    "w_assemblies (count_modules d x) = w_assemblies x" for ev x d
    by (simp_all add: emit_def notify_def count_modules_def)
  have "get_runtime (set_language_module None m) = get_runtime m"
    by (simp add: get_runtime_def set_language_module_def)
  with assms show ?thesis
    by (auto simp: unload_module_def module_call_def Let_def keep split: option.splits)
qed

lemma unload_leaves_assembly_cached_witness:
  "w_assemblies (snd (snd (unload_module sample_env (snd (load_module sample_env sample_config
     (sample_module, world_start)))))) ''/cwd/bin/libm.so'' = Some 0"
proof -
  obtain r m w where l: "load_module sample_env sample_config (sample_module, world_start) = (r, m, w)"
    by (cases "load_module sample_env sample_config (sample_module, world_start)")
  obtain r' m' w' where u: "unload_module sample_env (m, w) = (r', m', w')"
    by (cases "unload_module sample_env (m, w)")
  have "w_assemblies (snd (snd (load_module sample_env sample_config (sample_module, world_start))))
      ''/cwd/bin/libm.so'' = Some 0" by code_simp
  moreover have "get_runtime (fst (snd (load_module sample_env sample_config (sample_module, world_start)))) \<noteq>
      ''/cwd/bin/libm.so''" by code_simp
  ultimately show ?thesis using unload_leaves_assembly_cached [OF _ _ u, of "''/cwd/bin/libm.so''" 0] by (simp add: l u)
qed

end
