(* ===== verification/Failure_Tracker.thy ===== *)
theory Failure_Tracker
  imports Extension
begin

text \<open>
  The set of failed extensions the loading stages share (src/core/failure_tracker.hpp). What
  the stages need of it is the interface \<open>failure_set\<close>; the model's set provides it.
\<close>

section \<open>The interface\<close>

locale failure_set =
  fixes mark :: "unique_id \<Rightarrow> 't \<Rightarrow> 't"
    and failed :: "'t \<Rightarrow> unique_id \<Rightarrow> bool"
  assumes failed_mark: "failed (mark i t) j \<longleftrightarrow> j = i \<or> failed t j"
begin

lemma failed_marks: "failed (fold mark is t) j \<longleftrightarrow> j \<in> set is \<or> failed t j"
  by (induction "is" arbitrary: t) (auto simp: failed_mark)

lemma marks_mono: "failed t j \<Longrightarrow> failed (fold mark is t) j"
  by (simp add: failed_marks)

lemma mark_commutes: "failed (mark i (mark j t)) = failed (mark j (mark i t))"
  by (rule ext) (auto simp: failed_mark)

end

section \<open>The tracker\<close>

type_synonym failure_tracker = "unique_id set"

type_synonym dependency_map = "unique_id \<Rightarrow> unique_id list option"

definition new_tracker :: failure_tracker where
  "new_tracker = {}"

definition mark_failed :: "unique_id \<Rightarrow> failure_tracker \<Rightarrow> failure_tracker" where
  "mark_failed i t = insert i t"

definition has_failed :: "failure_tracker \<Rightarrow> unique_id \<Rightarrow> bool" where
  "has_failed t i \<longleftrightarrow> i \<in> t"

interpretation tracker: failure_set mark_failed has_failed
  by unfold_locales (auto simp: mark_failed_def has_failed_def)

text \<open>
  \<open>HasAnyDependencyFailed\<close> and \<open>GetFailedDependencyName\<close>: the entry of the extension in the map
  they are given, searched for a failed identifier.
\<close>

definition has_any_dependency_failed :: "failure_tracker \<Rightarrow> extension \<Rightarrow> dependency_map \<Rightarrow> bool" where
  "has_any_dependency_failed t e deps = (case deps (ex_id e) of
     None \<Rightarrow> False | Some ds \<Rightarrow> list_ex (has_failed t) ds)"

definition get_failed_dependency_name ::
    "registry \<Rightarrow> failure_tracker \<Rightarrow> extension \<Rightarrow> dependency_map \<Rightarrow> string" where
  "get_failed_dependency_name reg t e deps = (case deps (ex_id e) of
     None \<Rightarrow> []
   | Some ds \<Rightarrow> (case find (has_failed t) ds of None \<Rightarrow> [] | Some d \<Rightarrow> id_to_string reg d))"

text \<open>The dependency that is named is one that has failed.\<close>

lemma failed_dependency_name:
  "has_any_dependency_failed t e deps \<Longrightarrow> \<exists>ds d. deps (ex_id e) = Some ds \<and> d \<in> set ds \<and> has_failed t d \<and>
     get_failed_dependency_name reg t e deps = id_to_string reg d"
  by (auto simp: has_any_dependency_failed_def get_failed_dependency_name_def list_ex_iff find_None_iff
      split: option.splits dest!: find_Some_iff [THEN iffD1])
    (metis nth_mem)+

end
