(* ===== verification/Stages.thy ===== *)
theory Stages
  imports Pipeline Loader Failure_Tracker Resolver Manifest_Resolve
begin

text \<open>
  The stages of the manager's pipeline (src/core/stages_impl.hpp) over extensions and the state
  they share: the world of the loader, the failure tracker, the results of the resolution and
  the pointers two stages keep into the container, which are positions here.

  The record \<open>inputs\<close> holds what the stages read from outside: the file system, the JSON schemas
  and reader, the solver, and the iteration orders of the hash maps. \<open>Stages_Correct\<close> has the
  contracts of the stages and the properties.
\<close>

section \<open>Inputs and shared state\<close>

record inputs =
  in_read :: "path \<Rightarrow> string result"
  in_schema :: "extension_type \<Rightarrow> nat result"
  in_json :: "string \<Rightarrow> nat \<Rightarrow> manifest result"
  in_types_order :: "name_table \<Rightarrow> name_table"
  in_solver :: solver
  in_jobs_order :: "(unique_id \<times> solvable_id) list \<Rightarrow> (unique_id \<times> solvable_id) list"
  in_items_order :: "(unique_id \<times> extension) list \<Rightarrow> (unique_id \<times> extension) list"

record shared =
  sh_world :: world
  sh_tracker :: failure_tracker
  sh_load_order :: "unique_id list"
  sh_graph :: dependency_map
  sh_reverse :: dependency_map
  sh_resolver :: resolver
  sh_schemas :: "extension_type \<Rightarrow> nat option"
  sh_modules :: "string \<Rightarrow> nat option"
  sh_running :: "nat list"

definition clock :: "environment \<Rightarrow> shared \<Rightarrow> extension_state \<Rightarrow> extension \<Rightarrow> int" where
  "clock env s st e = env_clock env (w_trace (sh_world s)) (ex_id e) st"

definition ex_language :: "extension \<Rightarrow> string" where
  "ex_language e = mf_language (ex_manifest e)"

section \<open>Parsing\<close>

definition load_schemas :: "inputs \<Rightarrow> extension list \<times> shared \<Rightarrow> extension list \<times> shared" where
  "load_schemas inp = (\<lambda>(items, s).
     let put = (\<lambda>t m. case in_schema inp t of Inl e \<Rightarrow> m | Inr x \<Rightarrow> m(t \<mapsto> x))
     in (items, s\<lparr>sh_schemas := put Plugin (put Module (sh_schemas s))\<rparr>))"

definition should_parse :: "shared \<Rightarrow> extension \<Rightarrow> bool" where
  "should_parse s e \<longleftrightarrow> ex_state e = Discovered"

text \<open>
  \<open>ParseManifest\<close>. The walks of \<open>Resolve\<close> end on every manifest with valid pointers
  (\<open>Manifest_Correct\<close>), and a reader makes no other.
\<close>

definition parse_manifest :: "inputs \<Rightarrow> (extension_type \<Rightarrow> nat option) \<Rightarrow> path \<Rightarrow> extension_type \<Rightarrow> manifest result" where
  "parse_manifest inp schemas file t =
     rbind (in_read inp file) (\<lambda>content.
     case schemas t of
       None \<Rightarrow> Inl (''No JSON schema registered for '' @ type_name t @ '' type'')
     | Some schema \<Rightarrow>
         rbind (in_json inp content schema) (\<lambda>m.
         case resolve_manifest (in_types_order inp) m of
           None \<Rightarrow> Inl ''Manifest resolution does not end''
         | Some (Inl e) \<Rightarrow> Inl (''Manifest resolution failed: '' @ e)
         | Some (Inr m) \<Rightarrow> (case validate_manifest m of
             Inl e \<Rightarrow> Inl (''Manifest validation failed: '' @ e)
           | Inr u \<Rightarrow> Inr m)))"

definition parse_item :: "environment \<Rightarrow> inputs \<Rightarrow> extension \<times> shared \<Rightarrow> unit result \<times> extension \<times> shared" where
  "parse_item env inp = (\<lambda>(e, s).
     let e = start_operation (clock env s Parsing e) Parsing e
     in case parse_manifest inp (sh_schemas s) (ex_location e) (ex_type e) of
       Inl err \<Rightarrow> (Inl err, end_operation (clock env s Corrupted e) Corrupted (add_error err e), s)
     | Inr m \<Rightarrow> (case set_manifest (env_naming env) m (e, w_registry (sh_world s)) of
         (e, reg) \<Rightarrow> (Inr (), end_operation (clock env s Parsed e) Parsed e,
           s\<lparr>sh_world := (sh_world s)\<lparr>w_registry := reg\<rparr>\<rparr>)))"

definition parsing_stage :: "environment \<Rightarrow> inputs \<Rightarrow> (extension, shared) stage" where
  "parsing_stage env inp = \<lparr>sg_name = ''Parsing'', sg_setup = load_schemas inp, sg_teardown = no_setup,
     sg_body = Transform should_parse (parse_item env inp)\<rparr>"

section \<open>Resolution\<close>

definition supports_platform :: "environment \<Rightarrow> string list \<Rightarrow> bool" where
  "supports_platform env ps \<longleftrightarrow> ps = [] \<or> list_ex (\<lambda>p. p = env_platform env) ps"

definition policy_allows :: "environment \<Rightarrow> config \<Rightarrow> extension \<Rightarrow> bool" where
  "policy_allows env cfg e \<longleftrightarrow> ex_state e = Parsed \<and>
     (whitelisted_extensions (cfg_security cfg) = {} \<or> ex_name e \<in> whitelisted_extensions (cfg_security cfg)) \<and>
     \<not> (blacklisted_extensions (cfg_security cfg) \<noteq> {} \<and> ex_name e \<in> blacklisted_extensions (cfg_security cfg)) \<and>
     supports_platform env (get_platforms e)"

definition exclude :: "extension \<Rightarrow> extension" where
  "exclude e = (if ex_state e = Parsed then add_warning ''Excluded due to policy'' (set_state Disabled e) else e)"

fun filter_by_policy :: "environment \<Rightarrow> config \<Rightarrow> extension list \<Rightarrow> extension list \<times> extension list" where
  "filter_by_policy env cfg [] = ([], [])"
| "filter_by_policy env cfg (e # es) = (case filter_by_policy env cfg es of (filtered, excluded) \<Rightarrow>
     if policy_allows env cfg e then (set_state Resolving e # filtered, excluded)
     else (filtered, exclude e # excluded))"

definition language_names :: "extension list \<Rightarrow> string \<Rightarrow> string option" where
  "language_names es = fold (\<lambda>e m. if ex_type e = Module then m(ex_language e \<mapsto> ex_name e) else m) es Map.empty"

definition add_language_dependency :: "(string \<Rightarrow> string option) \<Rightarrow> extension \<Rightarrow> extension" where
  "add_language_dependency languages e =
     (if ex_type e = Plugin
      then (case languages (ex_language e) of
          Some name \<Rightarrow> add_dependency name e
        | None \<Rightarrow> add_error (''Language module '' @ quoted (ex_language e) @ '' is missing'')
            (add_dependency (ex_language e) e))
      else e)"

definition add_language_dependencies :: "extension list \<Rightarrow> extension list" where
  "add_language_dependencies es = map (add_language_dependency (language_names es)) es"

text \<open>Moving the elements out of a vector does not change its size, which the message gives.\<close>

definition restore_error :: "string \<Rightarrow> extension list \<Rightarrow> extension list \<Rightarrow> unit result" where
  "restore_error err filtered excluded = Inl (err @ '': '' @ show_nat (length filtered) @ '' filtered, '' @
     show_nat (length excluded) @ '' excluded by resolver'')"

text \<open>The map from identifiers to extensions; an overwritten extension is destroyed.\<close>

fun id_map :: "extension list \<Rightarrow> (unique_id \<times> extension) list \<times> registry \<Rightarrow> (unique_id \<times> extension) list \<times> registry" where
  "id_map [] x = x"
| "id_map (e # es) (m, reg) = id_map es (AList.update (ex_id e) e m,
     case map_of m (ex_id e) of None \<Rightarrow> reg | Some old \<Rightarrow> destroy_extension (old, reg))"

fun take_in_order :: "unique_id list \<Rightarrow> (unique_id \<times> extension) list \<Rightarrow> extension list \<times> (unique_id \<times> extension) list" where
  "take_in_order [] m = ([], m)"
| "take_in_order (i # is) m = (case map_of m i of
     None \<Rightarrow> take_in_order is m
   | Some e \<Rightarrow> (case take_in_order is (AList.delete i m) of
       (es, rest) \<Rightarrow> (set_state Resolved e # es, rest)))"

definition report_issue :: "dependency_issue \<Rightarrow> extension \<Rightarrow> extension" where
  "report_issue i e = (if di_is_blocking i then add_error (get_detailed_description i) e
     else add_warning (get_detailed_description i) e)"

definition mark_unresolved :: "resolution_report \<Rightarrow> unique_id \<times> extension \<Rightarrow> extension" where
  "mark_unresolved report = (\<lambda>(i, e).
     fold report_issue (case rr_issues report i of None \<Rightarrow> [] | Some is \<Rightarrow> is) (set_state Unresolved e))"

definition resolve_items :: "environment \<Rightarrow> inputs \<Rightarrow> config \<Rightarrow> extension list \<times> shared \<Rightarrow> unit result \<times> extension list \<times> shared" where
  "resolve_items env inp cfg = (\<lambda>(items, s).
     let (filtered, excluded) = filter_by_policy env cfg items in
     if filtered = [] then (restore_error ''No valid extensions to resolve'' filtered excluded, filtered @ excluded, s)
     else
       let filtered = add_language_dependencies filtered;
           (report, rs) = resolve (in_solver inp) (in_jobs_order inp) filtered (sh_resolver s);
           s = s\<lparr>sh_resolver := rs\<rparr>
       in if \<not> rr_valid report then (restore_error ''No valid loading order'' filtered excluded, filtered @ excluded, s)
       else if rr_load_order report = []
       then (restore_error ''No valid extensions to load'' filtered excluded, filtered @ excluded, s)
       else
         let (m, reg) = id_map filtered ([], w_registry (sh_world s));
             (ordered, rest) = take_in_order (rr_load_order report) m
         in (Inr (), ordered @ map (mark_unresolved report) (in_items_order inp rest) @ excluded,
             s\<lparr>sh_world := (sh_world s)\<lparr>w_registry := reg\<rparr>, sh_graph := rr_graph report,
               sh_reverse := rr_reverse_graph report, sh_load_order := rr_load_order report\<rparr>))"

definition resolution_stage :: "environment \<Rightarrow> inputs \<Rightarrow> config \<Rightarrow> (extension, shared) stage" where
  "resolution_stage env inp cfg = \<lparr>sg_name = ''Resolution'', sg_setup = no_setup, sg_teardown = no_setup,
     sg_body = Barrier (resolve_items env inp cfg)\<rparr>"

section \<open>Stages that propagate failures\<close>

definition handle_dependency_failure :: "extension \<times> shared \<Rightarrow> unit result \<times> extension \<times> shared" where
  "handle_dependency_failure = (\<lambda>(e, s).
     let failed = get_failed_dependency_name (w_registry (sh_world s)) (sh_tracker s) e (sh_reverse s);
         e = add_error (''Skipped: dependency '' @ quoted failed @ '' failed'') (set_state Skipped e)
     in (Inl (''Dependency '' @ quoted failed @ '' failed''), e, s\<lparr>sh_tracker := mark_failed (ex_id e) (sh_tracker s)\<rparr>))"

definition propagate_failure :: "unique_id \<Rightarrow> shared \<Rightarrow> shared" where
  "propagate_failure i s = (case sh_graph s i of
     None \<Rightarrow> s
   | Some ds \<Rightarrow> s\<lparr>sh_tracker := fold mark_failed ds (sh_tracker s)\<rparr>)"

definition handle_operation_failure ::
    "environment \<Rightarrow> string \<Rightarrow> extension_state \<Rightarrow> extension \<times> shared \<Rightarrow> extension \<times> shared" where
  "handle_operation_failure env err failed_state = (\<lambda>(e, s).
     let e = end_operation (clock env s failed_state e) failed_state (add_error err e)
     in (e, propagate_failure (ex_id e) (s\<lparr>sh_tracker := mark_failed (ex_id e) (sh_tracker s)\<rparr>)))"

definition check_timeout :: "int \<Rightarrow> extension_state \<Rightarrow> extension \<Rightarrow> extension" where
  "check_timeout timeout st e =
     (let t = get_operation_time st e in
      if timeout < t then add_warning (state_name st @ '' took '' @ show_ms t @ '' to complete'') e else e)"

definition failure_propagating ::
    "(nat \<Rightarrow> nat \<Rightarrow> extension list \<times> shared \<Rightarrow> unit result \<times> extension list \<times> shared) \<Rightarrow>
      nat \<Rightarrow> nat \<Rightarrow> extension list \<times> shared \<Rightarrow> unit result \<times> extension list \<times> shared" where
  "failure_propagating process i n = (\<lambda>(items, s).
     if has_any_dependency_failed (sh_tracker s) (items ! i) (sh_reverse s)
     then (case handle_dependency_failure (items ! i, s) of (r, e, s) \<Rightarrow> (r, items[i := e], s))
     else process i n (items, s))"

section \<open>Loading\<close>

definition should_load :: "shared \<Rightarrow> extension \<Rightarrow> bool" where
  "should_load s e \<longleftrightarrow> ex_state e = Resolved"

text \<open>The \<open>switch\<close> on the type: the extension at the position is read from the container, and a
  loaded module is found through the position of its extension.\<close>

definition load_extension ::
    "environment \<Rightarrow> config \<Rightarrow> nat \<Rightarrow> extension list \<times> shared \<Rightarrow> unit result \<times> extension \<times> shared" where
  "load_extension env cfg i = (\<lambda>(items, s).
     let e = items ! i in
     case ex_type e of
       Module \<Rightarrow> (case load_module env cfg (e, sh_world s) of (r, e, w) \<Rightarrow>
         (r, e, s\<lparr>sh_world := w, sh_modules := (case r of Inl x \<Rightarrow> sh_modules s
            | Inr u \<Rightarrow> (sh_modules s)(ex_language e \<mapsto> i))\<rparr>))
     | Plugin \<Rightarrow> (case sh_modules s (ex_language e) of
         None \<Rightarrow> (Inl (''Language module '' @ quoted (ex_language e) @ '' not found''), e, s)
       | Some k \<Rightarrow> (case load_plugin env (items ! k) (e, sh_world s) of (r, e, w) \<Rightarrow> (r, e, s\<lparr>sh_world := w\<rparr>)))
     | Unknown_type \<Rightarrow> (Inl ''Unknown extension type'', e, s))"

definition load_item ::
    "environment \<Rightarrow> config \<Rightarrow> nat \<Rightarrow> nat \<Rightarrow> extension list \<times> shared \<Rightarrow> unit result \<times> extension list \<times> shared" where
  "load_item env cfg i n = (\<lambda>(items, s).
     let items = items[i := start_operation (clock env s Loading (items ! i)) Loading (items ! i)] in
     case load_extension env cfg i (items, s) of
       (Inl err, e, s) \<Rightarrow> (case handle_operation_failure env err Failed (e, s) of (e, s) \<Rightarrow> (Inl err, items[i := e], s))
     | (Inr u, e, s) \<Rightarrow>
         let e = end_operation (clock env s Loaded e) Loaded e;
             e = check_timeout (load_timeout (cfg_loading cfg)) Loading e;
             e = (if ex_type e = Module then start_operation (clock env s Running e) Running e else e)
         in (Inr (), items[i := e], s))"

definition loading_stage :: "environment \<Rightarrow> config \<Rightarrow> (extension, shared) stage" where
  "loading_stage env cfg = \<lparr>sg_name = ''Loading'', sg_setup = no_setup, sg_teardown = no_setup,
     sg_body = Sequential True should_load (failure_propagating (load_item env cfg))\<rparr>"

section \<open>Exporting\<close>

definition should_export :: "shared \<Rightarrow> extension \<Rightarrow> bool" where
  "should_export s e \<longleftrightarrow> ex_state e = Loaded \<and> ex_type e = Plugin"

definition collect_running :: "extension list \<times> shared \<Rightarrow> extension list \<times> shared" where
  "collect_running = (\<lambda>(items, s). (items, s\<lparr>sh_running := sh_running s @
     filter (\<lambda>k. ex_type (items ! k) = Module \<and> ex_state (items ! k) = Running) [0..<length items]\<rparr>))"

text \<open>The loop over the running modules, up to the first failure.\<close>

fun export_to :: "environment \<Rightarrow> extension list \<Rightarrow> nat list \<Rightarrow> extension \<times> world \<Rightarrow> unit result \<times> extension \<times> world" where
  "export_to env items [] (e, w) = (Inr (), e, w)"
| "export_to env items (k # ks) (e, w) = (case method_export env (items ! k) (e, w) of
     (Inl err, e, w) \<Rightarrow> (Inl err, e, w)
   | (Inr u, e, w) \<Rightarrow> export_to env items ks (e, w))"

definition export_item ::
    "environment \<Rightarrow> config \<Rightarrow> nat \<Rightarrow> nat \<Rightarrow> extension list \<times> shared \<Rightarrow> unit result \<times> extension list \<times> shared" where
  "export_item env cfg i n = (\<lambda>(items, s).
     let items = items[i := start_operation (clock env s Exporting (items ! i)) Exporting (items ! i)] in
     case export_to env items (sh_running s) (items ! i, sh_world s) of
       (Inl err, e, w) \<Rightarrow> (case handle_operation_failure env err Failed (e, s\<lparr>sh_world := w\<rparr>) of
         (e, s) \<Rightarrow> (Inl err, items[i := e], s))
     | (Inr u, e, w) \<Rightarrow>
         let s = s\<lparr>sh_world := w\<rparr>;
             e = end_operation (clock env s Exported e) Exported e
         in (Inr (), items[i := check_timeout (export_timeout (cfg_loading cfg)) Exporting e], s))"

definition exporting_stage :: "environment \<Rightarrow> config \<Rightarrow> (extension, shared) stage" where
  "exporting_stage env cfg = \<lparr>sg_name = ''Exporting'', sg_setup = collect_running, sg_teardown = no_setup,
     sg_body = Sequential True should_export (failure_propagating (export_item env cfg))\<rparr>"

section \<open>Starting\<close>

definition should_start :: "shared \<Rightarrow> extension \<Rightarrow> bool" where
  "should_start s e \<longleftrightarrow> ex_state e = Exported \<and> ex_type e = Plugin"

definition start_item ::
    "environment \<Rightarrow> config \<Rightarrow> nat \<Rightarrow> nat \<Rightarrow> extension list \<times> shared \<Rightarrow> unit result \<times> extension list \<times> shared" where
  "start_item env cfg i n = (\<lambda>(items, s).
     let items = items[i := start_operation (clock env s Starting (items ! i)) Starting (items ! i)] in
     case start_plugin env (items ! i, sh_world s) of
       (Inl err, e, w) \<Rightarrow> (case handle_operation_failure env err Failed (e, s\<lparr>sh_world := w\<rparr>) of
         (e, s) \<Rightarrow> (Inl err, items[i := e], s))
     | (Inr u, e, w) \<Rightarrow>
         let s = s\<lparr>sh_world := w\<rparr>;
             e = end_operation (clock env s Started e) Started e;
             e = check_timeout (start_timeout (cfg_loading cfg)) Starting e
         in (Inr (), items[i := start_operation (clock env s Running e) Running e], s))"

definition starting_stage :: "environment \<Rightarrow> config \<Rightarrow> (extension, shared) stage" where
  "starting_stage env cfg = \<lparr>sg_name = ''Starting'', sg_setup = no_setup, sg_teardown = no_setup,
     sg_body = Sequential True should_start (failure_propagating (start_item env cfg))\<rparr>"

section \<open>Inputs for examples\<close>

text \<open>A file's content is the stem of its path and the reader makes it the name of the manifest;
  the solver installs what it is asked for, the last job first.\<close>

definition sample_inputs :: inputs where
  "sample_inputs = \<lparr>in_read = (\<lambda>p. Inr (path_stem p)), in_schema = (\<lambda>t. Inr 0),
     in_json = (\<lambda>content schema. Inr (manifest_default\<lparr>mf_name := content, mf_language := ''cpp'',
       mf_methods := Some [sample_method], mf_runtime := Some ''bin/libm.so''\<rparr>)),
     in_types_order = (\<lambda>t. t), in_solver = (\<lambda>pool jobs. \<lparr>sa_failed = False, sa_problems = [],
       sa_transaction = Some (rev jobs), sa_providers = (\<lambda>d. [])\<rparr>),
     in_jobs_order = (\<lambda>m. m), in_items_order = (\<lambda>m. m)\<rparr>"

definition sample_shared :: shared where
  "sample_shared = \<lparr>sh_world = world_start, sh_tracker = new_tracker, sh_load_order = [], sh_graph = Map.empty,
     sh_reverse = Map.empty, sh_resolver = resolver_new, sh_schemas = (\<lambda>t. Some 0), sh_modules = Map.empty,
     sh_running = []\<rparr>"

end
