(* ===== verification/Manager.thy ===== *)
theory Manager
  imports Stages
begin

text \<open>
  The manager (src/core/manager.cpp): discovery of the manifests, the life cycle of the
  extensions and the queries. \<open>Manager_Correct\<close> has its properties.

  \<open>w_trace\<close> of the shared state is the history of the calls out of the program, so it also has
  the lines of the log, the written files and the frame marks of the profiler. Every operation
  holds the life-cycle mutex, which makes it one step.
\<close>

section \<open>State and inputs\<close>

datatype file_type = Regular_file | Directory | Symlink | Other_file

record file_info =
  fi_path :: path
  fi_type :: file_type

text \<open>
  What the manager asks of its services besides \<open>inputs\<close>: the directories, the result of writing
  a file after a history of calls, the schedule of the thread pool, the clock of the pipeline, the
  iteration order of a dependency graph, and whether there is a profiler.
\<close>

record host =
  ho_list :: "path \<Rightarrow> file_info list result"
  ho_write :: "event list \<Rightarrow> path \<Rightarrow> string \<Rightarrow> unit result"
  ho_schedule :: "nat \<Rightarrow> nat list"
  ho_clock :: "nat \<Rightarrow> int"
  ho_graph_order :: "dependency_map \<Rightarrow> (unique_id \<times> unique_id list) list"
  ho_profiler :: bool

record manager =
  mg_extensions :: "extension list"
  mg_initialized :: bool
  mg_shared :: shared

text \<open>The registry of names is global and the resolver a service; the loader is new.\<close>

definition new_manager :: "registry \<Rightarrow> resolver \<Rightarrow> manager" where
  "new_manager reg rs = \<lparr>mg_extensions = [], mg_initialized = False, mg_shared =
     \<lparr>sh_world = world_start\<lparr>w_registry := reg\<rparr>, sh_tracker = new_tracker, sh_load_order = [],
       sh_graph = Map.empty, sh_reverse = Map.empty, sh_resolver = rs, sh_schemas = Map.empty,
       sh_modules = Map.empty, sh_running = []\<rparr>\<rparr>"

definition log_line :: "string \<Rightarrow> severity \<Rightarrow> shared \<Rightarrow> shared" where
  "log_line msg sev s = s\<lparr>sh_world := emit (Log msg sev) (sh_world s)\<rparr>"

section \<open>Discovery\<close>

definition manifest_files :: "file_info list \<Rightarrow> path list" where
  "manifest_files es = map fi_path (filter (\<lambda>e. fi_type e = Regular_file \<and>
     get_extension_type (fi_path e) \<noteq> Unknown_type) es)"

definition sub_directories :: "path set \<Rightarrow> file_info list \<Rightarrow> path list" where
  "sub_directories excl es = map fi_path (filter (\<lambda>e. fi_type e = Directory \<and>
     path_filename (fi_path e) \<notin> excl) es)"

text \<open>The loop over the directories that are left; it may run forever on a cyclic file system.\<close>

partial_function (option) discover_loop ::
    "(path \<Rightarrow> file_info list result) \<Rightarrow> path set \<Rightarrow> path list \<Rightarrow> path list \<Rightarrow> path list option" where
  "discover_loop ls excl dirs found =
     (if dirs = [] then Some found
      else case ls (last dirs) of
        Inl err \<Rightarrow> discover_loop ls excl (butlast dirs) found
      | Inr es \<Rightarrow> discover_loop ls excl
          (if manifest_files es = [] then butlast dirs @ sub_directories excl es else butlast dirs)
          (found @ manifest_files es))"

declare discover_loop.simps [code]

definition discover_extensions :: "host \<Rightarrow> config \<Rightarrow> extension list option" where
  "discover_extensions ho cfg =
     map_option (\<lambda>files. map2 new_extension (map int [0..<length files]) files)
       (discover_loop (ho_list ho) (excluded_dirs (cfg_security cfg)) [extensions_dir (cfg_paths cfg)] [])"

section \<open>Reports\<close>

definition named_id :: "registry \<Rightarrow> unique_id \<Rightarrow> string" where
  "named_id reg i = id_to_string reg i @ '' (id='' @ show_int i @ '')''"

definition generate_load_order :: "shared \<Rightarrow> string" where
  "generate_load_order s =
     newline @ ''=== Load Order ==='' @ newline @
     (if sh_load_order s = [] then ''(empty)'' @ newline @ newline
      else concat (map2 (\<lambda>k i. pad_left 3 (show_nat k) @ '': '' @ named_id (w_registry (sh_world s)) i @ newline)
          [0..<length (sh_load_order s)] (sh_load_order s)) @ newline)"

definition generate_dependency_graph :: "host \<Rightarrow> shared \<Rightarrow> string" where
  "generate_dependency_graph ho s =
     (let nm = named_id (w_registry (sh_world s)) in
      newline @ ''=== Dependency Graph (pkg -> [deps]) ==='' @ newline @
      (if ho_graph_order ho (sh_graph s) = [] then ''(empty)'' @ newline @ newline
       else concat (map (\<lambda>(i, ds). nm i @ '' -> '' @ ''['' @ join_strings '', '' (map nm ds) @ '']'' @ newline)
           (ho_graph_order ho (sh_graph s))) @ newline))"

definition quote_char :: string where
  "quote_char = [CHR 0x22]"

definition dot_node :: "nat \<Rightarrow> extension \<Rightarrow> string" where
  "dot_node k e = ''  node'' @ show_nat k @ '' [label='' @ quote_char @ ex_name e @ [CHR 0x5C, CHR ''n''] @
     ''(id='' @ show_int (ex_id e) @ '')'' @ quote_char @ ''];'' @ newline"

definition dot_edge :: "unique_id \<Rightarrow> unique_id \<Rightarrow> string" where
  "dot_edge i d = ''  node'' @ show_int i @ '' -> node'' @ show_int d @ '';'' @ newline"

definition generate_dependency_graph_dot :: "host \<Rightarrow> manager \<Rightarrow> string" where
  "generate_dependency_graph_dot ho m =
     ''digraph packages {'' @ newline @ ''  rankdir=LR;'' @ newline @
     concat (map2 dot_node [0..<length (mg_extensions m)] (mg_extensions m)) @
     concat (map (\<lambda>(i, ds). concat (map (dot_edge i) ds)) (ho_graph_order ho (sh_graph (mg_shared m)))) @
     ''}'' @ newline"

section \<open>Initialize\<close>

definition manager_stages :: "environment \<Rightarrow> inputs \<Rightarrow> config \<Rightarrow> ((extension, shared) stage \<times> bool) list" where
  "manager_stages env inp cfg = [(parsing_stage env inp, True), (resolution_stage env inp cfg, True),
     (loading_stage env cfg, True), (exporting_stage env cfg, True), (starting_stage env cfg, True)]"

text \<open>
  Assigning the discovered extensions destroys the old ones; the stages and the tracker are new.
\<close>

definition fresh_shared :: "extension list \<Rightarrow> shared \<Rightarrow> shared" where
  "fresh_shared old s = s\<lparr>sh_world := (sh_world s)\<lparr>w_registry :=
       fold (\<lambda>e reg. destroy_extension (e, reg)) old (w_registry (sh_world s))\<rparr>,
     sh_tracker := new_tracker, sh_schemas := Map.empty, sh_modules := Map.empty, sh_running := []\<rparr>"

definition export_dot :: "host \<Rightarrow> config \<Rightarrow> string \<Rightarrow> shared \<Rightarrow> shared" where
  "export_dot ho cfg graph s =
     (let p = export_digraph_dot (cfg_logging cfg) in
      if p = [] then s
      else
        let answer = ho_write ho (w_trace (sh_world s)) p graph;
            s = s\<lparr>sh_world := emit (Write_file p graph) (sh_world s)\<rparr>
        in case answer of
             Inl e \<Rightarrow> log_line (''Export DOT: '' @ e) Error s
           | Inr u \<Rightarrow> log_line (''Export DOT: '' @ p) Info s)"

definition print_reports :: "host \<Rightarrow> config \<Rightarrow> report \<Rightarrow> extension list \<Rightarrow> shared \<Rightarrow> shared" where
  "print_reports ho cfg r items s =
     (let lg = cfg_logging cfg;
          s = (if print_report lg
               then log_line (load_statistics_summary (w_registry (sh_world s)) (w_stats (sh_world s))) Info
                      (log_line (report_summary r) Info s)
               else s)
      in if items = [] then s
         else
           let s = (if print_report lg
                    then fold (\<lambda>e. log_line (get_performance_report e) Info) items
                           (log_line (newline @ ''=== Extensions Report ==='') Info s)
                    else s);
               s = (if print_load_order lg then log_line (generate_load_order s) Info s else s);
               s = (if print_dependency_graph lg then log_line (generate_dependency_graph ho s) Info s else s)
           in if print_digraph_dot lg
              then
                let graph = generate_dependency_graph_dot ho
                      \<lparr>mg_extensions = items, mg_initialized = False, mg_shared = s\<rparr>
                in export_dot ho cfg graph (log_line graph Info s)
              else s)"

definition initialize :: "environment \<Rightarrow> inputs \<Rightarrow> host \<Rightarrow> config \<Rightarrow> manager \<Rightarrow> (unit result \<times> manager) option" where
  "initialize env inp ho cfg m =
     (if mg_initialized m then Some (Inl ''Manager already initialized'', m)
      else case discover_extensions ho cfg of
        None \<Rightarrow> None
      | Some exts \<Rightarrow>
          (case execute ex_name (ho_schedule ho) (ho_clock ho) (manager_stages env inp cfg)
              (exts, fresh_shared (mg_extensions m) (mg_shared m)) of
            (r, items, s) \<Rightarrow>
              let s = print_reports ho cfg r items s in
              Some (if 0 < total_failed r
                then (Inl (report_error r), m\<lparr>mg_extensions := items, mg_shared := s\<rparr>)
                else (Inr (), m\<lparr>mg_extensions := items, mg_shared := s, mg_initialized := True\<rparr>))))"

section \<open>Update\<close>

definition log_failure :: "unit result \<Rightarrow> shared \<Rightarrow> shared" where
  "log_failure r s = (case r of Inl e \<Rightarrow> log_line e Error s | Inr u \<Rightarrow> s)"

definition update_extension :: "environment \<Rightarrow> int \<Rightarrow> extension \<times> shared \<Rightarrow> extension \<times> shared" where
  "update_extension env dt = (\<lambda>(e, s).
     if ex_state e \<noteq> Running then (e, s)
     else
       case (case ex_type e of
           Module \<Rightarrow> update_module env dt (e, sh_world s)
         | Plugin \<Rightarrow> update_plugin env dt (e, sh_world s)
         | Unknown_type \<Rightarrow> (Inl ''Unknown extension type'', e, sh_world s)) of
         (r, e, w) \<Rightarrow> (e, log_failure r (s\<lparr>sh_world := w\<rparr>)))"

text \<open>A loop over the container that changes each element in its place.\<close>

fun for_each :: "('a \<times> 's \<Rightarrow> 'a \<times> 's) \<Rightarrow> 'a list \<times> 's \<Rightarrow> 'a list \<times> 's" where
  "for_each f ([], s) = ([], s)"
| "for_each f (x # xs, s) = (case f (x, s) of (y, s) \<Rightarrow> case for_each f (xs, s) of (ys, s) \<Rightarrow> (y # ys, s))"

definition for_each_reverse :: "('a \<times> 's \<Rightarrow> 'a \<times> 's) \<Rightarrow> 'a list \<times> 's \<Rightarrow> 'a list \<times> 's" where
  "for_each_reverse f = (\<lambda>(xs, s). case for_each f (rev xs, s) of (ys, s) \<Rightarrow> (rev ys, s))"

definition mark_frame :: "host \<Rightarrow> shared \<Rightarrow> shared" where
  "mark_frame ho s = (if ho_profiler ho then s\<lparr>sh_world := emit (Mark_frame ''PlugifyLoop'') (sh_world s)\<rparr> else s)"

definition update :: "environment \<Rightarrow> host \<Rightarrow> int \<Rightarrow> manager \<Rightarrow> manager" where
  "update env ho dt m =
     (if \<not> mg_initialized m then m
      else case for_each (update_extension env dt) (mg_extensions m, mg_shared m) of
        (items, s) \<Rightarrow> m\<lparr>mg_extensions := items, mg_shared := mark_frame ho s\<rparr>)"

section \<open>Terminate\<close>

definition end_extension :: "environment \<Rightarrow> extension \<times> shared \<Rightarrow> extension \<times> shared" where
  "end_extension env = (\<lambda>(e, s).
     if ex_state e \<noteq> Running then (e, s)
     else
       let e = start_operation (clock env s Ending e) Ending e in
       case (case ex_type e of
           Module \<Rightarrow> (Inr (), e, sh_world s)
         | Plugin \<Rightarrow> end_plugin env (e, sh_world s)
         | Unknown_type \<Rightarrow> (Inl ''Unknown extension type'', e, sh_world s)) of
         (r, e, w) \<Rightarrow>
           let s = log_failure r (s\<lparr>sh_world := w\<rparr>) in (end_operation (clock env s Ended e) Ended e, s))"

definition unload_extension :: "environment \<Rightarrow> extension \<times> shared \<Rightarrow> extension \<times> shared" where
  "unload_extension env = (\<lambda>(e, s).
     if ex_state e \<noteq> Ended then (e, s)
     else
       let e = start_operation (clock env s Terminating e) Terminating e in
       case (case ex_type e of
           Module \<Rightarrow> unload_module env (e, sh_world s)
         | Plugin \<Rightarrow> unload_plugin env (e, sh_world s)
         | Unknown_type \<Rightarrow> (Inl ''Unknown extension type'', e, sh_world s)) of
         (r, e, w) \<Rightarrow>
           let s = log_failure r (s\<lparr>sh_world := w\<rparr>) in (end_operation (clock env s Terminated e) Terminated e, s))"

definition terminate :: "environment \<Rightarrow> manager \<Rightarrow> manager" where
  "terminate env m =
     (if \<not> mg_initialized m then m
      else case for_each_reverse (unload_extension env)
          (for_each_reverse (end_extension env) (mg_extensions m, mg_shared m)) of
        (items, s) \<Rightarrow> m\<lparr>mg_extensions := items, mg_shared := s, mg_initialized := False\<rparr>)"

text \<open>The destructor terminates an initialized manager; then the extensions are destroyed.\<close>

definition destroy_manager :: "environment \<Rightarrow> manager \<Rightarrow> world" where
  "destroy_manager env m =
     (let m = (if mg_initialized m then terminate env m else m) in
      sh_world (fresh_shared (mg_extensions m) (mg_shared m)))"

section \<open>Queries\<close>

definition find_extension_by_name :: "string \<Rightarrow> manager \<Rightarrow> extension option" where
  "find_extension_by_name name m = find (\<lambda>e. ex_name e = name) (mg_extensions m)"

definition find_extension :: "unique_id \<Rightarrow> manager \<Rightarrow> extension option" where
  "find_extension i m = find (\<lambda>e. ex_id e = i) (mg_extensions m)"

definition is_extension_loaded :: "string \<Rightarrow> range_set option \<Rightarrow> manager \<Rightarrow> bool" where
  "is_extension_loaded name constraint m = (case find_extension_by_name name m of
     None \<Rightarrow> False
   | Some e \<Rightarrow> (case constraint of None \<Rightarrow> True | Some c \<Rightarrow> constraint_contains c (mf_version (ex_manifest e))))"

definition get_extensions_by_state :: "extension_state \<Rightarrow> manager \<Rightarrow> extension list" where
  "get_extensions_by_state st m = filter (\<lambda>e. ex_state e = st) (mg_extensions m)"

definition get_extensions_by_type :: "extension_type \<Rightarrow> manager \<Rightarrow> extension list" where
  "get_extensions_by_type t m = filter (\<lambda>e. ex_type e = t) (mg_extensions m)"

end
