(* ===== verification/Stages_Correct.thy ===== *)
theory Stages_Correct
  imports Stages Manifest_Correct
begin

text \<open>
  The contracts of the stages: no assertion of \<open>SetState\<close> fails, no call goes through a null
  pointer, the container keeps its extensions, and the pointers two stages keep into it stay
  valid; and what the failure tracker makes of a failed extension.
\<close>

section \<open>The invariants\<close>

definition good :: "extension \<Rightarrow> bool" where
  "good e \<longleftrightarrow> asserts_hold e \<and> table_backed e \<and> (ex_registrar e = None \<or> ex_registrar e = Some (ex_id e)) \<and>
     (ex_type e = Module \<and> ex_state e = Running \<longrightarrow> ex_language_module e \<noteq> None)"

definition has_module :: "extension list \<Rightarrow> nat \<Rightarrow> bool" where
  "has_module xs k \<longleftrightarrow> k < length xs \<and> ex_language_module (xs ! k) \<noteq> None"

definition clean :: "extension list \<times> shared \<Rightarrow> bool" where
  "clean = (\<lambda>(xs, s). list_all good xs \<and> null_free (sh_world s))"

text \<open>Before loading no stage has a pointer into the container; from then on all of them are valid.\<close>

definition unlinked :: "extension list \<times> shared \<Rightarrow> bool" where
  "unlinked = (\<lambda>(xs, s). clean (xs, s) \<and> sh_modules s = Map.empty \<and> sh_running s = [])"

definition linked_up :: "extension list \<times> shared \<Rightarrow> bool" where
  "linked_up = (\<lambda>(xs, s). clean (xs, s) \<and> (\<forall>k \<in> ran (sh_modules s). has_module xs k) \<and>
     (\<forall>k \<in> set (sh_running s). has_module xs k))"

lemma unlinked_linked_up: "unlinked x \<Longrightarrow> linked_up x"
  by (auto simp: unlinked_def linked_up_def)

lemma backed_frame [simp]:
  "ex_language_module (add_warning w e) = ex_language_module e" "ex_method_table (add_warning w e) = ex_method_table e"
  "ex_language_module (add_dependency d e) = ex_language_module e" "ex_method_table (add_dependency d e) = ex_method_table e"
  "ex_registrar (add_warning w e) = ex_registrar e" "ex_registrar (add_error w e) = ex_registrar e"
  "ex_registrar (add_dependency d e) = ex_registrar e"
  "ex_language_module (fst (set_manifest n m x)) = ex_language_module (fst x)"
  "ex_method_table (fst (set_manifest n m x)) = ex_method_table (fst x)"
  by (auto simp: add_warning_def add_error_def add_dependency_def set_manifest_def impl_setup_def Let_def split: prod.split)

lemma table_backed_frame [simp]:
  "table_backed (set_state st e) = table_backed e" "table_backed (start_operation t st e) = table_backed e"
  "table_backed (end_operation t st e) = table_backed e" "table_backed (add_error x e) = table_backed e"
  "table_backed (add_warning x e) = table_backed e" "table_backed (add_dependency d e) = table_backed e"
  "table_backed (fst (set_manifest n m y)) = table_backed (fst y)"
  by (simp_all add: table_backed_def)

lemma check_timeout_frame [simp]:
  "ex_id (check_timeout t st e) = ex_id e" "ex_type (check_timeout t st e) = ex_type e"
  "ex_state (check_timeout t st e) = ex_state e" "asserts_hold (check_timeout t st e) = asserts_hold e"
  "ex_language_module (check_timeout t st e) = ex_language_module e"
  "ex_registrar (check_timeout t st e) = ex_registrar e" "table_backed (check_timeout t st e) = table_backed e"
  by (simp_all add: check_timeout_def Let_def)

lemma good_at: "list_all good xs \<Longrightarrow> i < length xs \<Longrightarrow> good (xs ! i)"
  by (simp add: list_all_length)

lemma good_update: "list_all good xs \<Longrightarrow> good e \<Longrightarrow> list_all good (xs[i := e])"
  by (cases "i < length xs") (auto simp: list_all_length nth_list_update list_update_beyond)

lemma has_module_update:
  assumes "has_module xs k" "ex_language_module (xs ! i) \<noteq> None \<longrightarrow> ex_language_module e \<noteq> None"
  shows "has_module (xs[i := e]) k"
  using assms by (cases "i < length xs") (auto simp: has_module_def nth_list_update list_update_beyond)

text \<open>How a stage replaces one item: the new one is good, and its language module is not lost.\<close>

lemma linked_up_update:
  assumes "linked_up (xs, s)" "good e" "ex_language_module (xs ! i) \<noteq> None \<longrightarrow> ex_language_module e \<noteq> None"
    "null_free (sh_world s')" "\<forall>k \<in> ran (sh_modules s'). k \<in> ran (sh_modules s) \<or> has_module (xs[i := e]) k"
    "sh_running s' = sh_running s"
  shows "linked_up (xs[i := e], s')"
  using assms by (auto simp: linked_up_def clean_def intro: good_update has_module_update)

lemma update_key: "i < length xs \<Longrightarrow> ex_id e = ex_id (xs ! i) \<Longrightarrow> map ex_id (xs[i := e]) = map ex_id xs"
  by (metis list_update_id map_update)

section \<open>Parsing\<close>

lemma parse_item_keeps:
  assumes "parse_item env inp (e, s) = (r, e', s')"
  shows "ex_id e' = ex_id e \<and> ex_language_module e' = ex_language_module e \<and>
    ex_registrar e' \<in> {ex_registrar e, Some (ex_id e)} \<and>
    (\<exists>reg. s' = s\<lparr>sh_world := (sh_world s)\<lparr>w_registry := reg\<rparr>\<rparr>) \<and>
    ex_state e' \<in> {Parsed, Corrupted} \<and> table_backed e' = table_backed e \<and>
    (ex_state e = Discovered \<longrightarrow> asserts_hold e' = asserts_hold e)"
proof -
  let ?e = "start_operation (clock env s Parsing e) Parsing e"
  show ?thesis
  proof (cases "parse_manifest inp (sh_schemas s) (ex_location ?e) (ex_type ?e)")
    case (Inl err)
    with assms have "e' = end_operation (clock env s Corrupted (start_operation (clock env s Parsing e) Parsing e)) Corrupted (add_error err ?e)" "s' = s"
      by (auto simp: parse_item_def Let_def)
    then show ?thesis by (auto simp: is_valid_transition_def intro!: exI [of _ "w_registry (sh_world s)"])
  next
    case (Inr m)
    obtain e2 reg where m: "set_manifest (env_naming env) m (?e, w_registry (sh_world s)) = (e2, reg)"
      by (cases "set_manifest (env_naming env) m (?e, w_registry (sh_world s))")
    then have "e2 = fst (set_manifest (env_naming env) m (?e, w_registry (sh_world s)))" by simp
    then have f: "ex_id e2 = ex_id e" "ex_language_module e2 = ex_language_module e" "ex_registrar e2 = Some (ex_id e)"
      "ex_state e2 = Parsing" "table_backed e2 = table_backed e" "asserts_hold e2 = asserts_hold ?e" by simp_all
    from assms Inr m have "e' = end_operation (clock env s Parsed e2) Parsed e2"
      "s' = s\<lparr>sh_world := (sh_world s)\<lparr>w_registry := reg\<rparr>\<rparr>" by (auto simp: parse_item_def Let_def)
    with f show ?thesis by (auto simp: is_valid_transition_def)
  qed
qed

interpretation parsing: stage_contract "parsing_stage env inp" unlinked unlinked ex_id for env inp
proof
  fix x y assume "unlinked x" "sg_setup (parsing_stage env inp) x = y"
  then show "unlinked y \<and> map ex_id (fst y) = map ex_id (fst x)"
    by (auto simp: parsing_stage_def load_schemas_def Let_def unlinked_def clean_def)
next
  fix x y assume "unlinked x" "sg_teardown (parsing_stage env inp) x = y"
  then show "unlinked y \<and> map ex_id (fst y) = map ex_id (fst x)" by (auto simp: parsing_stage_def no_setup_def)
next
  have "unlinked (xs[i := a], s') \<and> ex_id a = ex_id (xs ! i)"
    if "unlinked (xs, s)" "i < length xs" "should_parse s (xs ! i)" "parse_item env inp (xs ! i, s) = (r, a, s')"
    for i xs s r a s'
  proof -
    note k = parse_item_keeps [OF that(4)]
    have g: "good (xs ! i)" using that(1,2) by (simp add: unlinked_def clean_def good_at)
    with k that(3) have "good a" by (auto simp: good_def should_parse_def)
    with k that(1) show ?thesis
      by (auto simp: unlinked_def clean_def null_free_def intro: good_update)
  qed
  then show "body_keeps unlinked ex_id (sg_body (parsing_stage env inp))"
    unfolding body_keeps_def parsing_stage_def stage.simps stage_body.case by blast
qed

section \<open>Failures\<close>

lemma dependency_failure_keeps:
  assumes "handle_dependency_failure (e, s) = (r, e', s')" "is_valid_transition (ex_state e) Skipped" "good e"
  shows "good e' \<and> ex_id e' = ex_id e \<and> ex_language_module e' = ex_language_module e \<and>
    sh_world s' = sh_world s \<and> sh_modules s' = sh_modules s \<and> sh_running s' = sh_running s"
  using assms by (auto simp: handle_dependency_failure_def Let_def good_def)

lemma propagate_failure_frame [simp]:
  "sh_world (propagate_failure i s) = sh_world s" "sh_modules (propagate_failure i s) = sh_modules s"
  "sh_running (propagate_failure i s) = sh_running s" "sh_graph (propagate_failure i s) = sh_graph s"
  "sh_reverse (propagate_failure i s) = sh_reverse s"
  by (auto simp: propagate_failure_def split: option.split)

lemma operation_failure_keeps:
  assumes "handle_operation_failure env err Failed (e, s) = (e', s')" "is_valid_transition (ex_state e) Failed" "good e"
  shows "good e' \<and> ex_id e' = ex_id e \<and> ex_language_module e' = ex_language_module e \<and>
    sh_world s' = sh_world s \<and> sh_modules s' = sh_modules s \<and> sh_running s' = sh_running s"
  using assms by (auto simp: handle_operation_failure_def Let_def good_def)

text \<open>The stages that propagate failures keep the invariant when their own operation does.\<close>

lemma failure_propagating_keeps:
  assumes "linked_up (xs, s)" "i < length xs" "is_valid_transition (ex_state (xs ! i)) Skipped"
    "failure_propagating process i n (xs, s) = (r, xs', s')"
    "process i n (xs, s) = (r, xs', s') \<Longrightarrow> linked_up (xs', s') \<and> map ex_id xs' = map ex_id xs"
  shows "linked_up (xs', s') \<and> map ex_id xs' = map ex_id xs"
proof (cases "has_any_dependency_failed (sh_tracker s) (xs ! i) (sh_reverse s)")
  case True
  obtain r1 e1 s1 where h: "handle_dependency_failure (xs ! i, s) = (r1, e1, s1)"
    by (cases "handle_dependency_failure (xs ! i, s)")
  have c: "clean (xs, s)" using assms(1) by (simp add: linked_up_def)
  then have "good (xs ! i)" using assms(2) by (simp add: clean_def good_at)
  note k = dependency_failure_keeps [OF h assms(3) this]
  from assms(4) h True have "xs' = xs[i := e1]" "s' = s1" by (simp_all add: failure_propagating_def)
  with k c assms(1,2) show ?thesis
    by (auto simp: clean_def intro!: linked_up_update update_key)
next
  case False
  with assms(4,5) show ?thesis by (simp add: failure_propagating_def)
qed

lemma stage_of_item:
  assumes "\<And>i n xs s r xs' s'. linked_up (xs, s) \<Longrightarrow> i < length xs \<Longrightarrow> should s (xs ! i) \<Longrightarrow>
      process i n (xs, s) = (r, xs', s') \<Longrightarrow> linked_up (xs', s') \<and> map ex_id xs' = map ex_id xs"
    "\<And>s e. should s e \<Longrightarrow> is_valid_transition (ex_state e) Skipped"
  shows "body_keeps linked_up ex_id (Sequential continue should (failure_propagating process))"
proof -
  have "linked_up (xs', s') \<and> map ex_id xs' = map ex_id xs"
    if "linked_up (xs, s)" "i < length xs" "should s (xs ! i)" "failure_propagating process i n (xs, s) = (r, xs', s')"
    for i n xs s r xs' s'
    by (rule failure_propagating_keeps [OF that(1,2) assms(2) [OF that(3)] that(4)])
      (rule assms(1) [OF that(1-3)])
  then show ?thesis unfolding body_keeps_def stage_body.case by blast
qed

section \<open>Loading\<close>

lemma linked_up_clean: "linked_up (xs, s) \<Longrightarrow> list_all good xs \<and> null_free (sh_world s)"
  by (simp add: linked_up_def clean_def)

lemma load_plugin_module:
  assumes "load_plugin env m (e, w) = (r, e', w')" "ex_language_module e \<noteq> None"
  shows "ex_language_module e' \<noteq> None"
proof -
  from assms obtain w1 where b: "load_plugin_body env (ex_language_module m) (e, w) = (r, e', w1)"
    by (auto simp: load_plugin_def split: prod.splits)
  have "ex_language_module e2 = ex_language_module e1" if "validate_and_set_plugin_data d e1 = (rv, e2)" for d e1 e2 rv
    using that by (auto simp: validate_and_set_plugin_data_def Let_def set_methods_data_def set_method_table_def
        set_user_data_def split: if_splits)
  with b assms(2) show ?thesis
    by (auto simp: load_plugin_body_def Let_def set_language_module_def split: option.splits sum.splits prod.splits)
qed

lemma load_extension_keeps:
  assumes "load_extension env cfg i (xs, s) = (r, e, s')" "linked_up (xs, s)" "i < length xs" "ex_state (xs ! i) = Loading"
  shows "good e \<and> ex_id e = ex_id (xs ! i) \<and> ex_state e = Loading \<and> null_free (sh_world s') \<and>
    (ex_language_module (xs ! i) \<noteq> None \<longrightarrow> ex_language_module e \<noteq> None) \<and>
    (r = Inr () \<and> ex_type e = Module \<longrightarrow> ex_language_module e \<noteq> None) \<and> ex_type e = ex_type (xs ! i) \<and>
    (\<forall>k \<in> ran (sh_modules s'). k \<in> ran (sh_modules s) \<or> k = i \<and> ex_language_module e \<noteq> None) \<and> sh_running s' = sh_running s"
proof -
  note c = linked_up_clean [OF assms(2)]
  then have g: "good (xs ! i)" using assms(3) by (simp add: good_at)
  show ?thesis
  proof (cases "ex_type (xs ! i)")
    case Unknown_type
    with assms(1) g c assms(4) show ?thesis by (auto simp: load_extension_def Let_def)
  next
    case Module
    obtain r1 e1 w1 where l: "load_module env cfg (xs ! i, sh_world s) = (r1, e1, w1)"
      by (cases "load_module env cfg (xs ! i, sh_world s)")
    note f = loader_frameD [OF load_module_frame [OF l]] and q = load_module_runtime [OF l]
    have lm: "ex_language_module (xs ! i) \<noteq> None \<longrightarrow> ex_language_module e1 \<noteq> None" using q by (cases r1) auto
    have "table_backed e1" using q g by (cases r1) (auto simp: table_backed_def good_def)
    with f g assms(4) have "good e1" by (simp add: good_def asserts_hold_def)
    moreover have s': "r = r1" "e = e1" "sh_world s' = w1" "sh_running s' = sh_running s"
      "sh_modules s' = (case r1 of Inl x \<Rightarrow> sh_modules s | Inr u \<Rightarrow> (sh_modules s)(ex_language e1 \<mapsto> i))"
      using assms(1) l Module by (auto simp: load_extension_def Let_def)
    moreover have "\<forall>k \<in> ran (sh_modules s'). k \<in> ran (sh_modules s) \<or> k = i \<and> ex_language_module e1 \<noteq> None"
      using q unfolding s'(5) by (cases r1) (auto simp: ran_def)
    ultimately show ?thesis using f q lm c assms(4) by simp
  next
    case Plugin
    show ?thesis
    proof (cases "sh_modules s (ex_language (xs ! i))")
      case None
      with assms(1) g c assms(4) Plugin show ?thesis by (auto simp: load_extension_def Let_def)
    next
      case (Some k)
      obtain r1 e1 w1 where l: "load_plugin env (xs ! k) (xs ! i, sh_world s) = (r1, e1, w1)"
        by (cases "load_plugin env (xs ! k) (xs ! i, sh_world s)")
      note f = loader_frameD [OF load_plugin_frame [OF l]]
      have "table_backed (xs ! i)" using g by (simp add: good_def)
      note q = load_plugin_runtime [OF l this]
      have "good e1" using f q g assms(4) by (simp add: good_def asserts_hold_def)
      moreover have "r = r1" "e = e1" "sh_world s' = w1" "sh_running s' = sh_running s" "sh_modules s' = sh_modules s"
        using assms(1) l Plugin Some by (auto simp: load_extension_def Let_def)
      ultimately show ?thesis using f q c assms(4) Plugin load_plugin_module [OF l] by simp
    qed
  qed
qed

text \<open>Starting the operation of an item.\<close>

lemma started_item:
  assumes "linked_up (xs, s)" "i < length xs" "is_valid_transition (ex_state (xs ! i)) st" "st \<noteq> Running"
  shows "linked_up (xs[i := start_operation t st (xs ! i)], s)"
proof -
  have "good (xs ! i)" using linked_up_clean [OF assms(1)] assms(2) by (simp add: good_at)
  then have "good (start_operation t st (xs ! i))" using assms(3,4) by (simp add: good_def)
  with assms(1) linked_up_clean [OF assms(1)] show ?thesis by (intro linked_up_update) simp_all
qed

lemma load_item_keeps:
  assumes "linked_up (xs, s)" "i < length xs" "should_load s (xs ! i)" "load_item env cfg i n (xs, s) = (r, xs', s')"
  shows "linked_up (xs', s') \<and> map ex_id xs' = map ex_id xs"
proof -
  let ?xs = "xs[i := start_operation (clock env s Loading (xs ! i)) Loading (xs ! i)]"
  have l: "linked_up (?xs, s)"
    using assms(1-3) by (intro started_item) (simp_all add: should_load_def is_valid_transition_def)
  have st: "ex_state (?xs ! i) = Loading" "ex_id (?xs ! i) = ex_id (xs ! i)" using assms(2) by simp_all
  obtain r1 e1 s1 where e: "load_extension env cfg i (?xs, s) = (r1, e1, s1)"
    by (cases "load_extension env cfg i (?xs, s)")
  have len: "i < length ?xs" using assms(2) by simp
  note k = load_extension_keeps [OF e l len st(1)]
  have upd: "?xs[i := x] = xs[i := x]" for x by simp
  show ?thesis
  proof (cases r1)
    case (Inl err)
    obtain e2 s2 where h: "handle_operation_failure env err Failed (e1, s1) = (e2, s2)"
      by (cases "handle_operation_failure env err Failed (e1, s1)")
    have "is_valid_transition (ex_state e1) Failed" using k by (simp add: is_valid_transition_def)
    with operation_failure_keeps [OF h] k have f: "good e2" "ex_id e2 = ex_id e1" "ex_language_module e2 = ex_language_module e1"
      "sh_world s2 = sh_world s1" "sh_modules s2 = sh_modules s1" "sh_running s2 = sh_running s1" by simp_all
    have r: "xs' = ?xs[i := e2]" "s' = s2" using assms(4) e h Inl by (simp_all add: load_item_def Let_def)
    have "linked_up (?xs[i := e2], s2)"
      using f k len by (intro linked_up_update [OF l]) (auto simp: has_module_def)
    then show ?thesis unfolding r using f k st assms(2) by (simp add: update_key)
  next
    case (Inr u)
    let ?e2 = "check_timeout (load_timeout (cfg_loading cfg)) Loading (end_operation (clock env s1 Loaded e1) Loaded e1)"
    let ?e3 = "if ex_type ?e2 = Module then start_operation (clock env s1 Running ?e2) Running ?e2 else ?e2"
    have r: "xs' = ?xs[i := ?e3]" "s' = s1" using assms(4) e Inr by (auto simp: load_item_def Let_def)
    have g: "good ?e3" using k Inr by (auto simp: good_def is_valid_transition_def)
    have id: "ex_id ?e3 = ex_id (xs ! i)" "ex_language_module ?e3 = ex_language_module e1" using k st by auto
    have "linked_up (?xs[i := ?e3], s1)"
      using k len id(2) g by (intro linked_up_update [OF l]) (auto simp: has_module_def)
    then show ?thesis unfolding r using id assms(2) by (simp add: update_key)
  qed
qed

interpretation loading: stage_contract "loading_stage env cfg" unlinked linked_up ex_id for env cfg
proof
  fix x y assume "unlinked x" "sg_setup (loading_stage env cfg) x = y"
  then show "linked_up y \<and> map ex_id (fst y) = map ex_id (fst x)"
    by (auto simp: loading_stage_def no_setup_def unlinked_linked_up)
next
  fix x y assume "linked_up x" "sg_teardown (loading_stage env cfg) x = y"
  then show "linked_up y \<and> map ex_id (fst y) = map ex_id (fst x)" by (auto simp: loading_stage_def no_setup_def)
next
  have "body_keeps linked_up ex_id (Sequential True should_load (failure_propagating (load_item env cfg)))"
    by (rule stage_of_item) (blast dest: load_item_keeps, simp add: should_load_def is_valid_transition_def)
  then show "body_keeps linked_up ex_id (sg_body (loading_stage env cfg))" by (simp add: loading_stage_def)
qed

section \<open>Exporting and starting\<close>

lemma export_to_keeps:
  "export_to env xs ks (e, w) = (r, e', w') \<Longrightarrow> \<forall>k \<in> set ks. has_module xs k \<Longrightarrow> e' = e \<and> null_free w' = null_free w"
proof (induction ks arbitrary: w)
  case (Cons k ks)
  obtain r1 e1 w1 where m: "method_export env (xs ! k) (e, w) = (r1, e1, w1)"
    by (cases "method_export env (xs ! k) (e, w)")
  have "ex_language_module (xs ! k) \<noteq> None" using Cons.prems(2) by (simp add: has_module_def)
  note q = method_export_null_free [OF m this]
  show ?case
  proof (cases r1)
    case (Inl err)
    with m q Cons.prems(1) show ?thesis by auto
  next
    case (Inr u)
    with m q Cons.prems(1) have "export_to env xs ks (e, w1) = (r, e', w')" by simp
    from Cons.IH [OF this] Cons.prems(2) q show ?thesis by simp
  qed
qed simp

text \<open>The end of an item whose operation left it as it was: a failure, or the next states.\<close>

lemma failed_item:
  assumes "linked_up (xs, s)" "i < length xs" "is_valid_transition (ex_state (xs ! i)) Failed"
    "handle_operation_failure env err Failed (xs ! i, s\<lparr>sh_world := w\<rparr>) = (e, s')" "null_free w"
  shows "linked_up (xs[i := e], s') \<and> map ex_id (xs[i := e]) = map ex_id xs"
proof -
  have "good (xs ! i)" using linked_up_clean [OF assms(1)] assms(2) by (simp add: good_at)
  note f = operation_failure_keeps [OF assms(4,3) this]
  with assms(1,5) have "linked_up (xs[i := e], s')" by (intro linked_up_update) auto
  with f assms(2) show ?thesis by (simp add: update_key)
qed

lemma finished_item:
  assumes "linked_up (xs, s)" "i < length xs" "good e" "ex_language_module e = ex_language_module (xs ! i)"
    "ex_id e = ex_id (xs ! i)" "null_free w"
  shows "linked_up (xs[i := e], s\<lparr>sh_world := w\<rparr>) \<and> map ex_id (xs[i := e]) = map ex_id xs"
  using assms by (auto intro!: linked_up_update update_key)

lemma export_item_keeps:
  assumes "linked_up (xs, s)" "i < length xs" "should_export s (xs ! i)" "export_item env cfg i n (xs, s) = (r, xs', s')"
  shows "linked_up (xs', s') \<and> map ex_id xs' = map ex_id xs"
proof -
  let ?xs = "xs[i := start_operation (clock env s Exporting (xs ! i)) Exporting (xs ! i)]"
  have l: "linked_up (?xs, s)"
    using assms(1-3) by (intro started_item) (simp_all add: should_export_def is_valid_transition_def)
  have len: "i < length ?xs" and st: "ex_state (?xs ! i) = Exporting" and keys: "map ex_id ?xs = map ex_id xs"
    and t: "ex_type (?xs ! i) = Plugin"
    using assms(2,3) by (simp_all add: update_key should_export_def)
  obtain r1 e1 w1 where e: "export_to env ?xs (sh_running s) (?xs ! i, sh_world s) = (r1, e1, w1)"
    by (cases "export_to env ?xs (sh_running s) (?xs ! i, sh_world s)")
  have "\<forall>k \<in> set (sh_running s). has_module ?xs k" using l by (simp add: linked_up_def)
  from export_to_keeps [OF e this] linked_up_clean [OF l] have q: "e1 = ?xs ! i" "null_free w1" by simp_all
  have g: "good (?xs ! i)" using linked_up_clean [OF l] len by (blast intro: good_at)
  show ?thesis
  proof (cases r1)
    case (Inl err)
    obtain e2 s2 where h: "handle_operation_failure env err Failed (?xs ! i, s\<lparr>sh_world := w1\<rparr>) = (e2, s2)"
      by (cases "handle_operation_failure env err Failed (?xs ! i, s\<lparr>sh_world := w1\<rparr>)")
    have r: "xs' = ?xs[i := e2]" "s' = s2" using assms(4) e h Inl q(1) by (auto simp: export_item_def Let_def)
    from failed_item [OF l len _ h q(2)] st keys show ?thesis unfolding r by (simp add: is_valid_transition_def)
  next
    case (Inr u)
    let ?s = "s\<lparr>sh_world := w1\<rparr>"
    let ?e2 = "check_timeout (export_timeout (cfg_loading cfg)) Exporting (end_operation (clock env ?s Exported (?xs ! i)) Exported (?xs ! i))"
    have r: "xs' = ?xs[i := ?e2]" "s' = ?s" using assms(4) e Inr q(1) by (auto simp: export_item_def Let_def)
    have "good ?e2" using g st t by (simp add: good_def is_valid_transition_def)
    from finished_item [OF l len this _ _ q(2)] keys show ?thesis unfolding r by simp
  qed
qed

lemma start_item_keeps:
  assumes "linked_up (xs, s)" "i < length xs" "should_start s (xs ! i)" "start_item env cfg i n (xs, s) = (r, xs', s')"
  shows "linked_up (xs', s') \<and> map ex_id xs' = map ex_id xs"
proof -
  let ?xs = "xs[i := start_operation (clock env s Starting (xs ! i)) Starting (xs ! i)]"
  have l: "linked_up (?xs, s)"
    using assms(1-3) by (intro started_item) (simp_all add: should_start_def is_valid_transition_def)
  have len: "i < length ?xs" and st: "ex_state (?xs ! i) = Starting" and keys: "map ex_id ?xs = map ex_id xs"
    and t: "ex_type (?xs ! i) = Plugin"
    using assms(2,3) by (simp_all add: update_key should_start_def)
  obtain r1 e1 w1 where e: "start_plugin env (?xs ! i, sh_world s) = (r1, e1, w1)"
    by (cases "start_plugin env (?xs ! i, sh_world s)")
  have g: "good (?xs ! i)" using linked_up_clean [OF l] len by (blast intro: good_at)
  then have "table_backed (?xs ! i)" by (simp add: good_def)
  from start_plugin_null_free [OF e this] linked_up_clean [OF l] have q: "e1 = ?xs ! i" "null_free w1" by simp_all
  show ?thesis
  proof (cases r1)
    case (Inl err)
    obtain e2 s2 where h: "handle_operation_failure env err Failed (?xs ! i, s\<lparr>sh_world := w1\<rparr>) = (e2, s2)"
      by (cases "handle_operation_failure env err Failed (?xs ! i, s\<lparr>sh_world := w1\<rparr>)")
    have r: "xs' = ?xs[i := e2]" "s' = s2" using assms(4) e h Inl q(1) by (auto simp: start_item_def Let_def)
    from failed_item [OF l len _ h q(2)] st keys show ?thesis unfolding r by (simp add: is_valid_transition_def)
  next
    case (Inr u)
    let ?s = "s\<lparr>sh_world := w1\<rparr>"
    let ?e2 = "check_timeout (start_timeout (cfg_loading cfg)) Starting (end_operation (clock env ?s Started (?xs ! i)) Started (?xs ! i))"
    let ?e3 = "start_operation (clock env ?s Running ?e2) Running ?e2"
    have r: "xs' = ?xs[i := ?e3]" "s' = ?s" using assms(4) e Inr q(1) by (auto simp: start_item_def Let_def)
    have "good ?e3" using g st t by (simp add: good_def is_valid_transition_def)
    from finished_item [OF l len this _ _ q(2)] keys show ?thesis unfolding r by simp
  qed
qed

interpretation exporting: stage_contract "exporting_stage env cfg" linked_up linked_up ex_id for env cfg
proof
  fix x y assume l: "linked_up x" "sg_setup (exporting_stage env cfg) x = y"
  obtain xs s where x: "x = (xs, s)" by (cases x)
  have g: "list_all good xs" using l(1) x by (simp add: linked_up_def clean_def)
  have "has_module xs k" if "k < length xs" "ex_type (xs ! k) = Module" "ex_state (xs ! k) = Running" for k
    using good_at [OF g that(1)] that by (simp add: good_def has_module_def)
  with l x show "linked_up y \<and> map ex_id (fst y) = map ex_id (fst x)"
    by (auto simp: exporting_stage_def collect_running_def linked_up_def clean_def)
next
  fix x y assume "linked_up x" "sg_teardown (exporting_stage env cfg) x = y"
  then show "linked_up y \<and> map ex_id (fst y) = map ex_id (fst x)" by (auto simp: exporting_stage_def no_setup_def)
next
  have "body_keeps linked_up ex_id (Sequential True should_export (failure_propagating (export_item env cfg)))"
    by (rule stage_of_item) (blast dest: export_item_keeps, simp add: should_export_def is_valid_transition_def)
  then show "body_keeps linked_up ex_id (sg_body (exporting_stage env cfg))" by (simp add: exporting_stage_def)
qed

interpretation starting: stage_contract "starting_stage env cfg" linked_up linked_up ex_id for env cfg
proof
  fix x y assume "linked_up x" "sg_setup (starting_stage env cfg) x = y"
  then show "linked_up y \<and> map ex_id (fst y) = map ex_id (fst x)" by (auto simp: starting_stage_def no_setup_def)
next
  fix x y assume "linked_up x" "sg_teardown (starting_stage env cfg) x = y"
  then show "linked_up y \<and> map ex_id (fst y) = map ex_id (fst x)" by (auto simp: starting_stage_def no_setup_def)
next
  have "body_keeps linked_up ex_id (Sequential True should_start (failure_propagating (start_item env cfg)))"
    by (rule stage_of_item) (blast dest: start_item_keeps, simp add: should_start_def is_valid_transition_def)
  then show "body_keeps linked_up ex_id (sg_body (starting_stage env cfg))" by (simp add: starting_stage_def)
qed

section \<open>Resolution\<close>

definition good_in :: "extension_state \<Rightarrow> extension \<Rightarrow> bool" where
  "good_in st e \<longleftrightarrow> good e \<and> ex_state e = st"

lemma filter_keeps:
  "filter_by_policy env cfg xs = (f, x) \<Longrightarrow> list_all good xs \<Longrightarrow>
     list_all (good_in Resolving) f \<and> list_all good x \<and> mset (map ex_id f) + mset (map ex_id x) = mset (map ex_id xs)"
proof (induction xs arbitrary: f x)
  case (Cons e xs)
  obtain f1 x1 where r: "filter_by_policy env cfg xs = (f1, x1)" by (cases "filter_by_policy env cfg xs")
  with Cons have k: "list_all (good_in Resolving) f1" "list_all good x1"
    "mset (map ex_id f1) + mset (map ex_id x1) = mset (map ex_id xs)" by auto
  have g: "good e" using Cons.prems(2) by simp
  have "good (exclude e)" "ex_id (exclude e) = ex_id e" using g by (auto simp: exclude_def good_def is_valid_transition_def)
  moreover have "good_in Resolving (set_state Resolving e)" if "policy_allows env cfg e"
    using g that by (simp add: good_in_def good_def policy_allows_def is_valid_transition_def)
  ultimately show ?case using Cons.prems(1) r k by (auto split: if_splits)
qed simp

lemma language_dependency_keeps [simp]:
  "ex_id (add_language_dependency m e) = ex_id e" "good_in st (add_language_dependency m e) = good_in st e"
  by (auto simp: add_language_dependency_def good_in_def good_def split: option.split)

lemma language_dependencies_keep:
  "map ex_id (add_language_dependencies es) = map ex_id es"
  "list_all (good_in st) (add_language_dependencies es) = list_all (good_in st) es"
  by (simp_all add: add_language_dependencies_def list_all_iff)

lemma update_new: "k \<notin> fst ` set al \<Longrightarrow> AList.update k v al = al @ [(k, v)]"
  by (induction al) auto

lemma id_map_distinct:
  "distinct (map fst m @ map ex_id es) \<Longrightarrow> id_map es (m, reg) = (m @ map (\<lambda>e. (ex_id e, e)) es, reg)"
proof (induction es arbitrary: m)
  case (Cons e es)
  then have "ex_id e \<notin> fst ` set m" by auto
  then have "AList.update (ex_id e) e m = m @ [(ex_id e, e)]" "map_of m (ex_id e) = None"
    by (simp_all add: update_new map_of_eq_None_iff)
  with Cons show ?case by simp
qed simp

definition keyed :: "(unique_id \<times> extension) list \<Rightarrow> bool" where
  "keyed m \<longleftrightarrow> list_all (\<lambda>(i, e). ex_id e = i \<and> good_in Resolving e) m \<and> distinct (map fst m)"

lemma keyed_delete:
  assumes "keyed m" "map_of m i = Some e"
  shows "keyed (AList.delete i m) \<and> mset (map fst m) = add_mset i (mset (map fst (AList.delete i m)))"
  using assms
proof (induction m)
  case (Cons p m)
  obtain j f where p: "p = (j, f)" by (cases p)
  have fixed: "i \<notin> fst ` set xs \<Longrightarrow> AList.delete i xs = xs" for xs :: "(unique_id \<times> extension) list"
    by (induction xs) auto
  show ?case
  proof (cases "i = j")
    case True
    with Cons.prems(1) p have "AList.delete i m = m" by (intro fixed) (auto simp: keyed_def)
    with True Cons.prems(1) p show ?thesis by (auto simp: keyed_def)
  next
    case False
    have m: "keyed m" using Cons.prems(1) p by (simp add: keyed_def)
    have IH: "keyed (AList.delete i m) \<and> mset (map fst m) = add_mset i (mset (map fst (AList.delete i m)))"
      using Cons.IH [OF m] Cons.prems(2) p False by simp
    moreover have "j \<notin> fst ` set (AList.delete i m)" using Cons.prems(1) p by (auto simp: keyed_def AList.delete_eq)
    ultimately show ?thesis using Cons.prems(1) p False by (auto simp: keyed_def)
  qed
qed simp

lemma take_in_order_keeps:
  "take_in_order is m = (es, rest) \<Longrightarrow> keyed m \<Longrightarrow>
     list_all good es \<and> keyed rest \<and> mset (map ex_id es) + mset (map fst rest) = mset (map fst m)"
proof (induction "is" m arbitrary: es rest rule: take_in_order.induct)
  case (2 i "is" m)
  show ?case
  proof (cases "map_of m i")
    case None
    with 2 show ?thesis by simp
  next
    case (Some e)
    obtain es1 rest1 where t: "take_in_order is (AList.delete i m) = (es1, rest1)"
      by (cases "take_in_order is (AList.delete i m)")
    note d = keyed_delete [OF "2.prems"(2) Some]
    from "2.IH"(2) [OF Some t] d have k: "list_all good es1" "keyed rest1"
      "mset (map ex_id es1) + mset (map fst rest1) = mset (map fst (AList.delete i m))" by auto
    have "(i, e) \<in> set m" using Some by (rule map_of_SomeD)
    with "2.prems"(2) have "ex_id e = i" "good_in Resolving e" by (auto simp: keyed_def list_all_iff)
    then have "good (set_state Resolved e)" "ex_id (set_state Resolved e) = i"
      by (simp_all add: good_in_def good_def is_valid_transition_def)
    with "2.prems"(1) Some t k d show ?thesis by auto
  qed
qed simp

lemma report_issue_keeps [simp]: "good (report_issue i e) = good e" "ex_id (report_issue i e) = ex_id e"
  by (simp_all add: report_issue_def good_def)

lemma mark_unresolved_keeps:
  assumes "good_in Resolving e"
  shows "good (mark_unresolved report (i, e)) \<and> ex_id (mark_unresolved report (i, e)) = ex_id e"
proof -
  have "good (fold report_issue is e') = good e' \<and> ex_id (fold report_issue is e') = ex_id e'" for "is" e'
    by (induction "is" arbitrary: e') simp_all
  moreover have "good (set_state Unresolved e)" using assms by (simp add: good_in_def good_def is_valid_transition_def)
  ultimately show ?thesis by (simp add: mark_unresolved_def)
qed

lemma resolve_items_keeps:
  assumes "resolve_items env inp cfg (xs, s) = (r, xs', s')" "unlinked (xs, s)" "distinct (map ex_id xs)"
    "\<And>m. mset (in_items_order inp m) = mset m"
  shows "unlinked (xs', s') \<and> mset (map ex_id xs') = mset (map ex_id xs)"
proof -
  obtain f x where fx: "filter_by_policy env cfg xs = (f, x)" by (cases "filter_by_policy env cfg xs")
  have "list_all good xs" using assms(2) by (simp add: unlinked_def clean_def)
  from filter_keeps [OF fx this] have f: "list_all (good_in Resolving) f" "list_all good x"
    "mset (map ex_id f) + mset (map ex_id x) = mset (map ex_id xs)" by auto
  let ?f = "add_language_dependencies f"
  have f': "list_all (good_in Resolving) ?f" "map ex_id ?f = map ex_id f" using f(1) by (simp_all add: language_dependencies_keep)
  have rest: "list_all good (f @ x) \<and> list_all good (?f @ x)"
    using f f' by (auto simp: list_all_iff good_in_def)
  have kept: ?thesis if "xs' \<in> {f @ x, ?f @ x}" "sh_world s' = sh_world s" "sh_modules s' = sh_modules s" "sh_running s' = sh_running s"
  proof -
    have "mset (map ex_id (?f @ x)) = mset (map ex_id (f @ x))" by (simp only: map_append f'(2))
    with that(1) rest f(3) have "list_all good xs'" "mset (map ex_id xs') = mset (map ex_id xs)" by auto
    with that assms(2) show ?thesis by (simp add: unlinked_def clean_def)
  qed
  obtain rep rs where rp: "resolve (in_solver inp) (in_jobs_order inp) ?f (sh_resolver s) = (rep, rs)"
    by (cases "resolve (in_solver inp) (in_jobs_order inp) ?f (sh_resolver s)")
  have "distinct (map ex_id f @ map ex_id x)" using f(3) assms(3) by (metis mset_append mset_eq_imp_distinct_iff)
  then have df: "distinct (map ex_id ?f)" using f'(2) by simp
  obtain es rs2 where t: "take_in_order (rr_load_order rep) (map (\<lambda>e. (ex_id e, e)) ?f) = (es, rs2)"
    by (cases "take_in_order (rr_load_order rep) (map (\<lambda>e. (ex_id e, e)) ?f)")
  consider (none) "f = []" | (failed) "f \<noteq> []" "\<not> rr_valid rep \<or> rr_load_order rep = []"
    | (ok) "f \<noteq> []" "rr_valid rep" "rr_load_order rep \<noteq> []" by blast
  then show ?thesis
  proof cases
    case none
    with assms(1) fx show ?thesis by (intro kept) (auto simp: resolve_items_def)
  next
    case failed
    with assms(1) fx rp show ?thesis by (intro kept) (auto simp: resolve_items_def Let_def split: if_splits)
  next
    case ok
    have idm: "id_map ?f ([], w_registry (sh_world s)) = (map (\<lambda>e. (ex_id e, e)) ?f, w_registry (sh_world s))"
      using id_map_distinct [of "[]" ?f] df by simp
    have "keyed (map (\<lambda>e. (ex_id e, e)) ?f)" using f'(1) df by (simp add: keyed_def list_all_iff o_def)
    from take_in_order_keeps [OF t this] have k: "list_all good es" "keyed rs2"
      "mset (map ex_id es) + mset (map fst rs2) = mset (map ex_id ?f)" by (auto simp: o_def)
    let ?u = "map (mark_unresolved rep) (in_items_order inp rs2)"
    have e: "xs' = es @ ?u @ x" "sh_world s' = sh_world s" "sh_modules s' = sh_modules s" "sh_running s' = sh_running s"
      using assms(1) fx rp ok idm t by (auto simp: resolve_items_def Let_def)
    have o': "\<forall>(i, e) \<in> set (in_items_order inp rs2). good_in Resolving e \<and> ex_id e = i"
      using k(2) mset_eq_setD [OF assms(4)] by (auto simp: keyed_def list_all_iff)
    then have "list_all good ?u" by (auto simp: list_all_iff dest: mark_unresolved_keeps)
    moreover have "map ex_id ?u = map fst (in_items_order inp rs2)"
      using o' mark_unresolved_keeps by fastforce
    then have "mset (map ex_id ?u) = mset (map fst rs2)" using assms(4) [of rs2] by (metis mset_map)
    then have "mset (map ex_id (es @ ?u @ x)) = mset (map ex_id es) + mset (map fst rs2) + mset (map ex_id x)"
      by (simp only: map_append mset_append add.assoc)
    then have "mset (map ex_id (es @ ?u @ x)) = mset (map ex_id xs)" unfolding k(3) f'(2) f(3) .
    ultimately show ?thesis using e k f assms(2) by (simp add: unlinked_def clean_def)
  qed
qed

lemma resolution_contract:
  assumes "\<And>m. mset (in_items_order inp m) = mset m"
  shows "stage_contract (resolution_stage env inp cfg) unlinked unlinked ex_id"
proof
  fix x y assume "unlinked x" "sg_setup (resolution_stage env inp cfg) x = y"
  then show "unlinked y \<and> map ex_id (fst y) = map ex_id (fst x)" by (auto simp: resolution_stage_def no_setup_def)
next
  fix x y assume "unlinked x" "sg_teardown (resolution_stage env inp cfg) x = y"
  then show "unlinked y \<and> map ex_id (fst y) = map ex_id (fst x)" by (auto simp: resolution_stage_def no_setup_def)
next
  have "unlinked (xs', s') \<and> mset (map ex_id xs') = mset (map ex_id xs)"
    if "unlinked (xs, s)" "distinct (map ex_id xs)" "resolve_items env inp cfg (xs, s) = (r, xs', s')" for xs s r xs' s'
    by (rule resolve_items_keeps [OF that(3,1,2) assms])
  then show "body_keeps unlinked ex_id (sg_body (resolution_stage env inp cfg))"
    unfolding body_keeps_def resolution_stage_def stage.simps stage_body.case by blast
qed

section \<open>Parsing does not depend on the schedule\<close>










section \<open>Where failures go\<close>

lemma dependency_failed_iff:
  "has_any_dependency_failed t e g \<longleftrightarrow> (\<exists>d. has_failed t d \<and> d \<in> set (edges g (ex_id e)))"
  by (auto simp: has_any_dependency_failed_def edges_def list_ex_iff split: option.split)

text \<open>C28: With the graphs of a resolution the loading, exporting and starting stages skip an extension,
  without a call to it, when and only when an extension that depends on it has failed. A failure of
  one of its own dependencies does not stop it, since the check is made in the reverse graph.\<close>

theorem skipped_for_failed_dependents:
  assumes "resolve solve hash_order es rs = (r, rs')" "sh_reverse s = rr_reverse_graph r" "i < length items"
  shows "if \<exists>d. has_failed (sh_tracker s) d \<and> ex_id (items ! i) \<in> set (edges (rr_graph r) d)
    then \<exists>err e' s'. failure_propagating process i n (items, s) = (Inl err, items[i := e'], s') \<and>
      ex_state e' = Skipped \<and> sh_world s' = sh_world s \<and> has_failed (sh_tracker s') (ex_id (items ! i))
    else failure_propagating process i n (items, s) = process i n (items, s)"
proof -
  have "converse_graphs r" using resolve_converse_graphs [of solve hash_order es rs] assms(1) by simp
  from converse_edge [OF this] have "has_any_dependency_failed (sh_tracker s) (items ! i) (sh_reverse s) \<longleftrightarrow>
      (\<exists>d. has_failed (sh_tracker s) d \<and> ex_id (items ! i) \<in> set (edges (rr_graph r) d))"
    by (simp add: dependency_failed_iff assms(2))
  then show ?thesis
    by (auto simp: failure_propagating_def handle_dependency_failure_def Let_def tracker.failed_mark)
qed

text \<open>A resolver that installs both packages, the second of which requires the first.\<close>

definition two_extensions :: "extension list" where
  "two_extensions = [new_extension 1 ''/e/m.pmodule'', add_dependency ''m'' (new_extension 2 ''/e/p.pplugin'')]"

definition chain_solver :: solver where
  "chain_solver pool jobs = \<lparr>sa_failed = False, sa_problems = [], sa_transaction = Some jobs,
     sa_providers = (\<lambda>d. [first_solvable])\<rparr>"

lemma skipped_for_failed_dependents_witness:
  "\<exists>err e' s'. failure_propagating (load_item sample_env sample_config) 0 2
     (two_extensions, sample_shared\<lparr>sh_tracker := mark_failed 2 new_tracker,
        sh_reverse := rr_reverse_graph (fst (resolve chain_solver (\<lambda>m. m) two_extensions resolver_new))\<rparr>) =
     (Inl err, two_extensions[0 := e'], s') \<and> ex_state e' = Skipped"
proof -
  obtain r rs where r: "resolve chain_solver (\<lambda>m. m) two_extensions resolver_new = (r, rs)"
    by (cases "resolve chain_solver (\<lambda>m. m) two_extensions resolver_new")
  let ?s = "sample_shared\<lparr>sh_tracker := mark_failed 2 new_tracker, sh_reverse := rr_reverse_graph r\<rparr>"
  have "1 \<in> set (edges (rr_graph (fst (resolve chain_solver (\<lambda>m. m) two_extensions resolver_new))) 2)" by code_simp
  then have "1 \<in> set (edges (rr_graph r) 2)" unfolding r by simp
  then have d: "\<exists>d. has_failed (sh_tracker ?s) d \<and> ex_id (two_extensions ! 0) \<in> set (edges (rr_graph r) d)"
    by (intro exI [of _ 2]) (simp add: tracker.failed_mark two_extensions_def new_extension_def)
  have n: "0 < length two_extensions" by (simp add: two_extensions_def)
  have "sh_reverse ?s = rr_reverse_graph r" by simp
  from skipped_for_failed_dependents [OF r this n, of "load_item sample_env sample_config" 2] d
  show ?thesis unfolding r fst_conv if_P [OF d] by blast
qed

text \<open>When the operation of an extension fails, the failure is passed on to the extensions it depends
  on, read from the forward graph, and to no other: its dependents are not marked.\<close>

lemma failure_marks_dependencies:
  "has_failed (sh_tracker (snd (handle_operation_failure env err st (e, s)))) j \<longleftrightarrow>
     j = ex_id e \<or> j \<in> set (edges (sh_graph s) (ex_id e)) \<or> has_failed (sh_tracker s) j"
  by (auto simp: handle_operation_failure_def propagate_failure_def Let_def edges_def tracker.failed_mark
      tracker.failed_marks split: option.splits)

end
