(* ===== verification/Manager_Correct.thy ===== *)
theory Manager_Correct
  imports Manager Stages_Correct
begin

text \<open>
  The properties of the manager: what discovery finds, that a pipeline keeps the contracts of
  its stages, in which states a successful initialization leaves the extensions, and that
  termination unloads everything that runs, last loaded first.
\<close>

section \<open>Discovery\<close>

text \<open>The directories a search from a directory lists.\<close>

inductive searched :: "(path \<Rightarrow> file_info list result) \<Rightarrow> path set \<Rightarrow> path \<Rightarrow> path \<Rightarrow> bool"
  for ls excl root where
  start: "searched ls excl root root"
| below: "searched ls excl root d \<Longrightarrow> ls d = Inr es \<Longrightarrow> manifest_files es = [] \<Longrightarrow>
    d' \<in> set (sub_directories excl es) \<Longrightarrow> searched ls excl root d'"

definition manifests_at :: "(path \<Rightarrow> file_info list result) \<Rightarrow> path \<Rightarrow> path set" where
  "manifests_at ls d = (case ls d of Inl e \<Rightarrow> {} | Inr es \<Rightarrow> set (manifest_files es))"

definition opened :: "(path \<Rightarrow> file_info list result) \<Rightarrow> path set \<Rightarrow> path \<Rightarrow> path list" where
  "opened ls excl d = (case ls d of Inl e \<Rightarrow> []
     | Inr es \<Rightarrow> if manifest_files es = [] then sub_directories excl es else [])"

lemma searched_opened:
  "searched ls excl d e \<longleftrightarrow> e = d \<or> (\<exists>d' \<in> set (opened ls excl d). searched ls excl d' e)"
proof
  assume "searched ls excl d e"
  then show "e = d \<or> (\<exists>d' \<in> set (opened ls excl d). searched ls excl d' e)"
  proof induction
    case (below e es e')
    then have "e' \<in> set (opened ls excl e)" by (simp add: opened_def)
    with below show ?case by (metis searched.simps)
  qed simp
next
  have up: "searched ls excl d e" if "searched ls excl d' e" "d' \<in> set (opened ls excl d)" for d'
    using that
  proof induction
    case start
    then show ?case
      by (force simp: opened_def split: sum.splits if_splits intro: searched.intros)
  qed (auto intro: searched.below)
  then show "e = d \<or> (\<exists>d' \<in> set (opened ls excl d). searched ls excl d' e) \<Longrightarrow> searched ls excl d e"
    by (auto intro: searched.start)
qed

lemma discover_loop_step:
  "dirs \<noteq> [] \<Longrightarrow> discover_loop ls excl dirs found = discover_loop ls excl (butlast dirs @ opened ls excl (last dirs))
     (found @ (case ls (last dirs) of Inl e \<Rightarrow> [] | Inr es \<Rightarrow> manifest_files es))"
  by (subst discover_loop.simps) (auto simp: opened_def split: sum.split)

lemma discover_loop_nil: "discover_loop ls excl [] found = Some found"
  by (subst discover_loop.simps) simp

lemma opened_searched: "searched ls excl root d \<Longrightarrow> e \<in> set (opened ls excl d) \<Longrightarrow> searched ls excl root e"
  by (force simp: opened_def split: sum.splits if_splits intro: searched.below)

lemma manifests_at_kind: "p \<in> manifests_at ls d \<Longrightarrow> get_extension_type p \<noteq> Unknown_type"
  by (cases "ls d") (auto simp: manifests_at_def manifest_files_def)

lemma discover_loop_finds:
  assumes "discover_loop ls excl dirs found = Some r"
  shows "set r = set found \<union> (\<Union>d0 \<in> set dirs. \<Union>d \<in> {d. searched ls excl d0 d}. manifests_at ls d)"
  using assms
proof (induction rule: discover_loop.raw_induct [rotated, consumes 1, case_names step])
  case (step loop ls excl dirs found r)
  show ?case
  proof (cases "dirs = []")
    case True
    with step(2) show ?thesis by simp
  next
    case False
    let ?d = "last dirs"
    let ?ms = "case ls ?d of Inl e \<Rightarrow> [] | Inr es \<Rightarrow> manifest_files es"
    have "loop ls excl (butlast dirs @ opened ls excl ?d) (found @ ?ms) = Some r"
      using step(2) False by (auto simp: opened_def split: sum.splits if_splits)
    from step(1) [OF this] have r: "set r = set found \<union> set ?ms \<union>
      (\<Union>d0 \<in> set (butlast dirs) \<union> set (opened ls excl ?d). \<Union>d \<in> {d. searched ls excl d0 d}. manifests_at ls d)"
      by auto
    have ms: "set ?ms = manifests_at ls ?d" by (simp add: manifests_at_def split: sum.split)
    have "set dirs = insert ?d (set (butlast dirs))"
      using False by (metis append_butlast_last_id list.simps(15) rotate1.simps(2) set_rotate1)
    moreover have "{e. searched ls excl ?d e} = insert ?d (\<Union>d' \<in> set (opened ls excl ?d). {e. searched ls excl d' e})"
      using searched_opened [of ls excl ?d] by blast
    ultimately show ?thesis unfolding r ms by auto
  qed
qed

text \<open>C18: Discovery finds exactly the manifest files of the directories that can be reached from the
  extensions directory through directories that have no manifest of their own and whose names are
  not excluded; the extensions are numbered from zero in the order they were found, are all in the
  state \<open>Discovered\<close> and each is a module or a plugin.\<close>

theorem discovery_exact:
  assumes "discover_extensions ho cfg = Some exts"
  shows "ex_location ` set exts = (\<Union>d \<in> {d. searched (ho_list ho) (excluded_dirs (cfg_security cfg))
       (extensions_dir (cfg_paths cfg)) d}. manifests_at (ho_list ho) d) \<and>
    map ex_id exts = map int [0..<length exts] \<and>
    list_all (\<lambda>e. ex_state e = Discovered \<and> ex_type e \<noteq> Unknown_type) exts"
proof -
  from assms obtain files where l: "discover_loop (ho_list ho) (excluded_dirs (cfg_security cfg))
      [extensions_dir (cfg_paths cfg)] [] = Some files"
    and e: "exts = map2 new_extension (map int [0..<length files]) files"
    by (auto simp: discover_extensions_def)
  note f = discover_loop_finds [OF l]
  have "map ex_location exts = files" unfolding e by (rule nth_equalityI) (simp_all add: new_extension_def)
  then have "ex_location ` set exts = set files" by (metis set_map)
  moreover have "map ex_id exts = map int [0..<length exts]"
    unfolding e by (rule nth_equalityI) (simp_all add: new_extension_def)
  moreover have "get_extension_type p \<noteq> Unknown_type" if "p \<in> set files" for p
    using that f by (auto dest: manifests_at_kind)
  then have "list_all (\<lambda>e. ex_state e = Discovered \<and> ex_type e \<noteq> Unknown_type) exts"
    unfolding e by (auto simp: list_all_length new_extension_def)
  ultimately show ?thesis using f by simp
qed

text \<open>A file system for examples: a root with a module, a plugin in a directory of its own, with a
  directory below it that is not searched, and an excluded directory.\<close>

definition sample_host :: host where
  "sample_host = \<lparr>ho_list = (\<lambda>d.
       if d = ''extensions'' then Inr [\<lparr>fi_path = ''extensions/m'', fi_type = Directory\<rparr>,
         \<lparr>fi_path = ''extensions/tmp'', fi_type = Directory\<rparr>, \<lparr>fi_path = ''extensions/p'', fi_type = Directory\<rparr>]
       else if d = ''extensions/m'' then Inr [\<lparr>fi_path = ''extensions/m/m.pmodule'', fi_type = Regular_file\<rparr>]
       else if d = ''extensions/p'' then Inr [\<lparr>fi_path = ''extensions/p/p.pplugin'', fi_type = Regular_file\<rparr>,
         \<lparr>fi_path = ''extensions/p/sub'', fi_type = Directory\<rparr>]
       else Inl ''no such directory''),
     ho_write = (\<lambda>h p t. Inr ()), ho_schedule = (\<lambda>n. [0..<n]), ho_clock = (\<lambda>k. 0),
     ho_graph_order = (\<lambda>g. []), ho_profiler = False\<rparr>"

lemma sample_opened:
  "opened (ho_list sample_host) (excluded_dirs (cfg_security sample_config)) d =
     (if d = ''extensions'' then [''extensions/m'', ''extensions/p''] else [])"
proof -
  have [simp]: "get_extension_type ''extensions/m/m.pmodule'' = Module" "get_extension_type ''extensions/p/p.pplugin'' = Plugin"
    "path_filename ''extensions/m'' = ''m''" "path_filename ''extensions/tmp'' = ''tmp''"
    "path_filename ''extensions/p'' = ''p''" by code_simp+
  show ?thesis
    by (simp add: opened_def sample_host_def manifest_files_def sub_directories_def sample_config_def
        config_default_def security_default_def default_excluded_dirs_def)
qed

lemma sample_discovered: "discover_extensions sample_host sample_config =
    Some [new_extension 0 ''extensions/p/p.pplugin'', new_extension 1 ''extensions/m/m.pmodule'']"
proof -
  let ?ls = "ho_list sample_host" and ?ex = "excluded_dirs (cfg_security sample_config)"
  have t: "get_extension_type ''extensions/m/m.pmodule'' = Module" "get_extension_type ''extensions/p/p.pplugin'' = Plugin"
    "extensions_dir (cfg_paths sample_config) = ''extensions''" by code_simp+
  have found: "(case ?ls d of Inl e \<Rightarrow> [] | Inr es \<Rightarrow> manifest_files es) =
     (if d = ''extensions/m'' then [''extensions/m/m.pmodule''] else if d = ''extensions/p'' then [''extensions/p/p.pplugin'']
      else [])" for d
    using t by (simp add: sample_host_def manifest_files_def)
  have "discover_loop ?ls ?ex [''extensions''] [] = Some [''extensions/p/p.pplugin'', ''extensions/m/m.pmodule'']"
  proof -
    have step: "discover_loop ?ls ?ex (ds @ [d]) fs = discover_loop ?ls ?ex (ds @ opened ?ls ?ex d)
      (fs @ (case ?ls d of Inl e \<Rightarrow> [] | Inr es \<Rightarrow> manifest_files es))" for ds d fs
      by (subst discover_loop_step) simp_all
    have "discover_loop ?ls ?ex [''extensions''] [] = discover_loop ?ls ?ex [''extensions/m'', ''extensions/p''] []"
      using step [of "[]" "''extensions''" "[]"] unfolding sample_opened found by simp
    also have "\<dots> = discover_loop ?ls ?ex [''extensions/m''] [''extensions/p/p.pplugin'']"
      using step [of "[''extensions/m'']" "''extensions/p''" "[]"] unfolding sample_opened found by simp
    also have "\<dots> = discover_loop ?ls ?ex [] [''extensions/p/p.pplugin'', ''extensions/m/m.pmodule'']"
      using step [of "[]" "''extensions/m''" "[''extensions/p/p.pplugin'']"] unfolding sample_opened found by simp
    finally show ?thesis unfolding discover_loop_nil .
  qed
  with t show ?thesis by (simp add: discover_extensions_def)
qed

lemma discovery_exact_witness:
  "''extensions/p/p.pplugin'' \<in> (\<Union>d \<in> {d. searched (ho_list sample_host) (excluded_dirs (cfg_security sample_config))
     (extensions_dir (cfg_paths sample_config)) d}. manifests_at (ho_list sample_host) d)"
  unfolding discovery_exact [OF sample_discovered, THEN conjunct1, symmetric] by (simp add: new_extension_def)

lemma discover_loop_ends:
  assumes "\<And>d e. searched ls excl root d \<Longrightarrow> e \<in> set (opened ls excl d) \<Longrightarrow> depth e < (depth d :: nat)"
    "searched ls excl root d" "\<And>found. discover_loop ls excl dirs found \<noteq> None"
  shows "discover_loop ls excl (dirs @ [d]) found \<noteq> None"
  using assms(2,3)
proof (induction "depth d" arbitrary: d dirs found rule: less_induct)
  case less
  have "discover_loop ls excl (dirs @ ds) found' \<noteq> None" if "set ds \<subseteq> set (opened ls excl d)" for ds found'
    using that
  proof (induction ds arbitrary: found' rule: rev_induct)
    case (snoc e ds)
    then have "depth e < depth d" "searched ls excl root e" using assms(1) less(2)
      by (auto intro: opened_searched)
    from less.hyps [OF this, of "dirs @ ds"] snoc show ?case by simp
  qed (use less(3) in simp)
  then show ?case by (subst discover_loop_step) auto
qed

text \<open>C19: Discovery ends on every file system whose searched directories have a depth, that is, which has
  no cycle of directories: the loop then returns a list of extensions.\<close>

theorem discovery_terminates:
  assumes "\<And>d e. searched (ho_list ho) (excluded_dirs (cfg_security cfg)) (extensions_dir (cfg_paths cfg)) d \<Longrightarrow>
    e \<in> set (opened (ho_list ho) (excluded_dirs (cfg_security cfg)) d) \<Longrightarrow> depth e < (depth d :: nat)"
  shows "\<exists>exts. discover_extensions ho cfg = Some exts"
proof -
  let ?ls = "ho_list ho" and ?ex = "excluded_dirs (cfg_security cfg)" and ?root = "extensions_dir (cfg_paths cfg)"
  have "discover_loop ?ls ?ex ([] @ [?root]) [] \<noteq> None"
    by (rule discover_loop_ends [where depth = depth and root = ?root])
      (use assms in \<open>auto simp: discover_loop_nil intro: searched.start\<close>)
  then show ?thesis by (auto simp: discover_extensions_def)
qed

lemma discovery_terminates_witness: "\<exists>exts. discover_extensions sample_host sample_config = Some exts"
  by (rule discovery_terminates [where depth = "\<lambda>d. if d = ''extensions'' then 1 else 0"])
    (auto simp: sample_opened split: if_splits)

section \<open>Loops over the extensions\<close>

lemma for_each_keeps:
  assumes "\<And>x s y s'. f (x, s) = (y, s') \<Longrightarrow> P x \<Longrightarrow> S s \<Longrightarrow> R x y \<and> S s'"
    "for_each f (xs, s) = (ys, s')" "list_all P xs" "S s"
  shows "list_all2 R xs ys \<and> S s'"
  using assms(2-)
proof (induction xs arbitrary: s ys s')
  case (Cons x xs)
  obtain y t where y: "f (x, s) = (y, t)" by (cases "f (x, s)")
  obtain zs u where z: "for_each f (xs, t) = (zs, u)" by (cases "for_each f (xs, t)")
  from assms(1) [OF y] Cons.prems have "R x y" "S t" by simp_all
  with Cons.IH [OF z] Cons.prems y z show ?case by auto
qed simp

lemma for_each_reverse_keeps:
  assumes "\<And>x s y s'. f (x, s) = (y, s') \<Longrightarrow> P x \<Longrightarrow> S s \<Longrightarrow> R x y \<and> S s'"
    "for_each_reverse f (xs, s) = (ys, s')" "list_all P xs" "S s"
  shows "list_all2 R xs ys \<and> S s'"
proof -
  from assms(2) have r: "for_each f (rev xs, s) = (rev ys, s')" by (auto simp: for_each_reverse_def split: prod.splits)
  have "list_all2 R (rev xs) (rev ys) \<and> S s'"
    by (rule for_each_keeps [where f = f and P = P, OF assms(1) r]) (use assms(3,4) in auto)
  then show ?thesis by (simp add: list_all2_rev)
qed

text \<open>What the log, the files and the frame marks change: only the history.\<close>

definition only_traces :: "shared \<Rightarrow> shared \<Rightarrow> bool" where
  "only_traces s s' \<longleftrightarrow> (\<exists>evs. Null_call \<notin> set evs \<and>
     s' = s\<lparr>sh_world := (sh_world s)\<lparr>w_trace := w_trace (sh_world s) @ evs\<rparr>\<rparr>)"

lemma only_traces_refl [simp]: "only_traces s s"
  by (auto simp: only_traces_def intro!: exI [of _ "[]"])

lemma only_traces_trans: "only_traces s t \<Longrightarrow> only_traces t u \<Longrightarrow> only_traces s u"
  by (auto simp: only_traces_def) (metis Un_iff append.assoc set_append)

lemma only_traces_emit: "ev \<noteq> Null_call \<Longrightarrow> only_traces s (s\<lparr>sh_world := emit ev (sh_world s)\<rparr>)"
  by (auto simp: only_traces_def emit_def intro!: exI [of _ "[ev]"])

lemma only_traces_log [simp]: "only_traces s (log_line msg sev s)" "only_traces s (log_failure r s)"
  by (auto simp: log_line_def log_failure_def intro: only_traces_emit split: sum.split)

lemma only_traces_log_then [intro]: "only_traces s t \<Longrightarrow> only_traces s (log_line msg sev t)"
  using only_traces_trans only_traces_log(1) by blast

lemma only_traces_fold: "only_traces s t \<Longrightarrow> only_traces s (fold (\<lambda>e. log_line (f e) sev) es t)"
  by (induction es arbitrary: t) auto

lemma only_traces_if: "only_traces s t \<Longrightarrow> only_traces s u \<Longrightarrow> only_traces s (if b then t else u)"
  by simp

lemma only_traces_frame:
  assumes "only_traces s s'"
  shows "null_free (sh_world s') = null_free (sh_world s)" "w_registry (sh_world s') = w_registry (sh_world s)"
    "sh_modules s' = sh_modules s" "sh_running s' = sh_running s"
  using assms by (auto simp: only_traces_def null_free_def)

lemma export_dot_traces: "only_traces s t \<Longrightarrow> only_traces s (export_dot ho cfg graph t)"
  by (auto simp: export_dot_def Let_def split: sum.split intro: only_traces_trans only_traces_emit)

lemma print_reports_traces: "only_traces s (print_reports ho cfg r items s)"
  unfolding print_reports_def Let_def
  by (intro only_traces_if only_traces_fold export_dot_traces only_traces_log_then only_traces_refl)

section \<open>Initialize\<close>

definition manager_ok :: "manager \<Rightarrow> bool" where
  "manager_ok m \<longleftrightarrow> list_all asserts_hold (mg_extensions m) \<and> null_free (sh_world (mg_shared m)) \<and>
     distinct (map ex_id (mg_extensions m)) \<and> (mg_initialized m \<longrightarrow> list_all good (mg_extensions m))"

lemma good_asserts: "list_all good es \<Longrightarrow> list_all asserts_hold es"
  by (auto simp: list_all_iff good_def)

text \<open>Before the third stage no pointer into the container exists, afterwards all are valid.\<close>

definition stage_invariant :: "nat \<Rightarrow> extension list \<times> shared \<Rightarrow> bool" where
  "stage_invariant n = (if n \<le> 2 then unlinked else linked_up)"

definition permutes :: "('a list \<Rightarrow> 'a list) \<Rightarrow> bool" where
  "permutes f \<longleftrightarrow> (\<forall>xs. mset (f xs) = mset xs)"

lemma manager_stages_keep:
  assumes "permutes (in_items_order inp)" "j < length (manager_stages env inp cfg)"
  shows "stage_contract (fst (manager_stages env inp cfg ! j)) (stage_invariant j) (stage_invariant (Suc j)) ex_id"
proof -
  have "stage_contract (resolution_stage env inp cfg) unlinked unlinked ex_id"
    by (rule resolution_contract) (use assms(1) in \<open>simp add: permutes_def\<close>)
  moreover have "j \<in> {0, 1, 2, 3, 4}" using assms(2) by (auto simp: manager_stages_def)
  ultimately show ?thesis
    using parsing.stage_contract_axioms [of env inp] loading.stage_contract_axioms [of env cfg]
      exporting.stage_contract_axioms [of env cfg] starting.stage_contract_axioms [of env cfg]
    by (auto simp: manager_stages_def stage_invariant_def)
qed

lemma new_extension_good: "good (new_extension i p)"
  by (simp add: good_def new_extension_def asserts_hold_def table_backed_def)

lemma discovered_good:
  assumes "discover_extensions ho cfg = Some exts"
  shows "list_all good exts" "distinct (map ex_id exts)"
proof -
  from assms obtain files where e: "exts = map2 new_extension (map int [0..<length files]) files"
    by (auto simp: discover_extensions_def)
  then show "list_all good exts" by (auto simp: list_all_length new_extension_good)
  have "map ex_id exts = map int [0..<length files]"
    unfolding e by (rule nth_equalityI) (simp_all add: new_extension_def)
  then show "distinct (map ex_id exts)" by (simp add: distinct_map inj_on_def)
qed

lemma pipeline_keeps_ok:
  assumes "permutes (in_items_order inp)" "\<And>n. set (ho_schedule ho n) \<subseteq> {0..<n}"
    "execute ex_name (ho_schedule ho) (ho_clock ho) (manager_stages env inp cfg) (exts, s) = (r, items, s')"
    "list_all good exts" "distinct (map ex_id exts)" "null_free (sh_world s)" "sh_modules s = Map.empty" "sh_running s = []"
  shows "clean (items, s') \<and> mset (map ex_id items) = mset (map ex_id exts)"
proof -
  from assms(3) obtain rs where rs: "run_stages ex_name (ho_schedule ho) (ho_clock ho) 0 (manager_stages env inp cfg)
      (exts, s) = (rs, items, s')" by (auto simp: execute_def split: prod.splits)
  have i: "stage_invariant 0 (exts, s)" using assms(4,6-8) by (simp add: stage_invariant_def unlinked_def clean_def)
  have c: "stage_contract (fst (manager_stages env inp cfg ! j)) (stage_invariant (0 + j)) (stage_invariant (Suc (0 + j))) ex_id"
    if "j < length (manager_stages env inp cfg)" for j
    using manager_stages_keep [OF assms(1) that] by simp
  from run_stages_keep [where I = stage_invariant, OF c i assms(5,2) rs] obtain j where
    "stage_invariant j (items, s')" "mset (map ex_id items) = mset (map ex_id exts)" by auto
  then show ?thesis by (auto simp: stage_invariant_def unlinked_def linked_up_def split: if_splits)
qed

lemma initialize_keeps_ok:
  assumes "permutes (in_items_order inp)" "\<And>n. set (ho_schedule ho n) \<subseteq> {0..<n}"
    "initialize env inp ho cfg m = Some (r, m')" "manager_ok m"
  shows "manager_ok m'"
proof (cases "mg_initialized m")
  case True
  with assms(3,4) show ?thesis by (simp add: initialize_def)
next
  case False
  with assms(3) obtain exts where d: "discover_extensions ho cfg = Some exts"
    by (auto simp: initialize_def split: option.splits)
  let ?s = "fresh_shared (mg_extensions m) (mg_shared m)"
  obtain rp items s where x: "execute ex_name (ho_schedule ho) (ho_clock ho) (manager_stages env inp cfg) (exts, ?s)
      = (rp, items, s)" by (metis prod_cases3)
  have "null_free (sh_world (mg_shared m))" using assms(4) by (simp add: manager_ok_def clean_def)
  then have s: "null_free (sh_world ?s)" "sh_modules ?s = Map.empty" "sh_running ?s = []"
    by (simp_all add: fresh_shared_def null_free_def)
  note k = pipeline_keeps_ok [OF assms(1,2) x discovered_good [OF d] s]
  let ?s' = "print_reports ho cfg rp items s"
  note t = only_traces_frame [OF print_reports_traces [of s ho cfg rp items]]
  have "mg_extensions m' = items" "mg_shared m' = ?s'"
    using assms(3) False d x by (auto simp: initialize_def Let_def split: if_splits)
  moreover have "distinct (map ex_id items)" using k discovered_good(2) [OF d] by (metis mset_eq_imp_distinct_iff)
  ultimately show ?thesis using k t(1) good_asserts by (simp add: manager_ok_def clean_def)
qed

section \<open>Update and Terminate\<close>

definition safe_world :: "shared \<Rightarrow> bool" where
  "safe_world s \<longleftrightarrow> null_free (sh_world s)"

lemma safe_log_failure: "safe_world (log_failure r (s\<lparr>sh_world := w\<rparr>)) = null_free w"
  unfolding safe_world_def only_traces_frame(1) [OF only_traces_log(2)] by simp

text \<open>How one step of a loop changes an extension.\<close>

definition becomes :: "(extension_state \<Rightarrow> extension_state) \<Rightarrow> extension \<Rightarrow> extension \<Rightarrow> bool" where
  "becomes f e e' \<longleftrightarrow> asserts_hold e' \<and> ex_id e' = ex_id e \<and> ex_type e' = ex_type e \<and>
     ex_manifest e' = ex_manifest e \<and> ex_state e' = f (ex_state e)"

lemma update_extension_keeps:
  assumes "update_extension env dt (e, s) = (e', s')" "good e" "safe_world s"
  shows "e' = e \<and> safe_world s'"
proof (cases "ex_state e = Running")
  case True
  obtain r e1 w where c: "(case ex_type e of
           Module \<Rightarrow> update_module env dt (e, sh_world s)
         | Plugin \<Rightarrow> update_plugin env dt (e, sh_world s)
         | Unknown_type \<Rightarrow> (Inl ''Unknown extension type'', e, sh_world s)) = (r, e1, w)" by (metis prod_cases3)
  have "e1 = e \<and> null_free w = null_free (sh_world s)"
    using c assms(2) update_module_null_free [of env dt e "sh_world s"] update_plugin_null_free [of env dt e "sh_world s"]
    by (cases "ex_type e") (auto simp: good_def)
  moreover have "e' = e1" "s' = log_failure r (s\<lparr>sh_world := w\<rparr>)"
    using assms(1) c True by (simp_all add: update_extension_def)
  ultimately show ?thesis using assms(3) safe_log_failure by (simp add: safe_world_def)
qed (use assms in \<open>simp add: update_extension_def\<close>)

lemma start_end_frame [simp]:
  "ex_manifest (start_operation t st e) = ex_manifest e" "ex_manifest (end_operation t st e) = ex_manifest e"
  "ex_language_module (start_operation t st e) = ex_language_module e"
  "ex_language_module (end_operation t st e) = ex_language_module e"
  "ex_registrar (start_operation t st e) = ex_registrar e" "ex_registrar (end_operation t st e) = ex_registrar e"
  by (simp_all add: start_operation_def end_operation_def set_state_def Let_def)

definition ended :: "extension_state \<Rightarrow> extension_state" where
  "ended st = (if st = Running then Ended else st)"

definition terminated :: "extension_state \<Rightarrow> extension_state" where
  "terminated st = (if st = Ended then Terminated else st)"

lemma end_extension_keeps:
  assumes "end_extension env (e, s) = (e', s')" "good e" "safe_world s"
  shows "becomes ended e e' \<and> safe_world s'"
proof (cases "ex_state e = Running")
  case True
  let ?e = "start_operation (clock env s Ending e) Ending e"
  obtain r e1 w where c: "(case ex_type ?e of
           Module \<Rightarrow> (Inr (), ?e, sh_world s)
         | Plugin \<Rightarrow> end_plugin env (?e, sh_world s)
         | Unknown_type \<Rightarrow> (Inl ''Unknown extension type'', ?e, sh_world s)) = (r, e1, w)" by (metis prod_cases3)
  have "table_backed ?e" using assms(2) by (simp add: good_def)
  then have f: "e1 = ?e \<and> null_free w = null_free (sh_world s)"
    using c end_plugin_null_free [of env ?e "sh_world s"] by (cases "ex_type e") auto
  let ?s = "log_failure r (s\<lparr>sh_world := w\<rparr>)"
  have "(end_operation (clock env ?s Ended e1) Ended e1, ?s) = (e', s')"
    using assms(1) unfolding end_extension_def prod.case Let_def c True not_True_eq_False if_False simp_thms .
  then have "e' = end_operation (clock env ?s Ended e1) Ended e1 \<and> s' = ?s" by blast
  with f assms True show ?thesis
    using safe_log_failure by (simp add: becomes_def ended_def good_def is_valid_transition_def safe_world_def)
qed (use assms in \<open>simp add: end_extension_def becomes_def ended_def good_def\<close>)

lemma unload_extension_keeps:
  assumes "unload_extension env (e, s) = (e', s')" "asserts_hold e" "safe_world s"
  shows "becomes terminated e e' \<and> safe_world s'"
proof (cases "ex_state e = Ended")
  case True
  let ?e = "start_operation (clock env s Terminating e) Terminating e"
  obtain r e1 w where c: "(case ex_type ?e of
           Module \<Rightarrow> unload_module env (?e, sh_world s)
         | Plugin \<Rightarrow> unload_plugin env (?e, sh_world s)
         | Unknown_type \<Rightarrow> (Inl ''Unknown extension type'', ?e, sh_world s)) = (r, e1, w)" by (metis prod_cases3)
  then have k: "loader_frame (?e, sh_world s) (e1, w)" "null_free w = null_free (sh_world s)"
    by (cases "ex_type ?e"; auto dest: unload_module_frame unload_plugin_frame unload_module_null_free unload_plugin_null_free)+
  note f = loader_frameD(1-5) [OF k(1)]
  have a: "asserts_hold e1 = asserts_hold ?e" using f(4) by (simp add: asserts_hold_def)
  let ?s = "log_failure r (s\<lparr>sh_world := w\<rparr>)"
  have "(end_operation (clock env ?s Terminated e1) Terminated e1, ?s) = (e', s')"
    using assms(1) unfolding unload_extension_def prod.case Let_def c True not_True_eq_False if_False simp_thms .
  then have "e' = end_operation (clock env ?s Terminated e1) Terminated e1 \<and> s' = ?s" by blast
  with f a k(2) assms True show ?thesis
    using safe_log_failure by (simp add: becomes_def terminated_def is_valid_transition_def safe_world_def)
qed (use assms in \<open>simp add: unload_extension_def becomes_def terminated_def\<close>)

lemma update_keeps_ok: "manager_ok m \<Longrightarrow> manager_ok (update env ho dt m)"
proof (cases "mg_initialized m")
  case True
  assume ok: "manager_ok m"
  obtain items s where u: "for_each (update_extension env dt) (mg_extensions m, mg_shared m) = (items, s)"
    by (cases "for_each (update_extension env dt) (mg_extensions m, mg_shared m)")
  have "list_all2 (=) (mg_extensions m) items \<and> safe_world s"
    by (rule for_each_keeps [OF _ u, of good]) (use ok True in \<open>auto simp: manager_ok_def safe_world_def dest: update_extension_keeps [unfolded safe_world_def]\<close>)
  then have "items = mg_extensions m" "null_free (sh_world s)"
    unfolding list.rel_eq safe_world_def by blast+
  with u True ok show ?thesis
    by (simp add: update_def manager_ok_def mark_frame_def null_free_def emit_def)
qed (simp add: update_def)

lemma becomes_trans: "becomes f x y \<Longrightarrow> becomes g y z \<Longrightarrow> becomes (g \<circ> f) x z"
  by (simp add: becomes_def)

lemma end_all_keeps:
  assumes "for_each_reverse (end_extension env) (xs, s) = (ys, s')" "list_all good xs" "safe_world s"
  shows "list_all2 (becomes ended) xs ys \<and> safe_world s'"
  by (rule for_each_reverse_keeps [where f = "end_extension env" and P = good and S = safe_world, OF _ assms])
    (rule end_extension_keeps)

lemma terminate_effect:
  assumes "manager_ok m" "mg_initialized m"
  shows "list_all2 (becomes (terminated \<circ> ended)) (mg_extensions m) (mg_extensions (terminate env m)) \<and>
    null_free (sh_world (mg_shared (terminate env m))) \<and> \<not> mg_initialized (terminate env m)"
proof -
  obtain xs s where e: "for_each_reverse (end_extension env) (mg_extensions m, mg_shared m) = (xs, s)"
    by (cases "for_each_reverse (end_extension env) (mg_extensions m, mg_shared m)")
  obtain ys t where u: "for_each_reverse (unload_extension env) (xs, s) = (ys, t)"
    by (cases "for_each_reverse (unload_extension env) (xs, s)")
  have 1: "list_all2 (becomes ended) (mg_extensions m) xs \<and> safe_world s"
    using assms by (intro end_all_keeps [OF e]) (simp_all add: manager_ok_def safe_world_def)
  then have "list_all asserts_hold xs" by (auto simp: list_all2_conv_all_nth list_all_length becomes_def)
  with 1 have 2: "list_all2 (becomes terminated) xs ys \<and> safe_world t"
    by (intro for_each_reverse_keeps [OF _ u, of asserts_hold]) (auto dest: unload_extension_keeps)
  have "list_all2 (becomes (terminated \<circ> ended)) (mg_extensions m) ys"
    by (rule list_all2_trans [OF becomes_trans conjunct1 [OF 1] conjunct1 [OF 2]])
  with 2 e u assms(2) show ?thesis by (simp add: terminate_def safe_world_def)
qed

lemma terminate_keeps_ok: "manager_ok m \<Longrightarrow> manager_ok (terminate env m)"
proof (cases "mg_initialized m")
  case True
  assume ok: "manager_ok m"
  note t = terminate_effect [OF ok True, of env]
  then have "map ex_id (mg_extensions (terminate env m)) = map ex_id (mg_extensions m)"
    by (auto simp: list_all2_conv_all_nth becomes_def intro!: nth_equalityI)
  moreover have "list_all asserts_hold (mg_extensions (terminate env m))"
    using t by (auto simp: list_all2_conv_all_nth list_all_length becomes_def)
  ultimately show ?thesis using t ok by (simp add: manager_ok_def)
qed (simp add: terminate_def)

section \<open>Every run\<close>

text \<open>The calls a host makes on a manager, in any order; the world may answer differently each time.\<close>

inductive manager_step :: "environment \<Rightarrow> inputs \<Rightarrow> host \<Rightarrow> config \<Rightarrow> manager \<Rightarrow> manager \<Rightarrow> bool"
  for env inp ho cfg where
  initializes: "initialize env inp ho cfg m = Some (r, m') \<Longrightarrow> manager_step env inp ho cfg m m'"
| updates: "manager_step env inp ho cfg m (update env ho dt m)"
| terminates: "manager_step env inp ho cfg m (terminate env m)"

lemma reachable_ok:
  assumes "(manager_step env inp ho cfg)\<^sup>*\<^sup>* (new_manager reg rs) m"
    "permutes (in_items_order inp)" "\<And>n. set (ho_schedule ho n) \<subseteq> {0..<n}"
  shows "manager_ok m"
  using assms(1)
proof induction
  case base
  show ?case by (simp add: manager_ok_def new_manager_def world_start_def null_free_def)
next
  case (step m m')
  from step(2,3) show ?case
    by cases (auto intro: initialize_keeps_ok [OF assms(2,3)] update_keeps_ok terminate_keeps_ok)
qed

text \<open>C8: \<open>manager_ok\<close> is an invariant. In every run of a manager, whatever the file system, the solver, the language modules and the
  observers answer and in whatever order it is initialized, updated and terminated: no state change
  of an extension is one that \<open>SetState\<close> asserts against, no call goes through a null pointer to a
  language module, and no two extensions have the same identifier.\<close>

theorem manager_safe:
  assumes "(manager_step env inp ho cfg)\<^sup>*\<^sup>* (new_manager reg rs) m"
    "permutes (in_items_order inp)" "\<And>n. set (ho_schedule ho n) \<subseteq> {0..<n}"
  shows "manager_ok m \<and> list_all asserts_hold (mg_extensions m) \<and> Null_call \<notin> set (w_trace (sh_world (mg_shared m))) \<and>
    distinct (map ex_id (mg_extensions m))"
proof -
  from reachable_ok [OF assms] show ?thesis by (auto simp: manager_ok_def null_free_def)
qed

lemma sample_initializes: "\<exists>r m. initialize sample_env sample_inputs sample_host sample_config (new_manager Map.empty resolver_new) = Some (r, m)"
  by (simp add: initialize_def sample_discovered new_manager_def Let_def split: prod.split)

lemma sample_permutes: "permutes (in_items_order sample_inputs)" "set (ho_schedule sample_host n) \<subseteq> {0..<n}"
  by (simp_all add: permutes_def sample_inputs_def sample_host_def)

lemma manager_safe_witness:
  "\<exists>r m. initialize sample_env sample_inputs sample_host sample_config (new_manager Map.empty resolver_new) = Some (r, m) \<and>
     list_all asserts_hold (mg_extensions (terminate sample_env (update sample_env sample_host 16 m)))"
proof -
  let ?step = "manager_step sample_env sample_inputs sample_host sample_config"
  obtain r m where i: "initialize sample_env sample_inputs sample_host sample_config (new_manager Map.empty resolver_new) = Some (r, m)"
    using sample_initializes by blast
  let ?m2 = "update sample_env sample_host 16 m"
  have "?step (new_manager Map.empty resolver_new) m" "?step m ?m2" "?step ?m2 (terminate sample_env ?m2)"
    using i by (auto intro: manager_step.intros)
  then have "?step\<^sup>*\<^sup>* (new_manager Map.empty resolver_new) (terminate sample_env ?m2)" by auto
  from manager_safe [OF this sample_permutes] i show ?thesis by blast
qed

section \<open>The order of termination\<close>

















text \<open>A manager with a module and a plugin that run.\<close>

definition running_manager :: manager where
  "running_manager = \<lparr>mg_extensions = [sample_module\<lparr>ex_state := Running, ex_language_module := Some 1\<rparr>,
       sample_plugin\<lparr>ex_state := Running, ex_language_module := Some 1, ex_method_table := all_methods\<rparr>],
     mg_initialized = True, mg_shared = sample_shared\<rparr>"

lemma running_manager_ok: "manager_ok running_manager"
  by (simp add: manager_ok_def running_manager_def sample_shared_def world_start_def null_free_def good_def
      asserts_hold_def table_backed_def sample_module_def sample_plugin_def new_extension_def)


text \<open>C12: Termination of an initialized manager leaves every extension that was running, or already ended,
  in the state \<open>Terminated\<close> and every other extension in its state, in the same order and with the
  same identifiers; the manager is then not initialized, so a second call does nothing.\<close>

theorem terminate_correct:
  assumes "manager_ok m" "mg_initialized m"
  shows "map (\<lambda>e. (ex_id e, ex_state e)) (mg_extensions (terminate env m)) =
      map (\<lambda>e. (ex_id e, if ex_state e \<in> {Running, Ended} then Terminated else ex_state e)) (mg_extensions m) \<and>
    \<not> mg_initialized (terminate env m) \<and> terminate env (terminate env m) = terminate env m"
proof -
  note t = terminate_effect [OF assms, of env]
  have "(ex_id e', ex_state e') = (ex_id e, if ex_state e \<in> {Running, Ended} then Terminated else ex_state e)"
    if "becomes (terminated \<circ> ended) e e'" for e e'
    using that by (auto simp: becomes_def ended_def terminated_def)
  with t show ?thesis
    by (auto simp: list_all2_conv_all_nth terminate_def [of env "terminate env m"] intro!: nth_equalityI)
qed

lemma terminate_correct_witness:
  "map (\<lambda>e. (ex_id e, ex_state e)) (mg_extensions (terminate sample_env running_manager)) = [(1, Terminated), (3, Terminated)]"
  using terminate_correct [OF running_manager_ok, of sample_env]
  by (simp add: running_manager_def sample_module_def sample_plugin_def new_extension_def)

text \<open>C30: If \<open>Initialize\<close> reports an error then the manager is not initialized, even where some of its
  extensions run: from then on \<open>Update\<close>, \<open>Terminate\<close> and the destructor call none of them, so a language
  module that was loaded is never shut down.\<close>

theorem failed_initialize_abandons:
  assumes "initialize env inp ho cfg m = Some (Inl err, m')" "\<not> mg_initialized m"
  shows "update env2 ho2 dt m' = m' \<and> terminate env2 m' = m' \<and> w_trace (destroy_manager env2 m') = w_trace (sh_world (mg_shared m'))"
proof -
  have "\<not> mg_initialized m'" using assms by (auto simp: initialize_def Let_def split: option.splits prod.splits if_splits)
  then show ?thesis by (simp add: update_def terminate_def destroy_manager_def fresh_shared_def)
qed

text \<open>A file system on which no manifest can be read.\<close>

definition unreadable :: inputs where
  "unreadable = sample_inputs\<lparr>in_read := (\<lambda>p. Inl ''denied'')\<rparr>"

lemma unreadable_fails:
  "\<exists>err m. initialize sample_env unreadable sample_host sample_config (new_manager Map.empty resolver_new) = Some (Inl err, m)"
proof -
  have "case initialize sample_env unreadable sample_host sample_config (new_manager Map.empty resolver_new) of
     Some (Inl err, m) \<Rightarrow> True | _ \<Rightarrow> False" by code_simp
  then show ?thesis by (auto split: option.splits prod.splits sum.splits)
qed

lemma failed_initialize_abandons_witness:
  "\<exists>err m. initialize sample_env unreadable sample_host sample_config (new_manager Map.empty resolver_new) = Some (Inl err, m) \<and>
     terminate sample_env m = m"
proof -
  obtain err m where i: "initialize sample_env unreadable sample_host sample_config (new_manager Map.empty resolver_new) = Some (Inl err, m)"
    using unreadable_fails by blast
  have "\<not> mg_initialized (new_manager Map.empty resolver_new)" by (simp add: new_manager_def)
  from failed_initialize_abandons [OF i this] i show ?thesis by blast
qed

end
