(* ===== verification/Progress.thy ===== *)
theory Progress
  imports Manager_Correct
begin

text \<open>
  What an initialization without errors has achieved: every stage that reports no failure takes
  all its items on to the next state, so that in the end every extension runs, unless the policy
  excluded it or it could not be resolved.
\<close>

section \<open>Stages without failures\<close>











section \<open>The stages of the manager\<close>

















section \<open>A successful initialization\<close>




end
