(* ===== verification/Services.thy ===== *)
theory Services
  imports Prelude "HOL-Library.AList"
begin

text \<open>
  The service locator (src/core/service_locator.cpp, include/plugify/service_locator.hpp).

  A service type is its name, an instance a shared pointer that may be null. The scopes are
  thread-local but static, so all locators of a thread share them: they are a component of the
  thread's state and not of the locator. The factories are the host's: one is called with the
  number of calls made so far, so that it can make a new object every time.

  Every factory is called while the mutex is held. A factory that resolves its dependencies
  (\<open>RegisterWithDependencies\<close>) locks the mutex again in the same thread, which the standard
  excludes in the preconditions of \<open>lock\<close> and \<open>lock_shared\<close>: the answer is \<open>Undefined\<close>.
\<close>

section \<open>Answers and state\<close>

text \<open>An exception that leaves a \<open>noexcept\<close> function ends the program (\<open>Aborts\<close>).\<close>

datatype 'a answer = Value 'a | Throws string | Aborts | Undefined

datatype service_lifetime = Transient | Scoped | Singleton

type_synonym service_type = string

type_synonym service_instance = "nat option"

record factory =
  fa_needs :: "service_type list"
  fa_make :: "nat \<Rightarrow> service_instance answer"

record descriptor =
  sd_factory :: factory
  sd_lifetime :: service_lifetime
  sd_singleton :: service_instance

type_synonym locator = "(service_type \<times> descriptor) list"

record scope_state =
  th_scopes :: "(service_type \<times> service_instance) list list"
  th_calls :: nat

definition new_locator :: locator where
  "new_locator = []"

definition new_scopes :: scope_state where
  "new_scopes = \<lparr>th_scopes = [], th_calls = 0\<rparr>"

text \<open>A factory is called with the mutex held.\<close>

definition call_factory :: "factory \<Rightarrow> scope_state \<Rightarrow> service_instance answer \<times> scope_state" where
  "call_factory f th = (case fa_needs f of
     [] \<Rightarrow> (fa_make f (th_calls th), th\<lparr>th_calls := Suc (th_calls th)\<rparr>)
   | t # ts \<Rightarrow> (Undefined, th))"

section \<open>Registration\<close>

definition register_instance :: "service_type \<Rightarrow> service_instance \<Rightarrow> locator \<Rightarrow> locator answer" where
  "register_instance t i lc = (case i of
     None \<Rightarrow> Throws (''RegisterInstance: null instance for type '' @ quoted t)
   | Some x \<Rightarrow> Value (AList.update t \<lparr>sd_factory = \<lparr>fa_needs = [], fa_make = (\<lambda>n. Value i)\<rparr>,
       sd_lifetime = Singleton, sd_singleton = i\<rparr> lc))"

definition register_factory ::
    "service_type \<Rightarrow> factory option \<Rightarrow> service_lifetime \<Rightarrow> locator \<times> scope_state \<Rightarrow> locator answer \<times> scope_state" where
  "register_factory t f life = (\<lambda>(lc, th). case f of
     None \<Rightarrow> (Throws (''RegisterFactory: null factory for type '' @ quoted t), th)
   | Some f \<Rightarrow>
       let d = \<lparr>sd_factory = f, sd_lifetime = life, sd_singleton = None\<rparr> in
       if life = Singleton then
         (case call_factory f th of
           (Value i, th) \<Rightarrow> (Value (AList.update t (d\<lparr>sd_singleton := i\<rparr>) lc), th)
         | (Throws e, th) \<Rightarrow> (Throws e, th)
         | (Aborts, th) \<Rightarrow> (Aborts, th)
         | (Undefined, th) \<Rightarrow> (Undefined, th))
       else (Value (AList.update t d lc), th))"

definition is_registered :: "service_type \<Rightarrow> locator \<Rightarrow> bool" where
  "is_registered t lc \<longleftrightarrow> map_of lc t \<noteq> None"

definition register_instance_if_missing :: "service_type \<Rightarrow> service_instance \<Rightarrow> locator \<Rightarrow> locator answer" where
  "register_instance_if_missing t i lc = (if is_registered t lc then Value lc else register_instance t i lc)"

definition register_factory_if_missing ::
    "service_type \<Rightarrow> factory option \<Rightarrow> service_lifetime \<Rightarrow> locator \<times> scope_state \<Rightarrow> locator answer \<times> scope_state" where
  "register_factory_if_missing t f life = (\<lambda>(lc, th).
     if is_registered t lc then (Value lc, th) else register_factory t f life (lc, th))"

text \<open>\<open>RegisterWithDependencies\<close>: the constructor is called with the resolved dependencies.\<close>

definition register_with_dependencies ::
    "service_type \<Rightarrow> service_type list \<Rightarrow> (nat \<Rightarrow> service_instance answer) \<Rightarrow> service_lifetime \<Rightarrow>
      locator \<times> scope_state \<Rightarrow> locator answer \<times> scope_state" where
  "register_with_dependencies t needs ctor life x =
     register_factory t (Some \<lparr>fa_needs = needs, fa_make = ctor\<rparr>) life x"

section \<open>Resolution\<close>

text \<open>\<open>ResolveInternal\<close>, which is \<open>noexcept\<close>: the inner sum is its \<open>Result\<close>.\<close>

definition resolve_internal ::
    "service_type \<Rightarrow> locator \<times> scope_state \<Rightarrow> service_instance result answer \<times> scope_state" where
  "resolve_internal t = (\<lambda>(lc, th). case map_of lc t of
     None \<Rightarrow> (Value (Inl (''Service not registered: '' @ t)), th)
   | Some d \<Rightarrow> (case sd_lifetime d of
       Singleton \<Rightarrow> (Value (Inr (sd_singleton d)), th)
     | Transient \<Rightarrow> (case call_factory (sd_factory d) th of
         (Value i, th) \<Rightarrow> (Value (Inr i), th)
       | (Throws e, th) \<Rightarrow> (Aborts, th) | (Aborts, th) \<Rightarrow> (Aborts, th) | (Undefined, th) \<Rightarrow> (Undefined, th))
     | Scoped \<Rightarrow>
         if th_scopes th = [] then (Value (Inl (''Scoped service: '' @ t @ '' resolved outside of a scope'')), th)
         else
           (case map_of (last (th_scopes th)) t of
             Some i \<Rightarrow> (Value (Inr i), th)
           | None \<Rightarrow> (case call_factory (sd_factory d) th of
               (Value i, th) \<Rightarrow> (Value (Inr i), th\<lparr>th_scopes :=
                  butlast (th_scopes th) @ [AList.update t i (last (th_scopes th))]\<rparr>)
             | (Throws e, th) \<Rightarrow> (Aborts, th) | (Aborts, th) \<Rightarrow> (Aborts, th) | (Undefined, th) \<Rightarrow> (Undefined, th)))))"

definition resolve_service :: "service_type \<Rightarrow> locator \<times> scope_state \<Rightarrow> service_instance answer \<times> scope_state" where
  "resolve_service t x = (case resolve_internal t x of
     (Value (Inl e), th) \<Rightarrow> (Throws e, th)
   | (Value (Inr i), th) \<Rightarrow> (Value i, th)
   | (Throws e, th) \<Rightarrow> (Throws e, th) | (Aborts, th) \<Rightarrow> (Aborts, th) | (Undefined, th) \<Rightarrow> (Undefined, th))"

definition try_resolve :: "service_type \<Rightarrow> locator \<times> scope_state \<Rightarrow> service_instance answer \<times> scope_state" where
  "try_resolve t x = (case resolve_internal t x of
     (Value (Inl e), th) \<Rightarrow> (Value None, th)
   | (Value (Inr i), th) \<Rightarrow> (Value i, th)
   | (Throws e, th) \<Rightarrow> (Aborts, th) | (Aborts, th) \<Rightarrow> (Aborts, th) | (Undefined, th) \<Rightarrow> (Undefined, th))"

section \<open>Scopes\<close>

definition begin_scope :: "scope_state \<Rightarrow> scope_state" where
  "begin_scope th = th\<lparr>th_scopes := th_scopes th @ [[]]\<rparr>"


definition clear_services :: "locator \<times> scope_state \<Rightarrow> locator \<times> scope_state" where
  "clear_services = (\<lambda>(lc, th). ([], th\<lparr>th_scopes := []\<rparr>))"

definition service_count :: "locator \<Rightarrow> nat" where
  "service_count lc = length lc"

section \<open>The contract of a store of services\<close>

text \<open>
  What the rest of the program needs of the locator: a registered instance is found again, and
  registering one type does not change what another resolves to.
\<close>

locale service_store =
  fixes put :: "'k \<Rightarrow> 'v \<Rightarrow> 's \<Rightarrow> 's"
    and get :: "'s \<Rightarrow> 'k \<Rightarrow> 'v option"
  assumes get_put: "get (put k v s) j = (if j = k then Some v else get s j)"
begin

definition put_missing :: "'k \<Rightarrow> 'v \<Rightarrow> 's \<Rightarrow> 's" where
  "put_missing k v s = (if get s k = None then put k v s else s)"

lemma get_put_missing: "get (put_missing k v s) j = (case get s j of Some x \<Rightarrow> Some x | None \<Rightarrow> if j = k then Some v else None)"
  by (auto simp: put_missing_def get_put split: option.split)

lemma get_defaults:
  "get (fold (\<lambda>(k, v). put_missing k v) kvs s) j = (case get s j of Some x \<Rightarrow> Some x | None \<Rightarrow> map_of kvs j)"
proof (induction kvs arbitrary: s)
  case (Cons kv kvs)
  obtain k v where "kv = (k, v)" by (cases kv)
  with Cons.IH [of "put_missing k v s"] show ?case by (auto simp: get_put_missing split: option.splits)
qed (simp split: option.split)

end

definition instance_descriptor :: "nat \<Rightarrow> descriptor" where
  "instance_descriptor i = \<lparr>sd_factory = \<lparr>fa_needs = [], fa_make = (\<lambda>n. Value (Some i))\<rparr>, sd_lifetime = Singleton,
     sd_singleton = Some i\<rparr>"

interpretation services: service_store AList.update map_of
  by unfold_locales (simp add: update_conv')

lemma register_instance_some:
  "register_instance t (Some i) lc = Value (AList.update t (instance_descriptor i) lc)"
  by (simp add: register_instance_def instance_descriptor_def)

lemma register_if_missing_some:
  "register_instance_if_missing t (Some i) lc = Value (services.put_missing t (instance_descriptor i) lc)"
  by (simp add: register_instance_if_missing_def is_registered_def services.put_missing_def register_instance_some)

lemma resolve_registered:
  "map_of lc t = Some (instance_descriptor i) \<Longrightarrow> resolve_service t (lc, th) = (Value (Some i), th)"
  by (simp add: resolve_service_def resolve_internal_def instance_descriptor_def)

section \<open>Properties\<close>

text \<open>A factory that makes a new object every time.\<close>

definition fresh_factory :: factory where
  "fresh_factory = \<lparr>fa_needs = [], fa_make = (\<lambda>n. Value (Some n))\<rparr>"


definition scoped_locator :: locator where
  "scoped_locator = [(''logger'', \<lparr>sd_factory = fresh_factory, sd_lifetime = Scoped, sd_singleton = None\<rparr>)]"


text \<open>The scopes of a thread belong to no locator: a locator whose scope was opened returns the object
  that another locator made for the same type, whatever its own factory is, and clearing one locator
  ends the scopes that were opened for another.\<close>

lemma scopes_shared_between_locators:
  assumes "map_of lc1 t = Some d1" "sd_lifetime d1 = Scoped" "map_of lc2 t = Some d2" "sd_lifetime d2 = Scoped"
    "th_scopes th \<noteq> []" "resolve_service t (lc1, th) = (Value i, th')"
  shows "resolve_service t (lc2, th') = (Value i, th') \<and>
    fst (resolve_service t (lc2, snd (clear_services (lc1, th')))) =
      Throws (''Scoped service: '' @ t @ '' resolved outside of a scope'')"
proof -
  have "th_scopes th' \<noteq> [] \<and> map_of (last (th_scopes th')) t = Some i"
    using assms(1,2,5,6)
    by (auto simp: resolve_service_def resolve_internal_def call_factory_def update_conv'
        split: option.splits list.splits answer.splits)
  with assms(3,4) show ?thesis
    by (auto simp: resolve_service_def resolve_internal_def clear_services_def)
qed

lemma scopes_shared_between_locators_witness:
  "resolve_service ''logger'' ([(''logger'', (instance_descriptor 7)\<lparr>sd_lifetime := Scoped\<rparr>)],
     snd (resolve_service ''logger'' (scoped_locator, begin_scope new_scopes))) =
   (Value (Some 0), snd (resolve_service ''logger'' (scoped_locator, begin_scope new_scopes)))"
proof -
  let ?r = "resolve_service ''logger'' (scoped_locator, begin_scope new_scopes)"
  have "?r = (Value (Some 0), snd ?r)"
    by (simp add: resolve_service_def resolve_internal_def scoped_locator_def begin_scope_def new_scopes_def call_factory_def fresh_factory_def)
  from scopes_shared_between_locators [OF _ _ _ _ _ this, where ?d1.0 = "\<lparr>sd_factory = fresh_factory, sd_lifetime = Scoped, sd_singleton = None\<rparr>"
      and ?d2.0 = "(instance_descriptor 7)\<lparr>sd_lifetime := Scoped\<rparr>" and ?lc2.0 = "[(''logger'', (instance_descriptor 7)\<lparr>sd_lifetime := Scoped\<rparr>)]"]
  show ?thesis by (simp add: scoped_locator_def begin_scope_def new_scopes_def)
qed

text \<open>A service registered with at least one dependency can never be resolved within the rules of the
  standard: its factory asks the locator for the dependency while the locator's mutex is held by
  the same thread, at registration when it is a singleton and at the first request otherwise.\<close>

lemma dependencies_lock_twice:
  assumes "register_with_dependencies t (n # needs) ctor life (lc, th) = (r, th')"
  shows "if life = Singleton then r = Undefined
    else \<exists>lc'. r = Value lc' \<and> (life = Transient \<or> th_scopes th \<noteq> [] \<and> map_of (last (th_scopes th)) t = None \<longrightarrow>
      fst (resolve_service t (lc', th')) = Undefined)"
  using assms
  by (cases life) (auto simp: register_with_dependencies_def register_factory_def call_factory_def resolve_service_def
      resolve_internal_def update_conv')

lemma dependencies_lock_twice_witness:
  "fst (register_with_dependencies ''loader'' [''fs''] (\<lambda>n. Value (Some n)) Singleton (new_locator, new_scopes)) = Undefined"
proof -
  obtain r th where r: "register_with_dependencies ''loader'' [''fs''] (\<lambda>n. Value (Some n)) Singleton (new_locator, new_scopes) = (r, th)"
    by (cases "register_with_dependencies ''loader'' [''fs''] (\<lambda>n. Value (Some n)) Singleton (new_locator, new_scopes)")
  from dependencies_lock_twice [OF r] show ?thesis unfolding r by simp
qed

end
