(* ===== verification/Plugify.thy ===== *)
theory Plugify
  imports Manager Services
begin

text \<open>
  The context that owns the services, the configuration and the manager, and its builder
  (src/core/plugify.cpp). The logger and the file system write to the same history as the
  manager does. Threads are numbers; the readings of the steady clock are arguments.
\<close>

section \<open>State\<close>

record plugify =
  pf_services :: locator
  pf_config :: config
  pf_manager :: manager
  pf_version :: version
  pf_log_level :: severity
  pf_initialized :: bool
  pf_owner :: nat
  pf_last_update :: int

text \<open>The directories of the operating system after a history of calls.\<close>

record disk =
  dk_exists :: "event list \<Rightarrow> path \<Rightarrow> bool"
  dk_create :: "event list \<Rightarrow> path \<Rightarrow> unit result"

definition log_plugify :: "string \<Rightarrow> severity \<Rightarrow> plugify \<Rightarrow> plugify" where
  "log_plugify msg sev p = p\<lparr>pf_manager := (pf_manager p)\<lparr>mg_shared := log_line msg sev (mg_shared (pf_manager p))\<rparr>\<rparr>"

definition record_event :: "event \<Rightarrow> plugify \<Rightarrow> plugify" where
  "record_event ev p = p\<lparr>pf_manager := (pf_manager p)\<lparr>mg_shared := (mg_shared (pf_manager p))\<lparr>sh_world :=
     emit ev (sh_world (mg_shared (pf_manager p)))\<rparr>\<rparr>\<rparr>"

definition pf_history :: "plugify \<Rightarrow> event list" where
  "pf_history p = w_trace (sh_world (mg_shared (pf_manager p)))"

section \<open>Checking the directories\<close>

record path_check =
  pc_name :: string
  pc_path :: path
  pc_require_exists :: bool
  pc_require_relative :: bool
  pc_can_create :: bool

definition path_checks :: "paths \<Rightarrow> path_check list" where
  "path_checks ps =
     [\<lparr>pc_name = ''baseDir'', pc_path = base_dir ps, pc_require_exists = True, pc_require_relative = False, pc_can_create = False\<rparr>,
      \<lparr>pc_name = ''extensionsDir'', pc_path = extensions_dir ps, pc_require_exists = False, pc_require_relative = False, pc_can_create = True\<rparr>,
      \<lparr>pc_name = ''configsDir'', pc_path = configs_dir ps, pc_require_exists = False, pc_require_relative = False, pc_can_create = True\<rparr>,
      \<lparr>pc_name = ''dataDir'', pc_path = data_dir ps, pc_require_exists = False, pc_require_relative = False, pc_can_create = True\<rparr>,
      \<lparr>pc_name = ''logsDir'', pc_path = logs_dir ps, pc_require_exists = False, pc_require_relative = False, pc_can_create = True\<rparr>,
      \<lparr>pc_name = ''cacheDir'', pc_path = cache_dir ps, pc_require_exists = False, pc_require_relative = False, pc_can_create = True\<rparr>]"

text \<open>The errors and the warnings of one directory.\<close>

definition check_path :: "(path \<Rightarrow> bool) \<Rightarrow> path_check \<Rightarrow> string list \<times> string list" where
  "check_path exists c =
     (let p = pc_path c; nm = pc_name c in
      if p = [] then ([nm @ '' is not configured''], [])
      else if \<not> path_eq (path_normal p) p then ([nm @ '' is not normalized: '' @ quoted p], [])
      else if pc_require_relative c \<and> path_is_absolute p then ([nm @ '' must be relative: '' @ quoted p], [])
      else if pc_require_exists c \<and> \<not> exists p then ([nm @ '' does not exist: '' @ quoted p], [])
      else if \<not> exists p \<and> pc_can_create c then ([], [nm @ '' will be created: '' @ quoted p])
      else ([], []))"

fun mismatch :: "'a list \<Rightarrow> 'a list \<Rightarrow> 'a list \<times> 'a list" where
  "mismatch (x # xs) (y # ys) = (if x = y then mismatch xs ys else (x # xs, y # ys))"
| "mismatch xs ys = (xs, ys)"

text \<open>One path is the other, or a directory above it.\<close>

definition nested_paths :: "path \<Rightarrow> path \<Rightarrow> bool" where
  "nested_paths p q = (case mismatch (path_elements p) (path_elements q) of (r, s) \<Rightarrow> r = [] \<or> s = [])"

definition conflict_error :: "path_check \<Rightarrow> path_check \<Rightarrow> string list" where
  "conflict_error a b = (if pc_path b = [] then []
     else if nested_paths (pc_path a) (pc_path b)
     then [pc_name a @ '' ('' @ quoted (pc_path a) @ '') conflicts with '' @ pc_name b @ '' ('' @ quoted (pc_path b) @ '')'']
     else [])"

fun conflict_errors :: "path_check list \<Rightarrow> string list" where
  "conflict_errors [] = []"
| "conflict_errors (c # cs) =
     (if pc_path c = [] then [] else concat (map (conflict_error c) cs)) @ conflict_errors cs"

definition directory_errors :: "(path \<Rightarrow> bool) \<Rightarrow> paths \<Rightarrow> string list" where
  "directory_errors exists ps = concat (map (fst \<circ> check_path exists) (path_checks ps)) @ conflict_errors (tl (path_checks ps))"

definition directory_warnings :: "(path \<Rightarrow> bool) \<Rightarrow> paths \<Rightarrow> string list" where
  "directory_warnings exists ps = concat (map (snd \<circ> check_path exists) (path_checks ps))"

definition check_directories :: "disk \<Rightarrow> plugify \<Rightarrow> bool \<times> plugify" where
  "check_directories dk p =
     (let exists = dk_exists dk (pf_history p); ps = cfg_paths (pf_config p);
          errors = directory_errors exists ps; warnings = directory_warnings exists ps;
          p = (if warnings \<noteq> [] then log_plugify (''Warnings: '' @ join_strings ''; '' warnings) Warning p else p);
          p = (if errors \<noteq> [] then log_plugify (''Validation failed: '' @ join_strings ''; '' errors) Error p else p)
      in (errors = [], p))"

section \<open>Creating the directories\<close>

definition create_dir :: "disk \<Rightarrow> path \<Rightarrow> plugify \<Rightarrow> plugify" where
  "create_dir dk d p =
     (if d \<noteq> [] \<and> \<not> dk_exists dk (pf_history p) d
      then (case dk_create dk (pf_history p) d of
          Inl e \<Rightarrow> log_plugify e Error (record_event (Create_directory d) p)
        | Inr u \<Rightarrow> log_plugify (''Created directory: '' @ d) Info (record_event (Create_directory d) p))
      else p)"

definition create_directories :: "disk \<Rightarrow> plugify \<Rightarrow> bool \<times> plugify" where
  "create_directories dk p = (case check_directories dk p of
     (False, p) \<Rightarrow> (False, p)
   | (True, p) \<Rightarrow>
       let ps = cfg_paths (pf_config p) in
       (True, create_dir dk (cache_dir ps) (create_dir dk (logs_dir ps) (create_dir dk (data_dir ps)
         (create_dir dk (configs_dir ps) (create_dir dk (extensions_dir ps) p))))))"

section \<open>Initialize, Update and Terminate\<close>

definition initialize_plugify :: "disk \<Rightarrow> nat \<Rightarrow> plugify \<Rightarrow> unit result \<times> plugify" where
  "initialize_plugify dk thread p =
     (if thread \<noteq> pf_owner p then (Inl ''Initialization must be called from owner thread'', p)
      else if pf_initialized p then (Inl ''Already initialized'', p)
      else (case create_directories dk (log_plugify ''Initializing Plugify...'' Info p) of
          (False, p) \<Rightarrow> (Inl ''Failed to create directories'', p)
        | (True, p) \<Rightarrow>
            let p = log_plugify (''Version: '' @ version_to_string (pf_version p)) Info
                      (log_plugify ''Plugify initialized successfully'' Info p)
            in (Inr (), p\<lparr>pf_initialized := True\<rparr>)))"

definition terminate_plugify :: "environment \<Rightarrow> nat \<Rightarrow> plugify \<Rightarrow> plugify answer" where
  "terminate_plugify env thread p =
     (if thread \<noteq> pf_owner p then Throws ''Termination must be called from owner thread''
      else if \<not> pf_initialized p then Value p
      else
        let p = log_plugify ''Terminating Plugify...'' Info p;
            p = p\<lparr>pf_manager := terminate env (pf_manager p)\<rparr>;
            p = record_event Flush_log (log_plugify ''Plugify terminated'' Info p)
        in Value (p\<lparr>pf_initialized := False\<rparr>))"

definition update_plugify :: "environment \<Rightarrow> host \<Rightarrow> nat \<Rightarrow> int \<Rightarrow> int \<Rightarrow> plugify \<Rightarrow> plugify answer" where
  "update_plugify env ho thread now dt p =
     (if thread \<noteq> pf_owner p then Throws ''Update must be called from owner thread''
      else if \<not> pf_initialized p then Value p
      else
        let (dt, last_update) = (if dt = 0 then (to_milliseconds (now - pf_last_update p), now)
              else (dt, pf_last_update p))
        in Value (p\<lparr>pf_manager := update env ho dt (pf_manager p), pf_last_update := last_update\<rparr>))"

text \<open>The destructor is \<open>noexcept\<close>; the manager is destroyed after its body.\<close>

definition destroy_plugify :: "environment \<Rightarrow> nat \<Rightarrow> plugify \<Rightarrow> world answer" where
  "destroy_plugify env thread p =
     (case (if pf_initialized p then terminate_plugify env thread p else Value p) of
        Value p \<Rightarrow> Value (destroy_manager env (pf_manager p))
      | Throws e \<Rightarrow> Aborts | Aborts \<Rightarrow> Aborts | Undefined \<Rightarrow> Undefined)"

section \<open>The builder\<close>

record builder =
  bd_services :: locator
  bd_base :: config
  bd_overrides :: config
  bd_file :: "path option"
  bd_has_base :: bool
  bd_has_base_dir :: bool
  bd_has_paths :: bool

definition create_builder :: "bool \<Rightarrow> builder" where
  "create_builder debug_build = \<lparr>bd_services = new_locator, bd_base = config_default debug_build,
     bd_overrides = config_default debug_build, bd_file = None, bd_has_base = False, bd_has_base_dir = False,
     bd_has_paths = False\<rparr>"

definition with_base_dir :: "path \<Rightarrow> builder \<Rightarrow> builder" where
  "with_base_dir d b = b\<lparr>bd_overrides := (bd_overrides b)\<lparr>cfg_paths := (cfg_paths (bd_overrides b))\<lparr>base_dir := d\<rparr>\<rparr>,
     bd_has_base_dir := True\<rparr>"

definition with_paths :: "paths \<Rightarrow> builder \<Rightarrow> builder" where
  "with_paths ps b = b\<lparr>bd_overrides := (bd_overrides b)\<lparr>cfg_paths := ps\<rparr>, bd_has_paths := True\<rparr>"

definition with_config_file :: "path \<Rightarrow> builder \<Rightarrow> builder" where
  "with_config_file p b = b\<lparr>bd_file := Some p\<rparr>"

definition with_config :: "config \<Rightarrow> builder \<Rightarrow> builder" where
  "with_config c b = b\<lparr>bd_base := c, bd_has_base := True\<rparr>"

text \<open>The services the builder and the objects it makes ask for.\<close>

definition logger_type :: service_type where "logger_type = ''ILogger''"
definition profiler_type :: service_type where "profiler_type = ''IProfiler''"
definition file_system_type :: service_type where "file_system_type = ''IFileSystem''"
definition platform_type :: service_type where "platform_type = ''IPlatformOps''"
definition assembly_loader_type :: service_type where "assembly_loader_type = ''IAssemblyLoader''"
definition resolver_type :: service_type where "resolver_type = ''IDependencyResolver''"
definition lifecycle_type :: service_type where "lifecycle_type = ''IExtensionLifecycle''"

lemmas service_types = logger_type_def profiler_type_def file_system_type_def platform_type_def
  assembly_loader_type_def resolver_type_def lifecycle_type_def

definition bind_answer :: "'a answer \<Rightarrow> ('a \<Rightarrow> 'b answer) \<Rightarrow> 'b answer" where
  "bind_answer a f = (case a of Value x \<Rightarrow> f x | Throws e \<Rightarrow> Throws e | Aborts \<Rightarrow> Aborts | Undefined \<Rightarrow> Undefined)"

lemma bind_answer_simps [simp]:
  "bind_answer (Value x) f = f x" "bind_answer (Throws e) f = Throws e"
  "bind_answer Aborts f = Aborts" "bind_answer Undefined f = Undefined"
  by (simp_all add: bind_answer_def)

text \<open>\<open>WithProfiler\<close>, \<open>WithFileSystem\<close> and the others ignore a null pointer; \<open>WithLogger\<close> also takes the
  level of the logger.\<close>

definition with_service :: "service_type \<Rightarrow> service_instance \<Rightarrow> builder \<Rightarrow> builder answer" where
  "with_service t i b = (case i of
     None \<Rightarrow> Value b
   | Some x \<Rightarrow> bind_answer (register_instance t i (bd_services b)) (\<lambda>lc. Value (b\<lparr>bd_services := lc\<rparr>)))"

definition with_logger :: "service_instance \<Rightarrow> severity \<Rightarrow> builder \<Rightarrow> builder answer" where
  "with_logger i level b = (case i of
     None \<Rightarrow> Value b
   | Some x \<Rightarrow> with_service logger_type i (b\<lparr>bd_overrides := (bd_overrides b)\<lparr>cfg_logging :=
       (cfg_logging (bd_overrides b))\<lparr>lg_severity := level\<rparr>\<rparr>\<rparr>))"

text \<open>\<open>WithDefaults\<close>: \<open>mk\<close> makes the default object of a type. The arguments of the calls, with the
  services they resolve, are evaluated whether the type is missing or not.\<close>

definition with_defaults :: "(service_type \<Rightarrow> nat) \<Rightarrow> builder \<Rightarrow> builder answer" where
  "with_defaults mk b =
     (let th = new_scopes in
      bind_answer (register_instance_if_missing logger_type (Some (mk logger_type)) (bd_services b)) (\<lambda>lc.
      bind_answer (register_instance_if_missing platform_type (Some (mk platform_type)) lc) (\<lambda>lc.
      bind_answer (register_instance_if_missing file_system_type (Some (mk file_system_type)) lc) (\<lambda>lc.
      bind_answer (fst (resolve_service platform_type (lc, th))) (\<lambda>_.
      bind_answer (fst (resolve_service file_system_type (lc, th))) (\<lambda>_.
      bind_answer (register_instance_if_missing assembly_loader_type (Some (mk assembly_loader_type)) lc) (\<lambda>lc.
      bind_answer (fst (resolve_service logger_type (lc, th))) (\<lambda>_.
      bind_answer (register_instance_if_missing resolver_type (Some (mk resolver_type)) lc) (\<lambda>lc.
      Value (b\<lparr>bd_services := lc\<rparr>))))))))))"

text \<open>
  \<open>LoadConfigFromFile\<close>: the text is read through the registered file system or, when there is
  none, a standard one (\<open>None\<close>); the schema and the JSON reader are parameters.
\<close>

record config_reader =
  cr_read :: "nat option \<Rightarrow> path \<Rightarrow> string result"
  cr_schema :: "nat result"
  cr_json :: "string \<Rightarrow> nat \<Rightarrow> config result"

definition load_config_from_file :: "config_reader \<Rightarrow> builder \<Rightarrow> path \<Rightarrow> config result answer" where
  "load_config_from_file cr b p =
     bind_answer (fst (try_resolve file_system_type (bd_services b, new_scopes))) (\<lambda>fs.
       Value (rbind (cr_read cr fs p) (\<lambda>content. rbind (cr_schema cr) (\<lambda>schema. cr_json cr content schema))))"

text \<open>The constructors of the context, the manager and its loader resolve what they need.\<close>

definition needed_services :: "service_type list" where
  "needed_services = [assembly_loader_type, file_system_type, logger_type, resolver_type, file_system_type,
     assembly_loader_type, logger_type, file_system_type, platform_type]"

fun resolve_all :: "service_type list \<Rightarrow> locator \<Rightarrow> unit answer" where
  "resolve_all [] lc = Value ()"
| "resolve_all (t # ts) lc = bind_answer (fst (resolve_service t (lc, new_scopes))) (\<lambda>_. resolve_all ts lc)"

definition new_plugify :: "nat \<Rightarrow> int \<Rightarrow> version \<Rightarrow> registry \<Rightarrow> resolver \<Rightarrow> locator \<Rightarrow> config \<Rightarrow> plugify answer" where
  "new_plugify thread now v reg rs lc c = bind_answer (resolve_all needed_services lc) (\<lambda>_.
     Value \<lparr>pf_services = lc, pf_config = c, pf_manager = new_manager reg rs, pf_version = v,
       pf_log_level = lg_severity (cfg_logging c), pf_initialized = False, pf_owner = thread, pf_last_update = now\<rparr>)"

text \<open>The configuration \<open>Build\<close> arrives at, from the one read from the file if there is one.\<close>

definition final_config :: "bool \<Rightarrow> path \<Rightarrow> config option \<Rightarrow> builder \<Rightarrow> config" where
  "final_config debug_build cwd file b =
     (let c = config_default debug_build;
          c = (case file of None \<Rightarrow> c | Some f \<Rightarrow> merge_from debug_build f File c);
          c = (if bd_has_base b then merge_from debug_build (bd_base b) Builder c else c);
          c = (if bd_has_base_dir b \<or> bd_has_paths b then merge_from debug_build (bd_overrides b) Override c else c);
          c = (if base_dir (cfg_paths c) = [] then c\<lparr>cfg_paths := (cfg_paths c)\<lparr>base_dir := cwd\<rparr>\<rparr> else c)
      in c\<lparr>cfg_paths := resolve_relative_paths (cfg_paths c)\<rparr>)"

definition build ::
    "bool \<Rightarrow> path \<Rightarrow> config_reader \<Rightarrow> (service_type \<Rightarrow> nat) \<Rightarrow> (locator \<Rightarrow> config \<Rightarrow> plugify answer) \<Rightarrow> builder \<Rightarrow>
      plugify result answer" where
  "build debug_build cwd cr mk create b =
     bind_answer (case bd_file b of
         None \<Rightarrow> Value (Inr None)
       | Some p \<Rightarrow> bind_answer (load_config_from_file cr b p) (\<lambda>r. Value (case r of
           Inl e \<Rightarrow> Inl (''Failed to load config from '' @ p)
         | Inr c \<Rightarrow> Inr (Some c)))) (\<lambda>file. case file of
       Inl e \<Rightarrow> Value (Inl e)
     | Inr file \<Rightarrow>
         let c = final_config debug_build cwd file b in
         case config_validate c of
           Inl e \<Rightarrow> Value (Inl (''Configuration validation failed: '' @ e))
         | Inr u \<Rightarrow> bind_answer (with_defaults mk b) (\<lambda>b.
             bind_answer (create (bd_services b) c) (\<lambda>p. Value (Inr p))))"

end
