(* ===== verification/Plugify_Correct.thy ===== *)
theory Plugify_Correct
  imports Plugify "HOL-Library.Sublist"
begin

text \<open>
  The properties of the context and its builder: which directories are accepted, what a built
  context holds, and which thread may use it.
\<close>

section \<open>Directories\<close>

lemma mismatch_prefix: "(case mismatch xs ys of (r, s) \<Rightarrow> r = [] \<or> s = []) \<longleftrightarrow> prefix xs ys \<or> prefix ys xs"
  by (induction xs ys rule: mismatch.induct) (auto simp: prefix_def)

lemma nested_paths_prefix: "nested_paths p q \<longleftrightarrow>
    prefix (path_elements p) (path_elements q) \<or> prefix (path_elements q) (path_elements p)"
  by (simp add: nested_paths_def mismatch_prefix)

text \<open>Neither path is the other or lies in it.\<close>

definition apart :: "path \<Rightarrow> path \<Rightarrow> bool" where
  "apart p q \<longleftrightarrow> \<not> prefix (path_elements p) (path_elements q) \<and> \<not> prefix (path_elements q) (path_elements p)"

lemma no_conflicts:
  "list_all (\<lambda>c. pc_path c \<noteq> []) cs \<Longrightarrow> conflict_errors cs = [] \<longleftrightarrow> sorted_wrt apart (map pc_path cs)"
proof (induction cs)
  case (Cons c cs)
  then have "(\<forall>d \<in> set cs. conflict_error c d = []) \<longleftrightarrow> (\<forall>d \<in> set cs. apart (pc_path c) (pc_path d))"
    by (auto simp: conflict_error_def apart_def nested_paths_prefix list_all_iff)
  with Cons show ?case by auto
qed simp

lemma path_accepted: "fst (check_path exists c) = [] \<longleftrightarrow> pc_path c \<noteq> [] \<and> path_eq (path_normal (pc_path c)) (pc_path c) \<and>
    \<not> (pc_require_relative c \<and> path_is_absolute (pc_path c)) \<and> (pc_require_exists c \<longrightarrow> exists (pc_path c))"
  by (auto simp: check_path_def Let_def)

text \<open>C36: The directories of a configuration are accepted exactly when all six are set and in normal form,
  the base directory exists, and none of the other five is another one of them or lies inside it.\<close>

theorem check_directories_exact:
  "fst (check_directories dk p) \<longleftrightarrow>
    (let ps = cfg_paths (pf_config p);
         ds = [extensions_dir ps, configs_dir ps, data_dir ps, logs_dir ps, cache_dir ps]
     in list_all (\<lambda>d. d \<noteq> [] \<and> path_eq (path_normal d) d) (base_dir ps # ds) \<and>
       dk_exists dk (pf_history p) (base_dir ps) \<and> sorted_wrt apart ds)"
proof -
  let ?ps = "cfg_paths (pf_config p)" and ?ex = "dk_exists dk (pf_history p)"
  let ?ds = "[extensions_dir ?ps, configs_dir ?ps, data_dir ?ps, logs_dir ?ps, cache_dir ?ps]"
  have names: "map pc_path (tl (path_checks ?ps)) = ?ds" by (simp add: path_checks_def)
  have 1: "concat (map (fst \<circ> check_path ?ex) (path_checks ?ps)) = [] \<longleftrightarrow>
      list_all (\<lambda>d. d \<noteq> [] \<and> path_eq (path_normal d) d) (base_dir ?ps # ?ds) \<and> ?ex (base_dir ?ps)"
    by (auto simp: path_checks_def path_accepted)
  have 2: "conflict_errors (tl (path_checks ?ps)) = [] \<longleftrightarrow> sorted_wrt apart ?ds"
    if "list_all (\<lambda>d. d \<noteq> [] \<and> path_eq (path_normal d) d) (base_dir ?ps # ?ds)"
  proof -
    have "list_all (\<lambda>c. pc_path c \<noteq> []) (tl (path_checks ?ps))" using that by (simp add: path_checks_def)
    from no_conflicts [OF this] show ?thesis unfolding names .
  qed
  have "fst (check_directories dk p) \<longleftrightarrow> directory_errors ?ex ?ps = []"
    by (simp add: check_directories_def Let_def)
  then show ?thesis unfolding directory_errors_def append_is_Nil_conv 1 Let_def using 2 by blast
qed

section \<open>Threads\<close>

text \<open>A thread other than the one that made the context can neither initialize, update nor terminate
  it, and nothing changes when it tries; destroying an initialized context in such a thread ends the
  program, since the exception leaves a destructor.\<close>

lemma foreign_thread_refused:
  assumes "thread \<noteq> pf_owner p"
  shows "initialize_plugify dk thread p = (Inl ''Initialization must be called from owner thread'', p) \<and>
    update_plugify env ho thread now dt p = Throws ''Update must be called from owner thread'' \<and>
    terminate_plugify env thread p = Throws ''Termination must be called from owner thread'' \<and>
    (if pf_initialized p then destroy_plugify env thread p = Aborts
     else destroy_plugify env thread p = Value (destroy_manager env (pf_manager p)))"
  using assms by (simp add: initialize_plugify_def update_plugify_def terminate_plugify_def destroy_plugify_def)

definition sample_plugify :: plugify where
  "sample_plugify = \<lparr>pf_services = [], pf_config = sample_config, pf_manager = new_manager Map.empty resolver_new,
     pf_version = version_default, pf_log_level = Info, pf_initialized = True, pf_owner = 1, pf_last_update = 0\<rparr>"

lemma foreign_thread_refused_witness: "destroy_plugify sample_env 2 sample_plugify = Aborts"
  using foreign_thread_refused [of 2 sample_plugify] by (simp add: sample_plugify_def)

text \<open>The time between two updates without a duration is measured from the last such update, also when
  updates with a duration came in between, so that time is passed on twice.\<close>

lemma explicit_update_counted_again:
  assumes "pf_owner p = thread" "pf_initialized p" "dt \<noteq> 0" "update_plugify env ho thread t1 dt p = Value p1"
    "update_plugify env ho thread t2 0 p1 = Value p2"
  shows "pf_manager p2 = update env ho (to_milliseconds (t2 - pf_last_update p)) (update env ho dt (pf_manager p))"
  using assms by (auto simp: update_plugify_def)

section \<open>The builder\<close>

text \<open>A builder only registers instances.\<close>

definition instances_only :: "locator \<Rightarrow> bool" where
  "instances_only lc \<longleftrightarrow> (\<forall>t d. map_of lc t = Some d \<longrightarrow> (\<exists>i. d = instance_descriptor i))"


lemma with_service_keeps:
  assumes "with_service t i b = Value b'" "instances_only (bd_services b)"
  shows "instances_only (bd_services b')"
proof (cases i)
  case None
  with assms show ?thesis by (simp add: with_service_def)
next
  case (Some x)
  with assms(1) have "bd_services b' = AList.update t (instance_descriptor x) (bd_services b)"
    by (auto simp: with_service_def register_instance_some)
  with assms(2) show ?thesis unfolding instances_only_def by (auto simp: services.get_put)
qed

text \<open>Without a base directory or paths given to the builder its overrides, and with them the level of the
  logger, are not used.\<close>

lemma overrides_dropped:
  "\<not> bd_has_base_dir b \<Longrightarrow> \<not> bd_has_paths b \<Longrightarrow> final_config debug_build cwd f (b\<lparr>bd_overrides := x\<rparr>) = final_config debug_build cwd f b"
  by (cases b) (simp add: final_config_def cong: if_cong)








end
