(* ===== verification/Memory.thy ===== *)
theory Memory
  imports Prelude "HOL-Library.Monad_Syntax"
begin

text \<open>
  The storage that the containers of include/plg manage by hand: allocated blocks of cells, a
  cell being raw storage, a live object, or the husk a move leaves behind. Every access that C++
  leaves undefined (reading raw storage, constructing over a live object, a dangling or null
  pointer, releasing a block that still holds objects, pointer arithmetic across blocks) has no
  result, so a theorem that an operation returns also says it never does any of them.
  Models allocator.hpp and uninitialized.hpp; constructors and destructors of the elements do
  not throw here.
\<close>

section \<open>Blocks, cells and pointers\<close>

datatype 'a cell = Raw | Live 'a | Husk

datatype ptr = Null | Ptr nat nat | Wild

text \<open>
  A memory lists the blocks in the order they were allocated; a released one is \<open>None\<close>.
  \<open>Ptr b i\<close> is the address of cell \<open>i\<close> of block \<open>b\<close> and \<open>Wild\<close> the value of undefined
  arithmetic, which no access accepts.
\<close>

type_synonym 'a mem = "'a cell list option list"

definition block :: "'a mem \<Rightarrow> nat \<Rightarrow> 'a cell list option" where
  "block m b = (if b < length m then m ! b else None)"

definition set_block :: "'a mem \<Rightarrow> nat \<Rightarrow> 'a cell list \<Rightarrow> 'a mem" where
  "set_block m b cs = m[b := Some cs]"

definition drop_block :: "'a mem \<Rightarrow> nat \<Rightarrow> 'a mem" where
  "drop_block m b = m[b := None]"

fun padd :: "ptr \<Rightarrow> nat \<Rightarrow> ptr" where
  "padd (Ptr b i) n = Ptr b (i + n)"
| "padd Null n = (if n = 0 then Null else Wild)"
| "padd Wild n = Wild"

fun psub :: "ptr \<Rightarrow> nat \<Rightarrow> ptr" where
  "psub (Ptr b i) n = (if n \<le> i then Ptr b (i - n) else Wild)"
| "psub Null n = (if n = 0 then Null else Wild)"
| "psub Wild n = Wild"

text \<open>\<open>pdiff p q\<close> is \<open>p - q\<close>, defined for pointers into one block with \<open>q <= p\<close>.\<close>

fun pdiff :: "ptr \<Rightarrow> ptr \<Rightarrow> nat option" where
  "pdiff (Ptr b i) (Ptr c j) = (if b = c \<and> j \<le> i then Some (i - j) else None)"
| "pdiff Null Null = Some 0"
| "pdiff _ _ = None"

fun plt :: "ptr \<Rightarrow> ptr \<Rightarrow> bool option" where
  "plt (Ptr b i) (Ptr c j) = (if b = c then Some (i < j) else None)"
| "plt Null Null = Some False"
| "plt _ _ = None"

section \<open>Objects\<close>

fun cell_at :: "'a mem \<Rightarrow> ptr \<Rightarrow> 'a cell option" where
  "cell_at m (Ptr b i) =
    (case block m b of Some cs \<Rightarrow> if i < length cs then Some (cs ! i) else None | None \<Rightarrow> None)"
| "cell_at m _ = None"

fun set_cell :: "'a mem \<Rightarrow> ptr \<Rightarrow> 'a cell \<Rightarrow> 'a mem" where
  "set_cell m (Ptr b i) c = (case block m b of Some cs \<Rightarrow> set_block m b (cs[i := c]) | None \<Rightarrow> m)"
| "set_cell m _ c = m"

definition construct :: "'a \<Rightarrow> ptr \<Rightarrow> 'a mem \<Rightarrow> 'a mem option" where
  "construct x p m = (case cell_at m p of Some Raw \<Rightarrow> Some (set_cell m p (Live x)) | _ \<Rightarrow> None)"

definition destroy :: "ptr \<Rightarrow> 'a mem \<Rightarrow> 'a mem option" where
  "destroy p m = (case cell_at m p of Some Raw \<Rightarrow> None | Some _ \<Rightarrow> Some (set_cell m p Raw) | None \<Rightarrow> None)"

definition read_at :: "'a mem \<Rightarrow> ptr \<Rightarrow> 'a option" where
  "read_at m p = (case cell_at m p of Some (Live x) \<Rightarrow> Some x | _ \<Rightarrow> None)"

definition assign_at :: "'a \<Rightarrow> ptr \<Rightarrow> 'a mem \<Rightarrow> 'a mem option" where
  "assign_at x p m = (case cell_at m p of Some Raw \<Rightarrow> None | Some _ \<Rightarrow> Some (set_cell m p (Live x)) | None \<Rightarrow> None)"

text \<open>\<open>std::move(*p)\<close> as the source of a construction or an assignment: the value, and the husk.\<close>

definition move_from :: "ptr \<Rightarrow> 'a mem \<Rightarrow> ('a \<times> 'a mem) option" where
  "move_from p m = do { x \<leftarrow> read_at m p; Some (x, set_cell m p Husk) }"

section \<open>The allocator\<close>

text \<open>
  \<open>allocate_at_least\<close> returns exactly the requested count, and its block is new.
  \<open>deallocate\<close> is given the capacity of the block it releases; a block that still holds an
  object is not released here, since the containers destroy their elements first.
\<close>

definition allocate_at_least :: "nat \<Rightarrow> 'a mem \<Rightarrow> ptr \<times> 'a mem" where
  "allocate_at_least n m = (Ptr (length m) 0, m @ [Some (replicate n Raw)])"

fun deallocate :: "ptr \<Rightarrow> nat \<Rightarrow> 'a mem \<Rightarrow> 'a mem option" where
  "deallocate (Ptr b 0) n m = (if block m b = Some (replicate n Raw) then Some (drop_block m b) else None)"
| "deallocate _ n m = None"

text \<open>\<open>is_pointer_in_range\<close>: whether \<open>p\<close> points into \<open>[first, last)\<close>; an address outside the
  block is outside the range, whatever block it is in.\<close>

fun is_pointer_in_range :: "ptr \<Rightarrow> ptr \<Rightarrow> ptr \<Rightarrow> bool" where
  "is_pointer_in_range (Ptr b i) (Ptr c j) (Ptr d k) = (b = d \<and> c = d \<and> i \<le> k \<and> k < j)"
| "is_pointer_in_range _ _ _ = False"

section \<open>Ranges\<close>

text \<open>\<open>n\<close> copies of \<open>x\<close>, and the elements an iterator yields, built from \<open>p\<close> on.\<close>

fun construct_fill :: "nat \<Rightarrow> 'a \<Rightarrow> ptr \<Rightarrow> 'a mem \<Rightarrow> 'a mem option" where
  "construct_fill 0 x p m = Some m"
| "construct_fill (Suc n) x p m = do { m1 \<leftarrow> construct x p m; construct_fill n x (padd p 1) m1 }"

fun uninitialized_copy :: "'a list \<Rightarrow> ptr \<Rightarrow> 'a mem \<Rightarrow> 'a mem option" where
  "uninitialized_copy [] p m = Some m"
| "uninitialized_copy (x # xs) p m = do { m1 \<leftarrow> construct x p m; uninitialized_copy xs (padd p 1) m1 }"

text \<open>\<open>allocator_destroy\<close> goes left to right; \<open>destroy_back\<close> destroys the \<open>n\<close> objects before
  \<open>p\<close> from the right.\<close>

fun allocator_destroy :: "nat \<Rightarrow> ptr \<Rightarrow> 'a mem \<Rightarrow> 'a mem option" where
  "allocator_destroy 0 p m = Some m"
| "allocator_destroy (Suc n) p m = do { m1 \<leftarrow> destroy p m; allocator_destroy n (padd p 1) m1 }"

fun destroy_back :: "nat \<Rightarrow> ptr \<Rightarrow> 'a mem \<Rightarrow> 'a mem option" where
  "destroy_back 0 p m = Some m"
| "destroy_back (Suc n) p m = do { m1 \<leftarrow> destroy (psub p 1) m; destroy_back n (psub p 1) m1 }"

text \<open>Move construction of \<open>n\<close> objects, and the relocation that destroys the sources after it.\<close>

fun move_construct :: "nat \<Rightarrow> ptr \<Rightarrow> ptr \<Rightarrow> 'a mem \<Rightarrow> 'a mem option" where
  "move_construct 0 p q m = Some m"
| "move_construct (Suc n) p q m = do {
     (x, m1) \<leftarrow> move_from p m;
     m2 \<leftarrow> construct x q m1;
     move_construct n (padd p 1) (padd q 1) m2 }"

definition relocate :: "nat \<Rightarrow> ptr \<Rightarrow> ptr \<Rightarrow> 'a mem \<Rightarrow> 'a mem option" where
  "relocate n p q m = do { m1 \<leftarrow> move_construct n p q m; allocator_destroy n p m1 }"

text \<open>\<open>std::move\<close>, \<open>std::move_backward\<close> (its pointers are the ends of the ranges),
  \<open>std::copy\<close> of the values of an iterator, \<open>std::fill_n\<close>.\<close>

fun move_forward :: "nat \<Rightarrow> ptr \<Rightarrow> ptr \<Rightarrow> 'a mem \<Rightarrow> 'a mem option" where
  "move_forward 0 p q m = Some m"
| "move_forward (Suc n) p q m = do {
     (x, m1) \<leftarrow> move_from p m;
     m2 \<leftarrow> assign_at x q m1;
     move_forward n (padd p 1) (padd q 1) m2 }"

fun move_backward :: "nat \<Rightarrow> ptr \<Rightarrow> ptr \<Rightarrow> 'a mem \<Rightarrow> 'a mem option" where
  "move_backward 0 p q m = Some m"
| "move_backward (Suc n) p q m = do {
     (x, m1) \<leftarrow> move_from (psub p 1) m;
     m2 \<leftarrow> assign_at x (psub q 1) m1;
     move_backward n (psub p 1) (psub q 1) m2 }"

fun copy_assign :: "'a list \<Rightarrow> ptr \<Rightarrow> 'a mem \<Rightarrow> 'a mem option" where
  "copy_assign [] p m = Some m"
| "copy_assign (x # xs) p m = do { m1 \<leftarrow> assign_at x p m; copy_assign xs (padd p 1) m1 }"

definition fill_n :: "nat \<Rightarrow> 'a \<Rightarrow> ptr \<Rightarrow> 'a mem \<Rightarrow> 'a mem option" where
  "fill_n n x p m = copy_assign (replicate n x) p m"

text \<open>The values of \<open>n\<close> objects, and \<open>std::rotate\<close> of \<open>[p, p + n + k)\<close> around \<open>p + n\<close>.\<close>

fun read_range :: "nat \<Rightarrow> ptr \<Rightarrow> 'a mem \<Rightarrow> 'a list option" where
  "read_range 0 p m = Some []"
| "read_range (Suc n) p m = do { x \<leftarrow> read_at m p; xs \<leftarrow> read_range n (padd p 1) m; Some (x # xs) }"

definition rotate_range :: "nat \<Rightarrow> nat \<Rightarrow> ptr \<Rightarrow> 'a mem \<Rightarrow> 'a mem option" where
  "rotate_range n k p m = do {
     xs \<leftarrow> read_range n p m;
     ys \<leftarrow> read_range k (padd p n) m;
     copy_assign (ys @ xs) p m }"

section \<open>Assertions and exceptions\<close>

text \<open>
  A failing \<open>PLUGIFY_ASSERT\<close> aborts a debug build and is undefined in a release build: no
  result. The exceptions the containers raise themselves are values.
\<close>

definition assert_that :: "bool \<Rightarrow> unit option" where
  "assert_that c = (if c then Some () else None)"

lemma assert_that_simps [simp]: "assert_that True = Some ()" "assert_that False = None"
  by (simp_all add: assert_that_def)

datatype exn = Length_Error | Out_Of_Range | Bad_Alloc

text \<open>
  A step of an object that owns the blocks \<open>B\<close> before it and \<open>C\<close> after it: every other block,
  allocated or not, is as before, the blocks it gives up are released and the ones it takes were
  free. In particular it neither leaks a block nor touches one of another object.
\<close>

definition owner_step :: "nat set \<Rightarrow> nat set \<Rightarrow> 'a mem \<Rightarrow> 'a mem \<Rightarrow> bool" where
  "owner_step B C m m' \<longleftrightarrow>
    (\<forall>b. b \<notin> B \<union> C \<longrightarrow> block m' b = block m b) \<and>
    (\<forall>b \<in> B - C. block m' b = None) \<and> (\<forall>b \<in> C - B. block m b = None)"

lemma owner_step_refl [simp]: "owner_step B B m m"
  by (simp add: owner_step_def)

lemma owner_step_trans: "owner_step B C m m1 \<Longrightarrow> owner_step C D m1 m2 \<Longrightarrow> owner_step B D m m2"
  unfolding owner_step_def by (intro conjI allI ballI impI; metis Diff_iff Un_iff)

section \<open>Laws of blocks\<close>

named_theorems mem_simps \<open>what a block holds after a step on the memory\<close>

lemma block_less: "block m b = Some cs \<Longrightarrow> b < length m"
  by (simp add: block_def split: if_splits)

lemma block_fresh [simp]: "length m \<le> b \<Longrightarrow> block m b = None"
  by (simp add: block_def)

lemma length_set_block [simp]: "length (set_block m b cs) = length m"
  by (simp add: set_block_def)

lemma length_drop_block [simp]: "length (drop_block m b) = length m"
  by (simp add: drop_block_def)

lemma block_set_block [mem_simps]:
  "block (set_block m b cs) c = (if b = c \<and> b < length m then Some cs else block m c)"
  by (simp add: block_def set_block_def nth_list_update)

lemma block_drop_block [mem_simps]: "block (drop_block m b) c = (if b = c then None else block m c)"
  by (simp add: block_def drop_block_def nth_list_update)

lemma block_snoc [mem_simps]: "block (m @ [x]) b = (if b = length m then x else block m b)"
  by (simp add: block_def nth_append)

lemma owner_step_set_block [simp]: "owner_step {b} {b} m (set_block m b cs)"
  by (simp add: owner_step_def mem_simps)

lemma set_block_set_block [simp]: "set_block (set_block m b cs) b ds = set_block m b ds"
  by (simp add: set_block_def)

lemma set_block_id: "block m b = Some cs \<Longrightarrow> set_block m b cs = m"
  by (simp add: block_def set_block_def list_update_same_conv split: if_splits)

lemma set_block_commute:
  "b \<noteq> c \<Longrightarrow> set_block (set_block m b cs) c ds = set_block (set_block m c ds) b cs"
  by (simp add: set_block_def list_update_swap)

lemma set_block_pair:
  "b \<noteq> c \<Longrightarrow> set_block (set_block (set_block (set_block m b cs) c ds) b cs') c ds' =
   set_block (set_block m b cs') c ds'"
  by (simp add: set_block_commute [of b c])

lemma padd_padd [simp]: "padd (padd p i) j = padd p (i + j)"
  by (cases p) (auto simp: add.assoc)

lemma padd_0 [simp]: "padd p 0 = p"
  by (cases p) auto

lemma cell_at_mid: "block m b = Some (A @ c # C) \<Longrightarrow> i = length A \<Longrightarrow> cell_at m (Ptr b i) = Some c"
  by simp

lemma set_cell_mid:
  "block m b = Some (A @ c # C) \<Longrightarrow> i = length A \<Longrightarrow>
   set_cell m (Ptr b i) d = set_block m b (A @ d # C)"
  by simp

lemma construct_mid:
  "block m b = Some (A @ Raw # C) \<Longrightarrow> i = length A \<Longrightarrow>
   construct x (Ptr b i) m = Some (set_block m b (A @ Live x # C))"
  by (simp add: construct_def)

lemma destroy_mid:
  "block m b = Some (A @ c # C) \<Longrightarrow> c \<noteq> Raw \<Longrightarrow> i = length A \<Longrightarrow>
   destroy (Ptr b i) m = Some (set_block m b (A @ Raw # C))"
  by (cases c) (auto simp: destroy_def)

lemma read_mid: "block m b = Some (A @ Live x # C) \<Longrightarrow> i = length A \<Longrightarrow> read_at m (Ptr b i) = Some x"
  by (simp add: read_at_def)

lemma assign_mid:
  "block m b = Some (A @ c # C) \<Longrightarrow> c \<noteq> Raw \<Longrightarrow> i = length A \<Longrightarrow>
   assign_at x (Ptr b i) m = Some (set_block m b (A @ Live x # C))"
  by (cases c) (auto simp: assign_at_def)

lemma move_from_mid:
  "block m b = Some (A @ Live x # C) \<Longrightarrow> i = length A \<Longrightarrow>
   move_from (Ptr b i) m = Some (x, set_block m b (A @ Husk # C))"
  by (simp add: move_from_def read_at_def)

section \<open>Laws of ranges\<close>

text \<open>
  Each loop is stated on a block cut at the range it works on: the range is replaced and the
  cells before and after it stay.
\<close>

lemma uninitialized_copy_ok:
  "block m b = Some (A @ replicate (length xs) Raw @ C) \<Longrightarrow> i = length A \<Longrightarrow>
   uninitialized_copy xs (Ptr b i) m = Some (set_block m b (A @ map Live xs @ C))"
proof (induction xs arbitrary: A i m)
  case Nil
  then show ?case by (simp add: set_block_id)
next
  case (Cons x xs)
  let ?m = "set_block m b (A @ Live x # replicate (length xs) Raw @ C)"
  have "construct x (Ptr b i) m = Some ?m"
    by (rule construct_mid) (use Cons.prems in simp_all)
  moreover have "uninitialized_copy xs (Ptr b (Suc i)) ?m =
      Some (set_block ?m b ((A @ [Live x]) @ map Live xs @ C))"
    by (rule Cons.IH) (use Cons.prems in \<open>simp_all add: mem_simps block_less\<close>)
  ultimately show ?case by simp
qed

lemma construct_fill_eq: "construct_fill n x = uninitialized_copy (replicate n x)"
  by (induction n) (auto intro!: ext)

lemma allocator_destroy_ok:
  "block m b = Some (A @ cs @ C) \<Longrightarrow> Raw \<notin> set cs \<Longrightarrow> i = length A \<Longrightarrow>
   allocator_destroy (length cs) (Ptr b i) m = Some (set_block m b (A @ replicate (length cs) Raw @ C))"
proof (induction cs arbitrary: A i m)
  case Nil
  then show ?case by (simp add: set_block_id)
next
  case (Cons c cs)
  let ?m = "set_block m b (A @ Raw # cs @ C)"
  have "destroy (Ptr b i) m = Some ?m"
    by (rule destroy_mid) (use Cons.prems in auto)
  moreover have "allocator_destroy (length cs) (Ptr b (Suc i)) ?m =
      Some (set_block ?m b ((A @ [Raw]) @ replicate (length cs) Raw @ C))"
    by (rule Cons.IH) (use Cons.prems in \<open>simp_all add: mem_simps block_less\<close>)
  ultimately show ?case by simp
qed

lemma destroy_back_ok:
  "block m b = Some (A @ cs @ C) \<Longrightarrow> Raw \<notin> set cs \<Longrightarrow> i = length A + length cs \<Longrightarrow>
   destroy_back (length cs) (Ptr b i) m = Some (set_block m b (A @ replicate (length cs) Raw @ C))"
proof (induction cs arbitrary: C i m rule: rev_induct)
  case Nil
  then show ?case by (simp add: set_block_id)
next
  case (snoc c cs)
  let ?m = "set_block m b ((A @ cs) @ Raw # C)"
  have "destroy (Ptr b (length (A @ cs))) m = Some ?m"
    by (rule destroy_mid) (use snoc.prems in auto)
  moreover have "destroy_back (length cs) (Ptr b (length A + length cs)) ?m =
      Some (set_block ?m b (A @ replicate (length cs) Raw @ Raw # C))"
    by (rule snoc.IH) (use snoc.prems in \<open>simp_all add: mem_simps block_less\<close>)
  ultimately show ?case using snoc.prems(3) by (simp add: replicate_app_Cons_same)
qed

lemma move_construct_ok:
  "block m b = Some (A @ map Live xs @ C) \<Longrightarrow> i = length A \<Longrightarrow> b \<noteq> c \<Longrightarrow>
   block m c = Some (D @ replicate (length xs) Raw @ E) \<Longrightarrow> j = length D \<Longrightarrow>
   move_construct (length xs) (Ptr b i) (Ptr c j) m =
     Some (set_block (set_block m b (A @ replicate (length xs) Husk @ C)) c (D @ map Live xs @ E))"
proof (induction xs arbitrary: A D i j m)
  case Nil
  then show ?case by (simp add: set_block_id)
next
  case (Cons x xs)
  let ?m1 = "set_block m b (A @ Husk # map Live xs @ C)"
  let ?m2 = "set_block ?m1 c (D @ Live x # replicate (length xs) Raw @ E)"
  have 1: "move_from (Ptr b i) m = Some (x, ?m1)"
    by (rule move_from_mid) (use Cons.prems in simp_all)
  have 2: "construct x (Ptr c j) ?m1 = Some ?m2"
    by (rule construct_mid) (use Cons.prems in \<open>simp_all add: mem_simps\<close>)
  have 3: "move_construct (length xs) (Ptr b (Suc i)) (Ptr c (Suc j)) ?m2 =
      Some (set_block (set_block ?m2 b ((A @ [Husk]) @ replicate (length xs) Husk @ C)) c
        ((D @ [Live x]) @ map Live xs @ E))"
    by (rule Cons.IH) (use Cons.prems in \<open>simp_all add: mem_simps block_less\<close>)
  have "move_construct (length (x # xs)) (Ptr b i) (Ptr c j) m =
      move_construct (length xs) (Ptr b (Suc i)) (Ptr c (Suc j)) ?m2"
    using 1 2 by simp
  with 3 \<open>b \<noteq> c\<close> show ?case by (simp add: set_block_pair)
qed

lemma relocate_ok:
  assumes "block m b = Some (A @ map Live xs @ C)" "i = length A" "b \<noteq> c"
    and "block m c = Some (D @ replicate (length xs) Raw @ E)" "j = length D"
  shows "relocate (length xs) (Ptr b i) (Ptr c j) m =
     Some (set_block (set_block m b (A @ replicate (length xs) Raw @ C)) c (D @ map Live xs @ E))"
proof -
  let ?m = "set_block (set_block m b (A @ replicate (length xs) Husk @ C)) c (D @ map Live xs @ E)"
  have "allocator_destroy (length (replicate (length xs) (Husk :: 'a cell))) (Ptr b i) ?m =
      Some (set_block ?m b (A @ replicate (length (replicate (length xs) (Husk :: 'a cell))) Raw @ C))"
    by (rule allocator_destroy_ok) (use assms in \<open>auto simp: mem_simps block_less\<close>)
  with assms show ?thesis
    by (simp add: relocate_def move_construct_ok set_block_commute [of b c])
qed

lemma copy_assign_ok:
  "block m b = Some (A @ cs @ C) \<Longrightarrow> Raw \<notin> set cs \<Longrightarrow> length cs = length xs \<Longrightarrow> i = length A \<Longrightarrow>
   copy_assign xs (Ptr b i) m = Some (set_block m b (A @ map Live xs @ C))"
proof (induction xs arbitrary: A cs i m)
  case Nil
  then show ?case by (simp add: set_block_id)
next
  case (Cons x xs)
  then obtain c cs' where cs: "cs = c # cs'" by (cases cs) auto
  let ?m = "set_block m b (A @ Live x # cs' @ C)"
  have "assign_at x (Ptr b i) m = Some ?m"
    by (rule assign_mid) (use Cons.prems cs in auto)
  moreover have "copy_assign xs (Ptr b (Suc i)) ?m =
      Some (set_block ?m b ((A @ [Live x]) @ map Live xs @ C))"
    by (rule Cons.IH [of _ _ cs']) (use Cons.prems cs in \<open>simp_all add: mem_simps block_less\<close>)
  ultimately show ?case by simp
qed

lemma read_range_ok:
  "block m b = Some (A @ map Live xs @ C) \<Longrightarrow> i = length A \<Longrightarrow>
   read_range (length xs) (Ptr b i) m = Some xs"
proof (induction xs arbitrary: A i)
  case (Cons x xs)
  have "read_at m (Ptr b i) = Some x"
    by (rule read_mid) (use Cons.prems in simp_all)
  moreover have "read_range (length xs) (Ptr b (Suc i)) m = Some xs"
    by (rule Cons.IH [of "A @ [Live x]"]) (use Cons.prems in simp_all)
  ultimately show ?case by simp
qed simp

lemma rotate_range_ok:
  assumes "block m b = Some (A @ map Live xs @ map Live ys @ C)" "i = length A"
  shows "rotate_range (length xs) (length ys) (Ptr b i) m =
    Some (set_block m b (A @ map Live ys @ map Live xs @ C))"
proof -
  have "read_range (length xs) (Ptr b i) m = Some xs"
    by (rule read_range_ok) (use assms in simp_all)
  moreover have "read_range (length ys) (Ptr b (i + length xs)) m = Some ys"
    by (rule read_range_ok [of _ _ "A @ map Live xs"]) (use assms in simp_all)
  moreover have "copy_assign (ys @ xs) (Ptr b i) m = Some (set_block m b (A @ map Live (ys @ xs) @ C))"
    by (rule copy_assign_ok [of _ _ _ "map Live (xs @ ys)"]) (use assms in auto)
  ultimately show ?thesis by (simp add: rotate_range_def)
qed

text \<open>Moves inside one block: the gap travels across the objects and is left as husks.\<close>

lemma move_construct_within:
  "block m b = Some (A @ map Live xs @ B @ replicate (length xs) Raw @ C) \<Longrightarrow> i = length A \<Longrightarrow>
   j = length A + length xs + length B \<Longrightarrow>
   move_construct (length xs) (Ptr b i) (Ptr b j) m =
     Some (set_block m b (A @ replicate (length xs) Husk @ B @ map Live xs @ C))"
proof (induction xs arbitrary: A B i j m)
  case Nil
  then show ?case by (simp add: set_block_id)
next
  case (Cons x xs)
  let ?m1 = "set_block m b (A @ Husk # map Live xs @ B @ replicate (Suc (length xs)) Raw @ C)"
  let ?m2 = "set_block ?m1 b ((A @ Husk # map Live xs @ B) @ Live x # replicate (length xs) Raw @ C)"
  have 1: "move_from (Ptr b i) m = Some (x, ?m1)"
    by (rule move_from_mid) (use Cons.prems in simp_all)
  have 2: "construct x (Ptr b j) ?m1 = Some ?m2"
    by (rule construct_mid) (use Cons.prems in \<open>simp_all add: mem_simps block_less\<close>)
  have "move_construct (length xs) (Ptr b (Suc i)) (Ptr b (Suc j)) ?m2 =
      Some (set_block ?m2 b ((A @ [Husk]) @ replicate (length xs) Husk @ (B @ [Live x]) @ map Live xs @ C))"
    by (rule Cons.IH) (use Cons.prems in \<open>simp_all add: mem_simps block_less\<close>)
  with 1 2 show ?case by simp
qed

lemma move_forward_ok:
  "block m b = Some (A @ ds @ map Live ys @ C) \<Longrightarrow> Raw \<notin> set ds \<Longrightarrow>
   i = length A + length ds \<Longrightarrow> j = length A \<Longrightarrow>
   \<exists>hs. length hs = length ds \<and> Raw \<notin> set hs \<and>
     move_forward (length ys) (Ptr b i) (Ptr b j) m = Some (set_block m b (A @ map Live ys @ hs @ C))"
proof (induction ys arbitrary: A ds i j m)
  case Nil
  then show ?case by (intro exI [of _ ds]) (simp add: set_block_id)
next
  case (Cons y ys)
  obtain d es where ds: "ds @ [Husk] = d # es" and d: "d \<noteq> Raw" "Raw \<notin> set es" "length es = length ds"
    using Cons.prems(2) by (cases ds) auto
  let ?m1 = "set_block m b ((A @ ds) @ Husk # map Live ys @ C)"
  let ?m2 = "set_block ?m1 b (A @ Live y # es @ map Live ys @ C)"
  have 1: "move_from (Ptr b i) m = Some (y, ?m1)"
    by (rule move_from_mid) (use Cons.prems in simp_all)
  have "block ?m1 b = Some (A @ (ds @ [Husk]) @ map Live ys @ C)"
    using Cons.prems by (simp add: mem_simps block_less)
  then have "block ?m1 b = Some (A @ d # es @ map Live ys @ C)" by (simp only: ds append_Cons)
  then have 2: "assign_at y (Ptr b j) ?m1 = Some ?m2"
    by (rule assign_mid) (use Cons.prems d in simp_all)
  have "block ?m2 b = Some ((A @ [Live y]) @ es @ map Live ys @ C)"
    using Cons.prems by (simp add: mem_simps block_less)
  from Cons.IH [OF this d(2), of "Suc i" "Suc j"] Cons.prems d
  obtain hs where "length hs = length es" "Raw \<notin> set hs"
    "move_forward (length ys) (Ptr b (Suc i)) (Ptr b (Suc j)) ?m2 =
      Some (set_block ?m2 b ((A @ [Live y]) @ map Live ys @ hs @ C))"
    by auto
  with 1 2 d show ?case by (intro exI [of _ hs]) simp
qed

lemma move_backward_ok:
  "block m b = Some (A @ map Live xs @ ds @ C) \<Longrightarrow> Raw \<notin> set ds \<Longrightarrow>
   i = length A + length xs \<Longrightarrow> j = i + length ds \<Longrightarrow>
   \<exists>hs. length hs = length ds \<and> Raw \<notin> set hs \<and>
     move_backward (length xs) (Ptr b i) (Ptr b j) m = Some (set_block m b (A @ hs @ map Live xs @ C))"
proof (induction xs arbitrary: C ds i j m rule: rev_induct)
  case Nil
  then show ?case by (intro exI [of _ ds]) (simp add: set_block_id)
next
  case (snoc x xs)
  obtain d es where ds: "Husk # ds = es @ [d]" and d: "d \<noteq> Raw" "Raw \<notin> set es" "length es = length ds"
    using snoc.prems(2) by (cases ds rule: rev_cases) auto
  let ?m1 = "set_block m b ((A @ map Live xs) @ Husk # ds @ C)"
  let ?m2 = "set_block ?m1 b ((A @ map Live xs @ es) @ Live x # C)"
  have 1: "move_from (Ptr b (length (A @ map Live xs))) m = Some (x, ?m1)"
    by (rule move_from_mid) (use snoc.prems in simp_all)
  have "block ?m1 b = Some ((A @ map Live xs) @ (Husk # ds) @ C)"
    using snoc.prems by (simp add: mem_simps block_less)
  then have "block ?m1 b = Some ((A @ map Live xs @ es) @ d # C)" by (simp only: ds) simp
  then have 2: "assign_at x (Ptr b (length A + length xs + length ds)) ?m1 = Some ?m2"
    by (rule assign_mid) (use snoc.prems d in simp_all)
  have "block ?m2 b = Some (A @ map Live xs @ es @ Live x # C)"
    using snoc.prems by (simp add: mem_simps block_less)
  from snoc.IH [OF this d(2) refl refl] d
  obtain hs where "length hs = length es" "Raw \<notin> set hs"
    "move_backward (length xs) (Ptr b (length A + length xs)) (Ptr b (length A + length xs + length ds)) ?m2 =
      Some (set_block ?m2 b (A @ hs @ map Live xs @ Live x # C))"
    by auto
  with 1 2 d snoc.prems show ?case by (intro exI [of _ hs]) simp
qed

end
