(* ===== verification/Basic_String.thy ===== *)
theory Basic_String
  imports Memory "HOL-Library.Word"
begin

unbundle bit_operations_syntax

text \<open>
  \<open>plg::basic_string<char>\<close> (include/plg/string.hpp) on a 64-bit little-endian target: the union
  of a short and a long representation, down to the byte that holds the spare size, the mode bit
  and, in a full short string, the null terminator; and the operations on it. A string owns its
  buffer, so the buffer is part of its value; a cell is \<open>None\<close> while it is indeterminate. No
  result stands for undefined behaviour, as in \<open>Memory\<close>; an exception leaves the string as it was.
\<close>

section \<open>The representation\<close>

type_synonym byte = "8 word"
type_synonym cells = "byte option list"

text \<open>\<open>Short cs\<close> are the 24 bytes of \<open>short_\<close>; \<open>Long cs n\<close> is a buffer with its size, whose
  capacity \<open>cap_\<close> is the length of \<open>cs\<close>.\<close>

datatype str = Short cells | Long cells nat

definition min_cap :: nat where
  "min_cap = 24"

definition npos :: nat where
  "npos = 2 ^ 64 - 1"

definition str_alignment :: nat where
  "str_alignment = 8"

definition fits_in_sso :: "nat \<Rightarrow> bool" where
  "fits_in_sso n = (n < min_cap)"

definition empty_short :: str where
  "empty_short = Short (replicate (min_cap - 1) (Some 0) @ [Some (of_nat (min_cap - 1))])"

text \<open>The buffer \<open>get_pointer()\<close> points to.\<close>

fun buffer :: "str \<Rightarrow> cells" where
  "buffer (Short cs) = cs"
| "buffer (Long cs n) = cs"

fun with_buffer :: "cells \<Rightarrow> str \<Rightarrow> str" where
  "with_buffer cs (Short _) = Short cs"
| "with_buffer cs (Long _ n) = Long cs n"

text \<open>The mode bit is the top bit of the last byte.\<close>

fun is_long :: "str \<Rightarrow> bool" where
  "is_long (Short cs) = (case cs ! 23 of Some b \<Rightarrow> bit b 7 | None \<Rightarrow> True)"
| "is_long (Long cs n) = True"

fun set_short_size :: "nat \<Rightarrow> str \<Rightarrow> str option" where
  "set_short_size n (Short cs) =
    (if n < min_cap then Some (Short (cs[23 := Some (of_nat (min_cap - 1 - n))])) else None)"
| "set_short_size n (Long cs k) =
    (if n < min_cap then Some (Short (replicate 23 None @ [Some (of_nat (min_cap - 1 - n))])) else None)"

fun get_short_size :: "str \<Rightarrow> nat option" where
  "get_short_size (Short cs) =
    (case cs ! 23 of
       Some b \<Rightarrow> if bit b 7 then None else Some (min_cap - 1 - unat (b AND 127))
     | None \<Rightarrow> None)"
| "get_short_size (Long cs n) = None"

fun set_long_size :: "nat \<Rightarrow> str \<Rightarrow> str option" where
  "set_long_size n (Long cs k) = Some (Long cs n)"
| "set_long_size n (Short cs) = None"

fun get_long_size :: "str \<Rightarrow> nat option" where
  "get_long_size (Long cs n) = Some n"
| "get_long_size (Short cs) = None"

fun get_long_cap :: "str \<Rightarrow> nat option" where
  "get_long_cap (Long cs n) = Some (length cs)"
| "get_long_cap (Short cs) = None"

definition set_size :: "nat \<Rightarrow> str \<Rightarrow> str option" where
  "set_size n r = (if is_long r then set_long_size n r else set_short_size n r)"

definition str_size :: "str \<Rightarrow> nat option" where
  "str_size r = (if is_long r then get_long_size r else get_short_size r)"

definition str_capacity :: "str \<Rightarrow> nat option" where
  "str_capacity r =
    (if is_long r then do { c \<leftarrow> get_long_cap r; Some (c - 1) } else Some (min_cap - 1))"

definition str_empty :: "str \<Rightarrow> bool option" where
  "str_empty r = do { n \<leftarrow> str_size r; Some (n = 0) }"

text \<open>\<open>max_size()\<close> from the allocator's, with the mode bit in the most significant byte.\<close>

definition str_max_size :: "nat \<Rightarrow> nat" where
  "str_max_size m =
    (if m \<le> (2 ^ 64 - 1) div 2 then m - str_alignment - 1 else m div 2 - str_alignment - 1)"

text \<open>\<open>recommend\<close>: capacities one below a multiple of the alignment.\<close>

definition align_it :: "nat \<Rightarrow> nat \<Rightarrow> nat" where
  "align_it a s = (s + (a - 1)) div a * a"

definition str_recommend :: "nat \<Rightarrow> nat" where
  "str_recommend s =
    (if s < min_cap then min_cap - 1
     else let guess = align_it str_alignment (s + 1) - 1 in
       if guess = min_cap then guess + 1 else guess)"

section \<open>Buffers\<close>

text \<open>\<open>allocate_long_buffer\<close> gives an indeterminate buffer, with the requested size in the header.\<close>

definition allocate_long_buffer :: "nat \<Rightarrow> str option" where
  "allocate_long_buffer capacity = do {
     let count = str_recommend capacity + 1;
     _ \<leftarrow> assert_that (\<not> fits_in_sso count);
     Some (Long (replicate count None) capacity) }"

definition init_internal_buffer :: "nat \<Rightarrow> nat \<Rightarrow> (exn + str) option" where
  "init_internal_buffer ms n =
    (if n > ms then Some (Inl Length_Error)
     else if fits_in_sso n then do { r \<leftarrow> set_short_size n empty_short; Some (Inr r) }
     else do { r \<leftarrow> allocate_long_buffer n; Some (Inr r) })"

text \<open>
  The source of a copy: characters elsewhere, or an offset into the string's own buffer.
  \<open>char_copy\<close> is \<open>traits_type::copy\<close>, undefined on overlapping ranges, \<open>char_move\<close> is
  \<open>traits_type::move\<close> and \<open>char_fill\<close> is \<open>traits_type::assign\<close> of \<open>n\<close> characters.
\<close>

datatype src = Elsewhere "byte list" | Own nat

definition read_cells :: "nat \<Rightarrow> nat \<Rightarrow> str \<Rightarrow> cells option" where
  "read_cells i n r = (if i + n \<le> length (buffer r) then Some (take n (drop i (buffer r))) else None)"

fun read_src :: "src \<Rightarrow> nat \<Rightarrow> str \<Rightarrow> cells option" where
  "read_src (Elsewhere xs) n r = (if n \<le> length xs then Some (map Some (take n xs)) else None)"
| "read_src (Own i) n r = read_cells i n r"

fun src_add :: "src \<Rightarrow> nat \<Rightarrow> src" where
  "src_add (Elsewhere xs) n = Elsewhere (drop n xs)"
| "src_add (Own i) n = Own (i + n)"

definition write_cells :: "nat \<Rightarrow> cells \<Rightarrow> str \<Rightarrow> str option" where
  "write_cells i ys r =
    (if i + length ys \<le> length (buffer r)
     then Some (with_buffer (take i (buffer r) @ ys @ drop (i + length ys) (buffer r)) r) else None)"

definition char_at :: "nat \<Rightarrow> str \<Rightarrow> byte option" where
  "char_at i r = (if i < length (buffer r) then buffer r ! i else None)"

definition char_assign :: "nat \<Rightarrow> byte \<Rightarrow> str \<Rightarrow> str option" where
  "char_assign i c r = write_cells i [Some c] r"

definition char_fill :: "nat \<Rightarrow> nat \<Rightarrow> byte \<Rightarrow> str \<Rightarrow> str option" where
  "char_fill i n c r = write_cells i (replicate n (Some c)) r"

definition char_move :: "nat \<Rightarrow> src \<Rightarrow> nat \<Rightarrow> str \<Rightarrow> str option" where
  "char_move i s n r = do { ys \<leftarrow> read_src s n r; write_cells i ys r }"

definition char_copy :: "nat \<Rightarrow> src \<Rightarrow> nat \<Rightarrow> str \<Rightarrow> str option" where
  "char_copy i s n r = do {
     _ \<leftarrow> assert_that (case s of Elsewhere xs \<Rightarrow> True | Own j \<Rightarrow> i + n \<le> j \<or> j + n \<le> i \<or> n = 0);
     char_move i s n r }"

text \<open>\<open>s\<close> points into the own range \<open>[a, b)\<close>.\<close>

fun src_in_range :: "nat \<Rightarrow> nat \<Rightarrow> src \<Rightarrow> bool" where
  "src_in_range a b (Own i) = (a \<le> i \<and> i < b)"
| "src_in_range a b (Elsewhere xs) = False"

definition null_terminate_at :: "nat \<Rightarrow> str \<Rightarrow> str option" where
  "null_terminate_at n r = do { r1 \<leftarrow> set_size n r; char_assign n 0 r1 }"

section \<open>Growth\<close>

text \<open>\<open>ms - old_cap\<close> is an unsigned difference.\<close>

definition sub64 :: "nat \<Rightarrow> nat \<Rightarrow> nat" where
  "sub64 a b = (if b \<le> a then a - b else 2 ^ 64 + a - b)"

definition grow_cap :: "nat \<Rightarrow> nat \<Rightarrow> nat \<Rightarrow> nat" where
  "grow_cap ms old_cap delta_cap =
    (if old_cap < ms div 2 - str_alignment then str_recommend (max (old_cap + delta_cap) (2 * old_cap)) else ms)"

definition grow_by_and_replace ::
  "nat \<Rightarrow> nat \<Rightarrow> nat \<Rightarrow> nat \<Rightarrow> nat \<Rightarrow> nat \<Rightarrow> nat \<Rightarrow> src \<Rightarrow> str \<Rightarrow> (exn + str) option" where
  "grow_by_and_replace ms old_cap delta_cap old_sz n_copy n_del n_add p_new_stuff r =
    (if delta_cap > sub64 ms old_cap then Some (Inl Length_Error)
     else do {
       buf0 \<leftarrow> allocate_long_buffer (grow_cap ms old_cap delta_cap);
       front \<leftarrow> read_cells 0 n_copy r;
       buf1 \<leftarrow> write_cells 0 front buf0;
       new_stuff \<leftarrow> read_src p_new_stuff n_add r;
       buf2 \<leftarrow> write_cells n_copy new_stuff buf1;
       let sec_cp_sz = old_sz - n_del - n_copy;
       rest \<leftarrow> read_cells (n_copy + n_del) sec_cp_sz r;
       buf3 \<leftarrow> write_cells (n_copy + n_add) rest buf2;
       let n = n_copy + n_add + sec_cp_sz;
       buf4 \<leftarrow> set_long_size n buf3;
       buf5 \<leftarrow> char_assign n 0 buf4;
       Some (Inr buf5) })"

definition grow_by_without_replace ::
  "nat \<Rightarrow> nat \<Rightarrow> nat \<Rightarrow> nat \<Rightarrow> nat \<Rightarrow> nat \<Rightarrow> nat \<Rightarrow> str \<Rightarrow> (exn + str) option" where
  "grow_by_without_replace ms old_cap delta_cap old_sz n_copy n_del n_add r =
    (if delta_cap > sub64 ms old_cap then Some (Inl Length_Error)
     else do {
       buf0 \<leftarrow> allocate_long_buffer (grow_cap ms old_cap delta_cap);
       front \<leftarrow> read_cells 0 n_copy r;
       buf1 \<leftarrow> write_cells 0 front buf0;
       let sec_cp_sz = old_sz - n_del - n_copy;
       rest \<leftarrow> read_cells (n_copy + n_del) sec_cp_sz r;
       buf2 \<leftarrow> write_cells (n_copy + n_add) rest buf1;
       buf3 \<leftarrow> set_long_size npos buf2;
       buf4 \<leftarrow> set_long_size (old_sz - n_del + n_add) buf3;
       Some (Inr buf4) })"

section \<open>Construction\<close>

definition str_init :: "nat \<Rightarrow> byte list \<Rightarrow> (exn + str) option" where
  "str_init ms xs = do {
     res \<leftarrow> init_internal_buffer ms (length xs);
     (case res of
        Inl e \<Rightarrow> Some (Inl e)
      | Inr r \<Rightarrow> do {
          r1 \<leftarrow> char_copy 0 (Elsewhere xs) (length xs) r;
          r2 \<leftarrow> char_assign (length xs) 0 r1;
          Some (Inr r2) }) }"

definition str_init_fill :: "nat \<Rightarrow> nat \<Rightarrow> byte \<Rightarrow> (exn + str) option" where
  "str_init_fill ms n c = do {
     res \<leftarrow> init_internal_buffer ms n;
     (case res of
        Inl e \<Rightarrow> Some (Inl e)
      | Inr r \<Rightarrow> do {
          r1 \<leftarrow> char_fill 0 n c r;
          r2 \<leftarrow> char_assign n 0 r1;
          Some (Inr r2) }) }"

text \<open>The copy of a long string copies the terminator with the characters.\<close>

definition init_copy_ctor_external :: "nat \<Rightarrow> cells \<Rightarrow> nat \<Rightarrow> (exn + str) option" where
  "init_copy_ctor_external ms cs n = do {
     res \<leftarrow> init_internal_buffer ms n;
     (case res of
        Inl e \<Rightarrow> Some (Inl e)
      | Inr r \<Rightarrow>
          if n + 1 \<le> length cs then do { r1 \<leftarrow> write_cells 0 (take (n + 1) cs) r; Some (Inr r1) } else None) }"

definition str_copy_new :: "nat \<Rightarrow> str \<Rightarrow> (exn + str) option" where
  "str_copy_new ms s =
    (if \<not> is_long s then Some (Inr s)
     else do { n \<leftarrow> get_long_size s; init_copy_ctor_external ms (buffer s) n })"

definition str_move_new :: "str \<Rightarrow> str \<times> str" where
  "str_move_new s = (s, empty_short)"

text \<open>The characters of another string from \<open>pos\<close> on, by copy, and by stealing its buffer.\<close>

definition str_chars :: "str \<Rightarrow> nat \<Rightarrow> nat \<Rightarrow> byte list option" where
  "str_chars s pos n = do { cs \<leftarrow> read_cells pos n s; those cs }"

definition str_substr_new :: "nat \<Rightarrow> str \<Rightarrow> nat \<Rightarrow> nat \<Rightarrow> (exn + str) option" where
  "str_substr_new ms s pos n = do {
     sz \<leftarrow> str_size s;
     if pos > sz then Some (Inl Out_Of_Range)
     else do { xs \<leftarrow> str_chars s pos (min n (sz - pos)); str_init ms xs } }"

definition str_move_sub :: "str \<Rightarrow> nat \<Rightarrow> nat \<Rightarrow> (str \<times> str) option" where
  "str_move_sub s pos len = do {
     r1 \<leftarrow> char_move 0 (Own pos) len s;
     r2 \<leftarrow> set_size len r1;
     r3 \<leftarrow> char_assign len 0 r2;
     Some (r3, empty_short) }"

definition str_move_substr_new :: "str \<Rightarrow> nat \<Rightarrow> nat \<Rightarrow> (exn + str \<times> str) option" where
  "str_move_substr_new s pos n = do {
     sz \<leftarrow> str_size s;
     if pos > sz then Some (Inl Out_Of_Range)
     else do { res \<leftarrow> str_move_sub s pos (min n (sz - pos)); Some (Inr res) } }"

section \<open>Appending\<close>

definition str_append :: "nat \<Rightarrow> src \<Rightarrow> nat \<Rightarrow> str \<Rightarrow> (exn + str) option" where
  "str_append ms s n r = do {
     cap \<leftarrow> str_capacity r;
     sz \<leftarrow> str_size r;
     if cap - sz < n then grow_by_and_replace ms cap (sz + n - cap) sz sz 0 n s r
     else if n = 0 then Some (Inr r)
     else do {
       r1 \<leftarrow> char_copy sz s n r;
       r2 \<leftarrow> set_size (sz + n) r1;
       r3 \<leftarrow> char_assign (sz + n) 0 r2;
       Some (Inr r3) } }"

definition str_append_fill :: "nat \<Rightarrow> nat \<Rightarrow> byte \<Rightarrow> str \<Rightarrow> (exn + str) option" where
  "str_append_fill ms n c r =
    (if n = 0 then Some (Inr r)
     else do {
       cap \<leftarrow> str_capacity r;
       sz \<leftarrow> str_size r;
       res \<leftarrow> (if cap - sz < n then grow_by_without_replace ms cap (sz + n - cap) sz sz 0 0 r else Some (Inr r));
       (case res of
          Inl e \<Rightarrow> Some (Inl e)
        | Inr r0 \<Rightarrow> do {
            r1 \<leftarrow> char_fill sz n c r0;
            r2 \<leftarrow> set_size (sz + n) r1;
            r3 \<leftarrow> char_assign (sz + n) 0 r2;
            Some (Inr r3) }) })"

definition str_push_back :: "nat \<Rightarrow> byte \<Rightarrow> str \<Rightarrow> (exn + str) option" where
  "str_push_back ms c r = do {
     let is_short = \<not> is_long r;
     (cap, sz) \<leftarrow>
       (if is_short then do { sz \<leftarrow> get_short_size r; Some (min_cap - 1, sz) }
        else do { cap \<leftarrow> get_long_cap r; sz \<leftarrow> get_long_size r; Some (cap - 1, sz) });
     res \<leftarrow>
       (if sz = cap then do {
          g \<leftarrow> grow_by_without_replace ms cap 1 sz sz 0 0 r;
          Some (map_sum id (\<lambda>r0. (False, r0)) g) }
        else Some (Inr (is_short, r)));
     (case res of
        Inl e \<Rightarrow> Some (Inl e)
      | Inr (short, r0) \<Rightarrow> do {
          r1 \<leftarrow> (if short then set_short_size (sz + 1) r0 else set_long_size (sz + 1) r0);
          r2 \<leftarrow> char_assign sz c r1;
          r3 \<leftarrow> char_assign (sz + 1) 0 r2;
          Some (Inr r3) }) }"

text \<open>The \<open>push_back\<close> of every character an iterator yields.\<close>

fun str_push_all :: "nat \<Rightarrow> byte list \<Rightarrow> str \<Rightarrow> (exn + str) option" where
  "str_push_all ms [] r = Some (Inr r)"
| "str_push_all ms (c # cs) r = do {
     res \<leftarrow> str_push_back ms c r;
     (case res of Inl e \<Rightarrow> Some (Inl e) | Inr r1 \<Rightarrow> str_push_all ms cs r1) }"

definition str_init_with_sentinel :: "nat \<Rightarrow> byte list \<Rightarrow> (exn + str) option" where
  "str_init_with_sentinel ms xs = str_push_all ms xs empty_short"

text \<open>A range is first copied into a temporary string, which is then appended.\<close>

definition str_append_range :: "nat \<Rightarrow> byte list \<Rightarrow> str \<Rightarrow> (exn + str) option" where
  "str_append_range ms xs r =
    (if xs = [] then Some (Inr r)
     else do {
       res \<leftarrow> str_init_with_sentinel ms xs;
       (case res of
          Inl e \<Rightarrow> Some (Inl e)
        | Inr t \<Rightarrow> do {
            n \<leftarrow> str_size t;
            ys \<leftarrow> str_chars t 0 n;
            str_append ms (Elsewhere ys) n r }) })"

section \<open>Erasure\<close>

definition erase_to_end :: "nat \<Rightarrow> str \<Rightarrow> str option" where
  "erase_to_end pos r = do {
     cap \<leftarrow> str_capacity r;
     _ \<leftarrow> assert_that (pos \<le> cap);
     null_terminate_at pos r }"

definition erase_external_with_move :: "nat \<Rightarrow> nat \<Rightarrow> str \<Rightarrow> str option" where
  "erase_external_with_move pos n r =
    (if n = 0 then Some r
     else do {
       sz \<leftarrow> str_size r;
       let n' = min n (sz - pos);
       let n_move = sz - pos - n';
       r1 \<leftarrow> (if n_move \<noteq> 0 then char_move pos (Own (pos + n')) n_move r else Some r);
       null_terminate_at (sz - n') r1 })"

definition str_erase :: "nat \<Rightarrow> nat \<Rightarrow> str \<Rightarrow> (exn + str) option" where
  "str_erase pos n r = do {
     sz \<leftarrow> str_size r;
     if pos > sz then Some (Inl Out_Of_Range)
     else if n = npos then do { r1 \<leftarrow> erase_to_end pos r; Some (Inr r1) }
     else do { r1 \<leftarrow> erase_external_with_move pos n r; Some (Inr r1) } }"

definition str_pop_back :: "str \<Rightarrow> str option" where
  "str_pop_back r = do {
     sz \<leftarrow> str_size r;
     _ \<leftarrow> assert_that (sz \<noteq> 0);
     erase_to_end (sz - 1) r }"

definition str_clear :: "str \<Rightarrow> str option" where
  "str_clear r = do {
     r1 \<leftarrow> char_assign 0 0 r;
     if is_long r1 then set_long_size 0 r1 else set_short_size 0 r1 }"

definition str_resize :: "nat \<Rightarrow> nat \<Rightarrow> byte \<Rightarrow> str \<Rightarrow> (exn + str) option" where
  "str_resize ms n c r = do {
     sz \<leftarrow> str_size r;
     if n > sz then str_append_fill ms (n - sz) c r
     else do { r1 \<leftarrow> erase_to_end n r; Some (Inr r1) } }"

section \<open>Assignment\<close>

definition assign_short :: "src \<Rightarrow> nat \<Rightarrow> str \<Rightarrow> str option" where
  "assign_short s n r = do {
     r1 \<leftarrow> (if is_long r then set_long_size n r else set_short_size n r);
     r2 \<leftarrow> char_move 0 s n r1;
     char_assign n 0 r2 }"

definition assign_external :: "nat \<Rightarrow> src \<Rightarrow> nat \<Rightarrow> str \<Rightarrow> (exn + str) option" where
  "assign_external ms s n r = do {
     cap \<leftarrow> str_capacity r;
     sz \<leftarrow> str_size r;
     if cap \<ge> n then do {
       r1 \<leftarrow> char_move 0 s n r;
       r2 \<leftarrow> null_terminate_at n r1;
       Some (Inr r2) }
     else grow_by_and_replace ms cap (n - cap) sz 0 sz n s r }"

text \<open>\<open>assign(s, n)\<close>; \<open>known\<close> is \<open>__builtin_constant_p(n)\<close>.\<close>

definition str_assign :: "nat \<Rightarrow> bool \<Rightarrow> src \<Rightarrow> nat \<Rightarrow> str \<Rightarrow> (exn + str) option" where
  "str_assign ms known s n r =
    (if known \<and> fits_in_sso n then do { r1 \<leftarrow> assign_short s n r; Some (Inr r1) }
     else assign_external ms s n r)"

definition str_assign_fill :: "nat \<Rightarrow> nat \<Rightarrow> byte \<Rightarrow> str \<Rightarrow> (exn + str) option" where
  "str_assign_fill ms n c r = do {
     cap \<leftarrow> str_capacity r;
     old_size \<leftarrow> str_size r;
     res \<leftarrow> (if cap < n then grow_by_without_replace ms cap (n - cap) old_size 0 old_size 0 r else Some (Inr r));
     (case res of
        Inl e \<Rightarrow> Some (Inl e)
      | Inr r0 \<Rightarrow> do {
          r1 \<leftarrow> char_fill 0 n c r0;
          r2 \<leftarrow> null_terminate_at n r1;
          Some (Inr r2) }) }"

definition str_assign_char :: "byte \<Rightarrow> str \<Rightarrow> str option" where
  "str_assign_char c r = do {
     r1 \<leftarrow> (if is_long r then set_long_size 1 r else set_short_size 1 r);
     r2 \<leftarrow> char_assign 0 c r1;
     char_assign 1 0 r2 }"

definition assign_no_alias :: "nat \<Rightarrow> bool \<Rightarrow> byte list \<Rightarrow> str \<Rightarrow> (exn + str) option" where
  "assign_no_alias ms is_short xs r = do {
     let n = length xs;
     cap \<leftarrow> (if is_short then Some min_cap else get_long_cap r);
     sz \<leftarrow> (if is_short then get_short_size r else get_long_size r);
     if n \<ge> cap then grow_by_and_replace ms (cap - 1) (n - cap + 1) sz 0 sz n (Elsewhere xs) r
     else do {
       r1 \<leftarrow> (if is_short then set_short_size n r else set_long_size n r);
       r2 \<leftarrow> char_copy 0 (Elsewhere xs) n r1;
       r3 \<leftarrow> char_assign n 0 r2;
       Some (Inr r3) } }"

definition str_copy_assign :: "nat \<Rightarrow> bool \<Rightarrow> str \<Rightarrow> str \<Rightarrow> (exn + str) option" where
  "str_copy_assign ms same_object s r =
    (if same_object then Some (Inr r)
     else if is_long r then do {
       n \<leftarrow> str_size s;
       xs \<leftarrow> str_chars s 0 n;
       assign_no_alias ms False xs r }
     else if is_long s then do {
       n \<leftarrow> str_size s;
       xs \<leftarrow> str_chars s 0 n;
       assign_no_alias ms True xs r }
     else Some (Inr s))"

text \<open>Move assignment: the source is left short and empty; moving a string to itself empties it.\<close>

definition str_move_assign :: "str \<Rightarrow> (str \<times> str) option" where
  "str_move_assign s = do {
     s1 \<leftarrow> set_short_size 0 s;
     s2 \<leftarrow> char_assign 0 0 s1;
     Some (s, s2) }"

definition str_self_move_assign :: "str \<Rightarrow> str option" where
  "str_self_move_assign r = do {
     let r1 = (if is_long r then empty_short else r);
     r2 \<leftarrow> set_short_size 0 r1;
     char_assign 0 0 r2 }"

section \<open>Insertion\<close>

definition str_insert :: "nat \<Rightarrow> nat \<Rightarrow> src \<Rightarrow> nat \<Rightarrow> str \<Rightarrow> (exn + str) option" where
  "str_insert ms pos s n r = do {
     sz \<leftarrow> str_size r;
     if pos > sz then Some (Inl Out_Of_Range)
     else do {
       cap \<leftarrow> str_capacity r;
       if cap - sz < n then grow_by_and_replace ms cap (sz + n - cap) sz pos 0 n s r
       else if n = 0 then Some (Inr r)
       else do {
         let n_move = sz - pos;
         (s1, r1) \<leftarrow>
           (if n_move \<noteq> 0 then do {
              let s1 = (if src_in_range pos sz s then src_add s n else s);
              r1 \<leftarrow> char_move (pos + n) (Own pos) n_move r;
              Some (s1, r1) }
            else Some (s, r));
         r2 \<leftarrow> char_move pos s1 n r1;
         r3 \<leftarrow> set_size (sz + n) r2;
         r4 \<leftarrow> char_assign (sz + n) 0 r3;
         Some (Inr r4) } } }"

definition str_insert_fill :: "nat \<Rightarrow> nat \<Rightarrow> nat \<Rightarrow> byte \<Rightarrow> str \<Rightarrow> (exn + str) option" where
  "str_insert_fill ms pos n c r = do {
     sz \<leftarrow> str_size r;
     if pos > sz then Some (Inl Out_Of_Range)
     else if n = 0 then Some (Inr r)
     else do {
       cap \<leftarrow> str_capacity r;
       res \<leftarrow>
         (if cap - sz \<ge> n then do {
            let n_move = sz - pos;
            r1 \<leftarrow> (if n_move \<noteq> 0 then char_move (pos + n) (Own pos) n_move r else Some r);
            Some (Inr r1) }
          else grow_by_without_replace ms cap (sz + n - cap) sz pos 0 n r);
       (case res of
          Inl e \<Rightarrow> Some (Inl e)
        | Inr r1 \<Rightarrow> do {
            r2 \<leftarrow> char_fill pos n c r1;
            r3 \<leftarrow> set_size (sz + n) r2;
            r4 \<leftarrow> char_assign (sz + n) 0 r3;
            Some (Inr r4) }) } }"

text \<open>\<open>insert(iterator, c)\<close> writes the terminator before it sets the size.\<close>

definition str_insert_char :: "nat \<Rightarrow> nat \<Rightarrow> byte \<Rightarrow> str \<Rightarrow> (exn + str) option" where
  "str_insert_char ms ip c r = do {
     sz \<leftarrow> str_size r;
     cap \<leftarrow> str_capacity r;
     res \<leftarrow>
       (if cap = sz then grow_by_without_replace ms cap 1 sz ip 0 1 r
        else do {
          let n_move = sz - ip;
          r1 \<leftarrow> (if n_move \<noteq> 0 then char_move (ip + 1) (Own ip) n_move r else Some r);
          Some (Inr r1) });
     (case res of
        Inl e \<Rightarrow> Some (Inl e)
      | Inr r1 \<Rightarrow> do {
          r2 \<leftarrow> char_assign ip c r1;
          r3 \<leftarrow> char_assign (sz + 1) 0 r2;
          r4 \<leftarrow> set_size (sz + 1) r3;
          Some (Inr r4) }) }"

definition insert_from_safe_copy :: "nat \<Rightarrow> nat \<Rightarrow> byte list \<Rightarrow> str \<Rightarrow> (exn + str) option" where
  "insert_from_safe_copy ms ip xs r = do {
     let n = length xs;
     sz \<leftarrow> str_size r;
     cap \<leftarrow> str_capacity r;
     res \<leftarrow>
       (if cap - sz \<ge> n then do {
          let n_move = sz - ip;
          r1 \<leftarrow> (if n_move \<noteq> 0 then char_move (ip + n) (Own ip) n_move r else Some r);
          Some (Inr r1) }
        else grow_by_without_replace ms cap (sz + n - cap) sz ip 0 n r);
     (case res of
        Inl e \<Rightarrow> Some (Inl e)
      | Inr r1 \<Rightarrow> do {
          r2 \<leftarrow> set_size (sz + n) r1;
          r3 \<leftarrow> char_assign (sz + n) 0 r2;
          r4 \<leftarrow> char_copy ip (Elsewhere xs) n r3;
          Some (Inr r4) }) }"

text \<open>No iterator type is trivial (\<open>string_is_trivial_iterator_v\<close> is false throughout), so a range
  goes through a temporary string.\<close>

definition str_insert_with_size :: "nat \<Rightarrow> nat \<Rightarrow> byte list \<Rightarrow> str \<Rightarrow> (exn + str) option" where
  "str_insert_with_size ms ip xs r =
    (if xs = [] then Some (Inr r)
     else do {
       res \<leftarrow> str_init_with_sentinel ms xs;
       (case res of
          Inl e \<Rightarrow> Some (Inl e)
        | Inr t \<Rightarrow> do { n \<leftarrow> str_size t; ys \<leftarrow> str_chars t 0 n; insert_from_safe_copy ms ip ys r }) })"

section \<open>Replacement\<close>

text \<open>
  \<open>replace(pos, n1, s, n2)\<close>. In place, the case \<open>n1 < n2\<close> moves the tail to the right, so a source
  in the string's own tail is followed, and one that starts inside the replaced range is copied
  in two pieces.
\<close>

definition str_replace :: "nat \<Rightarrow> nat \<Rightarrow> nat \<Rightarrow> src \<Rightarrow> nat \<Rightarrow> str \<Rightarrow> (exn + str) option" where
  "str_replace ms pos n1' s n2 r = do {
     sz \<leftarrow> str_size r;
     if pos > sz then Some (Inl Out_Of_Range)
     else do {
       let n1 = min n1' (sz - pos);
       cap \<leftarrow> str_capacity r;
       if cap - sz + n1 < n2 then grow_by_and_replace ms cap (sz - n1 + n2 - cap) sz pos n1 n2 s r
       else do {
         let n_move = sz - pos - n1;
         if n1 \<noteq> n2 \<and> n_move \<noteq> 0 then
           if n1 > n2 then do {
             r1 \<leftarrow> char_move pos s n2 r;
             r2 \<leftarrow> char_move (pos + n2) (Own (pos + n1)) n_move r1;
             r3 \<leftarrow> null_terminate_at (sz + n2 - n1) r2;
             Some (Inr r3) }
           else do {
             (pos1, s1, n1a, n2a, r1) \<leftarrow>
               (if src_in_range (pos + 1) sz s then
                  if \<not> src_in_range (pos + 1) (pos + n1) s then Some (pos, src_add s (n2 - n1), n1, n2, r)
                  else do {
                    r1 \<leftarrow> char_move pos s n1 r;
                    Some (pos + n1, src_add s n2, 0, n2 - n1, r1) }
                else Some (pos, s, n1, n2, r));
             r2 \<leftarrow> char_move (pos1 + n2a) (Own (pos1 + n1a)) n_move r1;
             r3 \<leftarrow> char_move pos1 s1 n2a r2;
             r4 \<leftarrow> null_terminate_at (sz + n2a - n1a) r3;
             Some (Inr r4) }
         else do {
           r1 \<leftarrow> char_move pos s n2 r;
           r2 \<leftarrow> null_terminate_at (sz + n2 - n1) r1;
           Some (Inr r2) } } } }"

definition str_replace_fill :: "nat \<Rightarrow> nat \<Rightarrow> nat \<Rightarrow> nat \<Rightarrow> byte \<Rightarrow> str \<Rightarrow> (exn + str) option" where
  "str_replace_fill ms pos n1' n2 c r = do {
     sz \<leftarrow> str_size r;
     if pos > sz then Some (Inl Out_Of_Range)
     else do {
       let n1 = min n1' (sz - pos);
       cap \<leftarrow> str_capacity r;
       res \<leftarrow>
         (if cap - sz + n1 \<ge> n2 then do {
            let n_move = sz - pos - n1;
            r1 \<leftarrow> (if n1 \<noteq> n2 \<and> n_move \<noteq> 0 then char_move (pos + n2) (Own (pos + n1)) n_move r else Some r);
            Some (Inr r1) }
          else grow_by_without_replace ms cap (sz - n1 + n2 - cap) sz pos n1 n2 r);
       (case res of
          Inl e \<Rightarrow> Some (Inl e)
        | Inr r1 \<Rightarrow> do {
            r2 \<leftarrow> char_fill pos n2 c r1;
            r3 \<leftarrow> null_terminate_at (sz + n2 - n1) r2;
            Some (Inr r3) }) } }"

section \<open>Capacity\<close>

definition str_reserve :: "nat \<Rightarrow> nat \<Rightarrow> str \<Rightarrow> (exn + str) option" where
  "str_reserve ms requested r =
    (if requested > ms then Some (Inl Length_Error)
     else do {
       cap \<leftarrow> str_capacity r;
       if requested \<le> cap then Some (Inr r)
       else do {
         buf0 \<leftarrow> allocate_long_buffer requested;
         n \<leftarrow> str_size r;
         buf1 \<leftarrow> set_long_size n buf0;
         cs \<leftarrow> read_cells 0 (n + 1) r;
         buf2 \<leftarrow> write_cells 0 cs buf1;
         Some (Inr buf2) } })"

definition str_shrink_to_fit :: "str \<Rightarrow> str option" where
  "str_shrink_to_fit r = do {
     n \<leftarrow> str_size r;
     cap0 \<leftarrow> str_capacity r;
     let target = str_recommend n;
     if target = cap0 then Some r
     else do {
       _ \<leftarrow> assert_that (is_long r);
       cs \<leftarrow> read_cells 0 (n + 1) r;
       if fits_in_sso target then do {
         r1 \<leftarrow> set_short_size n r;
         write_cells 0 cs r1 }
       else do {
         buf0 \<leftarrow> allocate_long_buffer n;
         bcap \<leftarrow> get_long_cap buf0;
         if bcap - 1 \<ge> cap0 then Some r
         else write_cells 0 cs buf0 } } }"

definition str_swap :: "str \<times> str \<Rightarrow> str \<times> str" where
  "str_swap = (\<lambda>(r, s). (s, r))"

section \<open>Access and comparison\<close>

definition str_index :: "nat \<Rightarrow> str \<Rightarrow> byte option" where
  "str_index pos r = do { sz \<leftarrow> str_size r; _ \<leftarrow> assert_that (pos \<le> sz); char_at pos r }"

definition str_at :: "nat \<Rightarrow> str \<Rightarrow> (exn + byte) option" where
  "str_at n r = do {
     sz \<leftarrow> str_size r;
     if n \<ge> sz then Some (Inl Out_Of_Range) else do { c \<leftarrow> str_index n r; Some (Inr c) } }"

definition str_front :: "str \<Rightarrow> byte option" where
  "str_front r = do { e \<leftarrow> str_empty r; _ \<leftarrow> assert_that (\<not> e); char_at 0 r }"

definition str_back :: "str \<Rightarrow> byte option" where
  "str_back r = do { n \<leftarrow> str_size r; _ \<leftarrow> assert_that (n \<noteq> 0); char_at (n - 1) r }"

text \<open>The view of a string, which the conversions and the searches go through.\<close>

definition str_view :: "str \<Rightarrow> byte list option" where
  "str_view r = do { n \<leftarrow> str_size r; str_chars r 0 n }"

definition str_copy_out :: "nat \<Rightarrow> nat \<Rightarrow> str \<Rightarrow> (exn + byte list) option" where
  "str_copy_out n pos r = do {
     sz \<leftarrow> str_size r;
     if pos > sz then Some (Inl Out_Of_Range)
     else do { xs \<leftarrow> str_chars r pos (min n (sz - pos)); Some (Inr xs) } }"

text \<open>\<open>char_traits<char>::compare\<close> of \<open>n\<close> characters, as unsigned bytes.\<close>

fun traits_compare :: "byte list \<Rightarrow> byte list \<Rightarrow> nat \<Rightarrow> int" where
  "traits_compare (x # xs) (y # ys) (Suc n) =
    (if x < y then - 1 else if y < x then 1 else traits_compare xs ys n)"
| "traits_compare xs ys n = 0"

definition str_compare :: "byte list \<Rightarrow> str \<Rightarrow> int option" where
  "str_compare ys r = do {
     n \<leftarrow> str_size r;
     xs \<leftarrow> str_chars r 0 n;
     let result = traits_compare xs ys (min n (length ys));
     Some (if result \<noteq> 0 then result else if n < length ys then - 1 else if n > length ys then 1 else 0) }"

definition str_compare_at :: "nat \<Rightarrow> nat \<Rightarrow> byte list \<Rightarrow> nat \<Rightarrow> str \<Rightarrow> (exn + int) option" where
  "str_compare_at pos1 n1 s n2 r = do {
     sz \<leftarrow> str_size r;
     if pos1 > sz \<or> n2 = npos then Some (Inl Out_Of_Range)
     else do {
       let rlen = min n1 (sz - pos1);
       xs \<leftarrow> str_chars r pos1 rlen;
       let c = traits_compare xs s (min rlen n2);
       Some (Inr (if c = 0 then if rlen < n2 then - 1 else if rlen > n2 then 1 else 0 else c)) } }"

definition str_equal :: "str \<Rightarrow> str \<Rightarrow> bool option" where
  "str_equal r s = do {
     n \<leftarrow> str_size r;
     k \<leftarrow> str_size s;
     if n = k then do {
       xs \<leftarrow> str_chars r 0 n;
       ys \<leftarrow> str_chars s 0 n;
       Some (traits_compare xs ys n = 0) }
     else Some False }"

definition str_starts_with :: "byte list \<Rightarrow> str \<Rightarrow> bool option" where
  "str_starts_with p r = do { xs \<leftarrow> str_view r; Some (take (length p) xs = p) }"

definition str_ends_with :: "byte list \<Rightarrow> str \<Rightarrow> bool option" where
  "str_ends_with p r = do {
     xs \<leftarrow> str_view r;
     Some (length p \<le> length xs \<and> drop (length xs - length p) xs = p) }"

definition str_starts_with_char :: "byte \<Rightarrow> str \<Rightarrow> bool option" where
  "str_starts_with_char c r = do {
     e \<leftarrow> str_empty r;
     if e then Some False else do { x \<leftarrow> str_front r; Some (x = c) } }"

definition str_ends_with_char :: "byte \<Rightarrow> str \<Rightarrow> bool option" where
  "str_ends_with_char c r = do {
     e \<leftarrow> str_empty r;
     if e then Some False else do { x \<leftarrow> str_back r; Some (x = c) } }"

definition str_invariants :: "str \<Rightarrow> bool" where
  "str_invariants r =
    (case (str_size r, str_capacity r) of
       (Some n, Some c) \<Rightarrow> \<not> n > c \<and> \<not> c < min_cap - 1 \<and> char_at n r = Some 0
     | _ \<Rightarrow> False)"

section \<open>Concatenation and filtering\<close>

definition concatenate_strings :: "nat \<Rightarrow> byte list \<Rightarrow> byte list \<Rightarrow> (exn + str) option" where
  "concatenate_strings ms xs ys = do {
     res \<leftarrow> init_internal_buffer ms (length xs + length ys);
     (case res of
        Inl e \<Rightarrow> Some (Inl e)
      | Inr r \<Rightarrow> do {
          r1 \<leftarrow> char_copy 0 (Elsewhere xs) (length xs) r;
          r2 \<leftarrow> char_copy (length xs) (Elsewhere ys) (length ys) r1;
          r3 \<leftarrow> char_assign (length xs + length ys) 0 r2;
          Some (Inr r3) }) }"

definition str_plus :: "nat \<Rightarrow> str \<Rightarrow> str \<Rightarrow> (exn + str) option" where
  "str_plus ms r s = do { xs \<leftarrow> str_view r; ys \<leftarrow> str_view s; concatenate_strings ms xs ys }"

text \<open>\<open>operator+\<close> on a left and on a right operand that is about to expire.\<close>

definition str_plus_left :: "nat \<Rightarrow> str \<Rightarrow> byte list \<Rightarrow> (exn + str) option" where
  "str_plus_left ms r ys = str_append ms (Elsewhere ys) (length ys) r"

definition str_plus_right :: "nat \<Rightarrow> byte list \<Rightarrow> str \<Rightarrow> (exn + str) option" where
  "str_plus_right ms xs s = str_insert ms 0 (Elsewhere xs) (length xs) s"

text \<open>\<open>std::remove_if\<close> compacts the characters in the buffer; the range up to the end is then erased.\<close>

definition str_erase_if :: "(byte \<Rightarrow> bool) \<Rightarrow> str \<Rightarrow> (exn + nat \<times> str) option" where
  "str_erase_if P r = do {
     old_size \<leftarrow> str_size r;
     xs \<leftarrow> str_chars r 0 old_size;
     let kept = filter (\<lambda>c. \<not> P c) xs;
     r1 \<leftarrow> write_cells 0 (map Some kept) r;
     res \<leftarrow> str_erase (length kept) (old_size - length kept) r1;
     (case res of
        Inl e \<Rightarrow> Some (Inl e)
      | Inr r2 \<Rightarrow> do { n \<leftarrow> str_size r2; Some (Inr (old_size - n, r2)) }) }"

end
