(* ===== verification/Basic_String_Correct.thy ===== *)
theory Basic_String_Correct
  imports Basic_String
begin

text \<open>
  What the operations of \<open>Basic_String\<close> do to the text they hold: \<open>str_rep r xs\<close> says that \<open>r\<close> is
  a well-formed string of the characters \<open>xs\<close>, terminated, short or long. Every operation is the
  list operation, for a source that may lie inside the string itself, or throws and leaves the
  string as it was.
\<close>

section \<open>Well-formed representations\<close>

definition shaped :: "str \<Rightarrow> bool" where
  "shaped r \<longleftrightarrow>
    (case r of
       Short cs \<Rightarrow> length cs = 24 \<and> (\<exists>b. last cs = Some b \<and> \<not> bit b 7)
     | Long cs n \<Rightarrow> 24 \<le> length cs)"

definition str_rep :: "str \<Rightarrow> byte list \<Rightarrow> bool" where
  "str_rep r xs \<longleftrightarrow>
    shaped r \<and> str_size r = Some (length xs) \<and> (\<exists>C. buffer r = map Some xs @ Some 0 # C)"

lemma last_24: "length cs = 24 \<Longrightarrow> cs ! 23 = last cs"
  by (cases cs rule: rev_cases) (auto simp: nth_append)

lemma shaped_buffer: "shaped r \<Longrightarrow> 24 \<le> length (buffer r)"
  by (cases r) (auto simp: shaped_def)

lemma shaped_is_long: "shaped r \<Longrightarrow> is_long r \<longleftrightarrow> (\<exists>cs n. r = Long cs n)"
  by (cases r) (auto simp: shaped_def last_24)

lemma shaped_capacity: "shaped r \<Longrightarrow> str_capacity r = Some (length (buffer r) - 1)"
  by (cases r) (auto simp: shaped_def last_24 str_capacity_def min_cap_def)

text \<open>The spare size in the low seven bits, the mode bit clear.\<close>

lemma spare_byte:
  assumes "n \<le> 23"
  shows "\<not> bit (of_nat (23 - n) :: byte) 7" "unat (of_nat (23 - n) AND (127 :: byte)) = 23 - n"
proof -
  have "\<forall>i < 24. \<not> bit (of_nat i :: byte) 7 \<and> unat (of_nat i AND (127 :: byte)) = i"
    by (simp add: All_less_Suc numeral_eq_Suc) code_simp
  then show "\<not> bit (of_nat (23 - n) :: byte) 7" "unat (of_nat (23 - n) AND (127 :: byte)) = 23 - n"
    by simp_all
qed

lemma short_size:
  assumes "length cs = 24" "last cs = Some (of_nat (23 - n))" "n \<le> 23"
  shows "get_short_size (Short cs) = Some n"
proof -
  define b :: byte where "b = of_nat (23 - n)"
  have "cs ! 23 = Some b" "\<not> bit b 7" "unat (b AND 127) = 23 - n"
    using assms spare_byte [OF assms(3)] by (simp_all only: b_def last_24) simp_all
  with assms(3) show ?thesis by (simp add: min_cap_def)
qed

lemma str_rep_less: "str_rep r xs \<Longrightarrow> length xs < length (buffer r)"
  by (auto simp: str_rep_def)

lemma str_rep_sizes:
  assumes "str_rep r xs"
  shows "str_size r = Some (length xs)" "str_capacity r = Some (length (buffer r) - 1)"
    "length xs < length (buffer r)" "shaped r"
  using assms by (auto simp: str_rep_def shaped_capacity)

lemma is_long_size: "shaped r \<Longrightarrow> is_long r \<Longrightarrow> get_long_size r = str_size r"
  by (simp add: str_size_def)

lemma is_short_size: "shaped r \<Longrightarrow> \<not> is_long r \<Longrightarrow> get_short_size r = str_size r"
  by (simp add: str_size_def)

lemma is_short_buffer: "shaped r \<Longrightarrow> \<not> is_long r \<Longrightarrow> length (buffer r) = 24"
  by (cases r) (auto simp: shaped_def)

lemma is_long_cap: "shaped r \<Longrightarrow> is_long r \<Longrightarrow> get_long_cap r = Some (length (buffer r))"
  by (auto simp: shaped_is_long)

lemma shaped_Short: "shaped (Short cs) \<Longrightarrow> \<not> is_long (Short cs) \<and> str_size (Short cs) = get_short_size (Short cs)"
  using shaped_is_long [of "Short cs"] by (simp add: str_size_def del: is_long.simps)

lemma empty_short_rep: "str_rep empty_short []"
proof -
  have sz: "get_short_size empty_short = Some 0"
    unfolding empty_short_def by (rule short_size) (simp_all add: min_cap_def)
  have sh: "shaped empty_short"
    using spare_byte(1) [of 0] by (simp add: shaped_def empty_short_def min_cap_def)
  have "\<exists>C. buffer empty_short = Some 0 # C"
    by (simp add: empty_short_def min_cap_def numeral_eq_Suc)
  with sh sz show ?thesis
    using shaped_Short [OF sh [unfolded empty_short_def]] by (simp add: str_rep_def empty_short_def)
qed

text \<open>The invariant the header states holds of every well-formed string.\<close>

lemma str_rep_invariants:
  assumes "str_rep r xs"
  shows "str_invariants r"
proof -
  obtain C where C: "buffer r = map Some xs @ Some 0 # C" using assms by (auto simp: str_rep_def)
  have "char_at (length xs) r = Some 0" by (simp add: char_at_def C nth_append)
  then show ?thesis
    using str_rep_sizes [OF assms] shaped_buffer [of r] by (auto simp: str_invariants_def min_cap_def)
qed

section \<open>Cells\<close>

lemma buffer_with_buffer [simp]: "buffer (with_buffer cs r) = cs"
  by (cases r) auto

text \<open>A write into the buffer that keeps its last byte keeps the mode, the size and the capacity.\<close>

definition keeps_shape :: "str \<Rightarrow> str \<Rightarrow> bool" where
  "keeps_shape r r1 \<longleftrightarrow>
    shaped r1 \<and> is_long r1 = is_long r \<and> str_size r1 = str_size r \<and> length (buffer r1) = length (buffer r)"

lemma keeps_shape_with_buffer:
  "shaped r \<Longrightarrow> length cs = length (buffer r) \<Longrightarrow> last cs = last (buffer r) \<Longrightarrow> keeps_shape r (with_buffer cs r)"
  by (cases r) (auto simp: keeps_shape_def shaped_def str_size_def last_24)

lemma keeps_shape_trans: "keeps_shape r s \<Longrightarrow> keeps_shape s t \<Longrightarrow> keeps_shape r t"
  by (simp add: keeps_shape_def)

lemma keeps_shape_refl: "shaped r \<Longrightarrow> keeps_shape r r"
  by (simp add: keeps_shape_def)

lemma write_mid:
  assumes "shaped r" "buffer r = A @ B @ C" "length B = length zs" "C \<noteq> []" "i = length A"
  shows "\<exists>r1. write_cells i zs r = Some r1 \<and> keeps_shape r r1 \<and> buffer r1 = A @ zs @ C"
  using assms keeps_shape_with_buffer [OF assms(1), of "A @ zs @ C"] by (auto simp: write_cells_def)

lemma write_prefix:
  assumes "shaped r" "buffer r = A @ R" "length zs < length R" "i = length A"
  shows "\<exists>r1. write_cells i zs r = Some r1 \<and> keeps_shape r r1 \<and> buffer r1 = A @ zs @ drop (length zs) R"
  by (rule write_mid [of _ _ "take (length zs) R"]) (use assms in auto)

lemma read_mid_cells: "buffer r = A @ B @ C \<Longrightarrow> i = length A \<Longrightarrow> n = length B \<Longrightarrow> read_cells i n r = Some B"
  by (simp add: read_cells_def)

text \<open>Every operation ends in the same way: the size is set and the terminator written, in one
  order or the other.\<close>

lemma char_assign_eq: "i < length (buffer r) \<Longrightarrow> char_assign i c r = Some (with_buffer ((buffer r)[i := Some c]) r)"
  by (simp add: char_assign_def write_cells_def upd_conv_take_nth_drop)

lemma terminate_both:
  assumes "shaped r" "buffer r = map Some ys @ R" "R \<noteq> []"
  shows "\<exists>r'. null_terminate_at (length ys) r = Some r' \<and>
    do { r1 \<leftarrow> char_assign (length ys) 0 r; set_size (length ys) r1 } = Some r' \<and>
    str_rep r' ys \<and> length (buffer r') = length (buffer r) \<and> is_long r' = is_long r"
proof -
  let ?n = "length ys"
  obtain x R' where R: "R = x # R'" using assms(3) by (cases R) auto
  have n: "?n < length (buffer r)" using assms by simp
  show ?thesis
  proof (cases r)
    case (Long cs k)
    have "(buffer r)[?n := Some 0] = map Some ys @ Some 0 # R'"
      unfolding assms(2) R by (simp add: list_update_append)
    moreover have "length (map Some ys @ Some 0 # R') = length (buffer r)" using assms(2) R by simp
    ultimately show ?thesis using assms(1) n Long
      by (auto simp: null_terminate_at_def set_size_def char_assign_eq str_rep_def shaped_def str_size_def)
  next
    case (Short cs)
    define b :: byte where "b = of_nat (23 - ?n)"
    have l: "length cs = 24" and n': "?n \<le> 23" and m: "\<not> is_long (Short cs)"
      using assms(1) Short n shaped_Short by (auto simp: shaped_def)
    have b: "\<not> bit b 7" "unat (b AND 127) = 23 - ?n" "?n = 23 \<Longrightarrow> b = 0"
      unfolding b_def using spare_byte [OF n'] by simp_all
    define ds where "ds = cs[23 := Some b]"
    have ds: "ds = map Some ys @ R[23 - ?n := Some b]"
      using assms(2) Short n' by (simp add: ds_def list_update_append)
    then have ds0: "ds[?n := Some 0] = map Some ys @ R[23 - ?n := Some b, 0 := Some 0]"
      by (simp add: list_update_append)
    have nth: "ds[?n := Some 0] ! 23 = Some b" "length ds = 24"
      using l b(3) n' by (auto simp: nth_list_update ds_def)
    have other: "cs[?n := Some 0, 23 := Some b] = ds[?n := Some 0]"
      using b(3) by (cases "?n = 23") (simp_all add: list_update_swap ds_def)
    have m0: "\<not> is_long (Short (cs[?n := Some 0]))"
      using m l by (cases "?n = 23") simp_all
    have sh: "shaped (Short (ds[?n := Some 0]))"
      using nth b(1) last_24 [of "ds[?n := Some 0]"] by (auto simp: shaped_def)
    have R0: "R[23 - ?n := Some b, 0 := Some 0] = Some 0 # tl (R[23 - ?n := Some b])"
      using R by (cases "23 - ?n") auto
    have rep: "str_rep (Short (ds[?n := Some 0])) ys"
      using sh shaped_Short [OF sh] nth b(1,2) n' ds0 unfolding R0
      by (auto simp: str_rep_def min_cap_def)
    have "set_size ?n (Short cs) = Some (Short ds)"
      using m n' by (simp add: set_size_def min_cap_def ds_def b_def del: is_long.simps of_nat_diff)
    then have 1: "null_terminate_at ?n r = Some (Short (ds[?n := Some 0]))"
      using Short nth(2) n' by (simp add: null_terminate_at_def char_assign_eq)
    have "set_size ?n (Short (cs[?n := Some 0])) = Some (Short (ds[?n := Some 0]))"
      using m0 n' by (simp add: set_size_def min_cap_def b_def del: is_long.simps of_nat_diff flip: other)
    then have 2: "do { r1 \<leftarrow> char_assign ?n 0 r; set_size ?n r1 } = Some (Short (ds[?n := Some 0]))"
      using Short l n' by (simp add: char_assign_eq)
    show ?thesis
      using 1 2 rep Short l m nth shaped_Short [OF sh]
      by (intro exI [of _ "Short (ds[?n := Some 0])"]) (simp del: is_long.simps)
  qed
qed

lemma terminate:
  assumes "shaped r" "buffer r = map Some ys @ R" "R \<noteq> []" "n = length ys"
  shows "\<exists>r'. null_terminate_at n r = Some r' \<and> str_rep r' ys \<and> length (buffer r') = length (buffer r)"
  using terminate_both [OF assms(1-3)] assms(4) by auto

lemma terminate_bind:
  "Option.bind (set_size n r) (\<lambda>r1. Option.bind (char_assign n 0 r1) f) = Option.bind (null_terminate_at n r) f"
  by (simp add: null_terminate_at_def)

text \<open>Setting the size and writing characters before the terminator's place commute.\<close>

lemma set_size_write:
  assumes "shaped r" "i + length zs < length (buffer r)"
  shows "Option.bind (set_size n r) (\<lambda>r1. write_cells i zs r1) = Option.bind (write_cells i zs r) (\<lambda>r1. set_size n r1)"
proof (cases r)
  case (Long cs k)
  with assms show ?thesis by (simp add: set_size_def write_cells_def)
next
  case (Short cs)
  let ?ds = "take i cs @ zs @ drop (i + length zs) cs"
  have l: "length cs = 24" "length ?ds = 24" "i + length zs \<le> 23"
    using assms Short by (auto simp: shaped_def)
  have upd: "take i (cs[23 := b]) @ zs @ drop (i + length zs) (cs[23 := b]) = ?ds[23 := b]" for b
  proof -
    have "\<not> 23 - i < length zs" "\<not> 23 < i" using l by linarith+
    with l show ?thesis by (simp add: list_update_append drop_update_swap)
  qed
  have "shaped (Short ?ds)"
    using keeps_shape_with_buffer [OF assms(1), of ?ds] Short l assms(1)
    by (simp add: keeps_shape_def shaped_def)
  with assms(1) Short have "\<not> is_long (Short cs)" "\<not> is_long (Short ?ds)" using shaped_Short by auto
  then show ?thesis
    using l upd Short by (simp add: set_size_def write_cells_def del: is_long.simps append_assoc)
qed

lemma set_size_move:
  assumes "shaped r" "i + length zs < length (buffer r)" "n = length zs"
  shows "Option.bind (set_size k r) (\<lambda>r1. Option.bind (char_move i (Elsewhere zs) n r1) f) =
    Option.bind (char_move i (Elsewhere zs) n r) (\<lambda>r1. Option.bind (set_size k r1) f)"
  using arg_cong [OF set_size_write [OF assms(1), of i "map Some zs" k], of "\<lambda>x. Option.bind x f"] assms(2,3)
  by (simp add: char_move_def)

section \<open>Sources\<close>

text \<open>The text of a source that lies elsewhere, or inside the string itself.\<close>

fun src_text :: "src \<Rightarrow> nat \<Rightarrow> byte list \<Rightarrow> byte list option" where
  "src_text (Elsewhere zs) n xs = (if n \<le> length zs then Some (take n zs) else None)"
| "src_text (Own i) n xs = (if i + n \<le> length xs then Some (take n (drop i xs)) else None)"

lemma src_text_length: "src_text s n xs = Some N \<Longrightarrow> length N = n"
  by (cases s) (auto split: if_splits)

lemma read_text:
  assumes "str_rep r xs" "src_text s n xs = Some N"
  shows "read_src s n r = Some (map Some N)"
proof -
  obtain C where "buffer r = map Some xs @ Some 0 # C" using assms(1) by (auto simp: str_rep_def)
  with assms(2) show ?thesis
    by (cases s) (auto simp: read_cells_def take_map drop_map split: if_splits)
qed

lemma read_own: "str_rep r (A @ B @ D) \<Longrightarrow> i = length A \<Longrightarrow> n = length B \<Longrightarrow> read_cells i n r = Some (map Some B)"
  using read_text [of r "A @ B @ D" "Own i" n B] by simp

lemma read_own_0: "str_rep r (B @ D) \<Longrightarrow> n = length B \<Longrightarrow> read_cells 0 n r = Some (map Some B)"
  using read_own [of r "[]" B D 0] by simp

lemma char_move_ok:
  assumes "shaped r" "read_src s n r = Some zs" "length zs = n" "i + n < length (buffer r)"
  shows "\<exists>r1. char_move i s n r = Some r1 \<and> keeps_shape r r1 \<and>
    buffer r1 = take i (buffer r) @ zs @ drop (i + n) (buffer r)"
proof -
  have "buffer r = take i (buffer r) @ take n (drop i (buffer r)) @ drop (i + n) (buffer r)"
    by (metis add.commute append_take_drop_id drop_drop)
  from write_mid [OF assms(1) this, of zs i] assms show ?thesis by (simp add: char_move_def)
qed

lemma char_copy_eq:
  assumes "\<And>j. s = Own j \<Longrightarrow> j + n \<le> i"
  shows "char_copy i s n r = char_move i s n r"
  using assms by (cases s) (auto simp: char_copy_def)

lemma char_fill_eq: "char_fill i n c r = char_move i (Elsewhere (replicate n c)) n r"
  by (simp add: char_fill_def char_move_def)

lemma char_assign_move: "char_assign i c r = char_move i (Elsewhere [c]) 1 r"
  by (simp add: char_assign_def char_move_def)

section \<open>What an operation yields\<close>

text \<open>
  A string whose capacity is at most \<open>max_size()\<close>, and an operation that must return \<open>ys\<close>: it
  does when \<open>ys\<close> is at most \<open>max_size()\<close> long, and throws \<open>length_error\<close> otherwise. While the
  texts stay below half of it the capacity stays in bounds.
\<close>

definition held :: "nat \<Rightarrow> str \<Rightarrow> byte list \<Rightarrow> bool" where
  "held ms r xs \<longleftrightarrow> str_rep r xs \<and> length (buffer r) \<le> ms + 1"

definition yields :: "nat \<Rightarrow> byte list \<Rightarrow> (exn + str) option \<Rightarrow> bool" where
  "yields ms ys res \<longleftrightarrow>
    (if length ys \<le> ms
     then \<exists>r'. res = Some (Inr r') \<and> str_rep r' ys \<and> (length ys + 16 \<le> ms div 2 \<longrightarrow> held ms r' ys)
     else res = Some (Inl Length_Error))"

lemma yields_in_place:
  assumes "held ms r xs" "str_rep r' ys" "length (buffer r') = length (buffer r)"
  shows "yields ms ys (Some (Inr r'))"
  using assms str_rep_less [OF assms(2)] by (simp add: yields_def held_def)

lemma held_rep: "held ms r xs \<Longrightarrow> str_rep r xs"
  by (simp add: held_def)

lemma held_empty: "23 \<le> ms \<Longrightarrow> held ms empty_short []"
  using empty_short_rep by (simp add: held_def) (simp add: empty_short_def min_cap_def)

text \<open>A buffer with room for a text of \<open>k\<close> characters, and an operation that ends by writing the
  terminator into one.\<close>

definition room :: "nat \<Rightarrow> nat \<Rightarrow> str \<Rightarrow> bool" where
  "room ms k r \<longleftrightarrow> shaped r \<and> k < length (buffer r) \<and> k \<le> ms \<and> (k + 16 \<le> ms div 2 \<longrightarrow> length (buffer r) \<le> ms + 1)"

lemma held_room: "held ms r xs \<Longrightarrow> k < length (buffer r) \<Longrightarrow> room ms k r"
  by (auto simp: room_def held_def str_rep_def)

lemma room_keeps_shape: "room ms k r \<Longrightarrow> keeps_shape r r1 \<Longrightarrow> room ms k r1"
  by (simp add: room_def keeps_shape_def)

lemma room_terminate:
  assumes "room ms k r" "buffer r = map Some ys @ R" "k = length ys"
  shows "yields ms ys (do { r2 \<leftarrow> null_terminate_at k r; Some (Inr r2) })"
proof -
  obtain r' where "null_terminate_at k r = Some r'" "str_rep r' ys" "length (buffer r') = length (buffer r)"
    using terminate [OF _ assms(2) _ assms(3)] assms by (auto simp: room_def)
  with assms show ?thesis by (auto simp: yields_def room_def held_def)
qed

text \<open>A string prepared for a text of \<open>k\<close> characters, and one with a gap of \<open>g\<close> cells.\<close>

definition prepares :: "nat \<Rightarrow> nat \<Rightarrow> (cells \<Rightarrow> bool) \<Rightarrow> (exn + str) option \<Rightarrow> bool" where
  "prepares ms k P res \<longleftrightarrow>
    (if k \<le> ms then \<exists>r1. res = Some (Inr r1) \<and> room ms k r1 \<and> P (buffer r1) else res = Some (Inl Length_Error))"

definition gap :: "byte list \<Rightarrow> nat \<Rightarrow> byte list \<Rightarrow> cells \<Rightarrow> bool" where
  "gap A g D bs \<longleftrightarrow> (\<exists>G H. length G = g \<and> bs = map Some A @ G @ map Some D @ H)"

lemma gap_at_end:
  assumes "length A + n \<le> length (map Some A @ R)"
  shows "gap A n [] (map Some A @ R)"
  unfolding gap_def by (rule exI [of _ "take n R"], rule exI [of _ "drop n R"]) (use assms in simp)

lemma fill_gap_src:
  assumes "room ms k r1" "gap A n D (buffer r1)" "read_src s n r1 = Some (map Some N)"
    and "k = length (A @ N @ D)" "i = length A" "n = length N"
  shows "yields ms (A @ N @ D) (do { r2 \<leftarrow> char_move i s n r1; r3 \<leftarrow> null_terminate_at k r2; Some (Inr r3) })"
proof -
  obtain G H where r1: "length G = n" "buffer r1 = map Some A @ G @ map Some D @ H"
    using assms(2) by (auto simp: gap_def)
  then have "H \<noteq> []" using assms by (auto simp: room_def)
  with r1 assms obtain r2 where r2: "char_move i s n r1 = Some r2" "keeps_shape r1 r2"
    "buffer r2 = map Some A @ map Some N @ map Some D @ H"
    using write_mid [of r1 "map Some A" G "map Some D @ H" "map Some N" i]
    by (auto simp: char_move_def room_def)
  have "yields ms (A @ N @ D) (do { r3 \<leftarrow> null_terminate_at k r2; Some (Inr r3) })"
    by (rule room_terminate [of _ _ _ _ H]) (use r1 r2 assms in \<open>auto intro: room_keeps_shape\<close>)
  with r2 show ?thesis by simp
qed

lemma fill_gap:
  assumes "prepares ms k (gap A (length N) D) res" "k = length (A @ N @ D)" "i = length A" "n = length N"
  shows "yields ms (A @ N @ D) (do {
    res1 \<leftarrow> res;
    (case res1 of
       Inl e \<Rightarrow> Some (Inl e)
     | Inr r1 \<Rightarrow> do {
         r2 \<leftarrow> char_move i (Elsewhere N) n r1;
         r3 \<leftarrow> null_terminate_at k r2;
         Some (Inr r3) }) })"
proof (cases "k \<le> ms")
  case True
  then obtain r1 where r1: "res = Some (Inr r1)" "room ms k r1" "gap A (length N) D (buffer r1)"
    using assms(1) by (auto simp: prepares_def)
  with fill_gap_src [OF r1(2,3) _ assms(2,3) refl, of "Elsewhere N"] assms(4) show ?thesis by simp
next
  case False
  with assms show ?thesis by (simp add: prepares_def yields_def)
qed

text \<open>What lies below the destination of a move to the right, and what was moved.\<close>

lemma read_low:
  assumes "buffer r1 = take q (buffer r) @ zs" "j + n \<le> q" "q \<le> length (buffer r)"
  shows "read_cells j n r1 = read_cells j n r"
proof -
  have pre: "take n (drop j (As @ Bs)) = take n (drop j As)" if "j + n \<le> length As" for As Bs :: cells
    using that by simp
  have "take n (drop j (buffer r)) = take n (drop j (take q (buffer r)))"
    using pre [of "take q (buffer r)" "drop q (buffer r)"] assms(2,3) by simp
  moreover have "take n (drop j (buffer r1)) = take n (drop j (take q (buffer r)))"
    unfolding assms(1) by (rule pre) (use assms in simp)
  moreover have "j + n \<le> length (buffer r1)" "j + n \<le> length (buffer r)"
    unfolding assms(1) using assms(2,3) by simp_all
  ultimately show ?thesis by (simp add: read_cells_def)
qed

lemma read_high:
  assumes "buffer r1 = take q (buffer r) @ map Some D @ zs" "q \<le> length (buffer r)"
    and "read_cells p (length D) r = Some (map Some D)" "p \<le> j" "j + n \<le> p + length D" "j' = j + q - p"
  shows "read_cells j' n r1 = read_cells j n r"
proof -
  have D: "take (length D) (drop p (buffer r)) = map Some D" "p + length D \<le> length (buffer r)"
    using assms(3) by (auto simp: read_cells_def split: if_splits)
  have "take n (drop j (buffer r)) = take n (drop (j - p) (take (length D) (drop p (buffer r))))"
    using assms(4,5) by (simp add: drop_take min_def)
  also have "\<dots> = take n (drop (j - p) (map Some D))" by (simp only: D(1))
  also have "\<dots> = take n (drop j' (buffer r1))"
  proof -
    have "drop j' (buffer r1) = drop (j' - q) (map Some D @ zs)"
      using assms(1,2,4,6) by simp
    moreover have "j' - q = j - p" using assms(4,6) by simp
    ultimately show ?thesis using assms(4,5) by simp
  qed
  finally show ?thesis using assms D(2) by (simp add: read_cells_def)
qed

lemma shift_ok:
  assumes "held ms r (A @ B @ D)" "length A + g + length D < length (buffer r)"
    and "\<not> c \<Longrightarrow> D = [] \<or> length B = g"
    and l: "i = length A + g" "j = length A + length B" "n = length D"
  shows "\<exists>r1. (if c then char_move i (Own j) n r else Some r) = Some r1 \<and> keeps_shape r r1 \<and> gap A g D (buffer r1)"
proof -
  obtain C where C: "buffer r = map Some (A @ B @ D) @ Some 0 # C" and sh: "shaped r"
    using assms(1) by (auto simp: held_def str_rep_def)
  show ?thesis
  proof (cases c)
    case True
    have "read_src (Own j) n r = Some (map Some D)"
      using read_own [of r "A @ B" D "[]"] assms(1) l by (simp add: held_def)
    from char_move_ok [OF sh this, of i] assms(2) l obtain r1 where
      r1: "char_move i (Own j) n r = Some r1" "keeps_shape r r1"
      "buffer r1 = take i (buffer r) @ map Some D @ drop (i + n) (buffer r)" by auto
    have "take i (buffer r) = map Some A @ take g (map Some (B @ D) @ Some 0 # C)"
      using l C by simp
    moreover have "length (take g (map Some (B @ D) @ Some 0 # C)) = g" using assms(2) C by simp
    ultimately have "gap A g D (buffer r1)" using r1(3) unfolding gap_def by (metis append_assoc)
    with True r1 show ?thesis by auto
  next
    case False
    have "gap A g D (buffer r)"
    proof (cases "length B = g")
      case True
      then show ?thesis using C unfolding gap_def
        by (intro exI [of _ "map Some B"] exI [of _ "Some 0 # C"]) simp
    next
      case False
      then have "D = []" using assms(3) \<open>\<not> c\<close> by simp
      then show ?thesis using C gap_at_end [of A g "map Some (B @ D) @ Some 0 # C"] assms(2) by simp
    qed
    with False sh show ?thesis by (simp add: keeps_shape_refl)
  qed
qed

lemma prepares_shift:
  assumes r: "held ms r (A @ B @ D)" "length A + g + length D < length (buffer r)"
    and c: "\<not> c \<Longrightarrow> D = [] \<or> length B = g" and k: "k = length A + g + length D"
    and l: "i = length A + g" "j = length A + length B" "n = length D"
  shows "prepares ms k (gap A g D) (do { r1 \<leftarrow> (if c then char_move i (Own j) n r else Some r); Some (Inr r1) })"
proof -
  obtain r1 where r1: "(if c then char_move i (Own j) n r else Some r) = Some r1" "keeps_shape r r1" "gap A g D (buffer r1)"
    using shift_ok [OF r c l] by blast
  have room: "room ms k r" using held_room [OF r(1), of k] r(2) k by simp
  show ?thesis
    unfolding r1(1) using r1(3) room_keeps_shape [OF room r1(2)] by (simp add: prepares_def room_def)
qed

section \<open>Growth\<close>

lemma str_recommend_bounds: "n \<le> str_recommend n" "23 \<le> str_recommend n" "str_recommend n \<le> max 23 (n + 8)"
proof -
  have "n + 1 \<le> (n + 8) div 8 * 8" "(n + 8) div 8 * 8 \<le> n + 8"
    using div_mult_mod_eq [of "n + 8" 8] mod_less_divisor [of 8 "n + 8"] by linarith+
  then show "n \<le> str_recommend n" "23 \<le> str_recommend n" "str_recommend n \<le> max 23 (n + 8)"
    by (auto simp: str_recommend_def align_it_def str_alignment_def min_cap_def Let_def)
qed

lemma allocate_long_buffer_eq: "allocate_long_buffer n = Some (Long (replicate (str_recommend n + 1) None) n)"
  using str_recommend_bounds(2) [of n] by (simp add: allocate_long_buffer_def fits_in_sso_def min_cap_def)

lemma grow_cap_ge: "delta \<le> sub64 ms cap \<Longrightarrow> cap \<le> ms \<Longrightarrow> cap + delta \<le> grow_cap ms cap delta"
  using str_recommend_bounds(1) [of "max (cap + delta) (2 * cap)"]
  by (auto simp: grow_cap_def sub64_def)

lemma grow_cap_le:
  assumes "cap + delta + 16 \<le> ms div 2" "0 < delta"
  shows "str_recommend (grow_cap ms cap delta) \<le> ms"
proof -
  let ?c = "max (cap + delta) (2 * cap)"
  define h where "h = ms div 2"
  have "2 * h \<le> ms" by (simp add: h_def)
  then have "2 * (cap + delta) + 32 \<le> ms" using assms(1) [folded h_def] by simp
  moreover have "cap < ms div 2 - 8" using assms by linarith
  then have "grow_cap ms cap delta = str_recommend ?c"
    by (simp add: grow_cap_def str_alignment_def)
  ultimately show ?thesis
    using str_recommend_bounds(3) [of ?c] str_recommend_bounds(3) [of "str_recommend ?c"]
    by (simp add: max_def split: if_splits)
qed

text \<open>The new buffer holds the result and its terminator.\<close>

lemma grown_buffer:
  assumes "delta \<le> sub64 ms cap" "cap \<le> ms" "0 < delta"
  obtains k n where "allocate_long_buffer (grow_cap ms cap delta) = Some (Long (replicate k None) n)"
    "cap + delta < k" "24 \<le> k" "cap + delta + 16 \<le> ms div 2 \<longrightarrow> k \<le> ms + 1"
proof (rule that)
  let ?k = "str_recommend (grow_cap ms cap delta) + 1"
  show "cap + delta < ?k" "24 \<le> ?k"
    using str_recommend_bounds [of "grow_cap ms cap delta"] grow_cap_ge [OF assms(1,2)] by linarith+
  show "cap + delta + 16 \<le> ms div 2 \<longrightarrow> ?k \<le> ms + 1" using grow_cap_le [OF _ assms(3)] by auto
qed (rule allocate_long_buffer_eq)

lemma write_raw:
  "i = length P \<Longrightarrow> n = length zs \<Longrightarrow>
   write_cells i zs (Long (P @ replicate (n + q) None) m) = Some (Long ((P @ zs) @ replicate q None) m)"
  by (simp add: write_cells_def)

lemma sub64_error: "cap \<le> ms \<Longrightarrow> delta > sub64 ms cap \<longleftrightarrow> ms < cap + delta"
  by (auto simp: sub64_def)

lemma yields_error: "ms < length ys \<Longrightarrow> yields ms ys (Some (Inl Length_Error))"
  by (simp add: yields_def)

lemma yields_grow_replace:
  assumes r: "held ms r (A @ B @ D)" and cap: "cap + 1 = length (buffer r)"
    and new: "read_src s n_add r = Some (map Some N)" "length N = n_add"
    and need: "length (A @ N @ D) = cap + delta" "0 < delta"
    and l: "old_sz = length (A @ B @ D)" "n_copy = length A" "n_del = length B"
  shows "yields ms (A @ N @ D) (grow_by_and_replace ms cap delta old_sz n_copy n_del n_add s r)"
proof (cases "delta > sub64 ms cap")
  case True
  moreover have "cap \<le> ms" using r cap by (simp add: held_def)
  ultimately show ?thesis
    using need by (simp add: sub64_error grow_by_and_replace_def yields_error del: length_append)
next
  case False
  have c: "cap \<le> ms" using r cap by (simp add: held_def)
  have rep: "str_rep r (A @ B @ D)" using r by (simp add: held_def)
  obtain k n where k: "allocate_long_buffer (grow_cap ms cap delta) = Some (Long (replicate k None) n)"
    "cap + delta < k" "24 \<le> k" "cap + delta + 16 \<le> ms div 2 \<longrightarrow> k \<le> ms + 1"
    by (rule grown_buffer [OF _ c need(2)]) (use False in auto)
  have len: "length A + (length N + length D) = cap + delta" using need(1) by simp
  define j where "j = k - Suc (cap + delta)"
  have j: "k = length A + (length N + (length D + Suc j))" using k(2) len by (simp add: j_def)
  let ?r = "Long (map Some (A @ N @ D) @ Some 0 # replicate j None) (length (A @ N @ D))"
  have reads: "read_cells 0 n_copy r = Some (map Some A)"
    "read_cells (n_copy + n_del) (old_sz - n_del - n_copy) r = Some (map Some D)"
    using read_own_0 [OF rep] read_own [of r "A @ B" D "[]"] rep l by simp_all
  have w1: "write_cells 0 (map Some A) (Long (replicate k None) n) =
      Some (Long (map Some A @ replicate (length N + (length D + Suc j)) None) n)"
    using write_raw [of 0 "[]" "length A" "map Some A" "length N + (length D + Suc j)" n] j by simp
  have w2: "write_cells n_copy (map Some N) (Long (map Some A @ replicate (length N + (length D + Suc j)) None) n) =
      Some (Long ((map Some A @ map Some N) @ replicate (length D + Suc j) None) n)"
    by (rule write_raw) (use l in simp_all)
  have w3: "write_cells (n_copy + n_add) (map Some D)
        (Long ((map Some A @ map Some N) @ replicate (length D + Suc j) None) n) =
      Some (Long (((map Some A @ map Some N) @ map Some D) @ replicate (Suc j) None) n)"
    by (rule write_raw) (use l new in simp_all)
  have w4: "char_assign (length A + length N + length D) 0
        (Long (((map Some A @ map Some N) @ map Some D) @ replicate (Suc j) None) q) =
      Some (Long (map Some (A @ N @ D) @ Some 0 # replicate j None) q)" for q
    by (simp add: char_assign_eq list_update_append)
  have "old_sz - n_del - n_copy = length D" using l by simp
  then have "grow_by_and_replace ms cap delta old_sz n_copy n_del n_add s r = Some (Inr ?r)"
    unfolding grow_by_and_replace_def using False k(1) reads new w1 w2 w3 w4 l
    by (simp del: append_assoc replicate_Suc)
  moreover have "str_rep ?r (A @ N @ D)" using k(3) j by (simp add: str_rep_def shaped_def str_size_def)
  moreover have "length (A @ N @ D) \<le> ms" using False c need by (simp add: sub64_error not_less)
  moreover have "length (buffer ?r) = k" using j by simp
  ultimately show ?thesis using k(4) need(1) by (simp add: yields_def held_def del: length_append)
qed

lemma prepares_grow:
  assumes r: "held ms r (A @ B @ D)" and cap: "cap + 1 = length (buffer r)"
    and need: "length A + n_add + length D \<le> k" "k = cap + delta" "0 < delta"
    and l: "old_sz = length (A @ B @ D)" "n_copy = length A" "n_del = length B"
  shows "prepares ms k (gap A n_add D) (grow_by_without_replace ms cap delta old_sz n_copy n_del n_add r)"
proof (cases "delta > sub64 ms cap")
  case True
  moreover have "cap \<le> ms" using r cap by (simp add: held_def)
  ultimately show ?thesis
    using need by (simp add: sub64_error grow_by_without_replace_def prepares_def)
next
  case False
  have c: "cap \<le> ms" using r cap by (simp add: held_def)
  have rep: "str_rep r (A @ B @ D)" using r by (simp add: held_def)
  obtain m n where m: "allocate_long_buffer (grow_cap ms cap delta) = Some (Long (replicate m None) n)"
    "cap + delta < m" "24 \<le> m" "cap + delta + 16 \<le> ms div 2 \<longrightarrow> m \<le> ms + 1"
    by (rule grown_buffer [OF _ c need(3)]) (use False in auto)
  define j where "j = m - (length A + n_add + length D)"
  have j: "m = length A + (n_add + (length D + j))" using m(2) need by (simp add: j_def)
  have reads: "read_cells 0 n_copy r = Some (map Some A)"
    "read_cells (n_copy + n_del) (old_sz - n_del - n_copy) r = Some (map Some D)"
    using read_own_0 [OF rep] read_own [of r "A @ B" D "[]"] rep l by simp_all
  have w1: "write_cells 0 (map Some A) (Long (replicate m None) n) =
      Some (Long (map Some A @ replicate (n_add + (length D + j)) None) n)"
    using write_raw [of 0 "[]" "length A" "map Some A" "n_add + (length D + j)" n] j by simp
  have w2: "write_cells (n_copy + n_add) (map Some D) (Long (map Some A @ replicate (n_add + (length D + j)) None) n) =
      Some (Long (((map Some A @ replicate n_add None) @ map Some D) @ replicate j None) n)"
    using write_raw [of "n_copy + n_add" "map Some A @ replicate n_add None" "length D" "map Some D" j n] l
    by (simp add: replicate_add)
  let ?r = "Long (map Some A @ replicate n_add None @ map Some D @ replicate j None) (old_sz - n_del + n_add)"
  have "old_sz - n_del - n_copy = length D" using l by simp
  then have "grow_by_without_replace ms cap delta old_sz n_copy n_del n_add r = Some (Inr ?r)"
    unfolding grow_by_without_replace_def using False m(1) reads w1 w2 l by simp
  moreover have "gap A n_add D (buffer ?r)" unfolding gap_def by (auto intro: exI [of _ "replicate n_add None"])
  moreover have "shaped ?r" "length (buffer ?r) = m" using m(3) j by (simp_all add: shaped_def)
  moreover have "k \<le> ms" using False c need by (simp add: sub64_error not_less)
  ultimately show ?thesis using m need by (simp add: prepares_def room_def)
qed

lemma grown_long: "grow_by_without_replace ms cap delta old_sz n_copy n_del n_add r = Some (Inr r1) \<Longrightarrow> is_long r1"
proof -
  assume "grow_by_without_replace ms cap delta old_sz n_copy n_del n_add r = Some (Inr r1)"
  then obtain r0 where "set_long_size (old_sz - n_del + n_add) r0 = Some r1"
    by (auto simp: grow_by_without_replace_def Let_def split: if_splits bind_splits)
  then show ?thesis by (cases r0) auto
qed

section \<open>Appending\<close>

lemma rep_caps:
  assumes "held ms r xs"
  shows "str_size r = Some (length xs)" "\<exists>cap. str_capacity r = Some cap \<and> cap + 1 = length (buffer r) \<and> length xs \<le> cap"
  using str_rep_sizes [of r xs] assms by (auto simp: held_def)

lemma shaped_of: "held ms r xs \<Longrightarrow> shaped r"
  by (simp add: held_def str_rep_def)

lemma src_own_le: "src_text (Own j) n xs = Some N \<Longrightarrow> j + n \<le> length xs"
  by (simp split: if_splits)

lemma str_append_yields:
  assumes r: "held ms r xs" and N: "src_text s n xs = Some N"
  shows "yields ms (xs @ N) (str_append ms s n r)"
proof -
  obtain cap where cap: "str_capacity r = Some cap" "cap + 1 = length (buffer r)" "length xs \<le> cap"
    using rep_caps(2) [OF r] by blast
  note sz = rep_caps(1) [OF r] and n = src_text_length [OF N] and rd = read_text [OF held_rep [OF r] N]
  consider "cap - length xs < n" | "n = 0" | "n \<noteq> 0" "\<not> cap - length xs < n" "length xs + n \<le> cap" by linarith
  then show ?thesis
  proof cases
    case 1
    have "yields ms (xs @ N @ [])
        (grow_by_and_replace ms cap (length xs + n - cap) (length xs) (length xs) 0 n s r)"
      by (rule yields_grow_replace [where B = "[]"]) (use r cap rd n 1 in auto)
    with 1 cap sz show ?thesis by (simp add: str_append_def)
  next
    case 2
    with cap sz n show ?thesis
      using yields_in_place [OF r held_rep [OF r]] by (simp add: str_append_def)
  next
    case 3
    obtain C where C: "buffer r = map Some xs @ Some 0 # C" using r by (auto simp: held_def str_rep_def)
    obtain r1 where r1: "char_move (length xs) s n r = Some r1" "keeps_shape r r1"
      "buffer r1 = take (length xs) (buffer r) @ map Some N @ drop (length xs + n) (buffer r)"
      using char_move_ok [OF shaped_of [OF r] rd, of "length xs"] n 3 cap by auto
    have "yields ms (xs @ N) (do { r2 \<leftarrow> null_terminate_at (length xs + n) r1; Some (Inr r2) })"
      by (rule room_terminate) (use r1 C 3 cap n held_room [OF r, of "length xs + n"] in \<open>auto intro: room_keeps_shape\<close>)
    moreover have "char_copy (length xs) s n r = char_move (length xs) s n r"
      by (rule char_copy_eq) (use N src_own_le in blast)
    ultimately show ?thesis using 3 cap sz r1 by (simp add: str_append_def terminate_bind)
  qed
qed

text \<open>A gap at the end, in place or in a new buffer.\<close>

lemma prepares_end:
  assumes r: "held ms r xs" and cap: "str_capacity r = Some cap" "cap + 1 = length (buffer r)"
    and n: "0 < n" "k = length xs + n" "l = length xs" "sz = length xs"
  shows "prepares ms k (gap xs n []) (if cap - l < n then grow_by_without_replace ms cap (l + n - cap) sz sz 0 0 r
    else Some (Inr r))"
proof (cases "cap - l < n")
  case True
  have le: "length xs \<le> cap" using rep_caps(2) [OF r] cap by auto
  have "prepares ms k (gap xs 0 []) (grow_by_without_replace ms cap (l + n - cap) sz sz 0 0 r)"
    by (rule prepares_grow [where B = "[]"]) (use r cap n True le in auto)
  then have "prepares ms k (gap xs n []) (grow_by_without_replace ms cap (l + n - cap) sz sz 0 0 r)"
    using n gap_at_end [of xs n] by (auto simp: prepares_def gap_def [of _ 0] room_def)
  with True show ?thesis by simp
next
  case False
  obtain C where C: "buffer r = map Some xs @ Some 0 # C" using r by (auto simp: held_def str_rep_def)
  have "gap xs n [] (buffer r)" using C gap_at_end [of xs n "Some 0 # C"] cap(2) n False by simp
  moreover have "room ms k r" by (rule held_room [OF r]) (use n False cap in linarith)
  ultimately show ?thesis using False by (simp add: prepares_def room_def)
qed

lemma str_append_fill_yields:
  assumes r: "held ms r xs"
  shows "yields ms (xs @ replicate n c) (str_append_fill ms n c r)"
proof (cases "n = 0")
  case True
  then show ?thesis using yields_in_place [OF r held_rep [OF r]] by (simp add: str_append_fill_def)
next
  case False
  obtain cap where cap: "str_capacity r = Some cap" "cap + 1 = length (buffer r)"
    using rep_caps(2) [OF r] by blast
  have "prepares ms (length xs + n) (gap xs (length (replicate n c)) [])
      (if cap - length xs < n then grow_by_without_replace ms cap (length xs + n - cap) (length xs) (length xs) 0 0 r
       else Some (Inr r))"
    using prepares_end [OF r cap _ refl refl refl, of n] False by simp
  from fill_gap [OF this _ refl refl] False cap rep_caps(1) [OF r] show ?thesis
    by (simp add: str_append_fill_def terminate_bind char_fill_eq)
qed

text \<open>\<open>push_back\<close> is the append of one character, with the size kept by the representation it is in.\<close>

lemma str_push_back_yields:
  assumes r: "held ms r xs"
  shows "yields ms (xs @ [c]) (str_push_back ms c r)"
proof -
  note sh = shaped_of [OF r] and sz = rep_caps(1) [OF r]
  obtain cap where cap: "str_capacity r = Some cap" "cap + 1 = length (buffer r)" "length xs \<le> cap"
    using rep_caps(2) [OF r] by blast
  have sizes: "(if \<not> is_long r then do { sz \<leftarrow> get_short_size r; Some (min_cap - 1, sz) }
      else do { cap \<leftarrow> get_long_cap r; sz \<leftarrow> get_long_size r; Some (cap - 1, sz) }) = Some (cap, length xs)"
    using is_long_size [OF sh] is_short_size [OF sh] is_long_cap [OF sh] is_short_buffer [OF sh] sz cap(2)
    by (auto simp: min_cap_def)
  define res where "res = (if length xs = cap then grow_by_without_replace ms cap 1 (length xs) (length xs) 0 0 r
    else Some (Inr r))"
  have "res = (if cap - length xs < 1 then grow_by_without_replace ms cap (length xs + 1 - cap) (length xs) (length xs) 0 0 r
    else Some (Inr r))"
    using cap(3) by (auto simp: res_def)
  then have prep: "prepares ms (length xs + 1) (gap xs (length [c]) []) res"
    using prepares_end [OF r cap(1,2) _ refl refl refl, of 1] by simp
  show ?thesis
  proof (cases "length xs + 1 \<le> ms")
    case False
    then have "res = Some (Inl Length_Error)" using prep by (simp add: prepares_def)
    then have "str_push_back ms c r = Some (Inl Length_Error)"
      using sizes by (simp add: str_push_back_def res_def split: if_splits)
    with False show ?thesis by (simp add: yields_def)
  next
    case True
    then obtain r0 where r0: "res = Some (Inr r0)" "room ms (length xs + 1) r0"
      using prep by (auto simp: prepares_def)
    have long: "is_long r0" if "length xs = cap"
      by (rule grown_long) (use that r0 in \<open>simp add: res_def\<close>)
    then have "str_push_back ms c r = do {
          r1 \<leftarrow> set_size (length xs + 1) r0;
          r2 \<leftarrow> char_assign (length xs) c r1;
          r3 \<leftarrow> char_assign (length xs + 1) 0 r2;
          Some (Inr r3) }"
      using sizes r0(1) by (auto simp: str_push_back_def res_def set_size_def split: if_splits)
    also have "\<dots> = do {
          r1 \<leftarrow> char_move (length xs) (Elsewhere [c]) 1 r0;
          r2 \<leftarrow> null_terminate_at (length xs + 1) r1;
          Some (Inr r2) }"
      using r0(2) unfolding char_assign_move [of "length xs"]
      by (subst set_size_move) (auto simp: room_def null_terminate_at_def)
    finally show ?thesis using fill_gap [OF prep _ refl refl] r0(1) by simp
  qed
qed


lemma yields_bind:
  assumes "yields ms xs res" "length xs \<le> length ys"
    and "\<And>r1. held ms r1 xs \<Longrightarrow> yields ms ys (f r1)" "length ys + 16 \<le> ms div 2"
  shows "yields ms ys (do { res1 \<leftarrow> res; (case res1 of Inl e \<Rightarrow> Some (Inl e) | Inr r1 \<Rightarrow> f r1) })"
proof -
  have "length ys + 16 \<le> ms" "length xs + 16 \<le> ms div 2" using assms(2,4) by linarith+
  with assms(1,2) obtain r1 where "res = Some (Inr r1)" "held ms r1 xs"
    by (auto simp: yields_def split: if_splits)
  with assms(3) show ?thesis by simp
qed

lemma str_push_all_yields:
  "held ms r xs \<Longrightarrow> length (xs @ cs) + 16 \<le> ms div 2 \<Longrightarrow> yields ms (xs @ cs) (str_push_all ms cs r)"
proof (induction cs arbitrary: r xs)
  case Nil
  then show ?case using yields_in_place [OF Nil.prems(1) held_rep [OF Nil.prems(1)]] by simp
next
  case (Cons c cs)
  have "yields ms ((xs @ [c]) @ cs) (do {
      res1 \<leftarrow> str_push_back ms c r;
      (case res1 of Inl e \<Rightarrow> Some (Inl e) | Inr r1 \<Rightarrow> str_push_all ms cs r1) })"
    by (rule yields_bind [OF str_push_back_yields [OF Cons.prems(1)]])
      (use Cons.prems Cons.IH [of _ "xs @ [c]"] in auto)
  then show ?case by simp
qed

lemma those_map_Some: "those (map Some xs) = Some xs"
  by (induction xs) auto

text \<open>The characters of a string, as the reading functions give them.\<close>

lemma str_chars_ok: "str_rep r (A @ B @ D) \<Longrightarrow> i = length A \<Longrightarrow> n = length B \<Longrightarrow> str_chars r i n = Some B"
  using read_own [of r A B D i n] by (simp add: str_chars_def those_map_Some)

lemma str_view_ok: "str_rep r xs \<Longrightarrow> str_view r = Some xs"
  using str_chars_ok [of r "[]" xs "[]"] by (simp add: str_view_def str_rep_sizes)

lemma str_append_range_yields:
  assumes r: "held ms r xs" and l: "length (xs @ zs) + 16 \<le> ms div 2"
  shows "yields ms (xs @ zs) (str_append_range ms zs r)"
proof (cases "zs = []")
  case True
  then show ?thesis using yields_in_place [OF r held_rep [OF r]] by (simp add: str_append_range_def)
next
  case False
  have "length zs + 16 \<le> ms div 2" "23 \<le> ms"
    using l shaped_buffer [OF shaped_of [OF r]] r by (auto simp: held_def)
  then obtain t where t: "str_init_with_sentinel ms zs = Some (Inr t)" "str_rep t zs"
    using str_push_all_yields [OF held_empty, of ms zs] by (auto simp: yields_def str_init_with_sentinel_def split: if_splits)
  have "str_chars t 0 (length zs) = Some zs" using str_chars_ok [of t "[]" zs "[]"] t by simp
  with False t str_append_yields [OF r, of "Elsewhere zs" "length zs" zs] show ?thesis
    by (simp add: str_append_range_def str_rep_sizes)
qed

section \<open>Erasure\<close>

text \<open>An operation that cannot fail returns a string no longer than the one it got, in its buffer.\<close>

definition returns :: "nat \<Rightarrow> byte list \<Rightarrow> str option \<Rightarrow> bool" where
  "returns ms ys res \<longleftrightarrow> (\<exists>r'. res = Some r' \<and> held ms r' ys)"

lemma held_terminate:
  assumes "held ms r xs" "keeps_shape r r1" "buffer r1 = map Some ys @ R" "R \<noteq> []" "n = length ys"
  shows "returns ms ys (null_terminate_at n r1)"
proof -
  have "shaped r1" "length (buffer r1) = length (buffer r)" using assms(2) by (auto simp: keeps_shape_def)
  with terminate [OF _ assms(3-5)] assms(1) show ?thesis by (auto simp: returns_def held_def)
qed

lemma erase_to_end_returns:
  assumes "held ms r (A @ B)" "n = length A"
  shows "returns ms A (erase_to_end n r)"
proof -
  obtain C where "buffer r = map Some (A @ B) @ Some 0 # C" using assms(1) by (auto simp: held_def str_rep_def)
  then have "returns ms A (null_terminate_at n r)"
    by (intro held_terminate [OF assms(1) keeps_shape_refl [OF shaped_of [OF assms(1)]]]) (use assms in auto)
  with rep_caps(2) [OF assms(1)] assms(2) show ?thesis by (auto simp: erase_to_end_def)
qed

lemma erase_external_with_move_returns:
  assumes r: "held ms r (A @ B @ D)" and n: "pos = length A" "length B = n \<or> D = [] \<and> length B \<le> n"
  shows "returns ms (A @ D) (erase_external_with_move pos n r)"
proof (cases "n = 0")
  case True
  with n r show ?thesis by (auto simp: erase_external_with_move_def returns_def)
next
  case False
  let ?res = "if length D \<noteq> 0 then char_move pos (Own (pos + length B)) (length D) r else Some r"
  have "length (A @ B @ D) < length (buffer r)" using str_rep_less [OF held_rep [OF r]] .
  then have len: "length A + 0 + length D < length (buffer r)" by simp
  obtain r1 H where r1: "?res = Some r1" "keeps_shape r r1" "buffer r1 = map Some (A @ D) @ H"
    using shift_ok [OF r len, of "length D \<noteq> 0" pos "pos + length B" "length D"] n(1) by (auto simp: gap_def)
  then have "returns ms (A @ D) (null_terminate_at (length (A @ D)) r1)"
    using len by (intro held_terminate [OF r r1(2,3)]) (auto simp: keeps_shape_def)
  moreover have "min n (length (A @ B @ D) - pos) = length B" using n by auto
  moreover have "length (A @ B @ D) - pos - length B = length D" "length (A @ B @ D) - length B = length (A @ D)"
    using n(1) by simp_all
  ultimately show ?thesis
    using False by (simp only: erase_external_with_move_def rep_caps(1) [OF r] Let_def r1(1) bind.simps if_False)
qed

lemma str_erase_ok:
  assumes r: "held ms r xs" and n: "pos \<le> length xs" "ms < npos"
  shows "\<exists>r'. str_erase pos n r = Some (Inr r') \<and> held ms r' (take pos xs @ drop (pos + n) xs)"
proof -
  let ?A = "take pos xs" and ?B = "take n (drop pos xs)" and ?D = "drop (pos + n) xs"
  have xs: "xs = ?A @ ?B @ ?D" by (metis add.commute append_take_drop_id drop_drop)
  note sz = rep_caps(1) [OF r]
  show ?thesis
  proof (cases "n = npos")
    case True
    have "length xs < npos" using r n(2) str_rep_less [OF held_rep [OF r]] by (simp add: held_def)
    then have "drop (pos + n) xs = []" using True by simp
    moreover have "returns ms ?A (erase_to_end pos r)"
      by (rule erase_to_end_returns [where B = "drop pos xs"]) (use r n in auto)
    ultimately show ?thesis using n sz True by (auto simp: str_erase_def returns_def)
  next
    case False
    have "returns ms (?A @ ?D) (erase_external_with_move pos n r)"
      by (rule erase_external_with_move_returns [where B = ?B]) (use r n xs in auto)
    then show ?thesis using n sz False by (auto simp: str_erase_def returns_def)
  qed
qed

lemma str_erase_error: "held ms r xs \<Longrightarrow> length xs < pos \<Longrightarrow> str_erase pos n r = Some (Inl Out_Of_Range)"
  using rep_caps(1) [of ms r xs] by (simp add: str_erase_def)

lemma str_pop_back_ok: "held ms r (xs @ [x]) \<Longrightarrow> returns ms xs (str_pop_back r)"
  using rep_caps(1) [of ms r "xs @ [x]"] erase_to_end_returns [of ms r xs "[x]" "length xs"]
  by (simp add: str_pop_back_def)

lemma str_clear_ok:
  assumes r: "held ms r xs"
  shows "returns ms [] (str_clear r)"
proof -
  obtain R where "buffer r = map Some [] @ R" "R \<noteq> []" using r by (auto simp: held_def str_rep_def)
  from terminate_both [OF shaped_of [OF r] this] r show ?thesis
    unfolding str_clear_def set_size_def [symmetric] returns_def held_def by auto
qed

lemma str_resize_ok:
  assumes r: "held ms r xs"
  shows "yields ms (take n xs @ replicate (n - length xs) c) (str_resize ms n c r)"
proof (cases "length xs < n")
  case True
  then show ?thesis
    using str_append_fill_yields [OF r, of "n - length xs" c] rep_caps(1) [OF r] by (simp add: str_resize_def)
next
  case False
  then have l: "n \<le> length xs" by simp
  have "returns ms (take n xs) (erase_to_end n r)"
    by (rule erase_to_end_returns [where B = "drop n xs"]) (use r l in auto)
  then obtain r' where r': "erase_to_end n r = Some r'" "held ms r' (take n xs)" by (auto simp: returns_def)
  moreover have "yields ms (take n xs) (Some (Inr r'))"
    by (rule yields_in_place [OF r'(2)]) (use r' held_rep in auto)
  ultimately show ?thesis using False rep_caps(1) [OF r] by (simp add: str_resize_def)
qed

end
