(* ===== verification/Basic_String_Edit.thy ===== *)
theory Basic_String_Edit
  imports Basic_String_Correct
begin

text \<open>
  Insertion, replacement and assignment, whose source may lie anywhere inside the string they
  change, and the operations on the capacity. Each is the list operation on the text.
\<close>

section \<open>Insertion\<close>

lemma str_insert_in_place:
  assumes r: "held ms r (A @ D)" and N: "src_text s n (A @ D) = Some N" and n: "n \<noteq> 0"
    and room: "length (A @ D) + n < length (buffer r)" and p: "p = length A" "n_move = length D"
  shows "\<exists>s1 r1.
    (if n_move \<noteq> 0 then do {
       let s1 = (if src_in_range p (length (A @ D)) s then src_add s n else s);
       r1 \<leftarrow> char_move (p + n) (Own p) n_move r;
       Some (s1, r1) }
     else Some (s, r)) = Some (s1, r1) \<and>
    keeps_shape r r1 \<and> gap A n D (buffer r1) \<and> read_src s1 n r1 = Some (map Some N)"
proof -
  have rd: "read_src s n r = Some (map Some N)" by (rule read_text [OF held_rep [OF r] N])
  have rD: "read_cells p (length D) r = Some (map Some D)"
    using read_own [of r A D "[]" p] held_rep [OF r] p by simp
  have "length A + n + length D < length (buffer r)" using room by simp
  from shift_ok [of ms r A "[]" D n "n_move \<noteq> 0" "p + n" p n_move] r this p
  obtain r1 where r1: "(if n_move \<noteq> 0 then char_move (p + n) (Own p) n_move r else Some r) = Some r1"
    "keeps_shape r r1" "gap A n D (buffer r1)" by auto
  show ?thesis
  proof (cases "n_move = 0")
    case True
    with r1 rd show ?thesis by auto
  next
    case False
    then have mv: "char_move (p + n) (Own p) n_move r = Some r1" using r1(1) by simp
    have buf: "buffer r1 = take (p + n) (buffer r) @ map Some D @ drop (p + n + length D) (buffer r)"
      using char_move_ok [OF shaped_of [OF r], of "Own p" n_move "map Some D" "p + n"] mv rD p room by auto
    have q: "p + n \<le> length (buffer r)" using room p by simp
    let ?s = "if src_in_range p (length (A @ D)) s then src_add s n else s"
    have "read_src ?s n r1 = Some (map Some N)"
    proof (cases s)
      case (Elsewhere zs)
      with rd show ?thesis by simp
    next
      case (Own j)
      have le: "j + n \<le> length (A @ D)" using N Own src_own_le by blast
      show ?thesis
      proof (cases "p \<le> j")
        case True
        have "read_cells (j + n) n r1 = read_cells j n r"
          by (rule read_high [OF buf q rD True]) (use le p in auto)
        moreover have "j < length (A @ D)" using le n by linarith
        ultimately show ?thesis using Own True rd by simp
      next
        case False
        have "read_cells j n r1 = read_cells j n r"
          by (rule read_low [OF buf _ q]) (use False in simp)
        then show ?thesis using Own False rd by simp
      qed
    qed
    with False mv r1(2,3) show ?thesis by (auto simp: Let_def)
  qed
qed

lemma str_insert_yields:
  assumes r: "held ms r (A @ D)" and N: "src_text s n (A @ D) = Some N" and p: "pos = length A"
  shows "yields ms (A @ N @ D) (str_insert ms pos s n r)"
proof -
  obtain cap where cap: "str_capacity r = Some cap" "cap + 1 = length (buffer r)" "length (A @ D) \<le> cap"
    using rep_caps(2) [OF r] by blast
  note sz = rep_caps(1) [OF r] and n = src_text_length [OF N] and rd = read_text [OF held_rep [OF r] N]
  have pos: "\<not> pos > length (A @ D)" using p by simp
  consider "cap - length (A @ D) < n" | "n = 0" | "n \<noteq> 0" "\<not> cap - length (A @ D) < n" "length (A @ D) + n \<le> cap"
    by linarith
  then show ?thesis
  proof cases
    case 1
    have "yields ms (A @ N @ D)
        (grow_by_and_replace ms cap (length (A @ D) + n - cap) (length (A @ D)) pos 0 n s r)"
      by (rule yields_grow_replace [where B = "[]"]) (use r cap rd n 1 p in auto)
    with 1 cap sz pos show ?thesis by (simp add: str_insert_def)
  next
    case 2
    with cap sz n pos show ?thesis
      using yields_in_place [OF r held_rep [OF r]] by (simp add: str_insert_def)
  next
    case 3
    have room: "length (A @ D) + n < length (buffer r)" using 3 cap by simp
    from str_insert_in_place [OF r N 3(1) room p refl] obtain s1 r1 where s1:
      "(if length D \<noteq> 0 then do {
         let s1 = (if src_in_range pos (length (A @ D)) s then src_add s n else s);
         r1 \<leftarrow> char_move (pos + n) (Own pos) (length D) r;
         Some (s1, r1) }
       else Some (s, r)) = Some (s1, r1)"
      "keeps_shape r r1" "gap A n D (buffer r1)" "read_src s1 n r1 = Some (map Some N)"
      by blast
    have "yields ms (A @ N @ D)
        (do { r2 \<leftarrow> char_move pos s1 n r1; r3 \<leftarrow> null_terminate_at (length (A @ D) + n) r2; Some (Inr r3) })"
      by (rule fill_gap_src [OF _ s1(3,4) _ p]) (use n room held_room [OF r] s1(2) in \<open>auto intro: room_keeps_shape\<close>)
    moreover have "length (A @ D) - pos = length D" using p by simp
    ultimately show ?thesis
      using 3 pos by (simp only: str_insert_def sz cap(1) Let_def s1(1) [unfolded Let_def] bind.simps if_False
          prod.case terminate_bind)
  qed
qed

lemma str_insert_error: "held ms r xs \<Longrightarrow> length xs < pos \<Longrightarrow> str_insert ms pos s n r = Some (Inl Out_Of_Range)"
  using rep_caps(1) [of ms r xs] by (simp add: str_insert_def)

text \<open>The gap that the other insertions open at a position, in place or in a new buffer; the
  condition is the code's test that there is room.\<close>

lemma prepares_insert:
  assumes r: "held ms r (A @ D)" and cap: "str_capacity r = Some cap" "cap + 1 = length (buffer r)"
    and l: "sz = length (A @ D)" "p = length A" "0 < n"
    and fits: "fits \<longleftrightarrow> sz + n \<le> cap" and delta: "\<not> fits \<Longrightarrow> delta = sz + n - cap"
  shows "prepares ms (sz + n) (gap A n D)
    (if fits then do {
       let n_move = sz - p;
       r1 \<leftarrow> (if n_move \<noteq> 0 then char_move (p + n) (Own p) n_move r else Some r);
       Some (Inr r1) }
     else grow_by_without_replace ms cap delta sz p 0 n r)"
proof (cases fits)
  case True
  have "sz - p = length D" using l by simp
  moreover have "prepares ms (sz + n) (gap A n D)
      (do { r1 \<leftarrow> (if length D \<noteq> 0 then char_move (p + n) (Own p) (length D) r else Some r); Some (Inr r1) })"
    by (rule prepares_shift [where B = "[]"]) (use r l fits cap True in auto)
  ultimately show ?thesis using True by (simp only: Let_def if_True)
next
  case False
  have "length (A @ D) \<le> cap" using rep_caps(2) [OF r] cap by auto
  then have "prepares ms (sz + n) (gap A n D) (grow_by_without_replace ms cap delta sz p 0 n r)"
    by (intro prepares_grow [where B = "[]"]) (use r cap l fits delta False in auto)
  with False show ?thesis by simp
qed

lemma str_insert_fill_yields:
  assumes r: "held ms r (A @ D)" and p: "pos = length A"
  shows "yields ms (A @ replicate n c @ D) (str_insert_fill ms pos n c r)"
proof (cases "n = 0")
  case True
  then show ?thesis
    using yields_in_place [OF r held_rep [OF r]] rep_caps(1) [OF r] p by (simp add: str_insert_fill_def)
next
  case False
  obtain cap where cap: "str_capacity r = Some cap" "cap + 1 = length (buffer r)" "length (A @ D) \<le> cap"
    using rep_caps(2) [OF r] by blast
  define res where "res = (if cap - length (A @ D) \<ge> n then do {
       let n_move = length (A @ D) - pos;
       r1 \<leftarrow> (if n_move \<noteq> 0 then char_move (pos + n) (Own pos) n_move r else Some r);
       Some (Inr r1) }
     else grow_by_without_replace ms cap (length (A @ D) + n - cap) (length (A @ D)) pos 0 n r)"
  have "prepares ms (length (A @ D) + n) (gap A (length (replicate n c)) D) res"
    unfolding res_def length_replicate
    by (rule prepares_insert [OF r cap(1,2) refl p]) (use False cap(3) in auto)
  moreover have "length (A @ D) + n = length (A @ replicate n c @ D)" by simp
  ultimately have "yields ms (A @ replicate n c @ D) (do {
    res1 \<leftarrow> res;
    (case res1 of
       Inl e \<Rightarrow> Some (Inl e)
     | Inr r1 \<Rightarrow> do {
         r2 \<leftarrow> char_fill pos n c r1;
         r3 \<leftarrow> null_terminate_at (length (A @ D) + n) r2;
         Some (Inr r3) }) })"
    unfolding char_fill_eq by (rule fill_gap) (use p in simp_all)
  moreover have "\<not> pos > length (A @ D)" using p by simp
  ultimately show ?thesis
    using False by (simp only: str_insert_fill_def rep_caps(1) [OF r] cap(1) bind.simps if_False terminate_bind res_def)
qed

text \<open>Writing the terminator and then the size is setting the size and then the terminator.\<close>

lemma terminate_reversed:
  assumes "shaped r" "buffer r = map Some ys @ R" "R \<noteq> []" "n = length ys"
  shows "Option.bind (char_assign n 0 r) (\<lambda>r1. Option.bind (set_size n r1) f) = Option.bind (null_terminate_at n r) f"
proof -
  from terminate_both [OF assms(1-3)] assms(4)
  have "Option.bind (char_assign n 0 r) (set_size n) = null_terminate_at n r" by auto
  from arg_cong [OF this, of "\<lambda>x. Option.bind x f"] show ?thesis by simp
qed

lemma str_insert_char_yields:
  assumes r: "held ms r (A @ D)" and p: "ip = length A"
  shows "yields ms (A @ [c] @ D) (str_insert_char ms ip c r)"
proof -
  obtain cap where cap: "str_capacity r = Some cap" "cap + 1 = length (buffer r)" "length (A @ D) \<le> cap"
    using rep_caps(2) [OF r] by blast
  define res where "res = (if cap = length (A @ D) then grow_by_without_replace ms cap 1 (length (A @ D)) ip 0 1 r
    else do {
       let n_move = length (A @ D) - ip;
       r1 \<leftarrow> (if n_move \<noteq> 0 then char_move (ip + 1) (Own ip) n_move r else Some r);
       Some (Inr r1) })"
  have "prepares ms (length (A @ D) + 1) (gap A 1 D)
    (if cap \<noteq> length (A @ D) then do {
       let n_move = length (A @ D) - ip;
       r1 \<leftarrow> (if n_move \<noteq> 0 then char_move (ip + 1) (Own ip) n_move r else Some r);
       Some (Inr r1) }
     else grow_by_without_replace ms cap 1 (length (A @ D)) ip 0 1 r)"
    by (rule prepares_insert [OF r cap(1,2) refl p]) (use cap(3) in auto)
  then have "prepares ms (length (A @ D) + 1) (gap A 1 D) res"
    unfolding res_def by (cases "cap = length (A @ D)") simp_all
  then have prep: "prepares ms (length (A @ D) + 1) (gap A (length [c]) D) res" by simp
  have def: "str_insert_char ms ip c r = do {
    res1 \<leftarrow> res;
    (case res1 of
       Inl e \<Rightarrow> Some (Inl e)
     | Inr r1 \<Rightarrow> do {
         r2 \<leftarrow> char_assign ip c r1;
         r3 \<leftarrow> char_assign (length (A @ D) + 1) 0 r2;
         r4 \<leftarrow> set_size (length (A @ D) + 1) r3;
         Some (Inr r4) }) }"
    by (simp only: str_insert_char_def rep_caps(1) [OF r] cap(1) bind.simps res_def)
  show ?thesis
  proof (cases "length (A @ D) + 1 \<le> ms")
    case False
    then show ?thesis using prep def by (simp add: prepares_def yields_def)
  next
    case True
    then obtain r1 G H where r1: "res = Some (Inr r1)" "room ms (length (A @ D) + 1) r1" "length G = 1"
      "buffer r1 = map Some A @ G @ map Some D @ H"
      using prep by (auto simp: prepares_def gap_def)
    have "H \<noteq> []" using r1 by (auto simp: room_def)
    then obtain r2 where r2: "char_assign ip c r1 = Some r2" "keeps_shape r1 r2"
      "buffer r2 = map Some A @ [Some c] @ map Some D @ H"
      using write_mid [OF _ r1(4), of "[Some c]" ip] r1 p by (auto simp: room_def char_assign_def)
    then have "str_insert_char ms ip c r = do { r3 \<leftarrow> null_terminate_at (length (A @ D) + 1) r2; Some (Inr r3) }"
      unfolding def r1(1) using \<open>H \<noteq> []\<close> terminate_reversed [of r2 "A @ [c] @ D" H "length (A @ D) + 1"]
      by (simp add: keeps_shape_def)
    moreover have "yields ms (A @ [c] @ D) (do { r3 \<leftarrow> null_terminate_at (length (A @ D) + 1) r2; Some (Inr r3) })"
      by (rule room_terminate [of _ _ _ _ H]) (use r1 r2 in \<open>auto intro: room_keeps_shape\<close>)
    ultimately show ?thesis by simp
  qed
qed

text \<open>\<open>insert_from_safe_copy\<close> terminates the string before it fills the gap.\<close>

lemma set_size_shaped:
  assumes "shaped r" "n < length (buffer r)"
  shows "\<exists>r1. set_size n r = Some r1 \<and> shaped r1 \<and> length (buffer r1) = length (buffer r)"
proof (cases r)
  case (Long cs k)
  with assms show ?thesis by (simp add: set_size_def shaped_def)
next
  case (Short cs)
  define b :: byte where "b = of_nat (23 - n)"
  have l: "length cs = 24" "n \<le> 23" "\<not> is_long (Short cs)"
    using assms Short shaped_Short [of cs] by (auto simp: shaped_def)
  have "\<not> bit b 7" unfolding b_def using spare_byte(1) [OF l(2)] .
  then have "shaped (Short (cs[23 := Some b]))"
    using l last_24 [of "cs[23 := Some b]"] by (simp add: shaped_def)
  moreover have "set_size n (Short cs) = Some (Short (cs[23 := Some b]))"
    using l by (simp add: set_size_def min_cap_def b_def del: is_long.simps of_nat_diff)
  ultimately show ?thesis using Short by simp
qed

lemma assign_beyond:
  assumes "i + length zs \<le> n" "n < length (buffer r)" "k = length zs"
  shows "Option.bind (char_assign n c r) (\<lambda>r2. Option.bind (char_move i (Elsewhere zs) k r2) f) =
    Option.bind (char_move i (Elsewhere zs) k r) (\<lambda>r2. Option.bind (char_assign n c r2) f)"
proof -
  have swap: "take i (cs[n := x]) @ ys @ drop (i + length ys) (cs[n := x]) =
      (take i cs @ ys @ drop (i + length ys) cs)[n := x]" if "n < length cs" "length ys = length zs" for cs x and ys :: cells
  proof -
    have "\<not> n - i < length ys" "\<not> n < i" using assms(1) that by linarith+
    with that assms(1) show ?thesis by (simp add: list_update_append drop_update_swap)
  qed
  have twice: "with_buffer cs (with_buffer ds r) = with_buffer cs r" for cs ds by (cases r) auto
  show ?thesis
    using assms swap [of "buffer r" "map Some zs" "Some c"]
    by (simp add: char_assign_eq char_move_def write_cells_def twice del: append_assoc)
qed

lemma terminate_write:
  assumes "shaped r" "i + length zs \<le> n" "n < length (buffer r)" "k = length zs"
  shows "Option.bind (null_terminate_at n r) (\<lambda>r1. Option.bind (char_move i (Elsewhere zs) k r1) f) =
    Option.bind (char_move i (Elsewhere zs) k r) (\<lambda>r1. Option.bind (null_terminate_at n r1) f)"
proof -
  obtain r1 where r1: "set_size n r = Some r1" "length (buffer r1) = length (buffer r)"
    using set_size_shaped [OF assms(1,3)] by blast
  have "Option.bind (char_assign n 0 r1) (\<lambda>r2. Option.bind (char_move i (Elsewhere zs) k r2) f) =
    Option.bind (char_move i (Elsewhere zs) k r1) (\<lambda>r2. Option.bind (char_assign n 0 r2) f)"
    by (rule assign_beyond) (use assms r1 in auto)
  with r1(1) set_size_move [OF assms(1), of i zs k n "\<lambda>r2. Option.bind (char_assign n 0 r2) f"] assms
  show ?thesis by (simp add: null_terminate_at_def)
qed

lemma insert_from_safe_copy_yields:
  assumes r: "held ms r (A @ D)" and p: "ip = length A" and N: "N \<noteq> []"
  shows "yields ms (A @ N @ D) (insert_from_safe_copy ms ip N r)"
proof -
  obtain cap where cap: "str_capacity r = Some cap" "cap + 1 = length (buffer r)" "length (A @ D) \<le> cap"
    using rep_caps(2) [OF r] by blast
  let ?n = "length N"
  define res where "res = (if cap - length (A @ D) \<ge> ?n then do {
       let n_move = length (A @ D) - ip;
       r1 \<leftarrow> (if n_move \<noteq> 0 then char_move (ip + ?n) (Own ip) n_move r else Some r);
       Some (Inr r1) }
     else grow_by_without_replace ms cap (length (A @ D) + ?n - cap) (length (A @ D)) ip 0 ?n r)"
  have prep: "prepares ms (length (A @ D) + ?n) (gap A ?n D) res"
    unfolding res_def by (rule prepares_insert [OF r cap(1,2) refl p]) (use N cap(3) in auto)
  have def: "insert_from_safe_copy ms ip N r = do {
    res1 \<leftarrow> res;
    (case res1 of
       Inl e \<Rightarrow> Some (Inl e)
     | Inr r1 \<Rightarrow> do {
         r3 \<leftarrow> null_terminate_at (length (A @ D) + ?n) r1;
         r4 \<leftarrow> char_move ip (Elsewhere N) ?n r3;
         Some (Inr r4) }) }"
    by (simp only: insert_from_safe_copy_def rep_caps(1) [OF r] cap(1) bind.simps res_def Let_def terminate_bind
        char_copy_def src.case assert_that_simps)
  show ?thesis
  proof (cases "length (A @ D) + ?n \<le> ms")
    case False
    then show ?thesis using prep def by (simp add: prepares_def yields_def)
  next
    case True
    then obtain r1 where r1: "res = Some (Inr r1)" "room ms (length (A @ D) + ?n) r1" "gap A ?n D (buffer r1)"
      using prep by (auto simp: prepares_def)
    then have "insert_from_safe_copy ms ip N r =
      do { r2 \<leftarrow> char_move ip (Elsewhere N) ?n r1; r3 \<leftarrow> null_terminate_at (length (A @ D) + ?n) r2; Some (Inr r3) }"
      unfolding def using p by (simp add: terminate_write room_def)
    with fill_gap_src [OF r1(2,3) _ _ p refl, of "Elsewhere N"] show ?thesis by simp
  qed
qed

lemma str_insert_with_size_yields:
  assumes r: "held ms r (A @ D)" and p: "ip = length A" and l: "length N + 16 \<le> ms div 2"
  shows "yields ms (A @ N @ D) (str_insert_with_size ms ip N r)"
proof (cases "N = []")
  case True
  then show ?thesis using yields_in_place [OF r held_rep [OF r]] by (simp add: str_insert_with_size_def)
next
  case False
  have "23 \<le> ms" using shaped_buffer [OF shaped_of [OF r]] r by (auto simp: held_def)
  then obtain t where t: "str_init_with_sentinel ms N = Some (Inr t)" "str_rep t N"
    using str_push_all_yields [OF held_empty, of ms N] l
    by (auto simp: yields_def str_init_with_sentinel_def split: if_splits)
  have "str_chars t 0 (length N) = Some N" using str_chars_ok [of t "[]" N "[]"] t by simp
  with False t insert_from_safe_copy_yields [OF r p False] show ?thesis
    by (simp add: str_insert_with_size_def str_rep_sizes)
qed

section \<open>Assignment\<close>

text \<open>Moving the text to the front of the old buffer and terminating it.\<close>

lemma overwrite:
  assumes r: "held ms r xs" and rd: "read_src s n r = Some (map Some N)" "length N = n"
    and room: "n < length (buffer r)"
  shows "yields ms N (do { r1 \<leftarrow> char_move 0 s n r; r2 \<leftarrow> null_terminate_at n r1; Some (Inr r2) })"
proof -
  have "gap [] n [] (buffer r)" using gap_at_end [of "[]" n "buffer r"] room by simp
  then have "yields ms ([] @ N @ []) (do { r1 \<leftarrow> char_move 0 s n r; r2 \<leftarrow> null_terminate_at n r1; Some (Inr r2) })"
    by (rule fill_gap_src [OF held_room [OF r room] _ rd(1)]) (simp_all add: rd(2))
  then show ?thesis by simp
qed

lemma assign_external_yields:
  assumes r: "held ms r xs" and N: "src_text s n xs = Some N"
  shows "yields ms N (assign_external ms s n r)"
proof -
  obtain cap where cap: "str_capacity r = Some cap" "cap + 1 = length (buffer r)" "length xs \<le> cap"
    using rep_caps(2) [OF r] by blast
  note sz = rep_caps(1) [OF r] and n = src_text_length [OF N] and rd = read_text [OF held_rep [OF r] N]
  show ?thesis
  proof (cases "n \<le> cap")
    case True
    with cap sz overwrite [OF r rd n] show ?thesis by (simp add: assign_external_def)
  next
    case False
    have "yields ms ([] @ N @ []) (grow_by_and_replace ms cap (n - cap) (length xs) 0 (length xs) n s r)"
      by (rule yields_grow_replace [where B = xs]) (use r cap rd n False in auto)
    with False cap sz show ?thesis by (simp add: assign_external_def)
  qed
qed

text \<open>Setting the size first leaves the characters of a source inside the string alone.\<close>

lemma set_size_read:
  assumes "shaped r" "j + n < length (buffer r)" "set_size k r = Some r1"
  shows "read_cells j n r1 = read_cells j n r"
proof (cases r)
  case (Long cs m)
  with assms show ?thesis by (auto simp: set_size_def read_cells_def)
next
  case (Short cs)
  have "length cs = 24" "\<not> is_long (Short cs)" using assms(1) Short shaped_Short by (auto simp: shaped_def)
  with assms(2,3) Short show ?thesis
    by (auto simp: set_size_def read_cells_def drop_update_swap simp del: is_long.simps split: if_splits)
qed

lemma assign_short_yields:
  assumes r: "held ms r xs" and N: "src_text s n xs = Some N" and n: "fits_in_sso n"
  shows "yields ms N (do { r1 \<leftarrow> assign_short s n r; Some (Inr r1) })"
proof -
  have room: "n < length (buffer r)"
    using n shaped_buffer [OF shaped_of [OF r]] by (simp add: fits_in_sso_def min_cap_def)
  note rd = read_text [OF held_rep [OF r] N] and l = src_text_length [OF N] and sh = shaped_of [OF r]
  obtain r1 where r1: "set_size n r = Some r1" using set_size_shaped [OF sh room] by blast
  have "read_src s n r1 = read_src s n r"
  proof (cases s)
    case (Own j)
    then have "j + n < length (buffer r)"
      using N str_rep_less [OF held_rep [OF r]] by (auto split: if_splits)
    with Own show ?thesis using set_size_read [OF sh _ r1] by simp
  qed simp
  then have src: "char_move 0 s n r = char_move 0 (Elsewhere N) n r" "char_move 0 s n r1 = char_move 0 (Elsewhere N) n r1"
    using rd l by (simp_all add: char_move_def)
  have "do { r2 \<leftarrow> assign_short s n r; Some (Inr r2 :: exn + str) } =
      do { r2 \<leftarrow> set_size n r; r3 \<leftarrow> char_move 0 (Elsewhere N) n r2; r4 \<leftarrow> char_assign n 0 r3; Some (Inr r4) }"
    using src(2) r1 by (simp add: assign_short_def flip: set_size_def)
  also have "\<dots> = do { r2 \<leftarrow> char_move 0 (Elsewhere N) n r; r3 \<leftarrow> null_terminate_at n r2; Some (Inr r3) }"
    by (subst set_size_move) (use sh room l in \<open>auto simp: null_terminate_at_def\<close>)
  finally show ?thesis using overwrite [OF r rd l room] src(1) by simp
qed

lemma str_assign_yields:
  assumes r: "held ms r xs" and N: "src_text s n xs = Some N"
  shows "yields ms N (str_assign ms known s n r)"
  using assign_external_yields [OF assms] assign_short_yields [OF assms] by (simp add: str_assign_def)

lemma str_assign_fill_yields:
  assumes r: "held ms r xs"
  shows "yields ms (replicate n c) (str_assign_fill ms n c r)"
proof -
  obtain cap where cap: "str_capacity r = Some cap" "cap + 1 = length (buffer r)" "length xs \<le> cap"
    using rep_caps(2) [OF r] by blast
  define res where
    "res = (if cap < n then grow_by_without_replace ms cap (n - cap) (length xs) 0 (length xs) 0 r else Some (Inr r))"
  have "prepares ms n (gap [] n []) res"
  proof (cases "cap < n")
    case True
    have "prepares ms n (gap [] 0 []) (grow_by_without_replace ms cap (n - cap) (length xs) 0 (length xs) 0 r)"
      by (rule prepares_grow [where B = xs]) (use r cap True in auto)
    then show ?thesis using True gap_at_end [of "[]" n]
      by (auto simp: prepares_def gap_def [of _ 0] room_def res_def)
  next
    case False
    then have "room ms n r" using held_room [OF r, of n] cap by simp
    moreover have "gap [] n [] (buffer r)" using gap_at_end [of "[]" n "buffer r"] False cap by simp
    ultimately show ?thesis using False by (simp add: prepares_def res_def room_def)
  qed
  then have "yields ms ([] @ replicate n c @ []) (do {
    res1 \<leftarrow> res;
    (case res1 of
       Inl e \<Rightarrow> Some (Inl e)
     | Inr r1 \<Rightarrow> do {
         r2 \<leftarrow> char_fill 0 n c r1;
         r3 \<leftarrow> null_terminate_at n r2;
         Some (Inr r3) }) })"
    unfolding char_fill_eq by (intro fill_gap) simp_all
  then show ?thesis
    by (simp only: str_assign_fill_def rep_caps(1) [OF r] cap(1) bind.simps res_def append_Nil append_Nil2)
qed

lemma str_assign_char_yields:
  assumes r: "held ms r xs"
  shows "yields ms [c] (do { r1 \<leftarrow> str_assign_char c r; Some (Inr r1) })"
proof -
  have "str_assign_char c r = assign_short (Elsewhere [c]) 1 r"
    by (simp add: str_assign_char_def assign_short_def char_assign_move [of 0 c])
  moreover have "fits_in_sso 1" by (simp add: fits_in_sso_def min_cap_def)
  ultimately show ?thesis using assign_short_yields [OF r, of "Elsewhere [c]" 1 "[c]"] by simp
qed

lemma assign_no_alias_yields:
  assumes r: "held ms r xs" and m: "is_short \<longleftrightarrow> \<not> is_long r"
  shows "yields ms N (assign_no_alias ms is_short N r)"
proof -
  obtain cap where cap: "str_capacity r = Some cap" "cap + 1 = length (buffer r)" "length xs \<le> cap"
    using rep_caps(2) [OF r] by blast
  note sh = shaped_of [OF r] and sz = rep_caps(1) [OF r]
  have caps: "(if is_short then Some min_cap else get_long_cap r) = Some (cap + 1)"
    "(if is_short then get_short_size r else get_long_size r) = Some (length xs)"
    using m is_long_size [OF sh] is_short_size [OF sh] is_long_cap [OF sh] is_short_buffer [OF sh] sz cap(2)
    by (auto simp: min_cap_def)
  have set: "(if is_short then set_short_size n r else set_long_size n r) = set_size n r" for n
    using m by (simp add: set_size_def)
  show ?thesis
  proof (cases "cap + 1 \<le> length N")
    case True
    have "yields ms ([] @ N @ [])
        (grow_by_and_replace ms cap (length N - (cap + 1) + 1) (length xs) 0 (length xs) (length N) (Elsewhere N) r)"
      by (rule yields_grow_replace [where B = xs]) (use r cap True in auto)
    with True show ?thesis by (simp add: assign_no_alias_def caps Let_def)
  next
    case False
    then have room: "length N < length (buffer r)" using cap by simp
    have "assign_no_alias ms is_short N r = do {
        r1 \<leftarrow> set_size (length N) r;
        r2 \<leftarrow> char_move 0 (Elsewhere N) (length N) r1;
        r3 \<leftarrow> char_assign (length N) 0 r2;
        Some (Inr r3) }"
      using False by (simp add: assign_no_alias_def caps set char_copy_def Let_def)
    also have "\<dots> = do { r2 \<leftarrow> char_move 0 (Elsewhere N) (length N) r; r3 \<leftarrow> null_terminate_at (length N) r2; Some (Inr r3) }"
      by (subst set_size_move) (use sh room in \<open>auto simp: null_terminate_at_def\<close>)
    finally show ?thesis using overwrite [OF r _ refl room, of "Elsewhere N"] by simp
  qed
qed

lemma str_copy_assign_yields:
  assumes r: "held ms r xs" and s: "held ms s ys"
  shows "yields ms ys (str_copy_assign ms False s r)"
proof -
  have "str_chars s 0 (length ys) = Some ys" using str_chars_ok [of s "[]" ys "[]"] held_rep [OF s] by simp
  moreover have "yields ms ys (Some (Inr s))" using yields_in_place [OF s held_rep [OF s]] by simp
  ultimately show ?thesis
    using assign_no_alias_yields [OF r, of False ys] assign_no_alias_yields [OF r, of True ys] rep_caps(1) [OF s]
    by (simp add: str_copy_assign_def)
qed

text \<open>Move assignment hands the representation over and leaves the source short and empty; a
  string moved onto itself loses its text.\<close>

lemma empty_again:
  assumes "shaped s"
  shows "\<exists>s2. do { s1 \<leftarrow> set_short_size 0 s; char_assign 0 0 s1 } = Some s2 \<and> str_rep s2 [] \<and> length (buffer s2) = 24"
proof -
  have b: "\<not> bit (of_nat 23 :: byte) 7" using spare_byte(1) [of 0] by simp
  obtain cs where cs: "set_short_size 0 s = Some (Short cs)" "length cs = 24" "last cs = Some (of_nat 23)"
  proof (cases s)
    case (Short ds)
    then show ?thesis using assms that [of "ds[23 := Some (of_nat 23)]"] last_24 [of "ds[23 := Some (of_nat 23)]"]
      by (simp add: shaped_def min_cap_def)
  next
    case (Long ds k)
    then show ?thesis using that [of "replicate 23 None @ [Some (of_nat 23)]"] by (simp add: min_cap_def)
  qed
  have sh: "shaped (Short cs)" using cs b by (simp add: shaped_def)
  have "set_size 0 (Short cs) = Some (Short (cs[23 := Some (of_nat 23)]))"
    using shaped_Short [OF sh] by (simp add: set_size_def min_cap_def del: is_long.simps)
  moreover have "cs[23 := Some (of_nat 23)] = cs" using cs(2,3) last_24 [of cs] by (metis list_update_id)
  ultimately have "null_terminate_at 0 (Short cs) = char_assign 0 0 (Short cs)" by (simp add: null_terminate_at_def)
  moreover have "cs \<noteq> []" using cs(2) by auto
  ultimately show ?thesis using terminate [OF sh, of "[]" cs 0] cs(1,2) by simp
qed

lemma str_move_assign_ok:
  assumes "held ms s ys"
  shows "\<exists>s2. str_move_assign s = Some (s, s2) \<and> str_rep s2 []"
  using empty_again [OF shaped_of [OF assms]] by (auto simp: str_move_assign_def bind_eq_Some_conv)

lemma str_self_move_assign_ok:
  assumes "held ms r xs"
  shows "\<exists>r'. str_self_move_assign r = Some r' \<and> str_rep r' []"
proof -
  have "shaped (if is_long r then empty_short else r)"
    using shaped_of [OF assms] empty_short_rep by (simp add: str_rep_def)
  from empty_again [OF this] show ?thesis by (auto simp: str_self_move_assign_def Let_def)
qed

section \<open>Replacement\<close>

text \<open>Moving the tail to the right: what lies below its new place is as it was, and what lay in it
  is read there.\<close>

lemma shift_right:
  assumes r: "held ms r (A @ B @ D)" and room: "length A + g + length D < length (buffer r)"
    and l: "q = length A + g" "p = length A + length B" "n = length D"
  obtains r1 where "char_move q (Own p) n r = Some r1" "keeps_shape r r1" "gap A g D (buffer r1)"
    "\<And>j k. j + k \<le> q \<Longrightarrow> read_cells j k r1 = read_cells j k r"
    "\<And>j k. p \<le> j \<Longrightarrow> j + k \<le> p + length D \<Longrightarrow> read_cells (j + q - p) k r1 = read_cells j k r"
proof -
  from shift_ok [OF r room, of True q p n] l obtain r1 where
    r1: "char_move q (Own p) n r = Some r1" "keeps_shape r r1" "gap A g D (buffer r1)" by auto
  have rD: "read_cells p (length D) r = Some (map Some D)"
    using read_own [of r "A @ B" D "[]" p] held_rep [OF r] l by simp
  have buf: "buffer r1 = take q (buffer r) @ map Some D @ drop (q + length D) (buffer r)"
    using char_move_ok [OF shaped_of [OF r], of "Own p" n "map Some D" q] r1(1) rD l room by auto
  have q: "q \<le> length (buffer r)" using room l by simp
  show ?thesis
    by (rule that [OF r1]) (use read_low [OF buf _ q] read_high [OF buf q rD] in auto)
qed

text \<open>Overwriting a part of the text with one as long.\<close>

lemma overwrite_part:
  assumes r: "held ms r (A @ B @ D)" and rd: "read_src s n r = Some (map Some N)"
    and l: "length N = n" "length B = n" "i = length A"
  obtains r1 where "char_move i s n r = Some r1" "keeps_shape r r1" "held ms r1 (A @ N @ D)"
proof -
  obtain C where C: "buffer r = map Some (A @ B @ D) @ Some 0 # C" using r by (auto simp: held_def str_rep_def)
  obtain r1 where r1: "char_move i s n r = Some r1" "keeps_shape r r1"
    "buffer r1 = map Some A @ map Some N @ map Some D @ Some 0 # C"
    using write_mid [OF shaped_of [OF r], of "map Some A" "map Some B" "map Some D @ Some 0 # C" "map Some N" i] C l rd
    by (auto simp: char_move_def)
  moreover have "held ms r1 (A @ N @ D)"
    using r r1(2,3) l rep_caps(1) [OF r] by (auto simp: held_def str_rep_def keeps_shape_def)
  ultimately show ?thesis by (intro that)
qed

lemma str_replace_shrink:
  assumes r: "held ms r (A @ B @ D)" and N: "src_text s n2 (A @ B @ D) = Some N"
    and l: "pos = length A" "n1 = length B" "n2 < n1"
  shows "yields ms (A @ N @ D) (do {
    r1 \<leftarrow> char_move pos s n2 r;
    r2 \<leftarrow> char_move (pos + n2) (Own (pos + n1)) (length D) r1;
    r3 \<leftarrow> null_terminate_at (length (A @ B @ D) + n2 - n1) r2;
    Some (Inr r3) })"
proof -
  note rd = read_text [OF held_rep [OF r] N] and n = src_text_length [OF N]
  have "B @ D = take n2 B @ (drop n2 B @ D)" by (metis append.assoc append_take_drop_id)
  with r have "held ms r (A @ take n2 B @ (drop n2 B @ D))" by simp
  then obtain r1 where r1: "char_move pos s n2 r = Some r1" "held ms r1 (A @ N @ (drop n2 B @ D))"
    by (rule overwrite_part [OF _ rd n]) (use l in auto)
  have h1: "held ms r1 ((A @ N) @ drop n2 B @ D)" using r1(2) by simp
  have room: "length (A @ N) + 0 + length D < length (buffer r1)"
    using str_rep_less [OF held_rep [OF h1]] by simp
  obtain r2 where r2: "char_move (pos + n2) (Own (pos + n1)) (length D) r1 = Some r2" "keeps_shape r1 r2"
    "gap (A @ N) 0 D (buffer r2)"
    by (rule shift_right [OF h1 room]) (use l n in auto)
  then obtain H where H: "buffer r2 = map Some (A @ N @ D) @ H" by (auto simp: gap_def)
  have "yields ms (A @ N @ D)
      (do { r3 \<leftarrow> null_terminate_at (length (A @ B @ D) + n2 - n1) r2; Some (Inr r3) })"
    by (rule room_terminate [OF _ H])
      (use room_keeps_shape [OF held_room [OF h1] r2(2)] room l n in auto)
  with r1(1) r2(1) show ?thesis by simp
qed

text \<open>A source in the part that is moved is followed; one that starts inside the replaced range is
  copied in two pieces, the first before the move.\<close>

lemma str_replace_expand:
  assumes r: "held ms r (A @ B @ D)" and N: "src_text s n2 (A @ B @ D) = Some N"
    and l: "pos = length A" "n1 = length B" "n1 < n2" and D: "D \<noteq> []"
    and room: "length A + n2 + length D < length (buffer r)"
  shows "yields ms (A @ N @ D) (do {
    (pos1, s1, n1a, n2a, r1) \<leftarrow>
      (if src_in_range (pos + 1) (length (A @ B @ D)) s then
         if \<not> src_in_range (pos + 1) (pos + n1) s then Some (pos, src_add s (n2 - n1), n1, n2, r)
         else do {
           r1 \<leftarrow> char_move pos s n1 r;
           Some (pos + n1, src_add s n2, 0, n2 - n1, r1) }
       else Some (pos, s, n1, n2, r));
    r2 \<leftarrow> char_move (pos1 + n2a) (Own (pos1 + n1a)) (length D) r1;
    r3 \<leftarrow> char_move pos1 s1 n2a r2;
    r4 \<leftarrow> null_terminate_at (length (A @ B @ D) + n2a - n1a) r3;
    Some (Inr r4) })"
proof -
  note rd = read_text [OF held_rep [OF r] N] and n = src_text_length [OF N]
  let ?sz = "length (A @ B @ D)"
  have full: "room ms (length (A @ N @ D)) r" by (rule held_room [OF r]) (use room n in simp)
  have own: "j + n2 \<le> ?sz" if "s = Own j" for j using N that src_own_le by blast
  \<comment> \<open>the tail moved by the difference, in the cases that do not split the source\<close>
  obtain r2 where r2: "char_move (pos + n2) (Own (pos + n1)) (length D) r = Some r2" "keeps_shape r r2"
    "gap A n2 D (buffer r2)"
    "\<And>j k. j + k \<le> pos + n2 \<Longrightarrow> read_cells j k r2 = read_cells j k r"
    "\<And>j k. pos + n1 \<le> j \<Longrightarrow> j + k \<le> pos + n1 + length D \<Longrightarrow>
       read_cells (j + (pos + n2) - (pos + n1)) k r2 = read_cells j k r"
    by (rule shift_right [OF r room, of "pos + n2" "pos + n1" "length D"]) (use l in auto)
  have whole: "yields ms (A @ N @ D) (do {
      r3 \<leftarrow> char_move pos s1 n2 r2; r4 \<leftarrow> null_terminate_at (?sz + n2 - n1) r3; Some (Inr r4) })"
    if "read_src s1 n2 r2 = Some (map Some N)" for s1
    by (rule fill_gap_src [OF _ r2(3) that]) (use l n room_keeps_shape [OF full r2(2)] in \<open>auto simp: ac_simps\<close>)
  consider (out) "\<not> src_in_range (pos + 1) ?sz s"
    | (tail) "src_in_range (pos + 1) ?sz s" "\<not> src_in_range (pos + 1) (pos + n1) s"
    | (split) "src_in_range (pos + 1) ?sz s" "src_in_range (pos + 1) (pos + n1) s" by blast
  then show ?thesis
  proof cases
    case out
    have "read_src s n2 r2 = Some (map Some N)"
    proof (cases s)
      case (Elsewhere zs)
      with rd show ?thesis by simp
    next
      case (Own j)
      then have "j \<le> pos" using out own [OF Own] l by auto
      then show ?thesis using r2(4) [of j n2] rd Own by simp
    qed
    with out whole r2(1) show ?thesis by simp
  next
    case tail
    then obtain j where j: "s = Own j" "pos + n1 \<le> j" by (cases s) auto
    then have "read_cells (j + (n2 - n1)) n2 r2 = read_cells j n2 r"
      using r2(5) [of j n2] own [OF j(1)] l by simp
    then have "read_src (src_add s (n2 - n1)) n2 r2 = Some (map Some N)" using rd j by simp
    with tail whole r2(1) show ?thesis by simp
  next
    case split
    then obtain j where j: "s = Own j" "pos < j" "j < pos + n1" by (cases s) auto
    have le: "j + n2 \<le> ?sz" by (rule own [OF j(1)])
    have N': "N = take n2 (drop j (A @ B @ D))" using N j(1) by (simp split: if_splits)
    have "src_text s n1 (A @ B @ D) = Some (take n1 N)"
    proof -
      have "take n1 N = take n1 (drop j (A @ B @ D))"
        unfolding N' using l(3) by (simp only: take_take min_absorb1 less_imp_le)
      moreover have "j + n1 \<le> ?sz" using le l(3) by linarith
      ultimately show ?thesis unfolding j(1) src_text.simps by (simp only: if_True)
    qed
    from read_text [OF held_rep [OF r] this] obtain r1 where
      r1: "char_move pos s n1 r = Some r1" "keeps_shape r r1" "held ms r1 (A @ take n1 N @ D)"
      by (rule overwrite_part [OF r]) (use l n in auto)
    have h1: "held ms r1 ((A @ take n1 N) @ [] @ D)" using r1(3) by simp
    have room1: "length (A @ take n1 N) + (n2 - n1) + length D < length (buffer r1)"
      using room r1(2) l n by (simp add: keeps_shape_def)
    obtain r3 where r3: "char_move (pos + n1 + (n2 - n1)) (Own (pos + n1)) (length D) r1 = Some r3" "keeps_shape r1 r3"
      "gap (A @ take n1 N) (n2 - n1) D (buffer r3)"
      "\<And>j k. pos + n1 \<le> j \<Longrightarrow> j + k \<le> pos + n1 + length D \<Longrightarrow>
         read_cells (j + (pos + n1 + (n2 - n1)) - (pos + n1)) k r3 = read_cells j k r1"
      by (rule shift_right [OF h1 room1, of "pos + n1 + (n2 - n1)" "pos + n1" "length D"]) (use l n in auto)
    have "src_text (Own (j + n1)) (n2 - n1) (A @ take n1 N @ D) = Some (drop n1 N)"
    proof -
      have skip: "drop (j + n1) (A @ X @ D) = drop (j - pos) D" if "length X = n1" for X
        using that j l by simp
      have "drop n1 N = take (n2 - n1) (drop (j + n1) (A @ B @ D))"
        by (simp only: N' drop_take drop_drop add.commute)
      also have "\<dots> = take (n2 - n1) (drop (j + n1) (A @ take n1 N @ D))"
        using skip [of B] skip [of "take n1 N"] l(2,3) n by simp
      finally have eq: "drop n1 N = take (n2 - n1) (drop (j + n1) (A @ take n1 N @ D))" .
      have "length (A @ take n1 N @ D) = ?sz" using l n by simp
      then have "j + n1 + (n2 - n1) \<le> length (A @ take n1 N @ D)" using le l(3) by linarith
      then show ?thesis unfolding src_text.simps by (simp only: if_True flip: eq)
    qed
    from read_text [OF held_rep [OF r1(3)] this]
    have "read_cells (j + n1) (n2 - n1) r1 = Some (map Some (drop n1 N))" by simp
    moreover have "read_cells (j + n2) (n2 - n1) r3 = read_cells (j + n1) (n2 - n1) r1"
      using r3(4) [of "j + n1" "n2 - n1"] j le l by simp
    ultimately have rd3: "read_src (src_add s n2) (n2 - n1) r3 = Some (map Some (drop n1 N))" using j(1) by simp
    have "yields ms ((A @ take n1 N) @ drop n1 N @ D) (do {
        r4 \<leftarrow> char_move (pos + n1) (src_add s n2) (n2 - n1) r3;
        r5 \<leftarrow> null_terminate_at (?sz + (n2 - n1) - 0) r4; Some (Inr r5) })"
      by (rule fill_gap_src [OF _ r3(3) rd3])
        (use l n room_keeps_shape [OF room_keeps_shape [OF full r1(2)] r3(2)] in \<open>auto simp: ac_simps\<close>)
    moreover have "take n1 N @ drop n1 N @ D = N @ D" by (metis append.assoc append_take_drop_id)
    ultimately show ?thesis using split r1(1) r3(1) by simp
  qed
qed

text \<open>\<open>replace(pos, n1, s, n2)\<close> on a text cut at the replaced range.\<close>

lemma str_replace_cut:
  assumes r: "held ms r (A @ B @ D)" and N: "src_text s n2 (A @ B @ D) = Some N"
    and p: "pos = length A" "min n1' (length (B @ D)) = length B"
  shows "yields ms (A @ N @ D) (str_replace ms pos n1' s n2 r)"
proof -
  obtain cap where cap: "str_capacity r = Some cap" "cap + 1 = length (buffer r)" "length (A @ B @ D) \<le> cap"
    using rep_caps(2) [OF r] by blast
  note sz = rep_caps(1) [OF r] and n = src_text_length [OF N] and rd = read_text [OF held_rep [OF r] N]
  define n1 where "n1 = length B"
  have pos: "\<not> pos > length (A @ B @ D)" "length (A @ B @ D) - pos = length (B @ D)" using p by simp_all
  have n1: "min n1' (length (B @ D)) = n1" "length (B @ D) - n1 = length D" using p(2) by (simp_all add: n1_def)
  note unfold = str_replace_def sz cap(1) bind.simps if_False if_True pos(2) n1 Let_def pos(1)
  consider (grow) "cap - length (A @ B @ D) + n1 < n2"
    | (same) "\<not> cap - length (A @ B @ D) + n1 < n2" "\<not> (n1 \<noteq> n2 \<and> length D \<noteq> 0)"
    | (shrink) "\<not> cap - length (A @ B @ D) + n1 < n2" "n1 \<noteq> n2 \<and> length D \<noteq> 0" "n1 > n2"
    | (expand) "\<not> cap - length (A @ B @ D) + n1 < n2" "n1 \<noteq> n2 \<and> length D \<noteq> 0" "\<not> n1 > n2"
    by linarith
  then show ?thesis
  proof cases
    case grow
    have "yields ms (A @ N @ D)
        (grow_by_and_replace ms cap (length (A @ B @ D) - n1 + n2 - cap) (length (A @ B @ D)) pos n1 n2 s r)"
      by (rule yields_grow_replace [where B = B]) (use r cap rd n grow p in \<open>auto simp: n1_def\<close>)
    then show ?thesis by (simp only: unfold grow)
  next
    case same
    have room: "length A + n2 + length D < length (buffer r)" using same(1) cap by (simp add: n1_def)
    have g: "gap A n2 D (buffer r)"
      using shift_ok [OF r room, of False "length A + n2" "length A + length B" "length D"] same(2)
      by (auto simp: n1_def)
    have "yields ms (A @ N @ D) (do {
        r1 \<leftarrow> char_move pos s n2 r; r2 \<leftarrow> null_terminate_at (length (A @ B @ D) + n2 - n1) r1; Some (Inr r2) })"
      by (rule fill_gap_src [OF _ g rd _ p(1)]) (use room n held_room [OF r] in \<open>auto simp: n1_def ac_simps\<close>)
    then show ?thesis by (simp only: unfold same)
  next
    case shrink
    show ?thesis
      using str_replace_shrink [OF r N p(1) n1_def shrink(3)] by (simp only: unfold shrink simp_thms)
  next
    case expand
    have room: "length A + n2 + length D < length (buffer r)" using expand(1) cap by (simp add: n1_def)
    have "n1 < n2" "D \<noteq> []" using expand by auto
    from str_replace_expand [OF r N p(1) n1_def this room] show ?thesis
      by (simp only: unfold expand simp_thms)
  qed
qed

text \<open>On any text: the first \<open>pos\<close> characters, the source and what follows the replaced range.\<close>

lemma cut_text:
  assumes "pos \<le> length (xs :: byte list)"
  obtains A B D where "xs = A @ B @ D" "pos = length A" "min n (length (B @ D)) = length B"
    "A = take pos xs" "D = drop (pos + n) xs" "B = take n (drop pos xs)"
proof -
  let ?A = "take pos xs" and ?B = "take n (drop pos xs)" and ?D = "drop (pos + n) xs"
  have BD: "?B @ ?D = drop pos xs" by (metis add.commute append_take_drop_id drop_drop)
  have "xs = ?A @ ?B @ ?D" unfolding BD by simp
  moreover have "min n (length (?B @ ?D)) = length ?B" unfolding BD by simp
  moreover have "pos = length ?A" using assms by simp
  ultimately show ?thesis by (intro that [of ?A ?B ?D] refl)
qed

lemma str_replace_yields:
  assumes "held ms r xs" "src_text s n2 xs = Some N" "pos \<le> length xs"
  shows "yields ms (take pos xs @ N @ drop (pos + n1) xs) (str_replace ms pos n1 s n2 r)"
proof -
  obtain A B D where "xs = A @ B @ D" "pos = length A" "min n1 (length (B @ D)) = length B"
    "A = take pos xs" "D = drop (pos + n1) xs" by (rule cut_text [OF assms(3)])
  with str_replace_cut [of ms r A B D s n2 N pos n1] assms show ?thesis by metis
qed

lemma str_replace_error:
  "held ms r xs \<Longrightarrow> length xs < pos \<Longrightarrow> str_replace ms pos n1 s n2 r = Some (Inl Out_Of_Range)"
  using rep_caps(1) [of ms r xs] by (simp add: str_replace_def)

lemma str_replace_fill_cut:
  assumes r: "held ms r (A @ B @ D)"
    and p: "pos = length A" "min n1' (length (B @ D)) = length B"
  shows "yields ms (A @ replicate n2 c @ D) (str_replace_fill ms pos n1' n2 c r)"
proof -
  obtain cap where cap: "str_capacity r = Some cap" "cap + 1 = length (buffer r)" "length (A @ B @ D) \<le> cap"
    using rep_caps(2) [OF r] by blast
  note sz = rep_caps(1) [OF r]
  define n1 where "n1 = length B"
  have pos: "\<not> pos > length (A @ B @ D)" "length (A @ B @ D) - pos = length (B @ D)" using p by simp_all
  have n1: "min n1' (length (B @ D)) = n1" "length (B @ D) - n1 = length D" using p(2) by (simp_all add: n1_def)
  define res where "res = (if cap - length (A @ B @ D) + n1 \<ge> n2 then do {
       r1 \<leftarrow> (if n1 \<noteq> n2 \<and> length D \<noteq> 0 then char_move (pos + n2) (Own (pos + n1)) (length D) r else Some r);
       Some (Inr r1) }
     else grow_by_without_replace ms cap (length (A @ B @ D) - n1 + n2 - cap) (length (A @ B @ D)) pos n1 n2 r)"
  have k: "length (A @ B @ D) + n2 - n1 = length A + n2 + length D" by (simp add: n1_def)
  have "prepares ms (length (A @ B @ D) + n2 - n1) (gap A n2 D) res"
  proof (cases "cap - length (A @ B @ D) + n1 \<ge> n2")
    case True
    have "prepares ms (length (A @ B @ D) + n2 - n1) (gap A n2 D)
        (do { r1 \<leftarrow> (if n1 \<noteq> n2 \<and> length D \<noteq> 0 then char_move (pos + n2) (Own (pos + n1)) (length D) r else Some r);
              Some (Inr r1) })"
      by (rule prepares_shift [OF r]) (use True cap p(1) in \<open>auto simp: n1_def\<close>)
    then show ?thesis using True by (simp only: res_def if_True)
  next
    case False
    have "prepares ms (length (A @ B @ D) + n2 - n1) (gap A n2 D)
        (grow_by_without_replace ms cap (length (A @ B @ D) - n1 + n2 - cap) (length (A @ B @ D)) pos n1 n2 r)"
      by (rule prepares_grow [OF r cap(2)]) (use False cap p(1) in \<open>auto simp: n1_def\<close>)
    then show ?thesis using False by (simp only: res_def if_False)
  qed
  then have "prepares ms (length (A @ B @ D) + n2 - n1) (gap A (length (replicate n2 c)) D) res" by simp
  then have "yields ms (A @ replicate n2 c @ D) (do {
    res1 \<leftarrow> res;
    (case res1 of
       Inl e \<Rightarrow> Some (Inl e)
     | Inr r1 \<Rightarrow> do {
         r2 \<leftarrow> char_fill pos n2 c r1;
         r3 \<leftarrow> null_terminate_at (length (A @ B @ D) + n2 - n1) r2;
         Some (Inr r3) }) })"
    unfolding char_fill_eq by (rule fill_gap) (use p k in simp_all)
  then show ?thesis
    by (simp only: str_replace_fill_def sz cap(1) bind.simps if_False pos n1 Let_def res_def)
qed

lemma str_replace_fill_yields:
  assumes "held ms r xs" "pos \<le> length xs"
  shows "yields ms (take pos xs @ replicate n2 c @ drop (pos + n1) xs) (str_replace_fill ms pos n1 n2 c r)"
proof -
  obtain A B D where "xs = A @ B @ D" "pos = length A" "min n1 (length (B @ D)) = length B"
    "A = take pos xs" "D = drop (pos + n1) xs" by (rule cut_text [OF assms(2)])
  with str_replace_fill_cut [of ms r A B D pos n1 n2 c] assms show ?thesis by metis
qed

section \<open>Capacity\<close>

lemma str_reserve_ok:
  assumes r: "held ms r xs" and n: "n \<le> ms"
  shows "\<exists>r'. str_reserve ms n r = Some (Inr r') \<and> str_rep r' xs \<and> n < length (buffer r') \<and>
    (n + 16 \<le> ms div 2 \<longrightarrow> held ms r' xs)"
proof -
  obtain cap where cap: "str_capacity r = Some cap" "cap + 1 = length (buffer r)" "length xs \<le> cap"
    using rep_caps(2) [OF r] by blast
  show ?thesis
  proof (cases "n \<le> cap")
    case True
    with cap n r held_rep [OF r] show ?thesis by (auto simp: str_reserve_def)
  next
    case False
    define k where "k = str_recommend n + 1"
    have k: "n < k" "24 \<le> k" using str_recommend_bounds [of n] by (simp_all add: k_def)
    obtain C where C: "buffer r = map Some xs @ Some 0 # C" using held_rep [OF r] by (auto simp: str_rep_def)
    have "read_cells 0 (length xs + 1) r = Some (map Some xs @ [Some 0])" by (simp add: read_cells_def C)
    moreover have "length xs + 1 \<le> k" using False cap k by linarith
    ultimately have "str_reserve ms n r =
        Some (Inr (Long ((map Some xs @ [Some 0]) @ replicate (k - (length xs + 1)) None) (length xs)))"
      using False cap(1) n rep_caps(1) [OF r]
      by (simp add: str_reserve_def allocate_long_buffer_eq write_cells_def k_def)
    moreover have "k \<le> ms + 1" if "n + 16 \<le> ms div 2"
      using that str_recommend_bounds(3) [of n] shaped_buffer [OF shaped_of [OF r]] r div_le_dividend [of ms 2]
      by (simp add: k_def held_def max_def split: if_splits)
    ultimately show ?thesis using k \<open>length xs + 1 \<le> k\<close>
      by (auto simp: held_def str_rep_def shaped_def str_size_def)
  qed
qed

lemma str_reserve_error: "ms < n \<Longrightarrow> str_reserve ms n r = Some (Inl Length_Error)"
  by (simp add: str_reserve_def)

text \<open>A short string built from its text and terminator over bytes that hold the size.\<close>

lemma short_rep:
  assumes "cs = map Some xs @ [Some 0] @ drop (length xs + 1) (replicate 23 None @ [Some (of_nat (23 - length xs))])"
    and "length xs \<le> 23"
  shows "str_rep (Short cs) xs" "length cs = 24"
proof -
  show l: "length cs = 24" using assms by simp
  have last: "last cs = Some (of_nat (23 - length xs))"
    using assms by (cases "length xs = 23") simp_all
  have "shaped (Short cs)" using l last spare_byte(1) [OF assms(2)] by (simp add: shaped_def)
  moreover have "get_short_size (Short cs) = Some (length xs)" by (rule short_size [OF l last assms(2)])
  ultimately show "str_rep (Short cs) xs" using shaped_Short [of cs] assms(1) by (auto simp: str_rep_def)
qed

text \<open>\<open>shrink_to_fit\<close> keeps the text and never needs more room than before.\<close>

lemma str_shrink_to_fit_ok:
  assumes r: "held ms r xs"
  shows "\<exists>r'. str_shrink_to_fit r = Some r' \<and> str_rep r' xs \<and> length (buffer r') \<le> length (buffer r)"
proof -
  obtain cap where cap: "str_capacity r = Some cap" "cap + 1 = length (buffer r)" "length xs \<le> cap"
    using rep_caps(2) [OF r] by blast
  note sz = rep_caps(1) [OF r] and sh = shaped_of [OF r]
  obtain C where C: "buffer r = map Some xs @ Some 0 # C" using held_rep [OF r] by (auto simp: str_rep_def)
  have rd: "read_cells 0 (length xs + 1) r = Some (map Some xs @ [Some 0])" by (simp add: read_cells_def C)
  show ?thesis
  proof (cases "str_recommend (length xs) = cap")
    case True
    with cap sz held_rep [OF r] show ?thesis by (simp add: str_shrink_to_fit_def)
  next
    case False
    have long: "is_long r"
    proof (rule ccontr)
      assume "\<not> is_long r"
      then have "cap = 23" using is_short_buffer [OF sh] cap(2) by simp
      with False cap(3) show False by (simp add: str_recommend_def min_cap_def)
    qed
    then obtain cs k where rL: "r = Long cs k" using sh by (auto simp: shaped_is_long)
    show ?thesis
    proof (cases "str_recommend (length xs) < 24")
      case True
      then have n: "length xs \<le> 23" using str_recommend_bounds(1) [of "length xs"] by linarith
      let ?b = "Some (of_nat (23 - length xs)) :: byte option"
      let ?cs = "map Some xs @ [Some 0] @ drop (length xs + 1) (replicate 23 None @ [?b])"
      have "str_shrink_to_fit r = Some (Short ?cs)"
        using False True n cap(1) sz long rd rL
        by (simp add: str_shrink_to_fit_def fits_in_sso_def min_cap_def write_cells_def)
      then show ?thesis using short_rep [OF refl n] shaped_buffer [OF sh] by simp
    next
      case long_target: False
      define m where "m = str_recommend (length xs) + 1"
      have m: "length xs + 1 \<le> m" "24 \<le> m" using str_recommend_bounds [of "length xs"] by (simp_all add: m_def)
      show ?thesis
      proof (cases "m - 1 \<ge> cap")
        case True
        then have "str_shrink_to_fit r = Some r"
          using False long_target cap(1) sz long rd
          by (simp add: str_shrink_to_fit_def fits_in_sso_def min_cap_def allocate_long_buffer_eq m_def)
        then show ?thesis using held_rep [OF r] by simp
      next
        case less: False
        then have "str_shrink_to_fit r =
            Some (Long ((map Some xs @ [Some 0]) @ replicate (m - (length xs + 1)) None) (length xs))"
          using False long_target cap(1) sz long rd m
          by (simp add: str_shrink_to_fit_def fits_in_sso_def min_cap_def allocate_long_buffer_eq m_def write_cells_def)
        then show ?thesis using m less cap(2) by (auto simp: str_rep_def shaped_def str_size_def)
      qed
    qed
  qed
qed

section \<open>Construction\<close>

text \<open>A buffer for \<open>n\<close> characters: short when they fit, long otherwise.\<close>

lemma init_internal_buffer_prepares:
  assumes "23 \<le> ms"
  shows "prepares ms n (gap [] n []) (init_internal_buffer ms n)"
proof (cases "ms < n")
  case True
  then show ?thesis by (simp add: init_internal_buffer_def prepares_def)
next
  case False
  show ?thesis
  proof (cases "fits_in_sso n")
    case True
    let ?b = "Some (of_nat (23 - n)) :: byte option"
    let ?cs = "replicate 23 (Some 0) @ [?b]"
    have n: "n \<le> 23" using True by (simp add: fits_in_sso_def min_cap_def)
    have "init_internal_buffer ms n = Some (Inr (Short ?cs))"
      using False True n by (simp add: init_internal_buffer_def fits_in_sso_def empty_short_def min_cap_def list_update_append)
    moreover have "shaped (Short ?cs)" using spare_byte(1) [OF n] by (simp add: shaped_def)
    moreover have "gap [] n [] ?cs" using gap_at_end [of "[]" n ?cs] n by simp
    ultimately show ?thesis using n assms by (simp add: prepares_def room_def)
  next
    case long: False
    define k where "k = str_recommend n + 1"
    have k: "n < k" "24 \<le> k" using str_recommend_bounds [of n] by (simp_all add: k_def)
    have "n + 16 \<le> ms div 2 \<Longrightarrow> k \<le> ms + 1"
      using str_recommend_bounds(3) [of n] assms div_le_dividend [of ms 2] by (simp add: k_def max_def split: if_splits)
    moreover have "init_internal_buffer ms n = Some (Inr (Long (replicate k None) n))"
      using False long by (simp add: init_internal_buffer_def allocate_long_buffer_eq k_def)
    moreover have "gap [] n [] (replicate k None)" using gap_at_end [of "[]" n "replicate k None"] k by simp
    ultimately show ?thesis using k False by (auto simp: prepares_def room_def shaped_def)
  qed
qed

text \<open>A constructor does not set the size again: \<open>init_internal_buffer\<close> has, and the copy keeps it.\<close>

lemma init_set_size: "init_internal_buffer ms n = Some (Inr r) \<Longrightarrow> set_size n r = Some r"
proof (cases "fits_in_sso n")
  case True
  assume r: "init_internal_buffer ms n = Some (Inr r)"
  have n: "n \<le> 23" using True by (simp add: fits_in_sso_def min_cap_def)
  let ?cs = "replicate 23 (Some 0) @ [Some (of_nat (23 - n)) :: byte option]"
  have "r = Short ?cs"
    using r True by (auto simp: init_internal_buffer_def fits_in_sso_def empty_short_def min_cap_def list_update_append split: if_splits)
  moreover have "shaped (Short ?cs)" using spare_byte(1) [OF n] by (simp add: shaped_def)
  ultimately show ?thesis using n shaped_Short [of ?cs]
    by (simp add: set_size_def min_cap_def list_update_append del: is_long.simps of_nat_diff)
next
  case False
  assume "init_internal_buffer ms n = Some (Inr r)"
  with False show ?thesis
    by (auto simp: init_internal_buffer_def allocate_long_buffer_eq set_size_def split: if_splits)
qed

lemma write_two:
  assumes "i + length ys + length zs \<le> length (buffer r)"
  shows "Option.bind (write_cells i ys r) (write_cells (i + length ys) zs) = write_cells i (ys @ zs) r"
proof -
  have twice: "with_buffer cs (with_buffer ds r) = with_buffer cs r" for cs ds by (cases r) auto
  show ?thesis using assms by (simp add: write_cells_def twice add_ac)
qed

text \<open>What every constructor from characters does, on one list of them.\<close>

lemma init_chars_yields:
  assumes "23 \<le> ms"
  shows "yields ms xs (do {
    res \<leftarrow> init_internal_buffer ms (length xs);
    (case res of
       Inl e \<Rightarrow> Some (Inl e)
     | Inr r \<Rightarrow> do {
         r1 \<leftarrow> char_move 0 (Elsewhere xs) (length xs) r;
         r2 \<leftarrow> char_assign (length xs) 0 r1;
         Some (Inr r2) }) })" (is "yields ms xs ?res")
proof -
  let ?n = "length xs"
  note prep = init_internal_buffer_prepares [OF assms, of ?n]
  have "?res = do {
    res \<leftarrow> init_internal_buffer ms ?n;
    (case res of
       Inl e \<Rightarrow> Some (Inl e)
     | Inr r \<Rightarrow> do {
         r1 \<leftarrow> char_move 0 (Elsewhere xs) ?n r;
         r2 \<leftarrow> null_terminate_at ?n r1;
         Some (Inr r2) }) }"
  proof (cases "?n \<le> ms")
    case False
    then show ?thesis using prep by (simp add: prepares_def)
  next
    case True
    then obtain r where r: "init_internal_buffer ms ?n = Some (Inr r)" "room ms ?n r"
      using prep by (auto simp: prepares_def)
    then have "do { r1 \<leftarrow> char_move 0 (Elsewhere xs) ?n r; r2 \<leftarrow> char_assign ?n 0 r1; Some (Inr r2 :: exn + str) } =
      do { r0 \<leftarrow> set_size ?n r; r1 \<leftarrow> char_move 0 (Elsewhere xs) ?n r0; r2 \<leftarrow> char_assign ?n 0 r1; Some (Inr r2) }"
      by (simp add: init_set_size)
    also have "\<dots> = do { r1 \<leftarrow> char_move 0 (Elsewhere xs) ?n r; r2 \<leftarrow> null_terminate_at ?n r1; Some (Inr r2) }"
      by (subst set_size_move) (use r(2) in \<open>auto simp: null_terminate_at_def room_def\<close>)
    finally show ?thesis using r(1) by simp
  qed
  also have "yields ms ([] @ xs @ []) \<dots>" by (rule fill_gap [OF prep]) simp_all
  finally show ?thesis by simp
qed

lemma char_copy_elsewhere: "char_copy i (Elsewhere zs) n r = char_move i (Elsewhere zs) n r"
  by (simp add: char_copy_def)

lemma str_init_yields: "23 \<le> ms \<Longrightarrow> yields ms xs (str_init ms xs)"
  unfolding str_init_def char_copy_elsewhere by (rule init_chars_yields)

lemma str_init_fill_yields: "23 \<le> ms \<Longrightarrow> yields ms (replicate n c) (str_init_fill ms n c)"
  unfolding str_init_fill_def char_fill_eq
  using init_chars_yields [of ms "replicate n c"] unfolding length_replicate .

text \<open>Two copies into a new buffer, of two texts or of a text and its terminator.\<close>

lemma init_room:
  assumes "23 \<le> ms" "init_internal_buffer ms n = Some (Inr r)"
  shows "n < length (buffer r)"
  using init_internal_buffer_prepares [OF assms(1), of n] assms(2)
  by (auto simp: prepares_def room_def split: if_splits)

lemma concatenate_strings_yields:
  assumes "23 \<le> ms"
  shows "yields ms (xs @ ys) (concatenate_strings ms xs ys)"
proof -
  have two: "Option.bind (char_move 0 (Elsewhere xs) (length xs) r)
      (\<lambda>r1. Option.bind (char_move (length xs) (Elsewhere ys) (length ys) r1) f) =
    Option.bind (char_move 0 (Elsewhere (xs @ ys)) (length (xs @ ys)) r) f"
    if "init_internal_buffer ms (length xs + length ys) = Some (Inr r)" for r and f :: "str \<Rightarrow> (exn + str) option"
    using arg_cong [OF write_two [of 0 "map Some xs" "map Some ys" r], of "\<lambda>x. Option.bind x f"]
      init_room [OF assms that] by (simp add: char_move_def)
  have "concatenate_strings ms xs ys = do {
     res \<leftarrow> init_internal_buffer ms (length (xs @ ys));
     (case res of
        Inl e \<Rightarrow> Some (Inl e)
      | Inr r \<Rightarrow> do {
          r1 \<leftarrow> char_move 0 (Elsewhere (xs @ ys)) (length (xs @ ys)) r;
          r2 \<leftarrow> char_assign (length (xs @ ys)) 0 r1;
          Some (Inr r2) }) }"
    by (cases "init_internal_buffer ms (length xs + length ys)")
      (auto simp: concatenate_strings_def char_copy_def two simp del: map_append split: sum.split)
  with init_chars_yields [OF assms, of "xs @ ys"] show ?thesis by simp
qed

lemma str_plus_yields:
  "held ms r xs \<Longrightarrow> held ms s ys \<Longrightarrow> yields ms (xs @ ys) (str_plus ms r s)"
  using concatenate_strings_yields [of ms xs ys] shaped_buffer [OF shaped_of, of ms r xs]
  by (auto simp: str_plus_def str_view_ok held_def)

lemma str_plus_sides_yield:
  "held ms r xs \<Longrightarrow> yields ms (xs @ ys) (str_plus_left ms r ys)"
  "held ms s ys \<Longrightarrow> yields ms (xs @ ys) (str_plus_right ms xs s)"
  using str_append_yields [of ms r xs "Elsewhere ys" "length ys" ys]
    str_insert_yields [of ms s "[]" ys "Elsewhere xs" "length xs" xs 0]
  by (simp_all add: str_plus_left_def str_plus_right_def)

lemma str_copy_new_yields:
  assumes s: "held ms s xs"
  shows "yields ms xs (str_copy_new ms s)"
proof (cases "is_long s")
  case False
  then show ?thesis using yields_in_place [OF s held_rep [OF s]] by (simp add: str_copy_new_def)
next
  case True
  let ?n = "length xs"
  have ms: "23 \<le> ms" using s shaped_buffer [OF shaped_of [OF s]] by (simp add: held_def)
  have n: "get_long_size s = Some ?n" using is_long_size [OF shaped_of [OF s] True] rep_caps(1) [OF s] by simp
  obtain C where C: "buffer s = map Some xs @ Some 0 # C" using held_rep [OF s] by (auto simp: str_rep_def)
  have two: "Option.bind (char_move 0 (Elsewhere xs) ?n r) (\<lambda>r1. Option.bind (char_assign ?n 0 r1) f) =
      Option.bind (write_cells 0 (map Some xs @ [Some 0]) r) f"
    if "init_internal_buffer ms ?n = Some (Inr r)" for r and f :: "str \<Rightarrow> (exn + str) option"
    using arg_cong [OF write_two [of 0 "map Some xs" "[Some 0]" r], of "\<lambda>x. Option.bind x f"]
      init_room [OF ms that] by (simp add: char_move_def char_assign_def)
  have "init_copy_ctor_external ms (buffer s) ?n = do {
    res \<leftarrow> init_internal_buffer ms ?n;
    (case res of
       Inl e \<Rightarrow> Some (Inl e)
     | Inr r \<Rightarrow> do {
         r1 \<leftarrow> char_move 0 (Elsewhere xs) ?n r;
         r2 \<leftarrow> char_assign ?n 0 r1;
         Some (Inr r2) }) }"
    by (cases "init_internal_buffer ms ?n") (auto simp: init_copy_ctor_external_def two C split: sum.split)
  with init_chars_yields [OF ms, of xs] True n show ?thesis by (simp add: str_copy_new_def)
qed

lemma str_substr_new_yields:
  assumes s: "held ms s xs" and p: "pos \<le> length xs"
  shows "yields ms (take n (drop pos xs)) (str_substr_new ms s pos n)"
proof -
  obtain A B D where xs: "xs = A @ B @ D" "pos = length A" "min n (length (B @ D)) = length B"
    "B = take n (drop pos xs)" by (rule cut_text [OF p])
  have "str_chars s pos (length B) = Some B" 
    by (rule str_chars_ok [OF _ xs(2) refl]) (use held_rep [OF s] xs(1) in simp)
  moreover have "length xs - pos = length (B @ D)" using xs(1,2) by simp
  moreover have "23 \<le> ms" using s shaped_buffer [OF shaped_of [OF s]] by (simp add: held_def)
  moreover have "\<not> pos > length xs" using p by simp
  ultimately have "str_substr_new ms s pos n = str_init ms B" "yields ms B (str_init ms B)"
    using str_init_yields [of ms B]
    by (simp_all only: str_substr_new_def rep_caps(1) [OF s] bind.simps if_False xs(3))
  then show ?thesis unfolding xs(4) by simp
qed

lemma str_move_sub_ok:
  assumes s: "held ms s (A @ B @ D)" and l: "pos = length A" "len = length B"
  shows "\<exists>r. str_move_sub s pos len = Some (r, empty_short) \<and> held ms r B"
proof -
  have "length (A @ B @ D) < length (buffer s)" by (rule str_rep_less [OF held_rep [OF s]])
  then have room: "len < length (buffer s)" using l by simp
  have "read_src (Own pos) len s = Some (map Some B)" using read_own [of s A B D] held_rep [OF s] l by simp
  from char_move_ok [OF shaped_of [OF s] this, of 0] l room obtain r1 where
    r1: "char_move 0 (Own pos) len s = Some r1" "keeps_shape s r1"
    "buffer r1 = map Some B @ drop len (buffer s)" by auto
  have "returns ms B (null_terminate_at len r1)"
    by (rule held_terminate [OF s r1(2,3)]) (use room l in auto)
  with r1(1) show ?thesis by (auto simp: str_move_sub_def terminate_bind returns_def)
qed

section \<open>Reading and comparing\<close>

lemma char_at_ok:
  assumes "str_rep r xs" "i < length xs"
  shows "char_at i r = Some (xs ! i)"
proof -
  obtain C where C: "buffer r = map Some xs @ Some 0 # C" using assms(1) by (auto simp: str_rep_def)
  show ?thesis using assms(2) by (simp add: char_at_def C nth_append)
qed

lemma str_at_eq:
  assumes "str_rep r xs"
  shows "str_at n r = Some (if n < length xs then Inr (xs ! n) else Inl Out_Of_Range)"
  using str_rep_sizes(1) [OF assms] char_at_ok [OF assms] by (simp add: str_at_def str_index_def)

text \<open>The subscript may name the terminator.\<close>

lemma str_index_end:
  assumes "str_rep r xs"
  shows "str_index (length xs) r = Some 0"
proof -
  obtain C where C: "buffer r = map Some xs @ Some 0 # C" using assms by (auto simp: str_rep_def)
  have "char_at (length xs) r = Some 0" by (simp add: char_at_def C nth_append)
  with str_rep_sizes(1) [OF assms] show ?thesis by (simp add: str_index_def)
qed

text \<open>The lexicographic order of unsigned bytes, a proper prefix first.\<close>

fun lex_compare :: "byte list \<Rightarrow> byte list \<Rightarrow> int" where
  "lex_compare [] [] = 0"
| "lex_compare [] (y # ys) = - 1"
| "lex_compare (x # xs) [] = 1"
| "lex_compare (x # xs) (y # ys) = (if x < y then - 1 else if y < x then 1 else lex_compare xs ys)"

lemma traits_compare_lex:
  "(let result = traits_compare xs ys (min (length xs) (length ys)) in
    if result \<noteq> 0 then result else if length xs < length ys then - 1 else if length xs > length ys then 1 else 0) =
   lex_compare xs ys"
  by (induction xs ys rule: lex_compare.induct) (auto simp: Let_def split: if_splits)

lemma traits_compare_0: "length xs = length ys \<Longrightarrow> traits_compare xs ys (length xs) = 0 \<longleftrightarrow> xs = ys"
  by (induction xs ys rule: list_induct2) auto

lemma str_compare_eq: "str_rep r xs \<Longrightarrow> str_compare ys r = Some (lex_compare xs ys)"
  using str_chars_ok [of r "[]" xs "[]"] traits_compare_lex [of xs ys]
  by (simp add: str_compare_def str_rep_sizes Let_def)

lemma lex_compare_0: "lex_compare xs ys = 0 \<longleftrightarrow> xs = ys"
  by (induction xs ys rule: lex_compare.induct) auto

lemma lex_compare_swap: "lex_compare ys xs = - lex_compare xs ys"
  by (induction xs ys rule: lex_compare.induct) auto

lemma lex_compare_trans: "lex_compare xs ys < 0 \<Longrightarrow> lex_compare ys zs < 0 \<Longrightarrow> lex_compare xs zs < 0"
proof (induction xs ys arbitrary: zs rule: lex_compare.induct)
  case (2 y ys)
  then show ?case by (cases zs) auto
next
  case (4 x xs y ys)
  then show ?case by (cases zs) (auto split: if_splits)
qed auto

lemma str_equal_eq:
  assumes "str_rep r xs" "str_rep s ys"
  shows "str_equal r s = Some (xs = ys)"
proof (cases "length xs = length ys")
  case True
  then have "str_chars r 0 (length xs) = Some xs" "str_chars s 0 (length xs) = Some ys"
    using str_chars_ok [of r "[]" xs "[]"] str_chars_ok [of s "[]" ys "[]"] assms by simp_all
  with True show ?thesis
    using str_rep_sizes(1) [OF assms(1)] str_rep_sizes(1) [OF assms(2)] traits_compare_0 [OF True]
    by (simp add: str_equal_def)
next
  case False
  with assms show ?thesis by (auto simp: str_equal_def str_rep_sizes)
qed

section \<open>Filtering\<close>

lemma str_erase_if_ok:
  assumes r: "held ms r xs" and ms: "ms < npos"
  shows "\<exists>r'. str_erase_if P r = Some (Inr (length (filter P xs), r')) \<and> held ms r' (filter (\<lambda>c. \<not> P c) xs)"
proof -
  let ?K = "filter (\<lambda>c. \<not> P c) xs"
  let ?D = "drop (length ?K) xs"
  have le: "length ?K \<le> length xs" by simp
  have "held ms r ([] @ take (length ?K) xs @ ?D)" using r by simp
  then obtain r1 where r1: "char_move 0 (Elsewhere ?K) (length ?K) r = Some r1" "held ms r1 ([] @ ?K @ ?D)"
    by (rule overwrite_part [where s = "Elsewhere ?K" and N = ?K and n = "length ?K"]) (use le in auto)
  then have w: "write_cells 0 (map Some ?K) r = Some r1" by (simp add: char_move_def)
  have h1: "held ms r1 (?K @ ?D)" using r1(2) by simp
  obtain r2 where r2: "str_erase (length ?K) (length xs - length ?K) r1 = Some (Inr r2)" "held ms r2 ?K"
    using str_erase_ok [OF h1 _ ms, of "length ?K" "length xs - length ?K"] by auto
  have "length xs - length ?K = length (filter P xs)"
    using sum_length_filter_compl [of P xs] by simp
  moreover have "str_chars r 0 (length xs) = Some xs" using str_chars_ok [of r "[]" xs "[]"] held_rep [OF r] by simp
  ultimately show ?thesis
    using r2 w rep_caps(1) [OF r] rep_caps(1) [OF r2(2)] by (simp add: str_erase_if_def Let_def)
qed

end
