(* ===== verification/Edit_Machine.thy ===== *)
theory Edit_Machine
  imports Memory
begin

text \<open>
  The contract the containers share: a machine whose operations may throw, run on a sequence of
  edits whose exceptions the caller catches, against a specification of the same edits on plain
  data. An operation is given the state and returns the exception it threw, if any, with the
  state it leaves; no result is undefined behaviour, and in the specification an edit the caller
  must not make.
\<close>

type_synonym ('e, 's) machine = "'e \<Rightarrow> 's \<Rightarrow> (exn option \<times> 's) option"

fun run_edits :: "('e, 's) machine \<Rightarrow> 'e list \<Rightarrow> 's \<Rightarrow> (exn option list \<times> 's) option" where
  "run_edits f [] s = Some ([], s)"
| "run_edits f (e # es) s = do {
     (t, s1) \<leftarrow> f e s;
     (ts, s2) \<leftarrow> run_edits f es s1;
     Some (t # ts, s2) }"

text \<open>A machine implements another one when every edit keeps the relation and throws the same.\<close>

locale edit_refinement =
  fixes related :: "'s \<Rightarrow> 'x \<Rightarrow> bool"
    and concrete :: "('e, 's) machine"
    and abstract :: "('e, 'x) machine"
  assumes edit_related:
    "related s x \<Longrightarrow> abstract e x = Some (t, y) \<Longrightarrow> \<exists>s'. concrete e s = Some (t, s') \<and> related s' y"
begin

lemma run_related:
  "related s x \<Longrightarrow> run_edits abstract es x = Some (ts, y) \<Longrightarrow>
   \<exists>s'. run_edits concrete es s = Some (ts, s') \<and> related s' y"
proof (induction es arbitrary: s x ts)
  case (Cons e es)
  obtain t x1 ts1 where 1: "abstract e x = Some (t, x1)" "run_edits abstract es x1 = Some (ts1, y)" "ts = t # ts1"
    using Cons.prems(2) by (auto simp: bind_eq_Some_conv)
  obtain s1 where 2: "concrete e s = Some (t, s1)" "related s1 x1"
    using edit_related [OF Cons.prems(1) 1(1)] by blast
  from Cons.IH [OF 2(2) 1(2)] 2(1) 1(3) show ?case by auto
qed simp

end

end
