(* ===== verification/String_Edits.thy ===== *)
theory String_Edits
  imports Basic_String_Edit Edit_Machine
begin

text \<open>
  Every sequence of edits on a \<open>plg::string\<close>, with the exceptions it throws, is the sequence of
  list operations: the machine of the code refines the one on texts. An exception leaves the
  string as it was.
\<close>

section \<open>The edits\<close>








section \<open>Refinement\<close>









section \<open>Comparison and capacity\<close>

lemma lex_compare_lexord: "lex_compare xs ys < 0 \<longleftrightarrow> (xs, ys) \<in> lexord {(a, b). a < b}"
  by (induction xs ys rule: lex_compare.induct) auto

text \<open>C38: \<open>compare\<close> orders strings lexicographically by their unsigned bytes, a proper prefix
  first: its sign tells which one is less, it is 0 exactly for equal texts, which is also what
  \<open>operator==\<close> finds, and it is antisymmetric, for short and long strings alike.\<close>

theorem string_compare_lexicographic:
  assumes "str_rep r xs" "str_rep s ys"
  shows "\<exists>c. str_compare ys r = Some c \<and> str_compare xs s = Some (- c) \<and> str_equal r s = Some (c = 0) \<and>
    (c < 0 \<longleftrightarrow> (xs, ys) \<in> lexord {(a, b). a < b}) \<and> (c > 0 \<longleftrightarrow> (ys, xs) \<in> lexord {(a, b). a < b})"
  using str_compare_eq [OF assms(1), of ys] str_compare_eq [OF assms(2), of xs] str_equal_eq [OF assms]
    lex_compare_0 [of xs ys] lex_compare_swap [of xs ys] lex_compare_lexord [of xs ys] lex_compare_lexord [of ys xs]
  by auto

lemma one_char_rep: "str_rep (Short ([Some c] @ [Some 0] @ replicate 21 None @ [Some 22])) [c]"
  using short_rep(1) [of "[Some c] @ [Some 0] @ replicate 21 None @ [Some 22]" "[c]"]
  by (simp add: numeral_eq_Suc)

theorem string_compare_lexicographic_witness:
  "\<exists>c. str_compare [200] (Short ([Some 97] @ [Some 0] @ replicate 21 None @ [Some 22])) = Some c \<and>
    str_compare [97] (Short ([Some 200] @ [Some 0] @ replicate 21 None @ [Some 22])) = Some (- c) \<and>
    str_equal (Short ([Some 97] @ [Some 0] @ replicate 21 None @ [Some 22]))
      (Short ([Some 200] @ [Some 0] @ replicate 21 None @ [Some 22])) = Some (c = 0) \<and>
    (c < 0 \<longleftrightarrow> ([97], [200 :: byte]) \<in> lexord {(a, b). a < b}) \<and> (c > 0 \<longleftrightarrow> ([200], [97 :: byte]) \<in> lexord {(a, b). a < b})"
  by (rule string_compare_lexicographic [OF one_char_rep one_char_rep])

text \<open>C39: The capacity is in bounds: it is at least 23 and never less than the size, so that the
  terminator has its place; \<open>reserve(n)\<close> gives at least \<open>n\<close> and \<open>shrink_to_fit\<close> never more than before,
  and neither changes the text.\<close>

theorem string_capacity_bounds:
  assumes "held ms r xs" "n \<le> ms"
  shows "(\<exists>c. str_capacity r = Some c \<and> length xs \<le> c \<and> 23 \<le> c \<and> char_at (length xs) r = Some 0 \<and>
      (\<exists>r1 c1. str_shrink_to_fit r = Some r1 \<and> str_view r1 = Some xs \<and> str_capacity r1 = Some c1 \<and> c1 \<le> c)) \<and>
    (\<exists>r2 c2. str_reserve ms n r = Some (Inr r2) \<and> str_view r2 = Some xs \<and> str_capacity r2 = Some c2 \<and> n \<le> c2)"
proof -
  obtain c where c: "str_capacity r = Some c" "c + 1 = length (buffer r)" "length xs \<le> c"
    using rep_caps(2) [OF assms(1)] by blast
  obtain r1 where r1: "str_shrink_to_fit r = Some r1" "str_rep r1 xs" "length (buffer r1) \<le> length (buffer r)"
    using str_shrink_to_fit_ok [OF assms(1)] by blast
  obtain r2 where r2: "str_reserve ms n r = Some (Inr r2)" "str_rep r2 xs" "n < length (buffer r2)"
    using str_reserve_ok [OF assms] by blast
  have "str_index (length xs) r = Some 0" by (rule str_index_end [OF held_rep [OF assms(1)]])
  then have "char_at (length xs) r = Some 0" using rep_caps(1) [OF assms(1)] by (simp add: str_index_def)
  moreover have "23 \<le> c" using shaped_buffer [OF shaped_of [OF assms(1)]] c(2) by linarith
  ultimately show ?thesis
    using c r1 r2 str_view_ok [OF r1(2)] str_view_ok [OF r2(2)] str_rep_sizes(2) [OF r1(2)] str_rep_sizes(2) [OF r2(2)]
    by auto
qed

theorem string_capacity_bounds_witness:
  "(\<exists>c. str_capacity empty_short = Some c \<and> length ([] :: byte list) \<le> c \<and> 23 \<le> c \<and> char_at (length ([] :: byte list)) empty_short = Some 0 \<and>
      (\<exists>r1 c1. str_shrink_to_fit empty_short = Some r1 \<and> str_view r1 = Some [] \<and> str_capacity r1 = Some c1 \<and> c1 \<le> c)) \<and>
    (\<exists>r2 c2. str_reserve 1000 100 empty_short = Some (Inr r2) \<and> str_view r2 = Some [] \<and> str_capacity r2 = Some c2 \<and> 100 \<le> c2)"
  by (rule string_capacity_bounds) (simp_all add: held_empty)

text \<open>
  \<open>recommend\<close> may answer more than \<open>max_size()\<close>; \<open>ms - old_cap\<close> then wraps, and the check of
  the next growth accepts any length.
\<close>

lemma capacity_above_max_size:
  "str_max_size (2 ^ 63 - 1) = 2 ^ 63 - 10" "str_recommend (2 ^ 63 - 10) = 2 ^ 63 - 9"
  by (simp_all add: str_max_size_def str_alignment_def str_recommend_def align_it_def min_cap_def)

lemma growth_check_wraps:
  assumes "ms < cap" "cap \<le> 2 ^ 63" "delta \<le> 2 ^ 63"
  shows "\<not> delta > sub64 ms cap"
  using assms by (simp add: sub64_def)

end
