(* ===== verification/Split_Buffer.thy ===== *)
theory Split_Buffer
  imports Memory
begin

text \<open>
  \<open>split_buffer\<close> (include/plg/split_buffer.hpp): a block with spare room at both ends,
  in the pointer layout \<open>vector\<close> instantiates and in the size layout, with the operations on
  the memory of \<open>Memory\<close> and the sequence they keep.
\<close>

section \<open>The pointer layout\<close>

record sbuf =
  front_cap :: ptr
  sb_begin :: ptr
  sb_end :: ptr
  back_cap :: ptr

definition sb_empty_layout :: sbuf where
  "sb_empty_layout = \<lparr>front_cap = Null, sb_begin = Null, sb_end = Null, back_cap = Null\<rparr>"

definition sb_size :: "sbuf \<Rightarrow> nat option" where
  "sb_size s = pdiff (sb_end s) (sb_begin s)"

definition sb_empty :: "sbuf \<Rightarrow> bool" where
  "sb_empty s = (sb_begin s = sb_end s)"

definition sb_capacity :: "sbuf \<Rightarrow> nat option" where
  "sb_capacity s = pdiff (back_cap s) (front_cap s)"

definition set_data :: "ptr \<Rightarrow> sbuf \<Rightarrow> sbuf" where
  "set_data p s = s\<lparr>front_cap := p\<rparr>"

definition set_valid_range :: "ptr \<Rightarrow> ptr \<Rightarrow> sbuf \<Rightarrow> sbuf" where
  "set_valid_range p q s = s\<lparr>sb_begin := p, sb_end := q\<rparr>"

definition set_valid_size :: "ptr \<Rightarrow> nat \<Rightarrow> sbuf \<Rightarrow> sbuf" where
  "set_valid_size p n s = s\<lparr>sb_begin := p, sb_end := padd p n\<rparr>"

definition set_sentinel :: "ptr \<Rightarrow> sbuf \<Rightarrow> sbuf option" where
  "set_sentinel q s = do {
     before \<leftarrow> plt q (front_cap s);
     _ \<leftarrow> assert_that (\<not> before);
     Some (s\<lparr>sb_end := q\<rparr>) }"

definition set_sentinel_size :: "nat \<Rightarrow> sbuf \<Rightarrow> sbuf" where
  "set_sentinel_size n s = s\<lparr>sb_end := padd (sb_begin s) n\<rparr>"

definition set_capacity_size :: "nat \<Rightarrow> sbuf \<Rightarrow> sbuf" where
  "set_capacity_size n s = s\<lparr>back_cap := padd (front_cap s) n\<rparr>"

definition set_capacity :: "ptr \<Rightarrow> sbuf \<Rightarrow> sbuf" where
  "set_capacity p s = s\<lparr>back_cap := p\<rparr>"

definition front_spare :: "sbuf \<Rightarrow> nat option" where
  "front_spare s = pdiff (sb_begin s) (front_cap s)"

definition back_spare :: "sbuf \<Rightarrow> nat option" where
  "back_spare s = pdiff (back_cap s) (sb_end s)"

definition sb_back :: "sbuf \<Rightarrow> 'a mem \<Rightarrow> 'a option" where
  "sb_back s m = read_at m (psub (sb_end s) 1)"

definition sb_front :: "sbuf \<Rightarrow> 'a mem \<Rightarrow> 'a option" where
  "sb_front s m = read_at m (sb_begin s)"

definition swap_without_allocator :: "sbuf \<times> sbuf \<Rightarrow> sbuf \<times> sbuf" where
  "swap_without_allocator = (\<lambda>(s, t).
     (\<lparr>front_cap = front_cap t, sb_begin = sb_begin t, sb_end = sb_end t, back_cap = back_cap t\<rparr>,
      \<lparr>front_cap = front_cap s, sb_begin = sb_begin s, sb_end = sb_end s, back_cap = back_cap s\<rparr>))"

definition sb_reset :: "sbuf \<Rightarrow> sbuf" where
  "sb_reset s = s\<lparr>front_cap := Null, sb_begin := Null, sb_end := Null, back_cap := Null\<rparr>"

definition copy_without_alloc :: "sbuf \<Rightarrow> sbuf \<Rightarrow> sbuf" where
  "copy_without_alloc c s =
     s\<lparr>front_cap := front_cap c, sb_begin := sb_begin c, sb_end := sb_end c, back_cap := back_cap c\<rparr>"

section \<open>The size layout\<close>

record zbuf =
  z_front :: ptr
  z_begin :: ptr
  z_size :: nat
  z_cap :: nat

definition z_end :: "zbuf \<Rightarrow> ptr" where
  "z_end z = padd (z_begin z) (z_size z)"

definition z_front_spare :: "zbuf \<Rightarrow> nat option" where
  "z_front_spare z = pdiff (z_begin z) (z_front z)"

definition z_back_spare :: "zbuf \<Rightarrow> nat option" where
  "z_back_spare z = do { f \<leftarrow> z_front_spare z; Some (z_cap z - z_size z - f) }"

definition z_set_sentinel :: "ptr \<Rightarrow> zbuf \<Rightarrow> zbuf option" where
  "z_set_sentinel q z =
    (case pdiff q (z_end z) of
       Some d \<Rightarrow> Some (z\<lparr>z_size := z_size z + d\<rparr>)
     | None \<Rightarrow> do { d \<leftarrow> pdiff (z_end z) q; Some (z\<lparr>z_size := z_size z - d\<rparr>) })"

text \<open>\<open>size_ -= new_begin - begin_\<close> in unsigned arithmetic, then the sentinel is set.\<close>

definition z_set_valid_range :: "ptr \<Rightarrow> ptr \<Rightarrow> zbuf \<Rightarrow> zbuf option" where
  "z_set_valid_range p q z =
    (case pdiff p (z_begin z) of
       Some d \<Rightarrow> z_set_sentinel q (z\<lparr>z_size := z_size z - d, z_begin := p\<rparr>)
     | None \<Rightarrow> do {
         d \<leftarrow> pdiff (z_begin z) p;
         z_set_sentinel q (z\<lparr>z_size := z_size z + d, z_begin := p\<rparr>) })"

definition z_set_capacity :: "ptr \<Rightarrow> zbuf \<Rightarrow> zbuf option" where
  "z_set_capacity p z = do { n \<leftarrow> pdiff p (z_begin z); Some (z\<lparr>z_cap := n\<rparr>) }"

definition z_reset :: "zbuf \<Rightarrow> zbuf" where
  "z_reset z = z\<lparr>z_front := Null, z_begin := Null, z_size := 0, z_cap := 0\<rparr>"

section \<open>Construction and destruction of elements\<close>

text \<open>
  A \<open>ConstructTransaction\<close> sets the sentinel behind the last constructed element.
  \<open>construct_at_end_fill\<close> is the overload with a value (the value-initialised overload passes
  the default one), \<open>construct_at_end_with_size\<close> copies what an iterator yields and
  \<open>construct_at_end_move\<close> is the same over \<open>std::move_iterator\<close>s.
\<close>

definition construct_at_end_fill :: "nat \<Rightarrow> 'a \<Rightarrow> sbuf \<Rightarrow> 'a mem \<Rightarrow> (sbuf \<times> 'a mem) option" where
  "construct_at_end_fill n x s m = do {
     m1 \<leftarrow> construct_fill n x (sb_end s) m;
     s1 \<leftarrow> set_sentinel (padd (sb_end s) n) s;
     Some (s1, m1) }"

definition construct_at_end_with_size :: "'a list \<Rightarrow> sbuf \<Rightarrow> 'a mem \<Rightarrow> (sbuf \<times> 'a mem) option" where
  "construct_at_end_with_size xs s m = do {
     m1 \<leftarrow> uninitialized_copy xs (sb_end s) m;
     s1 \<leftarrow> set_sentinel (padd (sb_end s) (length xs)) s;
     Some (s1, m1) }"

definition construct_at_end_move :: "ptr \<Rightarrow> ptr \<Rightarrow> sbuf \<Rightarrow> 'a mem \<Rightarrow> (sbuf \<times> 'a mem) option" where
  "construct_at_end_move p q s m = do {
     n \<leftarrow> pdiff q p;
     m1 \<leftarrow> move_construct n p (sb_end s) m;
     s1 \<leftarrow> set_sentinel (padd (sb_end s) n) s;
     Some (s1, m1) }"

definition destruct_at_begin :: "ptr \<Rightarrow> sbuf \<Rightarrow> 'a mem \<Rightarrow> (sbuf \<times> 'a mem) option" where
  "destruct_at_begin p s m = do {
     n \<leftarrow> pdiff p (sb_begin s);
     m1 \<leftarrow> allocator_destroy n (sb_begin s) m;
     Some (set_valid_range p (sb_end s) s, m1) }"

definition destruct_at_end :: "ptr \<Rightarrow> sbuf \<Rightarrow> 'a mem \<Rightarrow> (sbuf \<times> 'a mem) option" where
  "destruct_at_end p s m = do {
     n \<leftarrow> pdiff (sb_end s) p;
     m1 \<leftarrow> destroy_back n (sb_end s) m;
     s1 \<leftarrow> set_sentinel p s;
     Some (s1, m1) }"

definition sb_clear :: "sbuf \<Rightarrow> 'a mem \<Rightarrow> (sbuf \<times> 'a mem) option" where
  "sb_clear s m = destruct_at_end (sb_begin s) s m"

definition sb_pop_front :: "sbuf \<Rightarrow> 'a mem \<Rightarrow> (sbuf \<times> 'a mem) option" where
  "sb_pop_front s m = destruct_at_begin (padd (sb_begin s) 1) s m"

definition sb_pop_back :: "sbuf \<Rightarrow> 'a mem \<Rightarrow> (sbuf \<times> 'a mem) option" where
  "sb_pop_back s m = destruct_at_end (psub (sb_end s) 1) s m"

section \<open>Construction, destruction and assignment of buffers\<close>

definition sb_new :: "nat \<Rightarrow> nat \<Rightarrow> 'a mem \<Rightarrow> (sbuf \<times> 'a mem) option" where
  "sb_new cap start m = do {
     _ \<leftarrow> assert_that (start \<le> cap);
     let (s, m1) =
       (if cap > 0 then
          (let (p, m1) = allocate_at_least cap m in (set_data p sb_empty_layout, m1))
        else (sb_empty_layout, m));
     let pos = padd (front_cap s) start;
     Some (set_capacity_size cap (set_valid_range pos pos s), m1) }"

definition sb_delete :: "sbuf \<Rightarrow> 'a mem \<Rightarrow> 'a mem option" where
  "sb_delete s m = do {
     (s1, m1) \<leftarrow> sb_clear s m;
     if front_cap s1 \<noteq> Null then do { n \<leftarrow> sb_capacity s1; deallocate (front_cap s1) n m1 }
     else Some m1 }"

text \<open>The allocators compare equal, so the move constructors steal the block.\<close>

definition sb_move_new :: "sbuf \<Rightarrow> sbuf \<times> sbuf" where
  "sb_move_new c = (copy_without_alloc c sb_empty_layout, sb_reset c)"

definition sb_move_new_alloc :: "sbuf \<Rightarrow> (sbuf \<times> sbuf) option" where
  "sb_move_new_alloc c = do {
     n \<leftarrow> sb_capacity c;
     Some (set_capacity_size n (set_valid_range (sb_begin c) (sb_end c) (set_data (front_cap c) sb_empty_layout)),
           sb_reset c) }"

definition sb_shrink_to_fit :: "sbuf \<Rightarrow> 'a mem \<Rightarrow> (sbuf \<times> 'a mem) option" where
  "sb_shrink_to_fit s m = do {
     cap \<leftarrow> sb_capacity s;
     sz \<leftarrow> sb_size s;
     if cap > sz then do {
       (t, m1) \<leftarrow> sb_new sz 0 m;
       tcap \<leftarrow> sb_capacity t;
       if tcap < cap then do {
         (t1, m2) \<leftarrow> construct_at_end_move (sb_begin s) (sb_end s) t m1;
         let (s1, t2) = swap_without_allocator (s, set_sentinel_size sz t1);
         m3 \<leftarrow> sb_delete t2 m2;
         Some (s1, m3) }
       else do { m2 \<leftarrow> sb_delete t m1; Some (s, m2) } }
     else Some (s, m) }"

definition sb_move_assign :: "sbuf \<Rightarrow> sbuf \<Rightarrow> 'a mem \<Rightarrow> (sbuf \<times> sbuf \<times> 'a mem) option" where
  "sb_move_assign c s m = do {
     (s1, m1) \<leftarrow> sb_clear s m;
     (s2, m2) \<leftarrow> sb_shrink_to_fit s1 m1;
     Some (copy_without_alloc c s2, sb_reset c, m2) }"

section \<open>Growth\<close>

text \<open>The reallocation inside \<open>construct_at_end_with_sentinel\<close>; its \<open>buf\<close> holds the old block
  when it goes out of scope.\<close>

definition sb_regrow :: "sbuf \<Rightarrow> 'a mem \<Rightarrow> (sbuf \<times> 'a mem) option" where
  "sb_regrow s m = do {
     old_cap \<leftarrow> sb_capacity s;
     (buf, m1) \<leftarrow> sb_new (max (2 * old_cap) 8) 0 m;
     (buf1, m2) \<leftarrow> construct_at_end_move (sb_begin s) (sb_end s) buf m1;
     let (s1, buf2) = swap_without_allocator (s, buf1);
     m3 \<leftarrow> sb_delete buf2 m2;
     Some (s1, m3) }"

fun construct_at_end_with_sentinel :: "'a list \<Rightarrow> sbuf \<Rightarrow> 'a mem \<Rightarrow> (sbuf \<times> 'a mem) option" where
  "construct_at_end_with_sentinel [] s m = Some (s, m)"
| "construct_at_end_with_sentinel (x # xs) s m = do {
     bs \<leftarrow> back_spare s;
     (s1, m1) \<leftarrow> (if bs = 0 then sb_regrow s m else Some (s, m));
     m2 \<leftarrow> construct x (sb_end s1) m1;
     sz \<leftarrow> sb_size s1;
     construct_at_end_with_sentinel xs (set_sentinel_size (sz + 1) s1) m2 }"

definition sb_emplace_front :: "'a \<Rightarrow> sbuf \<Rightarrow> 'a mem \<Rightarrow> (sbuf \<times> 'a mem) option" where
  "sb_emplace_front x s m = do {
     fs \<leftarrow> front_spare s;
     (s1, m1) \<leftarrow>
       (if fs = 0 then do {
          bs \<leftarrow> back_spare s;
          if bs > 0 then do {
            let d = (bs + 1) div 2;
            let new_end = padd (sb_end s) d;
            n \<leftarrow> sb_size s;
            m1 \<leftarrow> move_backward n (sb_end s) new_end m;
            Some (set_valid_range (psub new_end n) new_end s, m1) }
          else do {
            cap \<leftarrow> sb_capacity s;
            let c = max (2 * cap) 1;
            (t, m1) \<leftarrow> sb_new c ((c + 3) div 4) m;
            (t1, m2) \<leftarrow> construct_at_end_move (sb_begin s) (sb_end s) t m1;
            let (s1, t2) = swap_without_allocator (s, t1);
            m3 \<leftarrow> sb_delete t2 m2;
            Some (s1, m3) } }
        else Some (s, m));
     m2 \<leftarrow> construct x (psub (sb_begin s1) 1) m1;
     sz \<leftarrow> sb_size s1;
     Some (set_valid_size (psub (sb_begin s1) 1) (sz + 1) s1, m2) }"

definition sb_emplace_back :: "'a \<Rightarrow> sbuf \<Rightarrow> 'a mem \<Rightarrow> (sbuf \<times> 'a mem) option" where
  "sb_emplace_back x s m = do {
     let cur_end = sb_end s;
     bs \<leftarrow> back_spare s;
     (s1, cur_end1, m1) \<leftarrow>
       (if bs = 0 then do {
          fs \<leftarrow> front_spare s;
          if fs > 0 then do {
            let d = (fs + 1) div 2;
            n \<leftarrow> pdiff cur_end (sb_begin s);
            m1 \<leftarrow> move_forward n (sb_begin s) (psub (sb_begin s) d) m;
            let cur_end1 = padd (psub (sb_begin s) d) n;
            Some (set_valid_range (psub (sb_begin s) d) cur_end1 s, cur_end1, m1) }
          else do {
            cap \<leftarrow> sb_capacity s;
            let c = max (2 * cap) 1;
            (t, m1) \<leftarrow> sb_new c (c div 4) m;
            (t1, m2) \<leftarrow> construct_at_end_move (sb_begin s) cur_end t m1;
            let (s1, t2) = swap_without_allocator (s, t1);
            m3 \<leftarrow> sb_delete t2 m2;
            Some (s1, cur_end, m3) } }
        else Some (s, cur_end, m));
     m2 \<leftarrow> construct x cur_end1 m1;
     s2 \<leftarrow> set_sentinel (padd cur_end1 1) s1;
     Some (s2, m2) }"

definition sb_invariants :: "sbuf \<Rightarrow> bool" where
  "sb_invariants s =
    (if front_cap s = Null then
       sb_begin s = Null \<and> sb_empty s \<and> sb_capacity s = Some 0
     else
       plt (sb_begin s) (front_cap s) = Some False \<and>
       (case (sb_capacity s, sb_size s) of (Some c, Some n) \<Rightarrow> n \<le> c | _ \<Rightarrow> False) \<and>
       plt (sb_end s) (sb_begin s) = Some False)"

end
