(* ===== verification/Vector.thy ===== *)
theory Vector
  imports Split_Buffer
begin

text \<open>
  \<open>plg::vector\<close> (include/plg/vector.hpp): three pointers into a block of \<open>Memory\<close>, the growth
  policy, and the operations, each with the reallocation through a \<open>split_buffer\<close> where it has
  one. \<open>ms\<close> is \<open>max_size()\<close>. An operation returns what it throws or returns, the vector and
  the memory; the address sanitizer annotations are empty functions here.
\<close>

section \<open>The object\<close>

record vec =
  v_begin :: ptr
  v_end :: ptr
  v_cap :: ptr

definition v_empty_layout :: vec where
  "v_empty_layout = \<lparr>v_begin = Null, v_end = Null, v_cap = Null\<rparr>"

type_synonym ('a, 'r) vresult = "((exn + 'r) \<times> vec \<times> 'a mem) option"

text \<open>An argument \<open>const_reference x\<close>: an object elsewhere, or the object at an address of the memory.\<close>

datatype 'a arg = Ext 'a | At ptr

fun read_arg :: "'a mem \<Rightarrow> 'a arg \<Rightarrow> 'a option" where
  "read_arg m (Ext x) = Some x"
| "read_arg m (At p) = read_at m p"

definition v_size :: "vec \<Rightarrow> nat option" where
  "v_size v = pdiff (v_end v) (v_begin v)"

definition v_capacity :: "vec \<Rightarrow> nat option" where
  "v_capacity v = pdiff (v_cap v) (v_begin v)"

definition v_empty :: "vec \<Rightarrow> bool" where
  "v_empty v = (v_begin v = v_end v)"

definition v_max_size :: "nat \<Rightarrow> nat" where
  "v_max_size alloc_max = min alloc_max (2 ^ 63 - 1)"

definition v_invariants :: "vec \<Rightarrow> bool" where
  "v_invariants v =
    (if v_begin v = Null then v_end v = Null \<and> v_cap v = Null
     else plt (v_end v) (v_begin v) = Some False \<and> v_begin v \<noteq> v_cap v \<and>
       plt (v_cap v) (v_end v) = Some False)"

section \<open>Element access\<close>

definition v_index :: "nat \<Rightarrow> vec \<Rightarrow> 'a mem \<Rightarrow> 'a option" where
  "v_index n v m = do { sz \<leftarrow> v_size v; _ \<leftarrow> assert_that (n < sz); read_at m (padd (v_begin v) n) }"

definition v_at :: "nat \<Rightarrow> vec \<Rightarrow> 'a mem \<Rightarrow> (exn + 'a) option" where
  "v_at n v m = do {
     sz \<leftarrow> v_size v;
     if n \<ge> sz then Some (Inl Out_Of_Range)
     else do { x \<leftarrow> read_at m (padd (v_begin v) n); Some (Inr x) } }"

definition v_front :: "vec \<Rightarrow> 'a mem \<Rightarrow> 'a option" where
  "v_front v m = do { _ \<leftarrow> assert_that (\<not> v_empty v); read_at m (v_begin v) }"

definition v_back :: "vec \<Rightarrow> 'a mem \<Rightarrow> 'a option" where
  "v_back v m = do { _ \<leftarrow> assert_that (\<not> v_empty v); read_at m (psub (v_end v) 1) }"

section \<open>Storage\<close>

definition v_recommend :: "nat \<Rightarrow> nat \<Rightarrow> vec \<Rightarrow> (exn + nat) option" where
  "v_recommend ms new_size v =
    (if new_size > ms then Some (Inl Length_Error)
     else do {
       cap \<leftarrow> v_capacity v;
       Some (Inr (if cap \<ge> ms div 2 then ms else max (2 * cap) new_size)) })"

definition v_vallocate :: "nat \<Rightarrow> nat \<Rightarrow> vec \<Rightarrow> 'a mem \<Rightarrow> ('a, unit) vresult" where
  "v_vallocate ms n v m =
    (if n > ms then Some (Inl Length_Error, v, m)
     else let (p, m1) = allocate_at_least n m in
       Some (Inr (), v\<lparr>v_begin := p, v_end := p, v_cap := padd p n\<rparr>, m1))"

definition v_destruct_at_end :: "ptr \<Rightarrow> vec \<Rightarrow> 'a mem \<Rightarrow> (vec \<times> 'a mem) option" where
  "v_destruct_at_end new_last v m = do {
     n \<leftarrow> pdiff (v_end v) new_last;
     m1 \<leftarrow> destroy_back n (v_end v) m;
     Some (v\<lparr>v_end := new_last\<rparr>, m1) }"

definition v_clear :: "vec \<Rightarrow> 'a mem \<Rightarrow> (vec \<times> 'a mem) option" where
  "v_clear v m = v_destruct_at_end (v_begin v) v m"

definition v_vdeallocate :: "vec \<Rightarrow> 'a mem \<Rightarrow> (vec \<times> 'a mem) option" where
  "v_vdeallocate v m =
    (if v_begin v \<noteq> Null then do {
       (v1, m1) \<leftarrow> v_clear v m;
       cap \<leftarrow> v_capacity v1;
       m2 \<leftarrow> deallocate (v_begin v1) cap m1;
       Some (v_empty_layout, m2) }
     else Some (v, m))"

text \<open>\<open>destroy_vector\<close>, the destructor and the rollback of the constructors.\<close>

definition v_delete :: "vec \<Rightarrow> 'a mem \<Rightarrow> 'a mem option" where
  "v_delete v m =
    (if v_begin v \<noteq> Null then do {
       (v1, m1) \<leftarrow> v_clear v m;
       cap \<leftarrow> v_capacity v1;
       deallocate (v_begin v1) cap m1 }
     else Some m)"

definition v_construct_at_end_fill :: "nat \<Rightarrow> 'a \<Rightarrow> vec \<Rightarrow> 'a mem \<Rightarrow> (vec \<times> 'a mem) option" where
  "v_construct_at_end_fill n x v m = do {
     m1 \<leftarrow> construct_fill n x (v_end v) m;
     Some (v\<lparr>v_end := padd (v_end v) n\<rparr>, m1) }"

definition v_construct_at_end :: "'a list \<Rightarrow> vec \<Rightarrow> 'a mem \<Rightarrow> (vec \<times> 'a mem) option" where
  "v_construct_at_end xs v m = do {
     m1 \<leftarrow> uninitialized_copy xs (v_end v) m;
     Some (v\<lparr>v_end := padd (v_end v) (length xs)\<rparr>, m1) }"

definition v_swap_layouts :: "vec \<Rightarrow> sbuf \<Rightarrow> vec \<times> sbuf" where
  "v_swap_layouts v sb =
    (\<lparr>v_begin = sb_begin sb, v_end = sb_end sb, v_cap = back_cap sb\<rparr>,
     set_capacity (v_cap v) (set_valid_range (v_begin v) (v_end v) sb))"

text \<open>\<open>swap_out_circular_buffer\<close>: the elements go in front of those of the buffer, and the blocks change hands.\<close>

definition v_swap_out :: "vec \<Rightarrow> sbuf \<Rightarrow> 'a mem \<Rightarrow> (vec \<times> sbuf \<times> 'a mem) option" where
  "v_swap_out v sb m = do {
     sz \<leftarrow> v_size v;
     let new_begin = psub (sb_begin sb) sz;
     m1 \<leftarrow> relocate sz (v_begin v) new_begin m;
     let sb1 = set_valid_range new_begin (sb_end sb) sb;
     let v1 = v\<lparr>v_end := v_begin v\<rparr>;
     let (v2, sb2) = v_swap_layouts v1 sb1;
     Some (v2, set_data (sb_begin sb2) sb2, m1) }"

definition v_swap_out_at :: "vec \<Rightarrow> sbuf \<Rightarrow> ptr \<Rightarrow> 'a mem \<Rightarrow> (ptr \<times> vec \<times> sbuf \<times> 'a mem) option" where
  "v_swap_out_at v sb p m = do {
     let ret = sb_begin sb;
     tail \<leftarrow> pdiff (v_end v) p;
     m1 \<leftarrow> relocate tail p (sb_end sb) m;
     sb1 \<leftarrow> set_sentinel (padd (sb_end sb) tail) sb;
     hd_len \<leftarrow> pdiff p (v_begin v);
     let new_begin = psub (sb_begin sb1) hd_len;
     m2 \<leftarrow> relocate hd_len (v_begin v) new_begin m1;
     let sb2 = set_valid_range new_begin (sb_end sb1) sb1;
     let v1 = v\<lparr>v_end := v_begin v\<rparr>;
     let (v2, sb3) = v_swap_layouts v1 sb2;
     Some (ret, v2, set_data (sb_begin sb3) sb3, m2) }"

section \<open>Construction, copy and move\<close>

definition v_init_with_size :: "nat \<Rightarrow> 'a list \<Rightarrow> 'a mem \<Rightarrow> ('a, unit) vresult" where
  "v_init_with_size ms xs m =
    (if xs \<noteq> [] then do {
       (r, v, m1) \<leftarrow> v_vallocate ms (length xs) v_empty_layout m;
       (case r of
          Inl e \<Rightarrow> do { m2 \<leftarrow> v_delete v m1; Some (Inl e, v, m2) }
        | Inr _ \<Rightarrow> do { (v1, m2) \<leftarrow> v_construct_at_end xs v m1; Some (Inr (), v1, m2) }) }
     else Some (Inr (), v_empty_layout, m))"

definition v_init_fill :: "nat \<Rightarrow> nat \<Rightarrow> 'a \<Rightarrow> 'a mem \<Rightarrow> ('a, unit) vresult" where
  "v_init_fill ms n x m =
    (if n > 0 then do {
       (r, v, m1) \<leftarrow> v_vallocate ms n v_empty_layout m;
       (case r of
          Inl e \<Rightarrow> do { m2 \<leftarrow> v_delete v m1; Some (Inl e, v, m2) }
        | Inr _ \<Rightarrow> do { (v1, m2) \<leftarrow> v_construct_at_end_fill n x v m1; Some (Inr (), v1, m2) }) }
     else Some (Inr (), v_empty_layout, m))"

definition v_copy_new :: "nat \<Rightarrow> vec \<Rightarrow> 'a mem \<Rightarrow> ('a, unit) vresult" where
  "v_copy_new ms x m = do {
     n \<leftarrow> v_size x;
     xs \<leftarrow> read_range n (v_begin x) m;
     v_init_with_size ms xs m }"

definition v_move_new :: "vec \<Rightarrow> vec \<times> vec" where
  "v_move_new x = (\<lparr>v_begin = v_begin x, v_end = v_end x, v_cap = v_cap x\<rparr>, v_empty_layout)"

definition v_move_assign :: "vec \<Rightarrow> vec \<Rightarrow> 'a mem \<Rightarrow> (vec \<times> vec \<times> 'a mem) option" where
  "v_move_assign c v m = do {
     (v1, m1) \<leftarrow> v_vdeallocate v m;
     Some (v1\<lparr>v_begin := v_begin c, v_end := v_end c, v_cap := v_cap c\<rparr>, v_empty_layout, m1) }"

definition v_swap :: "vec \<times> vec \<Rightarrow> vec \<times> vec" where
  "v_swap = (\<lambda>(v, x).
     (\<lparr>v_begin = v_begin x, v_end = v_end x, v_cap = v_cap x\<rparr>,
      \<lparr>v_begin = v_begin v, v_end = v_end v, v_cap = v_cap v\<rparr>))"

section \<open>Growth at the end\<close>

definition v_append_fill :: "nat \<Rightarrow> nat \<Rightarrow> 'a arg \<Rightarrow> vec \<Rightarrow> 'a mem \<Rightarrow> ('a, unit) vresult" where
  "v_append_fill ms n x v m = do {
     room \<leftarrow> pdiff (v_cap v) (v_end v);
     if room \<ge> n then do {
       a \<leftarrow> read_arg m x;
       (v1, m1) \<leftarrow> v_construct_at_end_fill n a v m;
       Some (Inr (), v1, m1) }
     else do {
       sz \<leftarrow> v_size v;
       rec \<leftarrow> v_recommend ms (sz + n) v;
       (case rec of
          Inl e \<Rightarrow> Some (Inl e, v, m)
        | Inr c \<Rightarrow> do {
            (sb, m1) \<leftarrow> sb_new c sz m;
            a \<leftarrow> read_arg m1 x;
            (sb1, m2) \<leftarrow> construct_at_end_fill n a sb m1;
            (v1, sb2, m3) \<leftarrow> v_swap_out v sb1 m2;
            m4 \<leftarrow> sb_delete sb2 m3;
            Some (Inr (), v1, m4) }) } }"

definition v_reserve :: "nat \<Rightarrow> nat \<Rightarrow> vec \<Rightarrow> 'a mem \<Rightarrow> ('a, unit) vresult" where
  "v_reserve ms n v m = do {
     cap \<leftarrow> v_capacity v;
     if n > cap then
       if n > ms then Some (Inl Length_Error, v, m)
       else do {
         sz \<leftarrow> v_size v;
         (sb, m1) \<leftarrow> sb_new n sz m;
         (v1, sb1, m2) \<leftarrow> v_swap_out v sb m1;
         m3 \<leftarrow> sb_delete sb1 m2;
         Some (Inr (), v1, m3) }
     else Some (Inr (), v, m) }"

definition v_shrink_to_fit :: "vec \<Rightarrow> 'a mem \<Rightarrow> (vec \<times> 'a mem) option" where
  "v_shrink_to_fit v m = do {
     cap \<leftarrow> v_capacity v;
     sz \<leftarrow> v_size v;
     if cap > sz then do {
       (sb, m1) \<leftarrow> sb_new sz sz m;
       sbcap \<leftarrow> sb_capacity sb;
       if sbcap < cap then do {
         (v1, sb1, m2) \<leftarrow> v_swap_out v sb m1;
         m3 \<leftarrow> sb_delete sb1 m2;
         Some (v1, m3) }
       else do { m2 \<leftarrow> sb_delete sb m1; Some (v, m2) } }
     else Some (v, m) }"

definition v_emplace_back_assume_capacity :: "'a arg \<Rightarrow> vec \<Rightarrow> 'a mem \<Rightarrow> (vec \<times> 'a mem) option" where
  "v_emplace_back_assume_capacity x v m = do {
     sz \<leftarrow> v_size v;
     cap \<leftarrow> v_capacity v;
     _ \<leftarrow> assert_that (sz < cap);
     a \<leftarrow> read_arg m x;
     m1 \<leftarrow> construct a (v_end v) m;
     Some (v\<lparr>v_end := padd (v_end v) 1\<rparr>, m1) }"

definition v_emplace_back_slow_path :: "nat \<Rightarrow> 'a arg \<Rightarrow> vec \<Rightarrow> 'a mem \<Rightarrow> ('a, ptr) vresult" where
  "v_emplace_back_slow_path ms x v m = do {
     sz \<leftarrow> v_size v;
     rec \<leftarrow> v_recommend ms (sz + 1) v;
     (case rec of
        Inl e \<Rightarrow> Some (Inl e, v, m)
      | Inr c \<Rightarrow> do {
          (sb, m1) \<leftarrow> sb_new c sz m;
          let fin = sb_end sb;
          a \<leftarrow> read_arg m1 x;
          m2 \<leftarrow> construct a fin m1;
          sb1 \<leftarrow> set_sentinel (padd fin 1) sb;
          (v1, sb2, m3) \<leftarrow> v_swap_out v sb1 m2;
          m4 \<leftarrow> sb_delete sb2 m3;
          Some (Inr (v_end v1), v1, m4) }) }"

definition v_emplace_back :: "nat \<Rightarrow> 'a arg \<Rightarrow> vec \<Rightarrow> 'a mem \<Rightarrow> ('a, unit) vresult" where
  "v_emplace_back ms x v m = do {
     let fin = v_end v;
     room \<leftarrow> plt fin (v_cap v);
     if room then do {
       (v1, m1) \<leftarrow> v_emplace_back_assume_capacity x v m;
       Some (Inr (), v1\<lparr>v_end := padd fin 1\<rparr>, m1) }
     else do {
       (r, v1, m1) \<leftarrow> v_emplace_back_slow_path ms x v m;
       (case r of
          Inl e \<Rightarrow> Some (Inl e, v1, m1)
        | Inr q \<Rightarrow> Some (Inr (), v1\<lparr>v_end := q\<rparr>, m1)) } }"

definition v_pop_back :: "vec \<Rightarrow> 'a mem \<Rightarrow> (vec \<times> 'a mem) option" where
  "v_pop_back v m = do {
     _ \<leftarrow> assert_that (\<not> v_empty v);
     v_destruct_at_end (psub (v_end v) 1) v m }"

text \<open>\<open>resize(sz)\<close> is \<open>resize(sz, x)\<close> with the value-initialised element.\<close>

definition v_resize :: "nat \<Rightarrow> nat \<Rightarrow> 'a arg \<Rightarrow> vec \<Rightarrow> 'a mem \<Rightarrow> ('a, unit) vresult" where
  "v_resize ms sz x v m = do {
     cs \<leftarrow> v_size v;
     if cs < sz then v_append_fill ms (sz - cs) x v m
     else if cs > sz then do {
       (v1, m1) \<leftarrow> v_destruct_at_end (padd (v_begin v) sz) v m;
       Some (Inr (), v1, m1) }
     else Some (Inr (), v, m) }"

text \<open>The \<open>emplace_back\<close> of every element an input iterator yields, as in \<open>init_with_sentinel\<close>
  and \<open>assign_with_sentinel\<close>; an exception ends the loop.\<close>

fun v_emplace_all :: "nat \<Rightarrow> 'a list \<Rightarrow> vec \<Rightarrow> 'a mem \<Rightarrow> ('a, unit) vresult" where
  "v_emplace_all ms [] v m = Some (Inr (), v, m)"
| "v_emplace_all ms (x # xs) v m = do {
     (r, v1, m1) \<leftarrow> v_emplace_back ms (Ext x) v m;
     (case r of Inl e \<Rightarrow> Some (Inl e, v1, m1) | Inr _ \<Rightarrow> v_emplace_all ms xs v1 m1) }"

definition v_init_with_sentinel :: "nat \<Rightarrow> 'a list \<Rightarrow> 'a mem \<Rightarrow> ('a, unit) vresult" where
  "v_init_with_sentinel ms xs m = do {
     (r, v, m1) \<leftarrow> v_emplace_all ms xs v_empty_layout m;
     (case r of
        Inl e \<Rightarrow> do { m2 \<leftarrow> v_delete v m1; Some (Inl e, v, m2) }
      | Inr _ \<Rightarrow> Some (Inr (), v, m1)) }"

section \<open>Assignment\<close>

definition v_assign_with_sentinel :: "nat \<Rightarrow> 'a list \<Rightarrow> vec \<Rightarrow> 'a mem \<Rightarrow> ('a, unit) vresult" where
  "v_assign_with_sentinel ms xs v m = do {
     sz \<leftarrow> v_size v;
     let n = min (length xs) sz;
     m1 \<leftarrow> copy_assign (take n xs) (v_begin v) m;
     let cur = padd (v_begin v) n;
     if cur \<noteq> v_end v then do {
       (v1, m2) \<leftarrow> v_destruct_at_end cur v m1;
       Some (Inr (), v1, m2) }
     else v_emplace_all ms (drop n xs) v m1 }"

definition v_assign_with_size :: "nat \<Rightarrow> 'a list \<Rightarrow> vec \<Rightarrow> 'a mem \<Rightarrow> ('a, unit) vresult" where
  "v_assign_with_size ms xs v m = do {
     let new_size = length xs;
     cap \<leftarrow> v_capacity v;
     if new_size \<le> cap then do {
       sz \<leftarrow> v_size v;
       if new_size > sz then do {
         m1 \<leftarrow> copy_assign (take sz xs) (v_begin v) m;
         (v1, m2) \<leftarrow> v_construct_at_end (drop sz xs) v m1;
         Some (Inr (), v1, m2) }
       else do {
         m1 \<leftarrow> copy_assign xs (v_begin v) m;
         (v1, m2) \<leftarrow> v_destruct_at_end (padd (v_begin v) new_size) v m1;
         Some (Inr (), v1, m2) } }
     else do {
       (v1, m1) \<leftarrow> v_vdeallocate v m;
       rec \<leftarrow> v_recommend ms new_size v1;
       (case rec of
          Inl e \<Rightarrow> Some (Inl e, v1, m1)
        | Inr c \<Rightarrow> do {
            (r, v2, m2) \<leftarrow> v_vallocate ms c v1 m1;
            (case r of
               Inl e \<Rightarrow> Some (Inl e, v2, m2)
             | Inr _ \<Rightarrow> do { (v3, m3) \<leftarrow> v_construct_at_end xs v2 m2; Some (Inr (), v3, m3) }) }) } }"

text \<open>\<open>u\<close> is not a reference into the vector, as the standard requires of \<open>assign\<close>.\<close>

definition v_assign_fill :: "nat \<Rightarrow> nat \<Rightarrow> 'a \<Rightarrow> vec \<Rightarrow> 'a mem \<Rightarrow> ('a, unit) vresult" where
  "v_assign_fill ms n u v m = do {
     cap \<leftarrow> v_capacity v;
     if n \<le> cap then do {
       s \<leftarrow> v_size v;
       m1 \<leftarrow> fill_n (min n s) u (v_begin v) m;
       if n > s then do {
         (v1, m2) \<leftarrow> v_construct_at_end_fill (n - s) u v m1;
         Some (Inr (), v1, m2) }
       else do {
         (v1, m2) \<leftarrow> v_destruct_at_end (padd (v_begin v) n) v m1;
         Some (Inr (), v1, m2) } }
     else do {
       (v1, m1) \<leftarrow> v_vdeallocate v m;
       rec \<leftarrow> v_recommend ms n v1;
       (case rec of
          Inl e \<Rightarrow> Some (Inl e, v1, m1)
        | Inr c \<Rightarrow> do {
            (r, v2, m2) \<leftarrow> v_vallocate ms c v1 m1;
            (case r of
               Inl e \<Rightarrow> Some (Inl e, v2, m2)
             | Inr _ \<Rightarrow> do {
                 (v3, m3) \<leftarrow> v_construct_at_end_fill n u v2 m2;
                 Some (Inr (), v3, m3) }) }) } }"

text \<open>Copy assignment compares the addresses of the objects first.\<close>

definition v_copy_assign :: "nat \<Rightarrow> bool \<Rightarrow> vec \<Rightarrow> vec \<Rightarrow> 'a mem \<Rightarrow> ('a, unit) vresult" where
  "v_copy_assign ms same_object x v m =
    (if same_object then Some (Inr (), v, m)
     else do {
       n \<leftarrow> v_size x;
       xs \<leftarrow> read_range n (v_begin x) m;
       v_assign_with_size ms xs v m })"

section \<open>Erasure\<close>

definition v_erase :: "ptr \<Rightarrow> vec \<Rightarrow> 'a mem \<Rightarrow> (ptr \<times> vec \<times> 'a mem) option" where
  "v_erase position v m = do {
     _ \<leftarrow> assert_that (position \<noteq> v_end v);
     ps \<leftarrow> pdiff position (v_begin v);
     let p = padd (v_begin v) ps;
     n \<leftarrow> pdiff (v_end v) (padd p 1);
     m1 \<leftarrow> move_forward n (padd p 1) p m;
     (v1, m2) \<leftarrow> v_destruct_at_end (padd p n) v m1;
     Some (p, v1, m2) }"

definition v_erase_range :: "ptr \<Rightarrow> ptr \<Rightarrow> vec \<Rightarrow> 'a mem \<Rightarrow> (ptr \<times> vec \<times> 'a mem) option" where
  "v_erase_range first lst v m = do {
     later \<leftarrow> plt lst first;
     _ \<leftarrow> assert_that (\<not> later);
     off \<leftarrow> pdiff first (v_begin v);
     let p = padd (v_begin v) off;
     if first \<noteq> lst then do {
       k \<leftarrow> pdiff lst first;
       n \<leftarrow> pdiff (v_end v) (padd p k);
       m1 \<leftarrow> move_forward n (padd p k) p m;
       (v1, m2) \<leftarrow> v_destruct_at_end (padd p n) v m1;
       Some (p, v1, m2) }
     else Some (p, v, m) }"

section \<open>Insertion\<close>

text \<open>
  \<open>move_range\<close> opens the gap \<open>[to, from_e)\<close> : the last elements are move-constructed behind the
  end, the others move-assigned backward.
\<close>

definition v_move_range :: "ptr \<Rightarrow> ptr \<Rightarrow> ptr \<Rightarrow> vec \<Rightarrow> 'a mem \<Rightarrow> (vec \<times> 'a mem) option" where
  "v_move_range from_s from_e dest v m = do {
     let old_last = v_end v;
     n \<leftarrow> pdiff old_last dest;
     let i = padd from_s n;
     k \<leftarrow> pdiff from_e i;
     m1 \<leftarrow> move_construct k i old_last m;
     m2 \<leftarrow> move_backward n (padd from_s n) old_last m1;
     Some (v\<lparr>v_end := padd old_last k\<rparr>, m2) }"

text \<open>A reference into \<open>[p, end)\<close> follows the elements that \<open>move_range\<close> shifted by \<open>k\<close>.\<close>

definition shift_arg :: "nat \<Rightarrow> ptr \<Rightarrow> ptr \<Rightarrow> 'a arg \<Rightarrow> 'a arg" where
  "shift_arg k p fin x =
    (case x of
       Ext a \<Rightarrow> Ext a
     | At q \<Rightarrow> if is_pointer_in_range p fin q then At (padd q k) else At q)"

text \<open>The reallocating branch the insertions share: \<open>construct\<close> fills the new buffer.\<close>

definition v_insert_realloc ::
  "nat \<Rightarrow> nat \<Rightarrow> ptr \<Rightarrow> (sbuf \<Rightarrow> 'a mem \<Rightarrow> (sbuf \<times> 'a mem) option) \<Rightarrow> vec \<Rightarrow> 'a mem \<Rightarrow> ('a, ptr) vresult" where
  "v_insert_realloc ms n p fill v m = do {
     sz \<leftarrow> v_size v;
     rec \<leftarrow> v_recommend ms (sz + n) v;
     (case rec of
        Inl e \<Rightarrow> Some (Inl e, v, m)
      | Inr c \<Rightarrow> do {
          off \<leftarrow> pdiff p (v_begin v);
          (sb, m1) \<leftarrow> sb_new c off m;
          (sb1, m2) \<leftarrow> fill sb m1;
          (q, v1, sb2, m3) \<leftarrow> v_swap_out_at v sb1 p m2;
          m4 \<leftarrow> sb_delete sb2 m3;
          Some (Inr q, v1, m4) }) }"

definition v_insert :: "nat \<Rightarrow> ptr \<Rightarrow> 'a arg \<Rightarrow> vec \<Rightarrow> 'a mem \<Rightarrow> ('a, ptr) vresult" where
  "v_insert ms position x v m = do {
     off \<leftarrow> pdiff position (v_begin v);
     let p = padd (v_begin v) off;
     room \<leftarrow> plt (v_end v) (v_cap v);
     if room then
       if p = v_end v then do {
         (v1, m1) \<leftarrow> v_emplace_back_assume_capacity x v m;
         Some (Inr p, v1, m1) }
       else do {
         (v1, m1) \<leftarrow> v_move_range p (v_end v) (padd p 1) v m;
         a \<leftarrow> read_arg m1 (shift_arg 1 p (v_end v1) x);
         m2 \<leftarrow> assign_at a p m1;
         Some (Inr p, v1, m2) }
     else
       v_insert_realloc ms 1 p
         (\<lambda>sb m1. do { a \<leftarrow> read_arg m1 x; sb_emplace_back a sb m1 }) v m }"

text \<open>\<open>insert(position, value_type&&)\<close> and \<open>emplace\<close>: the element is elsewhere, or is built in a
  \<open>temp_value\<close> before the range moves.\<close>

definition v_emplace :: "nat \<Rightarrow> ptr \<Rightarrow> 'a \<Rightarrow> vec \<Rightarrow> 'a mem \<Rightarrow> ('a, ptr) vresult" where
  "v_emplace ms position a v m = do {
     off \<leftarrow> pdiff position (v_begin v);
     let p = padd (v_begin v) off;
     room \<leftarrow> plt (v_end v) (v_cap v);
     if room then
       if p = v_end v then do {
         (v1, m1) \<leftarrow> v_emplace_back_assume_capacity (Ext a) v m;
         Some (Inr p, v1, m1) }
       else do {
         (v1, m1) \<leftarrow> v_move_range p (v_end v) (padd p 1) v m;
         m2 \<leftarrow> assign_at a p m1;
         Some (Inr p, v1, m2) }
     else v_insert_realloc ms 1 p (\<lambda>sb m1. sb_emplace_back a sb m1) v m }"

definition v_insert_fill :: "nat \<Rightarrow> ptr \<Rightarrow> nat \<Rightarrow> 'a arg \<Rightarrow> vec \<Rightarrow> 'a mem \<Rightarrow> ('a, ptr) vresult" where
  "v_insert_fill ms position n x v m = do {
     off \<leftarrow> pdiff position (v_begin v);
     let p = padd (v_begin v) off;
     if n > 0 then do {
       room \<leftarrow> pdiff (v_cap v) (v_end v);
       if n \<le> room then do {
         let old_last = v_end v;
         tail \<leftarrow> pdiff old_last p;
         (v1, m1, k) \<leftarrow>
           (if n > tail then do {
              a \<leftarrow> read_arg m x;
              (v1, m1) \<leftarrow> v_construct_at_end_fill (n - tail) a v m;
              Some (v1, m1, n - (n - tail)) }
            else Some (v, m, n));
         if k > 0 then do {
           (v2, m2) \<leftarrow> v_move_range p old_last (padd p n) v1 m1;
           a \<leftarrow> read_arg m2 (shift_arg n p (v_end v2) x);
           m3 \<leftarrow> fill_n k a p m2;
           Some (Inr p, v2, m3) }
         else Some (Inr p, v1, m1) }
       else
         v_insert_realloc ms n p
           (\<lambda>sb m1. do { a \<leftarrow> read_arg m1 x; construct_at_end_fill n a sb m1 }) v m }
     else Some (Inr p, v, m) }"

definition v_insert_with_size :: "nat \<Rightarrow> ptr \<Rightarrow> 'a list \<Rightarrow> vec \<Rightarrow> 'a mem \<Rightarrow> ('a, ptr) vresult" where
  "v_insert_with_size ms position xs v m = do {
     off \<leftarrow> pdiff position (v_begin v);
     let p = padd (v_begin v) off;
     let n = length xs;
     if n > 0 then do {
       room \<leftarrow> pdiff (v_cap v) (v_end v);
       if n \<le> room then do {
         let old_last = v_end v;
         dx \<leftarrow> pdiff (v_end v) p;
         if n > dx then do {
           (v1, m1) \<leftarrow> v_construct_at_end (drop dx xs) v m;
           if dx > 0 then do {
             (v2, m2) \<leftarrow> v_move_range p old_last (padd p n) v1 m1;
             m3 \<leftarrow> copy_assign (take dx xs) p m2;
             Some (Inr p, v2, m3) }
           else Some (Inr p, v1, m1) }
         else do {
           (v1, m1) \<leftarrow> v_move_range p old_last (padd p n) v m;
           m2 \<leftarrow> copy_assign xs p m1;
           Some (Inr p, v1, m2) } }
       else v_insert_realloc ms n p (construct_at_end_with_size xs) v m }
     else Some (Inr p, v, m) }"

text \<open>The loop that fills the spare capacity; what the iterator has left.\<close>

fun v_fill_spare :: "'a list \<Rightarrow> vec \<Rightarrow> 'a mem \<Rightarrow> ('a list \<times> vec \<times> 'a mem) option" where
  "v_fill_spare [] v m = Some ([], v, m)"
| "v_fill_spare (x # xs) v m =
    (if v_end v \<noteq> v_cap v then do {
       (v1, m1) \<leftarrow> v_emplace_back_assume_capacity (Ext x) v m;
       v_fill_spare xs v1 m1 }
     else Some (x # xs, v, m))"

text \<open>
  \<open>insert_with_sentinel\<close>. When \<open>recommend\<close> throws, unwinding runs the guard, which destroys
  \<open>[old_last, end_)\<close> and leaves \<open>end_\<close> as it is, and then the destructor of \<open>v\<close>.
\<close>

definition v_insert_with_sentinel :: "nat \<Rightarrow> ptr \<Rightarrow> 'a list \<Rightarrow> vec \<Rightarrow> 'a mem \<Rightarrow> ('a, ptr) vresult" where
  "v_insert_with_sentinel ms position xs v m = do {
     off \<leftarrow> pdiff position (v_begin v);
     let p = padd (v_begin v) off;
     let old_last = v_end v;
     (rest, v1, m1) \<leftarrow> v_fill_spare xs v m;
     added \<leftarrow> pdiff (v_end v1) old_last;
     if rest = [] then do {
       k \<leftarrow> pdiff old_last p;
       m2 \<leftarrow> rotate_range k added p m1;
       Some (Inr p, v1, m2) }
     else do {
       (sb, m2) \<leftarrow> construct_at_end_with_sentinel rest sb_empty_layout m1;
       sz \<leftarrow> v_size v1;
       sbsz \<leftarrow> sb_size sb;
       rec \<leftarrow> v_recommend ms (sz + sbsz) v1;
       (case rec of
          Inl e \<Rightarrow> do {
            m3 \<leftarrow> destroy_back added (v_end v1) m2;
            m4 \<leftarrow> sb_delete sb m3;
            Some (Inl e, v1, m4) }
        | Inr c \<Rightarrow> do {
            (merged, m3) \<leftarrow> sb_new c off m2;
            m4 \<leftarrow> relocate added old_last (sb_end merged) m3;
            merged1 \<leftarrow> set_sentinel (padd (sb_end merged) added) merged;
            let v2 = v1\<lparr>v_end := old_last\<rparr>;
            m5 \<leftarrow> relocate sbsz (sb_begin sb) (sb_end merged1) m4;
            msz \<leftarrow> sb_size merged1;
            let merged2 = set_sentinel_size (msz + sbsz) merged1;
            sb1 \<leftarrow> set_sentinel (sb_begin sb) sb;
            (q, v3, merged3, m6) \<leftarrow> v_swap_out_at v2 merged2 p m5;
            m7 \<leftarrow> sb_delete merged3 m6;
            m8 \<leftarrow> sb_delete sb1 m7;
            Some (Inr q, v3, m8) }) } }"

section \<open>Comparison and filtering\<close>

definition v_values :: "vec \<Rightarrow> 'a mem \<Rightarrow> 'a list option" where
  "v_values v m = do { n \<leftarrow> v_size v; read_range n (v_begin v) m }"

definition v_equal :: "vec \<Rightarrow> vec \<Rightarrow> 'a mem \<Rightarrow> bool option" where
  "v_equal v w m = do {
     n \<leftarrow> v_size v;
     k \<leftarrow> v_size w;
     if n = k then do { xs \<leftarrow> v_values v m; ys \<leftarrow> v_values w m; Some (xs = ys) } else Some False }"

text \<open>\<open>std::lexicographical_compare_three_way\<close> as -1, 0 or 1, by the three-way comparison of the elements.\<close>

fun compare_three_way :: "('a \<Rightarrow> 'a \<Rightarrow> int) \<Rightarrow> 'a list \<Rightarrow> 'a list \<Rightarrow> int" where
  "compare_three_way cmp [] [] = 0"
| "compare_three_way cmp [] (y # ys) = - 1"
| "compare_three_way cmp (x # xs) [] = 1"
| "compare_three_way cmp (x # xs) (y # ys) = (if cmp x y \<noteq> 0 then cmp x y else compare_three_way cmp xs ys)"

definition v_compare :: "('a \<Rightarrow> 'a \<Rightarrow> int) \<Rightarrow> vec \<Rightarrow> vec \<Rightarrow> 'a mem \<Rightarrow> int option" where
  "v_compare cmp v w m = do {
     xs \<leftarrow> v_values v m;
     ys \<leftarrow> v_values w m;
     Some (compare_three_way cmp xs ys) }"

text \<open>
  \<open>std::remove_if\<close>: \<open>q\<close> is where the next kept element goes and \<open>n\<close> objects are left from \<open>p\<close>
  on. The standard algorithm starts moving at the first removed element.
\<close>

fun remove_if_loop :: "('a \<Rightarrow> bool) \<Rightarrow> nat \<Rightarrow> ptr \<Rightarrow> ptr \<Rightarrow> 'a mem \<Rightarrow> (ptr \<times> 'a mem) option" where
  "remove_if_loop P 0 p q m = Some (q, m)"
| "remove_if_loop P (Suc n) p q m = do {
     x \<leftarrow> read_at m p;
     if P x then remove_if_loop P n (padd p 1) q m
     else if p = q then remove_if_loop P n (padd p 1) (padd q 1) m
     else do {
       (y, m1) \<leftarrow> move_from p m;
       m2 \<leftarrow> assign_at y q m1;
       remove_if_loop P n (padd p 1) (padd q 1) m2 } }"

definition v_erase_if :: "('a \<Rightarrow> bool) \<Rightarrow> vec \<Rightarrow> 'a mem \<Rightarrow> (nat \<times> vec \<times> 'a mem) option" where
  "v_erase_if P v m = do {
     n \<leftarrow> v_size v;
     (it, m1) \<leftarrow> remove_if_loop P n (v_begin v) (v_begin v) m;
     r \<leftarrow> pdiff (v_end v) it;
     (q, v1, m2) \<leftarrow> v_erase_range it (v_end v) v m1;
     Some (r, v1, m2) }"

definition v_erase_value :: "'a \<Rightarrow> vec \<Rightarrow> 'a mem \<Rightarrow> (nat \<times> vec \<times> 'a mem) option" where
  "v_erase_value x = v_erase_if (\<lambda>y. y = x)"

end
