(* ===== verification/Split_Buffer_Correct.thy ===== *)
theory Split_Buffer_Correct
  imports Split_Buffer
begin

text \<open>
  What the operations of \<open>Split_Buffer\<close> do to the sequence they hold. \<open>sb_rep m s f xs k\<close> reads
  a buffer off the memory: \<open>f\<close> raw cells, the elements \<open>xs\<close>, \<open>k\<close> raw cells. Every operation
  is the list operation on \<open>xs\<close>, touches only the blocks of the buffer, and leaves no object and
  no block behind; growing at the back of a buffer with no room at either end is the exception.
\<close>

section \<open>Reading a buffer off the memory\<close>

definition sb_view :: "nat \<Rightarrow> nat \<Rightarrow> nat \<Rightarrow> nat \<Rightarrow> sbuf" where
  "sb_view b f n k =
    \<lparr>front_cap = Ptr b 0, sb_begin = Ptr b f, sb_end = Ptr b (f + n), back_cap = Ptr b (f + n + k)\<rparr>"

definition sb_cells :: "nat \<Rightarrow> 'a list \<Rightarrow> nat \<Rightarrow> 'a cell list" where
  "sb_cells f xs k = replicate f Raw @ map Live xs @ replicate k Raw"

definition sb_rep :: "'a mem \<Rightarrow> sbuf \<Rightarrow> nat \<Rightarrow> 'a list \<Rightarrow> nat \<Rightarrow> bool" where
  "sb_rep m s f xs k \<longleftrightarrow>
    s = sb_empty_layout \<and> f = 0 \<and> xs = [] \<and> k = 0 \<or>
    (\<exists>b. s = sb_view b f (length xs) k \<and> block m b = Some (sb_cells f xs k))"

definition sb_own :: "sbuf \<Rightarrow> nat set" where
  "sb_own s = (case front_cap s of Ptr b i \<Rightarrow> {b} | _ \<Rightarrow> {})"

lemmas sb_layout = sb_view_def sb_empty_layout_def sb_size_def sb_capacity_def front_spare_def
  back_spare_def set_data_def set_valid_range_def set_valid_size_def set_sentinel_def
  set_sentinel_size_def set_capacity_size_def set_capacity_def

lemma sb_view_simps [simp]:
  "sb_size (sb_view b f n k) = Some n" "sb_capacity (sb_view b f n k) = Some (f + n + k)"
  "front_spare (sb_view b f n k) = Some f" "back_spare (sb_view b f n k) = Some k"
  "sb_begin (sb_view b f n k) = Ptr b f" "sb_end (sb_view b f n k) = Ptr b (f + n)"
  "front_cap (sb_view b f n k) = Ptr b 0" "sb_own (sb_view b f n k) = {b}"
  by (simp_all add: sb_layout sb_own_def)

lemma sb_empty_layout_simps [simp]:
  "sb_size sb_empty_layout = Some 0" "sb_capacity sb_empty_layout = Some 0"
  "front_spare sb_empty_layout = Some 0" "back_spare sb_empty_layout = Some 0"
  "sb_begin sb_empty_layout = Null" "sb_end sb_empty_layout = Null"
  "front_cap sb_empty_layout = Null" "sb_own sb_empty_layout = {}"
  by (simp_all add: sb_layout sb_own_def)

lemma set_sentinel_view [simp]:
  "i = f + n' \<Longrightarrow> n' \<le> n + k \<Longrightarrow> set_sentinel (Ptr b i) (sb_view b f n k) = Some (sb_view b f n' (n + k - n'))"
  by (simp add: sb_layout)

lemma set_sentinel_size_view [simp]:
  "n' \<le> n + k \<Longrightarrow> set_sentinel_size n' (sb_view b f n k) = sb_view b f n' (n + k - n')"
  by (simp add: sb_layout)

lemma set_sentinel_empty [simp]: "set_sentinel Null sb_empty_layout = Some sb_empty_layout"
  by (simp add: sb_layout)

lemma set_sentinel_size_empty [simp]: "set_sentinel_size 0 sb_empty_layout = sb_empty_layout"
  by (simp add: sb_layout)

lemma sb_rep_view: "block m b = Some (sb_cells f xs k) \<Longrightarrow> sb_rep m (sb_view b f (length xs) k) f xs k"
  by (auto simp: sb_rep_def)

lemma sb_rep_cases [consumes 1, case_names empty view]:
  assumes "sb_rep m s f xs k"
  obtains "s = sb_empty_layout" "f = 0" "xs = []" "k = 0"
  | b where "s = sb_view b f (length xs) k" "block m b = Some (sb_cells f xs k)"
  using assms by (auto simp: sb_rep_def)

lemma sb_rep_sizes:
  assumes "sb_rep m s f xs k"
  shows "sb_size s = Some (length xs)" "sb_capacity s = Some (f + length xs + k)"
    "front_spare s = Some f" "back_spare s = Some k"
  using assms by (auto elim: sb_rep_cases)

text \<open>\<open>invariants()\<close> holds of every buffer that the memory backs.\<close>

lemma sb_rep_invariants: "sb_rep m s f xs k \<Longrightarrow> sb_invariants s"
  by (erule sb_rep_cases) (simp_all add: sb_invariants_def sb_empty_def)

section \<open>Both ends\<close>

lemma set_block_empty_snoc [simp]: "set_block (m @ [Some cs]) (length m) ds = m @ [Some ds]"
  by (simp add: set_block_def)

lemma sb_cells_length [simp]: "length (sb_cells f xs k) = f + length xs + k"
  by (simp add: sb_cells_def)

lemma sb_new_view:
  "start \<le> cap \<Longrightarrow> 0 < cap \<Longrightarrow>
   sb_new cap start m =
     Some (sb_view (length m) start 0 (cap - start), m @ [Some (sb_cells start [] (cap - start))])"
  by (simp add: sb_new_def allocate_at_least_def sb_layout sb_cells_def Let_def flip: replicate_add)

lemma sb_new_zero: "sb_new 0 0 m = Some (sb_empty_layout, m)"
  by (simp add: sb_new_def sb_layout Let_def)

lemma construct_at_end_with_size_view:
  assumes "block m b = Some (sb_cells f xs k)" "length ys \<le> k"
  shows "construct_at_end_with_size ys (sb_view b f (length xs) k) m =
    Some (sb_view b f (length (xs @ ys)) (k - length ys),
          set_block m b (sb_cells f (xs @ ys) (k - length ys)))"
proof -
  have "block m b = Some ((replicate f Raw @ map Live xs) @ replicate (length ys) Raw @ replicate (k - length ys) Raw)"
    using assms by (simp add: sb_cells_def flip: replicate_add)
  from uninitialized_copy_ok [OF this, of "f + length xs"] show ?thesis using assms(2)
    by (simp add: construct_at_end_with_size_def sb_cells_def)
qed

lemma construct_at_end_fill_eq: "construct_at_end_fill n x = construct_at_end_with_size (replicate n x)"
  by (simp add: construct_at_end_fill_def construct_at_end_with_size_def construct_fill_eq fun_eq_iff)

text \<open>The elements of another block, moved to the end.\<close>

lemma construct_at_end_move_view:
  assumes "block m b = Some (A @ map Live ys @ C)" "i = length A" "j = length A + length ys" "b \<noteq> c"
    and "block m c = Some (sb_cells f xs k)" "length ys \<le> k"
  shows "construct_at_end_move (Ptr b i) (Ptr b j) (sb_view c f (length xs) k) m =
    Some (sb_view c f (length (xs @ ys)) (k - length ys),
          set_block (set_block m b (A @ replicate (length ys) Husk @ C)) c
            (sb_cells f (xs @ ys) (k - length ys)))"
proof -
  have "block m c = Some ((replicate f Raw @ map Live xs) @ replicate (length ys) Raw @ replicate (k - length ys) Raw)"
    using assms by (simp add: sb_cells_def flip: replicate_add)
  from move_construct_ok [OF assms(1,2,4) this, of "f + length xs"] show ?thesis using assms(2,3,6)
    by (simp add: construct_at_end_move_def sb_cells_def)
qed

lemma destruct_at_end_view:
  assumes "block m b = Some (sb_cells f (xs @ ys) k)"
  shows "destruct_at_end (Ptr b (f + length xs)) (sb_view b f (length xs + length ys) k) m =
    Some (sb_view b f (length xs) (length ys + k), set_block m b (sb_cells f xs (length ys + k)))"
proof -
  have "block m b = Some ((replicate f Raw @ map Live xs) @ map Live ys @ replicate k Raw)"
    using assms by (simp add: sb_cells_def)
  then have "destroy_back (length (map Live ys :: 'a cell list)) (Ptr b (f + length xs + length ys)) m =
    Some (set_block m b ((replicate f Raw @ map Live xs) @ replicate (length (map Live ys :: 'a cell list)) Raw @
      replicate k Raw))"
    by (rule destroy_back_ok) auto
  then show ?thesis
    by (simp add: destruct_at_end_def sb_cells_def add.assoc replicate_add)
qed

lemma destruct_at_begin_view:
  assumes "block m b = Some (sb_cells f (xs @ ys) k)"
  shows "destruct_at_begin (Ptr b (f + length xs)) (sb_view b f (length xs + length ys) k) m =
    Some (sb_view b (f + length xs) (length ys) k, set_block m b (sb_cells (f + length xs) ys k))"
proof -
  have "block m b = Some (replicate f Raw @ map Live xs @ (map Live ys @ replicate k Raw))"
    using assms by (simp add: sb_cells_def)
  then have "allocator_destroy (length (map Live xs :: 'a cell list)) (Ptr b f) m =
    Some (set_block m b (replicate f Raw @ replicate (length (map Live xs :: 'a cell list)) Raw @
      (map Live ys @ replicate k Raw)))"
    by (rule allocator_destroy_ok) auto
  then show ?thesis
    by (simp add: destruct_at_begin_def sb_cells_def sb_layout replicate_add add.assoc)
qed

lemma sb_delete_view:
  assumes "block m b = Some (A @ cs @ C)" "Raw \<notin> set cs" "A = replicate f Raw" "C = replicate k Raw"
    "n = length cs"
  shows "sb_delete (sb_view b f n k) m =
    Some (drop_block (set_block m b (replicate (f + n + k) Raw)) b)"
proof -
  have "destroy_back (length cs) (Ptr b (f + length cs)) m =
      Some (set_block m b (A @ replicate (length cs) Raw @ C))"
    by (rule destroy_back_ok) (use assms in auto)
  moreover have "A @ replicate (length cs) Raw @ C = replicate (f + n + k) Raw"
    using assms by (simp flip: replicate_add)
  ultimately show ?thesis using assms
    by (simp add: sb_delete_def sb_clear_def destruct_at_end_def mem_simps block_less add.assoc)
qed

lemma sb_delete_empty: "sb_delete sb_empty_layout m = Some m"
  by (simp add: sb_delete_def sb_clear_def destruct_at_end_def)

lemma swap_without_allocator_eq [simp]: "swap_without_allocator (s, t) = (t, s)"
  by (simp add: swap_without_allocator_def)

section \<open>Moving to a new block\<close>

lemma sb_rep_own_less: "sb_rep m s f xs k \<Longrightarrow> b \<in> sb_own s \<Longrightarrow> b < length m"
  by (erule sb_rep_cases) (auto dest: block_less)

text \<open>
  The steps every reallocation takes: a new block, the elements moved into it, the old block
  cleared of its husks and released.
\<close>

lemma sb_transfer:
  assumes "sb_rep m s f xs k" "start + length xs \<le> cap" "0 < cap"
  obtains m1 m2 m3 where
    "sb_new cap start m = Some (sb_view (length m) start 0 (cap - start), m1)"
    "construct_at_end_move (sb_begin s) (sb_end s) (sb_view (length m) start 0 (cap - start)) m1 =
      Some (sb_view (length m) start (length xs) (cap - start - length xs), m2)"
    "sb_delete s m2 = Some m3"
    "sb_rep m3 (sb_view (length m) start (length xs) (cap - start - length xs)) start xs (cap - start - length xs)"
    "owner_step (sb_own s) {length m} m m3"
  using assms(1)
proof (cases rule: sb_rep_cases)
  case empty
  let ?m = "m @ [Some (sb_cells start [] (cap - start))]"
  have "construct_at_end_move Null Null (sb_view (length m) start 0 (cap - start)) ?m =
      Some (sb_view (length m) start 0 (cap - start), ?m)"
    by (simp add: construct_at_end_move_def)
  then show ?thesis using empty assms
    by (intro that [of ?m ?m ?m])
      (auto simp: sb_new_view sb_delete_empty sb_rep_def owner_step_def mem_simps)
next
  case (view b)
  let ?m1 = "m @ [Some (sb_cells start [] (cap - start))]"
  let ?m2 = "set_block (set_block ?m1 b (replicate f Raw @ replicate (length xs) Husk @ replicate k Raw)) (length m)
    (sb_cells start ([] @ xs) (cap - start - length xs))"
  let ?m3 = "drop_block (set_block ?m2 b (replicate (f + length xs + k) Raw)) b"
  have b: "b < length m" using view by (auto dest: block_less)
  have 1: "sb_new cap start m = Some (sb_view (length m) start 0 (cap - start), ?m1)"
    using assms by (intro sb_new_view) auto
  have 2: "construct_at_end_move (Ptr b f) (Ptr b (f + length xs))
      (sb_view (length m) start (length ([] :: 'a list)) (cap - start)) ?m1 =
    Some (sb_view (length m) start (length ([] @ xs)) (cap - start - length xs), ?m2)"
    by (rule construct_at_end_move_view) (use view assms b in \<open>auto simp: mem_simps sb_cells_def\<close>)
  have 3: "sb_delete s ?m2 = Some ?m3"
    unfolding view(1) by (rule sb_delete_view) (use b in \<open>auto simp: mem_simps\<close>)
  have 4: "sb_rep ?m3 (sb_view (length m) start (length xs) (cap - start - length xs)) start xs
      (cap - start - length xs)"
    by (rule sb_rep_view) (use b in \<open>simp add: mem_simps\<close>)
  have 5: "owner_step (sb_own s) {length m} m ?m3"
    using view b by (auto simp: owner_step_def mem_simps)
  show ?thesis using 1 2 3 4 5 view(1) by (intro that) simp_all
qed

lemma sb_own_new: "sb_rep m s f xs k \<Longrightarrow> length m \<notin> sb_own s"
  by (auto dest: sb_rep_own_less)

section \<open>The operations on the sequence\<close>

lemma sb_clear_rep:
  assumes "sb_rep m s f xs k"
  shows "\<exists>s' m'. sb_clear s m = Some (s', m') \<and> sb_own s' = sb_own s \<and>
     sb_rep m' s' f [] (length xs + k) \<and> owner_step (sb_own s) (sb_own s) m m'"
  using assms
proof (cases rule: sb_rep_cases)
  case (view b)
  with destruct_at_end_view [of m b f "[]" xs k] show ?thesis
    by (auto simp: sb_clear_def sb_rep_def owner_step_def mem_simps block_less)
qed (auto simp: sb_clear_def destruct_at_end_def sb_rep_def)

lemma sb_pop_back_rep:
  assumes "sb_rep m s f (xs @ [x]) k"
  shows "\<exists>s' m'. sb_pop_back s m = Some (s', m') \<and> sb_own s' = sb_own s \<and>
    sb_rep m' s' f xs (Suc k) \<and> owner_step (sb_own s) (sb_own s) m m'"
  using assms
proof (cases rule: sb_rep_cases)
  case (view b)
  with destruct_at_end_view [of m b f xs "[x]" k] show ?thesis
    by (auto simp: sb_pop_back_def sb_rep_def owner_step_def mem_simps block_less)
qed simp

lemma sb_pop_front_rep:
  assumes "sb_rep m s f (x # xs) k"
  shows "\<exists>s' m'. sb_pop_front s m = Some (s', m') \<and> sb_own s' = sb_own s \<and>
    sb_rep m' s' (Suc f) xs k \<and> owner_step (sb_own s) (sb_own s) m m'"
  using assms
proof (cases rule: sb_rep_cases)
  case (view b)
  with destruct_at_begin_view [of m b f "[x]" xs k] show ?thesis
    by (auto simp: sb_pop_front_def sb_rep_def owner_step_def mem_simps block_less)
qed simp

lemma sb_construct_back_rep:
  assumes "sb_rep m s f xs k" "length ys \<le> k"
  shows "\<exists>s' m'. construct_at_end_with_size ys s m = Some (s', m') \<and> sb_own s' = sb_own s \<and>
    sb_rep m' s' f (xs @ ys) (k - length ys) \<and> owner_step (sb_own s) (sb_own s) m m'"
  using assms(1)
proof (cases rule: sb_rep_cases)
  case (view b)
  with construct_at_end_with_size_view [of m b f xs k ys] assms show ?thesis
    by (auto simp: sb_rep_def owner_step_def mem_simps block_less)
qed (use assms in \<open>simp add: construct_at_end_with_size_def sb_rep_def\<close>)

lemma sb_delete_rep:
  assumes "sb_rep m s f xs k"
  shows "\<exists>m'. sb_delete s m = Some m' \<and> owner_step (sb_own s) {} m m'"
  using assms
proof (cases rule: sb_rep_cases)
  case (view b)
  have "sb_delete s m = Some (drop_block (set_block m b (replicate (f + length xs + k) Raw)) b)"
    unfolding view(1) by (rule sb_delete_view [of _ _ _ "map Live xs"]) (use view in \<open>auto simp: sb_cells_def\<close>)
  with view show ?thesis by (auto simp: owner_step_def mem_simps)
qed (simp add: sb_delete_empty)

lemma sb_shrink_to_fit_rep:
  assumes "sb_rep m s f xs k"
  shows "\<exists>s' m'. sb_shrink_to_fit s m = Some (s', m') \<and> sb_rep m' s' 0 xs 0 \<and>
    owner_step (sb_own s) (sb_own s') m m'"
proof (cases "f + k = 0")
  case True
  with assms show ?thesis by (auto simp: sb_shrink_to_fit_def sb_rep_sizes)
next
  case False
  note sizes = sb_rep_sizes [OF assms]
  show ?thesis
  proof (cases "xs = []")
    case True
    from sb_delete_rep [OF assms] obtain m' where "sb_delete s m = Some m'" "owner_step (sb_own s) {} m m'"
      by blast
    moreover have "pdiff (sb_end s) (sb_begin s) = Some 0"
      using sizes(1) True by (simp add: sb_size_def)
    ultimately show ?thesis using False True sizes
      by (auto simp: sb_shrink_to_fit_def sb_new_zero construct_at_end_move_def sb_rep_def)
  next
    case nonempty: False
    let ?v = "sb_view (length m) 0 (length xs) 0"
    obtain m1 m2 m3 where
      "sb_new (length xs) 0 m = Some (sb_view (length m) 0 0 (length xs), m1)"
      "construct_at_end_move (sb_begin s) (sb_end s) (sb_view (length m) 0 0 (length xs)) m1 = Some (?v, m2)"
      "sb_delete s m2 = Some m3" "sb_rep m3 ?v 0 xs 0" "owner_step (sb_own s) {length m} m m3"
      by (rule sb_transfer [OF assms, of 0 "length xs"]) (use nonempty in auto)
    then show ?thesis using False sizes by (auto simp: sb_shrink_to_fit_def)
  qed
qed

lemma sb_regrow_rep:
  assumes "sb_rep m s f xs k"
  shows "\<exists>s' m'. sb_regrow s m = Some (s', m') \<and>
    s' = sb_view (length m) 0 (length xs) (max (2 * (f + length xs + k)) 8 - length xs) \<and>
    sb_rep m' s' 0 xs (max (2 * (f + length xs + k)) 8 - length xs) \<and>
    owner_step (sb_own s) {length m} m m'"
proof -
  let ?c = "max (2 * (f + length xs + k)) 8"
  obtain m1 m2 m3 where
    "sb_new ?c 0 m = Some (sb_view (length m) 0 0 (?c - 0), m1)"
    "construct_at_end_move (sb_begin s) (sb_end s) (sb_view (length m) 0 0 (?c - 0)) m1 =
      Some (sb_view (length m) 0 (length xs) (?c - 0 - length xs), m2)"
    "sb_delete s m2 = Some m3"
    "sb_rep m3 (sb_view (length m) 0 (length xs) (?c - 0 - length xs)) 0 xs (?c - 0 - length xs)"
    "owner_step (sb_own s) {length m} m m3"
    by (rule sb_transfer [OF assms, of 0 ?c]) auto
  with sb_rep_sizes [OF assms] show ?thesis by (simp add: sb_regrow_def)
qed

text \<open>A construction right behind the last element of a buffer with room.\<close>

lemma sb_construct_view:
  assumes "block m b = Some (sb_cells f xs (Suc k))"
  shows "construct x (Ptr b (f + length xs)) m = Some (set_block m b (sb_cells f (xs @ [x]) k))"
proof -
  have "block m b = Some ((replicate f Raw @ map Live xs) @ Raw # replicate k Raw)"
    using assms by (simp add: sb_cells_def)
  from construct_mid [OF this, of "f + length xs" x] show ?thesis by (simp add: sb_cells_def)
qed

lemma construct_at_end_with_sentinel_step:
  assumes "sb_rep m s f xs k"
  obtains b g j m1 m2 where
    "(if k = 0 then sb_regrow s m else Some (s, m)) = Some (sb_view b g (length xs) (Suc j), m1)"
    "construct y (Ptr b (g + length xs)) m1 = Some m2"
    "sb_rep m2 (sb_view b g (length (xs @ [y])) j) g (xs @ [y]) j"
    "owner_step (sb_own s) {b} m m2"
proof (cases k)
  case 0
  let ?k = "max (2 * (f + length xs + k)) 8 - length xs"
  obtain m1 where 1: "sb_regrow s m = Some (sb_view (length m) 0 (length xs) ?k, m1)"
    and 2: "sb_rep m1 (sb_view (length m) 0 (length xs) ?k) 0 xs ?k"
    and 3: "owner_step (sb_own s) {length m} m m1"
    using sb_regrow_rep [OF assms] by auto
  have k: "?k = Suc (?k - 1)" using 0 by simp
  from 2 have b: "block m1 (length m) = Some (sb_cells 0 xs (Suc (?k - 1)))"
    unfolding k [symmetric] by (cases rule: sb_rep_cases) (auto simp: sb_view_def sb_empty_layout_def)
  let ?m2 = "set_block m1 (length m) (sb_cells 0 (xs @ [y]) (?k - 1))"
  from b have "sb_rep ?m2 (sb_view (length m) 0 (length (xs @ [y])) (?k - 1)) 0 (xs @ [y]) (?k - 1)"
    by (intro sb_rep_view) (auto simp: mem_simps dest: block_less)
  moreover have "owner_step (sb_own s) {length m} m ?m2"
    by (rule owner_step_trans [OF 3]) simp
  ultimately show ?thesis
    using 0 1 sb_construct_view [OF b, of y] k
    by (intro that [of "length m" 0 "?k - 1" m1 ?m2]) simp_all
next
  case (Suc j)
  from assms Suc obtain b where v: "s = sb_view b f (length xs) (Suc j)"
    and b: "block m b = Some (sb_cells f xs (Suc j))"
    by (auto elim: sb_rep_cases)
  let ?m2 = "set_block m b (sb_cells f (xs @ [y]) j)"
  from b have "sb_rep ?m2 (sb_view b f (length (xs @ [y])) j) f (xs @ [y]) j"
    by (intro sb_rep_view) (auto simp: mem_simps dest: block_less)
  then show ?thesis using Suc v sb_construct_view [OF b, of y]
    by (intro that [of b f j m ?m2]) auto
qed

lemma construct_at_end_with_sentinel_rep:
  assumes "sb_rep m s f xs k"
  shows "\<exists>s' m' g j. construct_at_end_with_sentinel ys s m = Some (s', m') \<and>
    sb_rep m' s' g (xs @ ys) j \<and> owner_step (sb_own s) (sb_own s') m m'"
  using assms
proof (induction ys arbitrary: m s f xs k)
  case Nil
  then show ?case by auto
next
  case (Cons y ys)
  from construct_at_end_with_sentinel_step [OF Cons.prems, of y]
  obtain b g j m1 m2 where
    1: "(if k = 0 then sb_regrow s m else Some (s, m)) = Some (sb_view b g (length xs) (Suc j), m1)"
    and 2: "construct y (Ptr b (g + length xs)) m1 = Some m2"
    and 3: "sb_rep m2 (sb_view b g (length (xs @ [y])) j) g (xs @ [y]) j"
    and 4: "owner_step (sb_own s) {b} m m2" .
  from Cons.IH [OF 3] obtain s' m' h i where
    "construct_at_end_with_sentinel ys (sb_view b g (length (xs @ [y])) j) m2 = Some (s', m')"
    "sb_rep m' s' h ((xs @ [y]) @ ys) i" "owner_step {b} (sb_own s') m2 m'"
    by auto
  moreover have "back_spare s = Some k" using sb_rep_sizes [OF Cons.prems] by simp
  ultimately show ?case using 1 2 4 by (auto intro: owner_step_trans)
qed

text \<open>\<open>emplace_front\<close> with room in front, and with no room at all.\<close>

lemma sb_emplace_front_rep:
  assumes "sb_rep m s f xs k" "f = 0 \<longrightarrow> k = 0"
  shows "\<exists>s' m' g j. sb_emplace_front x s m = Some (s', m') \<and>
    sb_rep m' s' g (x # xs) j \<and> owner_step (sb_own s) (sb_own s') m m'"
proof -
  have step: "construct x (Ptr b g) m1 = Some (set_block m1 b (sb_cells g (x # xs) j))"
    if "block m1 b = Some (sb_cells (Suc g) xs j)" for b g j m1
  proof -
    have "block m1 b = Some (replicate g Raw @ Raw # (map Live xs @ replicate j Raw))"
      using that by (simp add: sb_cells_def replicate_app_Cons_same)
    from construct_mid [OF this, of g x] show ?thesis by (simp add: sb_cells_def)
  qed
  show ?thesis
  proof (cases f)
    case (Suc g)
    from assms(1) Suc obtain b where v: "s = sb_view b (Suc g) (length xs) k"
      and b: "block m b = Some (sb_cells (Suc g) xs k)"
      by (auto elim: sb_rep_cases)
    have "sb_rep (set_block m b (sb_cells g (x # xs) k)) (sb_view b g (length (x # xs)) k) g (x # xs) k"
      using b by (intro sb_rep_view) (auto simp: mem_simps dest: block_less)
    moreover have "set_valid_size (Ptr b g) (Suc (length xs)) s = sb_view b g (length (x # xs)) k"
      by (simp add: v sb_layout)
    ultimately have "sb_emplace_front x s m =
        Some (sb_view b g (length (x # xs)) k, set_block m b (sb_cells g (x # xs) k))"
      "sb_rep (set_block m b (sb_cells g (x # xs) k)) (sb_view b g (length (x # xs)) k) g (x # xs) k"
      using step [OF b] v by (simp_all add: sb_emplace_front_def)
    moreover have "owner_step (sb_own s) (sb_own (sb_view b g (length (x # xs)) k)) m
        (set_block m b (sb_cells g (x # xs) k))"
      by (simp add: v)
    ultimately show ?thesis by blast
  next
    case 0
    then have k: "k = 0" using assms by simp
    define c where "c = max (2 * (f + length xs + k)) 1"
    define g where "g = (c + 3) div 4 - 1"
    have g: "(c + 3) div 4 = Suc g" and le: "Suc g + length xs \<le> c" and c0: "0 < c"
      using k 0 by (auto simp: c_def g_def)
    let ?j = "c - Suc g - length xs"
    obtain m1 m2 m3 where t:
      "sb_new c (Suc g) m = Some (sb_view (length m) (Suc g) 0 (c - Suc g), m1)"
      "construct_at_end_move (sb_begin s) (sb_end s) (sb_view (length m) (Suc g) 0 (c - Suc g)) m1 =
        Some (sb_view (length m) (Suc g) (length xs) ?j, m2)"
      "sb_delete s m2 = Some m3"
      "sb_rep m3 (sb_view (length m) (Suc g) (length xs) ?j) (Suc g) xs ?j"
      "owner_step (sb_own s) {length m} m m3"
      by (rule sb_transfer [OF assms(1) le c0])
    then have b: "block m3 (length m) = Some (sb_cells (Suc g) xs ?j)"
      by (auto elim!: sb_rep_cases simp: sb_view_def sb_empty_layout_def)
    let ?m4 = "set_block m3 (length m) (sb_cells g (x # xs) ?j)"
    have r: "sb_rep ?m4 (sb_view (length m) g (length (x # xs)) ?j) g (x # xs) ?j"
      using b by (intro sb_rep_view) (auto simp: mem_simps dest: block_less)
    have o4: "owner_step (sb_own s) {length m} m ?m4"
      by (rule owner_step_trans [OF t(5)]) simp
    have "set_valid_size (psub (Ptr (length m) (Suc g)) 1) (length xs + 1) (sb_view (length m) (Suc g) (length xs) ?j) =
        sb_view (length m) g (length (x # xs)) ?j"
      by (auto simp: sb_layout)
    moreover have "max (2 * length xs) (Suc 0) = c" by (simp add: c_def 0 k)
    ultimately
    have "sb_emplace_front x s m = Some (sb_view (length m) g (length (x # xs)) ?j, ?m4)"
      using t(1,2,3) step [OF b] sb_rep_sizes [OF assms(1)] 0 k g
      by (simp add: sb_emplace_front_def Let_def)
    moreover have "owner_step (sb_own s) (sb_own (sb_view (length m) g (length (x # xs)) ?j)) m ?m4"
      using o4 by simp
    ultimately show ?thesis using r by blast
  qed
qed

text \<open>\<open>emplace_back\<close> with room at the back.\<close>

lemma sb_emplace_back_room:
  assumes "sb_rep m s f xs (Suc k)"
  shows "\<exists>s' m'. sb_emplace_back x s m = Some (s', m') \<and>
    sb_rep m' s' f (xs @ [x]) k \<and> owner_step (sb_own s) (sb_own s') m m' \<and> sb_own s' = sb_own s"
proof -
  from assms obtain b where v: "s = sb_view b f (length xs) (Suc k)"
    and b: "block m b = Some (sb_cells f xs (Suc k))"
    by (auto elim: sb_rep_cases)
  let ?m = "set_block m b (sb_cells f (xs @ [x]) k)"
  have "sb_rep ?m (sb_view b f (length (xs @ [x])) k) f (xs @ [x]) k"
    using b by (intro sb_rep_view) (auto simp: mem_simps dest: block_less)
  with sb_construct_view [OF b, of x] v show ?thesis by (auto simp: sb_emplace_back_def)
qed

text \<open>
  With no room at either end the elements move to a new block, and the element is then built
  through the end pointer of the old one: the pointer is null or its block is gone.
\<close>

lemma sb_emplace_back_full:
  assumes "sb_rep m s 0 xs 0"
  shows "sb_emplace_back x s m = None"
proof -
  let ?c = "max (2 * (0 + length xs + 0)) 1"
  obtain m1 m2 m3 where t:
    "sb_new ?c (?c div 4) m = Some (sb_view (length m) (?c div 4) 0 (?c - ?c div 4), m1)"
    "construct_at_end_move (sb_begin s) (sb_end s) (sb_view (length m) (?c div 4) 0 (?c - ?c div 4)) m1 =
      Some (sb_view (length m) (?c div 4) (length xs) (?c - ?c div 4 - length xs), m2)"
    "sb_delete s m2 = Some m3" "owner_step (sb_own s) {length m} m m3"
    by (rule sb_transfer [OF assms, of "?c div 4" ?c]) auto
  have "construct x (sb_end s) m3 = None"
    using assms
  proof (cases rule: sb_rep_cases)
    case (view b)
    then have "block m3 b = None"
      using t(4) by (auto simp: owner_step_def dest: block_less)
    then show ?thesis using view by (simp add: construct_def)
  qed (simp add: construct_def)
  with t sb_rep_sizes [OF assms] show ?thesis by (simp add: sb_emplace_back_def Let_def)
qed

text \<open>
  The paths that shift the elements into the spare room of the other end assign to raw storage,
  which holds no object yet.
\<close>

lemma sb_emplace_back_shift:
  assumes "sb_rep m s (Suc f) (x0 # xs) 0"
  shows "sb_emplace_back x s m = None"
proof -
  from assms obtain b where v: "s = sb_view b (Suc f) (Suc (length xs)) 0"
    and b: "block m b = Some (sb_cells (Suc f) (x0 # xs) 0)"
    by (auto elim: sb_rep_cases)
  let ?d = "(Suc f + 1) div 2"
  have "block m b = Some (replicate (Suc f) Raw @ Live x0 # map Live xs)"
    using b by (simp add: sb_cells_def)
  from move_from_mid [OF this, of "Suc f"]
  have "move_from (Ptr b (Suc f)) m = Some (x0, set_block m b (replicate (Suc f) Raw @ Husk # map Live xs))"
    by simp
  moreover have "assign_at x0 (Ptr b (Suc f - ?d)) (set_block m b (replicate (Suc f) Raw @ Husk # map Live xs)) = None"
  proof -
    have "Suc f - ?d < Suc f" by simp
    then have "(replicate (Suc f) Raw @ Husk # map Live xs) ! (Suc f - ?d) = Raw"
      by (metis length_replicate nth_append nth_replicate)
    then show ?thesis using b by (auto simp: assign_at_def mem_simps simp del: replicate.simps dest: block_less)
  qed
  ultimately show ?thesis using v
    by (simp add: sb_emplace_back_def Let_def del: replicate.simps)
qed

section \<open>Moving a buffer\<close>

lemma sb_move_new_eq: "sb_move_new c = (c, sb_empty_layout)"
  by (simp add: sb_move_new_def copy_without_alloc_def sb_reset_def sb_empty_layout_def)

lemma sb_move_new_alloc_view: "sb_move_new_alloc (sb_view b f n k) = Some (sb_view b f n k, sb_empty_layout)"
  by (simp add: sb_move_new_alloc_def sb_reset_def sb_layout)

lemma sb_rep_other:
  "sb_rep m c f xs k \<Longrightarrow> owner_step B C m m' \<Longrightarrow> sb_own c \<inter> (B \<union> C) = {} \<Longrightarrow> sb_rep m' c f xs k"
  by (erule sb_rep_cases) (auto simp: sb_rep_def owner_step_def)

text \<open>
  Move assignment clears the target, gives its block up in \<open>shrink_to_fit\<close> and takes the
  source's: the source is left empty.
\<close>

lemma sb_move_assign_rep:
  assumes s: "sb_rep m s f xs k" and c: "sb_rep m c g ys j" and disj: "sb_own s \<inter> sb_own c = {}"
  shows "\<exists>s' c' m'. sb_move_assign c s m = Some (s', c', m') \<and>
    sb_rep m' s' g ys j \<and> sb_rep m' c' 0 [] 0 \<and>
    (f + length xs + k > 0 \<or> s = sb_empty_layout \<longrightarrow> owner_step (sb_own s \<union> sb_own c) (sb_own s') m m')"
proof -
  from sb_clear_rep [OF s] obtain s1 m1 where 1: "sb_clear s m = Some (s1, m1)"
    "sb_own s1 = sb_own s" "sb_rep m1 s1 f [] (length xs + k)" "owner_step (sb_own s) (sb_own s) m m1"
    by blast
  have s1: "s1 = sb_empty_layout" if "s = sb_empty_layout"
    using that 1(1) by (simp add: sb_clear_def destruct_at_end_def)
  have empty: "sb_shrink_to_fit sb_empty_layout m1 = Some (sb_empty_layout, m1)"
    by (simp add: sb_shrink_to_fit_def)
  note sizes = sb_rep_sizes [OF 1(3)]
  have eq: "copy_without_alloc c t = c" "sb_reset c = sb_empty_layout" for t
    by (simp_all add: copy_without_alloc_def sb_reset_def sb_empty_layout_def)
  from sb_delete_rep [OF 1(3)] obtain m2 where 2: "sb_delete s1 m1 = Some m2" "owner_step (sb_own s) {} m1 m2"
    using 1(2) by auto
  have pd: "pdiff (sb_end s1) (sb_begin s1) = Some 0"
    using sizes(1) by (simp add: sb_size_def)
  have step: "owner_step (sb_own s \<union> sb_own c) (sb_own c) m m'" if "owner_step (sb_own s) {} m m'" for m'
    using that disj by (auto simp: owner_step_def)
  show ?thesis
  proof (cases "f + (length xs + k) = 0")
    case True
    have "sb_move_assign c s m = Some (c, sb_empty_layout, m1)"
      using 1(1) True sizes by (simp add: sb_move_assign_def sb_shrink_to_fit_def eq)
    moreover have "sb_rep m1 c g ys j"
      by (rule sb_rep_other [OF c 1(4)]) (use disj in auto)
    moreover have "owner_step (sb_own s \<union> sb_own c) (sb_own c) m m1" if "s = sb_empty_layout"
      using 1(4) that by (auto simp: owner_step_def)
    ultimately show ?thesis using True by (auto simp: sb_rep_def [of _ sb_empty_layout])
  next
    case False
    have "sb_shrink_to_fit s1 m1 = Some (sb_empty_layout, m2)"
      using False sizes 2(1) pd
      by (simp add: sb_shrink_to_fit_def sb_new_zero construct_at_end_move_def)
    then have "sb_move_assign c s m = Some (c, sb_empty_layout, m2)"
      using 1(1) by (simp add: sb_move_assign_def eq)
    moreover have o2: "owner_step (sb_own s) {} m m2"
      by (rule owner_step_trans [OF 1(4) 2(2)])
    moreover have "sb_rep m2 c g ys j"
      by (rule sb_rep_other [OF c o2]) (use disj in auto)
    ultimately show ?thesis using step [OF o2] by (auto simp: sb_rep_def [of _ sb_empty_layout])
  qed
qed

section \<open>The size layout against the pointer layout\<close>

definition z_view :: "nat \<Rightarrow> nat \<Rightarrow> nat \<Rightarrow> nat \<Rightarrow> zbuf" where
  "z_view b f n k = \<lparr>z_front = Ptr b 0, z_begin = Ptr b f, z_size = n, z_cap = f + n + k\<rparr>"

lemma z_view_simps [simp]:
  "z_end (z_view b f n k) = Ptr b (f + n)" "z_front_spare (z_view b f n k) = Some f"
  "z_back_spare (z_view b f n k) = Some k"
  by (simp_all add: z_view_def z_end_def z_front_spare_def z_back_spare_def)

lemma z_set_sentinel_view:
  "n' \<le> n + k \<Longrightarrow> z_set_sentinel (Ptr b (f + n')) (z_view b f n k) = Some (z_view b f n' (n + k - n'))"
  by (auto simp: z_set_sentinel_def z_view_def z_end_def)

lemma z_set_valid_range_view:
  assumes "f' + n' \<le> f + n + k" "f' \<le> f + n"
  shows "z_set_valid_range (Ptr b f') (Ptr b (f' + n')) (z_view b f n k) =
    Some (z_view b f' n' (f + n + k - (f' + n')))"
  using assms by (auto simp: z_set_valid_range_def z_set_sentinel_def z_view_def z_end_def)

text \<open>
  \<open>set_capacity(pointer)\<close> of the size layout measures from \<open>begin_\<close>: given the end of the block
  it forgets the front spare that \<open>back_spare\<close> then subtracts a second time.
\<close>

lemma z_set_capacity_view:
  "z_set_capacity (Ptr b (f + n + k)) (z_view b f n k) =
     Some \<lparr>z_front = Ptr b 0, z_begin = Ptr b f, z_size = n, z_cap = n + k\<rparr>"
  by (simp add: z_set_capacity_def z_view_def)

section \<open>The back of the buffer\<close>

text \<open>\<open>split_buffer::emplace_back\<close> appends an element only when the buffer has room at the
  back: without it, the path that shifts the elements towards the front assigns to storage that
  holds no object, and the path that moves them to a new block builds the element through the end
  pointer of the block it has just released. Both are undefined.\<close>

lemma emplace_back_needs_room:
  assumes "sb_rep m s f xs k" "xs \<noteq> [] \<or> f = 0"
  shows "if 0 < k then \<exists>s' m'. sb_emplace_back x s m = Some (s', m') \<and> sb_rep m' s' f (xs @ [x]) (k - 1)
    else sb_emplace_back x s m = None"
proof (cases k)
  case 0
  show ?thesis
  proof (cases f)
    case 0
    with \<open>k = 0\<close> sb_emplace_back_full assms(1) show ?thesis by simp
  next
    case (Suc g)
    with assms(2) obtain y ys where "xs = y # ys" by (cases xs) auto
    with Suc \<open>k = 0\<close> sb_emplace_back_shift assms(1) show ?thesis by simp
  qed
next
  case (Suc j)
  with sb_emplace_back_room [of m s f xs j x] assms(1) show ?thesis by auto
qed

theorem emplace_back_needs_room_witness:
  "if 0 < (0 :: nat) then \<exists>s' m'. sb_emplace_back 6 (sb_view 0 1 1 0) [Some [Raw, Live (5 :: int)]] = Some (s', m') \<and>
      sb_rep m' s' 1 ([5] @ [6]) (0 - 1)
    else sb_emplace_back 6 (sb_view 0 1 1 0) [Some [Raw, Live (5 :: int)]] = None"
proof (rule emplace_back_needs_room)
  show "sb_rep [Some [Raw, Live (5 :: int)]] (sb_view 0 1 1 0) 1 [5] 0"
    using sb_rep_view [of "[Some [Raw, Live (5 :: int)]]" 0 1 "[5]" 0] by (simp add: block_def sb_cells_def)
qed simp

end
