(* ===== verification/Vector_Correct.thy ===== *)
theory Vector_Correct
  imports Vector Split_Buffer_Correct
begin

text \<open>
  What the operations of \<open>Vector\<close> do to the sequence they hold: \<open>vec_rep m v xs k\<close> reads the
  elements \<open>xs\<close> and the spare capacity \<open>k\<close> off the memory, and \<open>vec_step\<close> says that an
  operation ends with the elements \<open>ys\<close>, touched no block of another object and leaked none.
\<close>

section \<open>Reading a vector off the memory\<close>

definition vview :: "nat \<Rightarrow> nat \<Rightarrow> nat \<Rightarrow> vec" where
  "vview b n k = \<lparr>v_begin = Ptr b 0, v_end = Ptr b n, v_cap = Ptr b (n + k)\<rparr>"

definition vec_rep :: "'a mem \<Rightarrow> vec \<Rightarrow> 'a list \<Rightarrow> nat \<Rightarrow> bool" where
  "vec_rep m v xs k \<longleftrightarrow>
    v = v_empty_layout \<and> xs = [] \<and> k = 0 \<or>
    (\<exists>b. v = vview b (length xs) k \<and> block m b = Some (sb_cells 0 xs k) \<and> 0 < length xs + k)"

definition v_own :: "vec \<Rightarrow> nat set" where
  "v_own v = (case v_begin v of Ptr b i \<Rightarrow> {b} | _ \<Rightarrow> {})"

definition vec_step :: "'a mem \<Rightarrow> vec \<Rightarrow> 'a list \<Rightarrow> nat \<Rightarrow> vec \<Rightarrow> 'a mem \<Rightarrow> bool" where
  "vec_step m v ys k v' m' \<longleftrightarrow> vec_rep m' v' ys k \<and> owner_step (v_own v) (v_own v') m m'"

lemma vview_simps [simp]:
  "v_size (vview b n k) = Some n" "v_capacity (vview b n k) = Some (n + k)"
  "v_begin (vview b n k) = Ptr b 0" "v_end (vview b n k) = Ptr b n" "v_cap (vview b n k) = Ptr b (n + k)"
  "v_own (vview b n k) = {b}"
  by (simp_all add: vview_def v_size_def v_capacity_def v_own_def)

lemma v_empty_layout_simps [simp]:
  "v_size v_empty_layout = Some 0" "v_capacity v_empty_layout = Some 0"
  "v_begin v_empty_layout = Null" "v_end v_empty_layout = Null" "v_cap v_empty_layout = Null"
  "v_own v_empty_layout = {}"
  by (simp_all add: v_empty_layout_def v_size_def v_capacity_def v_own_def)

lemma v_empty_update [simp]: "v_empty_layout\<lparr>v_end := Null\<rparr> = v_empty_layout"
  by (simp add: v_empty_layout_def)

lemma vview_update [simp]: "n' \<le> n + k \<Longrightarrow> vview b n k \<lparr>v_end := Ptr b n'\<rparr> = vview b n' (n + k - n')"
  by (simp add: vview_def)

lemma sb_cells_0 [simp]: "sb_cells 0 xs k = map Live xs @ replicate k Raw"
  by (simp add: sb_cells_def)

lemma vec_rep_cases [consumes 1, case_names empty view]:
  assumes "vec_rep m v xs k"
  obtains "v = v_empty_layout" "xs = []" "k = 0"
  | b where "v = vview b (length xs) k" "block m b = Some (map Live xs @ replicate k Raw)"
    "0 < length xs + k" "b < length m"
  using assms by (auto simp: vec_rep_def dest: block_less)

lemma vec_rep_view:
  "block m b = Some (map Live xs @ replicate k Raw) \<Longrightarrow> n = length xs \<Longrightarrow> 0 < n + k \<Longrightarrow>
   vec_rep m (vview b n k) xs k"
  by (auto simp: vec_rep_def)

lemma vec_rep_sizes:
  assumes "vec_rep m v xs k"
  shows "v_size v = Some (length xs)" "v_capacity v = Some (length xs + k)"
    "pdiff (v_cap v) (v_end v) = Some k" "pdiff (v_end v) (v_begin v) = Some (length xs)"
    "plt (v_end v) (v_cap v) = Some (0 < k)" "v_end v = padd (v_begin v) (length xs)"
    "v_cap v = padd (v_begin v) (length xs + k)"
  using assms by (auto elim!: vec_rep_cases)

lemma vec_rep_invariants: "vec_rep m v xs k \<Longrightarrow> v_invariants v"
  by (erule vec_rep_cases) (auto simp: v_invariants_def)

lemma vec_rep_empty [simp]: "vec_rep m v_empty_layout [] 0"
  by (simp add: vec_rep_def)

lemma vec_rep_owner:
  "vec_rep m c xs k \<Longrightarrow> owner_step B C m m' \<Longrightarrow> v_own c \<inter> (B \<union> C) = {} \<Longrightarrow> vec_rep m' c xs k"
  by (erule vec_rep_cases) (auto simp: vec_rep_def owner_step_def)

lemma vec_step_trans:
  "vec_step m v xs k v1 m1 \<Longrightarrow> vec_step m1 v1 ys j v2 m2 \<Longrightarrow> vec_step m v ys j v2 m2"
  by (auto simp: vec_step_def intro: owner_step_trans)

lemma vec_step_refl: "vec_rep m v xs k \<Longrightarrow> vec_step m v xs k v m"
  by (simp add: vec_step_def)

text \<open>Writing the block of a vector in place.\<close>

lemma vec_step_in_place:
  assumes "block m b = Some cs" "n = length xs" "0 < n + k"
  shows "vec_step m (vview b n' k') xs k (vview b n k) (set_block m b (map Live xs @ replicate k Raw))"
  using assms by (auto simp: vec_step_def mem_simps intro!: vec_rep_view dest: block_less)

section \<open>Element access\<close>

lemma vec_read:
  assumes "vec_rep m v xs k" "i < length xs"
  shows "read_at m (padd (v_begin v) i) = Some (xs ! i)"
  using assms by (auto elim!: vec_rep_cases simp: read_at_def nth_append)

lemma vec_values:
  assumes "vec_rep m v xs k"
  shows "v_values v m = Some xs"
  using assms
proof (cases rule: vec_rep_cases)
  case (view b)
  with read_range_ok [of m b "[]" xs "replicate k Raw" 0] show ?thesis by (simp add: v_values_def)
qed (simp add: v_values_def)

section \<open>Storage\<close>

lemma v_destruct_at_end_step:
  assumes "vec_rep m v (xs @ ys) k"
  shows "\<exists>v' m'. v_destruct_at_end (padd (v_begin v) (length xs)) v m = Some (v', m') \<and>
    vec_step m v xs (length ys + k) v' m' \<and> v_begin v' = v_begin v"
  using assms
proof (cases rule: vec_rep_cases)
  case (view b)
  have "destroy_back (length (map Live ys :: 'a cell list)) (Ptr b (length xs + length ys)) m =
      Some (set_block m b (map Live xs @ replicate (length (map Live ys :: 'a cell list)) Raw @ replicate k Raw))"
    by (rule destroy_back_ok) (use view in auto)
  then show ?thesis using view
      vec_step_in_place [of m b _ "length xs" xs "length ys + k" "length xs + length ys" k]
    by (auto simp: v_destruct_at_end_def replicate_add)
qed (auto simp: v_destruct_at_end_def vec_step_def)

lemma v_clear_step:
  "vec_rep m v xs k \<Longrightarrow> \<exists>v' m'. v_clear v m = Some (v', m') \<and> vec_step m v [] (length xs + k) v' m' \<and>
     v_begin v' = v_begin v"
  using v_destruct_at_end_step [of m v "[]" xs k] by (simp add: v_clear_def)

lemma v_delete_step:
  assumes "vec_rep m v xs k"
  shows "\<exists>m'. v_delete v m = Some m' \<and> owner_step (v_own v) {} m m'"
  using assms
proof (cases rule: vec_rep_cases)
  case (view b)
  from v_clear_step [OF assms] obtain v' m' where
    1: "v_clear v m = Some (v', m')" "vec_rep m' v' [] (length xs + k)" "owner_step {b} (v_own v') m m'"
       "v_begin v' = Ptr b 0"
    using view by (auto simp: vec_step_def)
  from 1(2) have "v' = vview b 0 (length xs + k)" "block m' b = Some (replicate (length xs + k) Raw)"
    using 1(4) by (auto elim!: vec_rep_cases simp: vview_def v_empty_layout_def)
  with 1 view show ?thesis
    by (auto simp: v_delete_def owner_step_def mem_simps)
qed (simp add: v_delete_def)

lemma v_vdeallocate_step:
  assumes "vec_rep m v xs k"
  shows "\<exists>m'. v_vdeallocate v m = Some (v_empty_layout, m') \<and> owner_step (v_own v) {} m m'"
proof -
  from v_delete_step [OF assms] obtain m' where "v_delete v m = Some m'" "owner_step (v_own v) {} m m'"
    by blast
  moreover have "v_begin v = Null \<Longrightarrow> v = v_empty_layout"
    using assms by (auto elim!: vec_rep_cases)
  ultimately show ?thesis
    by (cases "v_begin v = Null") (auto simp: v_delete_def v_vdeallocate_def split: Option.bind_splits)
qed

lemma v_construct_at_end_step:
  assumes "vec_rep m v xs k" "length ys \<le> k"
  shows "\<exists>v' m'. v_construct_at_end ys v m = Some (v', m') \<and>
    vec_step m v (xs @ ys) (k - length ys) v' m' \<and> v_begin v' = v_begin v"
  using assms(1)
proof (cases rule: vec_rep_cases)
  case (view b)
  have "block m b = Some (map Live xs @ replicate (length ys) Raw @ replicate (k - length ys) Raw)"
    using view assms(2) by (simp flip: replicate_add)
  from uninitialized_copy_ok [OF this, of "length xs"] view assms(2)
    vec_step_in_place [of m b _ "length xs + length ys" "xs @ ys" "k - length ys" "length xs" k]
  show ?thesis by (auto simp: v_construct_at_end_def)
qed (use assms in \<open>auto simp: v_construct_at_end_def vec_step_def\<close>)

lemma v_construct_at_end_fill_eq: "v_construct_at_end_fill n x = v_construct_at_end (replicate n x)"
  by (simp add: v_construct_at_end_fill_def v_construct_at_end_def construct_fill_eq fun_eq_iff)

text \<open>The growth policy: never below the request, never above \<open>max_size()\<close>, and at least double.\<close>

lemma v_recommend_ok:
  assumes "vec_rep m v xs k"
  shows "v_recommend ms n v =
    Some (if n > ms then Inl Length_Error
          else Inr (if length xs + k \<ge> ms div 2 then ms else max (2 * (length xs + k)) n))"
  using vec_rep_sizes [OF assms] by (simp add: v_recommend_def)

definition grown :: "nat \<Rightarrow> nat \<Rightarrow> nat \<Rightarrow> nat" where
  "grown ms cap n = (if cap \<ge> ms div 2 then ms else max (2 * cap) n)"

lemma grown_ge: "n \<le> ms \<Longrightarrow> n \<le> grown ms cap n"
  by (simp add: grown_def)

lemma v_recommend_grown:
  "vec_rep m v xs k \<Longrightarrow> n \<le> ms \<Longrightarrow> v_recommend ms n v = Some (Inr (grown ms (length xs + k) n))"
  by (simp add: v_recommend_ok grown_def)

lemma v_recommend_error: "n > ms \<Longrightarrow> v_recommend ms n v = Some (Inl Length_Error)"
  by (simp add: v_recommend_def)

lemma v_vallocate_ok:
  "0 < n \<Longrightarrow> n \<le> ms \<Longrightarrow> v_vallocate ms n v m =
     Some (Inr (), vview (length m) 0 n, m @ [Some (replicate n Raw)]) \<and>
     vec_rep (m @ [Some (replicate n Raw)]) (vview (length m) 0 n) [] n \<and>
     owner_step {} {length m} m (m @ [Some (replicate n Raw)])"
  by (cases v) (auto simp: v_vallocate_def allocate_at_least_def vview_def vec_rep_def mem_simps owner_step_def)

section \<open>Reallocation\<close>

text \<open>
  Both forms of \<open>swap_out_circular_buffer\<close>: the elements end up in the block of the buffer around
  those it holds, the buffer is left with the old block, cleared, and its destructor releases it.
\<close>

lemma v_swap_out_at_step:
  assumes v: "vec_rep m v (hs @ ts) k" and c: "block m c = Some (sb_cells (length hs) ys j)"
    and "c \<notin> v_own v" "length ts \<le> j" "0 < length (hs @ ys @ ts) + (j - length ts)"
  obtains sb m1 m2 where
    "v_swap_out_at v (sb_view c (length hs) (length ys) j) (padd (v_begin v) (length hs)) m =
      Some (Ptr c (length hs), vview c (length (hs @ ys @ ts)) (j - length ts), sb, m1)"
    "sb_delete sb m1 = Some m2"
    "vec_rep m2 (vview c (length (hs @ ys @ ts)) (j - length ts)) (hs @ ys @ ts) (j - length ts)"
    "owner_step (insert c (v_own v)) {c} m m2"
  using v
proof (cases rule: vec_rep_cases)
  case empty
  have "v_swap_out_at v (sb_view c 0 (length ys) j) Null m =
      Some (Ptr c 0, vview c (length ys) j, sb_empty_layout, m)"
    using empty by (simp add: v_swap_out_at_def relocate_def v_swap_layouts_def vview_def)
      (simp add: sb_layout)
  then show ?thesis
    using empty assms by (intro that [of sb_empty_layout m m]) (auto simp: sb_delete_empty intro!: vec_rep_view)
next
  case (view b)
  have bc: "b \<noteq> c" using view assms(3) by auto
  let ?E = "replicate (j - length ts) Raw"
  let ?m1 = "set_block (set_block m b (map Live hs @ replicate (length ts) Raw @ replicate k Raw)) c
    ((replicate (length hs) Raw @ map Live ys) @ map Live ts @ ?E)"
  let ?m2 = "set_block (set_block ?m1 b ([] @ replicate (length hs) Raw @ replicate (length ts) Raw @ replicate k Raw)) c
    ([] @ map Live hs @ map Live ys @ map Live ts @ ?E)"
  have 1: "relocate (length ts) (Ptr b (length hs)) (Ptr c (length hs + length ys)) m = Some ?m1"
    by (rule relocate_ok) (use view c bc assms in \<open>auto simp: sb_cells_def simp flip: replicate_add\<close>)
  have 2: "relocate (length hs) (Ptr b 0) (Ptr c 0) ?m1 = Some ?m2"
    by (rule relocate_ok) (use view c bc assms in \<open>auto simp: mem_simps dest: block_less\<close>)
  let ?sb = "sb_view b 0 0 (length (hs @ ts) + k)"
  have 3: "v_swap_out_at v (sb_view c (length hs) (length ys) j) (padd (v_begin v) (length hs)) m =
      Some (Ptr c (length hs), vview c (length (hs @ ys @ ts)) (j - length ts), ?sb, ?m2)"
    using view(1) 1 2 assms(4)
    by (simp add: v_swap_out_at_def v_swap_layouts_def add.assoc)
      (simp add: sb_layout vview_def)
  have 4: "sb_delete ?sb ?m2 = Some (drop_block (set_block ?m2 b (replicate (0 + 0 + (length (hs @ ts) + k)) Raw)) b)"
    by (rule sb_delete_view [of _ _ _ "[]"]) (use view bc in \<open>auto simp: mem_simps replicate_add\<close>)
  show ?thesis
    using 3 4 view bc c assms(5)
    by (intro that) (auto simp: mem_simps owner_step_def intro!: vec_rep_view dest: block_less)
qed

lemma v_swap_out_step:
  assumes v: "vec_rep m v xs k" and c: "block m c = Some (sb_cells (length xs) ys j)"
    and "c \<notin> v_own v" "0 < length (xs @ ys) + j"
  obtains sb m1 m2 where
    "v_swap_out v (sb_view c (length xs) (length ys) j) m = Some (vview c (length (xs @ ys)) j, sb, m1)"
    "sb_delete sb m1 = Some m2" "vec_rep m2 (vview c (length (xs @ ys)) j) (xs @ ys) j"
    "owner_step (insert c (v_own v)) {c} m m2"
proof -
  have "v_swap_out v (sb_view c (length xs) (length ys) j) m =
      map_option (\<lambda>(q, r). r)
        (v_swap_out_at v (sb_view c (length xs) (length ys) j) (padd (v_begin v) (length xs)) m)"
    using v
  proof (cases rule: vec_rep_cases)
    case empty
    then show ?thesis
      by (simp add: v_swap_out_def v_swap_out_at_def relocate_def Let_def split: prod.splits)
  next
    case (view b)
    have "vview b (length xs) k\<lparr>v_end := Ptr b 0\<rparr> = vview b 0 (length xs + k)" by (simp add: vview_def)
    with view(1) show ?thesis
      by (cases "relocate (length xs) (Ptr b 0) (Ptr c 0) m")
        (simp_all add: v_swap_out_def v_swap_out_at_def relocate_def [of 0] Let_def split: prod.splits)
  qed
  moreover obtain sb m1 m2 where
    "v_swap_out_at v (sb_view c (length xs) (length ys) j) (padd (v_begin v) (length xs)) m =
      Some (Ptr c (length xs), vview c (length (xs @ ys @ [])) (j - length []), sb, m1)"
    "sb_delete sb m1 = Some m2"
    "vec_rep m2 (vview c (length (xs @ ys @ [])) (j - length [])) (xs @ ys @ []) (j - length [])"
    "owner_step (insert c (v_own v)) {c} m m2"
    by (rule v_swap_out_at_step [of m v xs "[]" k c ys j]) (use assms in simp_all)
  ultimately show ?thesis by (intro that [of sb m1 m2]) simp_all
qed

section \<open>Growth at the end\<close>

text \<open>
  An argument denotes \<open>x\<close> for a vector that holds \<open>xs\<close>: it is another object's value, or the
  address of an element.
\<close>

definition arg_denotes :: "vec \<Rightarrow> 'a list \<Rightarrow> 'a arg \<Rightarrow> 'a \<Rightarrow> bool" where
  "arg_denotes v xs x a \<longleftrightarrow>
    x = Ext a \<or> (\<exists>i. x = At (padd (v_begin v) i) \<and> i < length xs \<and> xs ! i = a)"

lemma read_arg_denotes: "arg_denotes v xs x a \<Longrightarrow> vec_rep m v xs k \<Longrightarrow> read_arg m x = Some a"
  by (auto simp: arg_denotes_def vec_read)

text \<open>A new buffer behind a vector: its block is fresh, and the vector still reads the same.\<close>

lemma sb_new_behind:
  assumes "vec_rep m v xs k" "start \<le> cap" "0 < cap"
  shows "sb_new cap start m = Some (sb_view (length m) start 0 (cap - start), m @ [Some (sb_cells start [] (cap - start))])"
    "vec_rep (m @ [Some (sb_cells start [] (cap - start))]) v xs k" "length m \<notin> v_own v"
proof -
  from assms(2,3) show "sb_new cap start m =
      Some (sb_view (length m) start 0 (cap - start), m @ [Some (sb_cells start [] (cap - start))])"
    by (rule sb_new_view)
  from assms(1) show "vec_rep (m @ [Some (sb_cells start [] (cap - start))]) v xs k"
    by (cases rule: vec_rep_cases) (simp, auto simp: mem_simps intro!: vec_rep_view)
  from assms(1) show "length m \<notin> v_own v"
    by (auto elim: vec_rep_cases)
qed

lemma vec_step_new_block:
  assumes "owner_step (insert c (v_own v)) {c} m1 m2" "c \<notin> v_own v" "block m c = None"
    and "\<And>b. b \<noteq> c \<Longrightarrow> block m1 b = block m b" "vec_rep m2 (vview c n k) ys k"
  shows "vec_step m v ys k (vview c n k) m2"
  using assms by (auto simp: vec_step_def owner_step_def)

text \<open>The reallocation that \<open>append\<close>, \<open>reserve\<close> and \<open>emplace_back\<close> share: a buffer of
  capacity \<open>c\<close> with \<open>ys\<close> behind the room for the elements.\<close>

lemma v_regrow:
  assumes v: "vec_rep m v xs k" and "length (xs @ ys) \<le> c" "0 < c"
    and m1: "m1 = (m @ [Some (sb_cells (length xs) [] (c - length xs))])"
  obtains m2 sb m3 m4 where
    "sb_new c (length xs) m = Some (sb_view (length m) (length xs) 0 (c - length xs), m1)"
    "vec_rep m1 v xs k"
    "construct_at_end_with_size ys (sb_view (length m) (length xs) 0 (c - length xs)) m1 =
      Some (sb_view (length m) (length xs) (length ys) (c - length (xs @ ys)), m2)"
    "m2 = set_block m1 (length m) (sb_cells (length xs) ys (c - length (xs @ ys)))"
    "v_swap_out v (sb_view (length m) (length xs) (length ys) (c - length (xs @ ys))) m2 =
      Some (vview (length m) (length (xs @ ys)) (c - length (xs @ ys)), sb, m3)"
    "sb_delete sb m3 = Some m4"
    "vec_step m v (xs @ ys) (c - length (xs @ ys)) (vview (length m) (length (xs @ ys)) (c - length (xs @ ys))) m4"
proof -
  note new = sb_new_behind [OF v, of "length xs" c]
  let ?j = "c - length (xs @ ys)"
  let ?m2 = "set_block m1 (length m) (sb_cells (length xs) ys ?j)"
  have 1: "construct_at_end_with_size ys (sb_view (length m) (length xs) (length ([] :: 'a list)) (c - length xs)) m1 =
      Some (sb_view (length m) (length xs) (length ([] @ ys)) (c - length xs - length ys),
        set_block m1 (length m) (sb_cells (length xs) ([] @ ys) (c - length xs - length ys)))"
    by (rule construct_at_end_with_size_view) (use assms in \<open>auto simp: mem_simps\<close>)
  have vm1: "vec_rep m1 v xs k" and c: "length m \<notin> v_own v" using new assms by auto
  have vm2: "vec_rep ?m2 v xs k"
    by (rule vec_rep_owner [OF vm1, of "{length m}" "{length m}"]) (use c in auto)
  have b: "block ?m2 (length m) = Some (sb_cells (length xs) ys ?j)"
    by (simp add: mem_simps m1)
  obtain sb m3 m4 where
    2: "v_swap_out v (sb_view (length m) (length xs) (length ys) ?j) ?m2 =
      Some (vview (length m) (length (xs @ ys)) ?j, sb, m3)" "sb_delete sb m3 = Some m4"
      "vec_rep m4 (vview (length m) (length (xs @ ys)) ?j) (xs @ ys) ?j"
      "owner_step (insert (length m) (v_own v)) {length m} ?m2 m4"
    by (rule v_swap_out_step [OF vm2 b c]) (use assms in auto)
  have "vec_step m v (xs @ ys) ?j (vview (length m) (length (xs @ ys)) ?j) m4"
    by (rule vec_step_new_block [OF 2(4) c]) (use 2(3) in \<open>auto simp: m1 mem_simps\<close>)
  with 1 2 new assms vm1 show ?thesis by (intro that) (simp_all add: diff_diff_left)
qed

lemma v_append_fill_step:
  assumes v: "vec_rep m v xs k" and x: "arg_denotes v xs x a" and n: "0 < n"
  shows "if k < n \<and> length xs + n > ms then v_append_fill ms n x v m = Some (Inl Length_Error, v, m)
    else \<exists>v' m'. v_append_fill ms n x v m = Some (Inr (), v', m') \<and>
      vec_step m v (xs @ replicate n a) (if n \<le> k then k - n else grown ms (length xs + k) (length xs + n) - (length xs + n)) v' m'"
proof -
  note sizes = vec_rep_sizes [OF v]
  consider "n \<le> k" | "k < n" "length xs + n > ms" | "k < n" "length xs + n \<le> ms" by linarith
  then show ?thesis
  proof cases
    case 1
    from v_construct_at_end_step [OF v, of "replicate n a"] 1 obtain v' m' where
      "v_construct_at_end_fill n a v m = Some (v', m')" "vec_step m v (xs @ replicate n a) (k - n) v' m'"
      by (auto simp: v_construct_at_end_fill_eq)
    with 1 sizes read_arg_denotes [OF x v] show ?thesis by (simp add: v_append_fill_def)
  next
    case 2
    with sizes show ?thesis by (simp add: v_append_fill_def v_recommend_error)
  next
    case 3
    let ?c = "grown ms (length xs + k) (length xs + n)"
    let ?m1 = "m @ [Some (sb_cells (length xs) [] (?c - length xs))]"
    have c: "length xs + n \<le> ?c" using 3 by (intro grown_ge)
    obtain m2 sb m3 m4 where t:
      "sb_new ?c (length xs) m = Some (sb_view (length m) (length xs) 0 (?c - length xs), ?m1)"
      "vec_rep ?m1 v xs k"
      "construct_at_end_with_size (replicate n a) (sb_view (length m) (length xs) 0 (?c - length xs)) ?m1 =
        Some (sb_view (length m) (length xs) (length (replicate n a)) (?c - length (xs @ replicate n a)), m2)"
      "v_swap_out v (sb_view (length m) (length xs) (length (replicate n a)) (?c - length (xs @ replicate n a))) m2 =
        Some (vview (length m) (length (xs @ replicate n a)) (?c - length (xs @ replicate n a)), sb, m3)"
      "sb_delete sb m3 = Some m4"
      "vec_step m v (xs @ replicate n a) (?c - length (xs @ replicate n a))
        (vview (length m) (length (xs @ replicate n a)) (?c - length (xs @ replicate n a))) m4"
      by (rule v_regrow [OF v, of "replicate n a" ?c]) (use c n in auto)
    with 3 sizes v_recommend_grown [OF v 3(2)] read_arg_denotes [OF x t(2)] show ?thesis
      by (auto simp: v_append_fill_def construct_at_end_fill_eq)
  qed
qed

lemma v_reserve_step:
  assumes v: "vec_rep m v xs k"
  shows "if n \<le> length xs + k then v_reserve ms n v m = Some (Inr (), v, m)
    else if n > ms then v_reserve ms n v m = Some (Inl Length_Error, v, m)
    else \<exists>v' m'. v_reserve ms n v m = Some (Inr (), v', m') \<and> vec_step m v xs (n - length xs) v' m'"
proof -
  note sizes = vec_rep_sizes [OF v]
  consider "n \<le> length xs + k" | "length xs + k < n" "n > ms" | "length xs + k < n" "n \<le> ms" by linarith
  then show ?thesis
  proof cases
    case 3
    obtain m2 sb m3 m4 where t:
      "sb_new n (length xs) m = Some (sb_view (length m) (length xs) 0 (n - length xs),
        m @ [Some (sb_cells (length xs) [] (n - length xs))])"
      "m2 = set_block (m @ [Some (sb_cells (length xs) [] (n - length xs))]) (length m)
        (sb_cells (length xs) [] (n - length (xs @ [])))"
      "v_swap_out v (sb_view (length m) (length xs) (length ([] :: 'a list)) (n - length (xs @ []))) m2 =
        Some (vview (length m) (length (xs @ [])) (n - length (xs @ [])), sb, m3)"
      "sb_delete sb m3 = Some m4"
      "vec_step m v (xs @ []) (n - length (xs @ [])) (vview (length m) (length (xs @ [])) (n - length (xs @ []))) m4"
      by (rule v_regrow [OF v, of "[]" n]) (use 3 in auto)
    with 3 sizes show ?thesis by (auto simp: v_reserve_def)
  qed (use sizes in \<open>auto simp: v_reserve_def\<close>)
qed

lemma v_shrink_to_fit_step:
  assumes v: "vec_rep m v xs k"
  shows "\<exists>v' m'. v_shrink_to_fit v m = Some (v', m') \<and> vec_step m v xs 0 v' m'"
proof -
  note sizes = vec_rep_sizes [OF v]
  consider "k = 0" | "0 < k" "xs = []" | "0 < k" "xs \<noteq> []" by auto
  then show ?thesis
  proof cases
    case 1
    with sizes v show ?thesis by (auto simp: v_shrink_to_fit_def vec_step_def)
  next
    case 2
    with v obtain b where b: "v = vview b 0 k" "block m b = Some (replicate k Raw)" "b < length m"
      by (auto elim: vec_rep_cases)
    let ?sb = "sb_view b 0 0 k"
    have "v_swap_out v sb_empty_layout m = Some (v_empty_layout, ?sb, m)"
      using b by (simp add: v_swap_out_def relocate_def v_swap_layouts_def)
        (simp add: v_empty_layout_def sb_layout)
    moreover have "sb_delete ?sb m = Some (drop_block (set_block m b (replicate (0 + 0 + k) Raw)) b)"
      by (rule sb_delete_view [of _ _ _ "[]"]) (use b in auto)
    ultimately show ?thesis
      using 2 b sizes by (auto simp: v_shrink_to_fit_def sb_new_zero vec_step_def owner_step_def mem_simps)
  next
    case 3
    let ?n = "length xs"
    obtain m2 sb m3 m4 where t:
      "sb_new ?n ?n m = Some (sb_view (length m) ?n 0 (?n - ?n), m @ [Some (sb_cells ?n [] (?n - ?n))])"
      "m2 = set_block (m @ [Some (sb_cells ?n [] (?n - ?n))]) (length m) (sb_cells ?n [] (?n - length (xs @ [])))"
      "v_swap_out v (sb_view (length m) ?n (length ([] :: 'a list)) (?n - length (xs @ []))) m2 =
        Some (vview (length m) (length (xs @ [])) (?n - length (xs @ [])), sb, m3)"
      "sb_delete sb m3 = Some m4"
      "vec_step m v (xs @ []) (?n - length (xs @ [])) (vview (length m) (length (xs @ [])) (?n - length (xs @ []))) m4"
      by (rule v_regrow [OF v, of "[]" ?n]) (use 3 in auto)
    with 3 sizes show ?thesis by (auto simp: v_shrink_to_fit_def)
  qed
qed

lemma v_emplace_back_assume_capacity_step:
  assumes v: "vec_rep m v xs (Suc k)" and x: "arg_denotes v xs x a"
  shows "\<exists>v' m'. v_emplace_back_assume_capacity x v m = Some (v', m') \<and>
    vec_step m v (xs @ [a]) k v' m' \<and> v' = v\<lparr>v_end := padd (v_end v) 1\<rparr>"
  using v
proof (cases rule: vec_rep_cases)
  case (view b)
  have "block m b = Some (map Live xs @ Raw # replicate k Raw)" using view by simp
  from construct_mid [OF this, of "length xs" a] view read_arg_denotes [OF x v]
    vec_step_in_place [of m b _ "Suc (length xs)" "xs @ [a]" k "length xs" "Suc k"]
  show ?thesis by (auto simp: v_emplace_back_assume_capacity_def)
qed simp

text \<open>\<open>emplace_back\<close>, aliased or not: in place, or through a new block; or \<open>length_error\<close> with the
  vector untouched.\<close>

lemma v_emplace_back_step:
  assumes v: "vec_rep m v xs k" and x: "arg_denotes v xs x a"
  shows "if k = 0 \<and> length xs \<ge> ms then v_emplace_back ms x v m = Some (Inl Length_Error, v, m)
    else \<exists>v' m'. v_emplace_back ms x v m = Some (Inr (), v', m') \<and>
      vec_step m v (xs @ [a]) (if k > 0 then k - 1 else grown ms (length xs) (Suc (length xs)) - Suc (length xs)) v' m'"
proof -
  note sizes = vec_rep_sizes [OF v]
  consider j where "k = Suc j" | "k = 0" "length xs \<ge> ms" | "k = 0" "length xs < ms"
    by (cases k; cases "length xs < ms") auto
  then show ?thesis
  proof cases
    case 1
    with v_emplace_back_assume_capacity_step [OF v [unfolded 1] x] obtain v' m' where
      "v_emplace_back_assume_capacity x v m = Some (v', m')" "vec_step m v (xs @ [a]) j v' m'"
      "v' = v\<lparr>v_end := padd (v_end v) 1\<rparr>" by auto
    then show ?thesis using 1 sizes(5) by (auto simp: v_emplace_back_def)
  next
    case 2
    with sizes show ?thesis
      by (simp add: v_emplace_back_def v_emplace_back_slow_path_def v_recommend_error)
  next
    case 3
    let ?c = "grown ms (length xs + k) (length xs + 1)"
    let ?m1 = "m @ [Some (sb_cells (length xs) [] (?c - length xs))]"
    have c: "length xs + 1 \<le> ?c" using 3 by (intro grown_ge) auto
    obtain m2 sb m3 m4 where t:
      "sb_new ?c (length xs) m = Some (sb_view (length m) (length xs) 0 (?c - length xs), ?m1)"
      "vec_rep ?m1 v xs k"
      "construct_at_end_with_size [a] (sb_view (length m) (length xs) 0 (?c - length xs)) ?m1 =
        Some (sb_view (length m) (length xs) (length [a]) (?c - length (xs @ [a])), m2)"
      "v_swap_out v (sb_view (length m) (length xs) (length [a]) (?c - length (xs @ [a]))) m2 =
        Some (vview (length m) (length (xs @ [a])) (?c - length (xs @ [a])), sb, m3)"
      "sb_delete sb m3 = Some m4"
      "vec_step m v (xs @ [a]) (?c - length (xs @ [a]))
        (vview (length m) (length (xs @ [a])) (?c - length (xs @ [a]))) m4"
      by (rule v_regrow [OF v, of "[a]" ?c]) (use c in auto)
    have c1: "0 + 1 \<le> 0 + (?c - length xs)" using c by simp
    have 1: "construct a (Ptr (length m) (length xs)) ?m1 = Some m2"
      using t(3) c1 by (auto simp: construct_at_end_with_size_def split: Option.bind_splits)
    have 2: "set_sentinel (Ptr (length m) (Suc (length xs))) (sb_view (length m) (length xs) 0 (?c - length xs)) =
        Some (sb_view (length m) (length xs) (length [a]) (?c - length (xs @ [a])))"
      using c1 by (subst set_sentinel_view) auto
    let ?w = "vview (length m) (length (xs @ [a])) (?c - length (xs @ [a]))"
    have "v_emplace_back_slow_path ms x v m = Some (Inr (v_end ?w), ?w, m4)"
      using 3 sizes v_recommend_grown [OF v, of "length xs + 1" ms] read_arg_denotes [OF x t(2)]
        t(1,4,5) 1 2
      by (simp add: v_emplace_back_slow_path_def Let_def)
    then have "v_emplace_back ms x v m = Some (Inr (), ?w, m4)"
      using 3 sizes by (simp add: v_emplace_back_def)
    with t(6) 3 show ?thesis by auto
  qed
qed

lemma v_pop_back_step:
  assumes "vec_rep m v (xs @ [x]) k"
  shows "\<exists>v' m'. v_pop_back v m = Some (v', m') \<and> vec_step m v xs (Suc k) v' m'"
proof -
  have "v_end v = padd (v_begin v) (Suc (length xs))" "\<not> v_empty v"
    using assms by (auto elim!: vec_rep_cases simp: v_empty_def)
  moreover have "psub (padd (v_begin v) (Suc (length xs))) 1 = padd (v_begin v) (length xs)"
    using assms by (auto elim!: vec_rep_cases)
  ultimately show ?thesis
    using v_destruct_at_end_step [of m v xs "[x]" k] assms by (auto simp: v_pop_back_def)
qed

lemma v_resize_step:
  assumes v: "vec_rep m v xs k" and x: "arg_denotes v xs x a"
  shows "if length xs + k < sz \<and> sz > ms then v_resize ms sz x v m = Some (Inl Length_Error, v, m)
    else \<exists>v' m' j. v_resize ms sz x v m = Some (Inr (), v', m') \<and>
      vec_step m v (take sz xs @ replicate (sz - length xs) a) j v' m'"
proof -
  note sizes = vec_rep_sizes [OF v]
  consider "length xs < sz" | "sz = length xs" | "sz < length xs" by linarith
  then show ?thesis
  proof cases
    case 1
    with v_append_fill_step [OF v x, of "sz - length xs" ms] sizes show ?thesis
      by (auto simp: v_resize_def split: if_splits)
  next
    case 2
    with v sizes show ?thesis by (auto simp: v_resize_def intro: vec_step_refl)
  next
    case 3
    have "xs = take sz xs @ drop sz xs" by simp
    then have "vec_rep m v (take sz xs @ drop sz xs) k" using v by simp
    from v_destruct_at_end_step [OF this] 3 sizes show ?thesis by (auto simp: v_resize_def)
  qed
qed

lemma v_emplace_all_step:
  assumes "vec_rep m v xs k" "length (xs @ ys) \<le> ms"
  shows "\<exists>v' m' j. v_emplace_all ms ys v m = Some (Inr (), v', m') \<and> vec_step m v (xs @ ys) j v' m'"
  using assms
proof (induction ys arbitrary: m v xs k)
  case Nil
  then show ?case by (auto intro: vec_step_refl)
next
  case (Cons y ys)
  have "arg_denotes v xs (Ext y) y" by (simp add: arg_denotes_def)
  from v_emplace_back_step [OF Cons.prems(1) this, of ms] Cons.prems(2)
  obtain v1 m1 j where 1: "v_emplace_back ms (Ext y) v m = Some (Inr (), v1, m1)"
    "vec_step m v (xs @ [y]) j v1 m1"
    by (auto split: if_splits)
  then have "vec_rep m1 v1 (xs @ [y]) j" by (simp add: vec_step_def)
  from Cons.IH [OF this] Cons.prems(2) 1 show ?case by (fastforce intro: vec_step_trans)
qed

section \<open>Assignment\<close>

lemma vec_copy_assign:
  assumes v: "vec_rep m v (xs @ zs) k" "length ys = length xs"
  shows "\<exists>m'. copy_assign ys (v_begin v) m = Some m' \<and> vec_step m v (ys @ zs) k v m'"
  using v(1)
proof (cases rule: vec_rep_cases)
  case (view b)
  have "copy_assign ys (Ptr b 0) m = Some (set_block m b ([] @ map Live ys @ map Live zs @ replicate k Raw))"
    by (rule copy_assign_ok [of _ _ _ "map Live xs"]) (use view v(2) in auto)
  then show ?thesis using view v(2)
      vec_step_in_place [of m b _ "length (ys @ zs)" "ys @ zs" k "length (ys @ zs)" k]
    by auto
qed (use v(2) in \<open>auto simp: vec_step_def\<close>)

text \<open>A fresh block for \<open>ys\<close>, after the old one was given up.\<close>

lemma v_fresh_step:
  assumes v: "vec_rep m v xs k" and "length ys \<le> ms" "length xs + k < length ys"
  shows "\<exists>m1 v2 m2 v3 m3 j. v_vdeallocate v m = Some (v_empty_layout, m1) \<and>
    v_recommend ms (length ys) v_empty_layout = Some (Inr (grown ms 0 (length ys))) \<and>
    v_vallocate ms (grown ms 0 (length ys)) v_empty_layout m1 = Some (Inr (), v2, m2) \<and>
    v_construct_at_end ys v2 m2 = Some (v3, m3) \<and> vec_step m v ys j v3 m3"
proof -
  let ?c = "grown ms 0 (length ys)"
  have c: "length ys \<le> ?c" "?c \<le> ms" "0 < ?c" using assms(2,3) by (auto simp: grown_def)
  from v_vdeallocate_step [OF v] obtain m1 where 1: "v_vdeallocate v m = Some (v_empty_layout, m1)"
    "owner_step (v_own v) {} m m1" by blast
  from v_vallocate_ok [OF c(3,2), of v_empty_layout m1] obtain v2 m2 where
    2: "v_vallocate ms ?c v_empty_layout m1 = Some (Inr (), v2, m2)" "vec_rep m2 v2 [] ?c"
      "owner_step {} (v_own v2) m1 m2" by auto
  from v_construct_at_end_step [OF 2(2), of ys] c obtain v3 m3 where
    3: "v_construct_at_end ys v2 m2 = Some (v3, m3)" "vec_step m2 v2 ys (?c - length ys) v3 m3" by auto
  have "vec_step m v ys (?c - length ys) v3 m3"
    using owner_step_trans [OF owner_step_trans [OF 1(2) 2(3)]] 3(2) by (auto simp: vec_step_def)
  with 1 2 3 v_recommend_grown [of m1 v_empty_layout "[]" 0 "length ys" ms] assms(2) show ?thesis
    by simp blast
qed

text \<open>
  Assignment of the elements of a range. When the request is too long the vector has already
  given up its block, so \<open>length_error\<close> leaves it empty: the basic guarantee only.
\<close>

lemma v_assign_with_size_step:
  assumes v: "vec_rep m v xs k"
  shows "if length ys > length xs + k \<and> length ys > ms
    then \<exists>m'. v_assign_with_size ms ys v m = Some (Inl Length_Error, v_empty_layout, m') \<and>
      vec_step m v [] 0 v_empty_layout m'
    else \<exists>v' m' j. v_assign_with_size ms ys v m = Some (Inr (), v', m') \<and> vec_step m v ys j v' m'"
proof -
  note sizes = vec_rep_sizes [OF v]
  consider "length xs < length ys" "length ys \<le> length xs + k" | "length ys \<le> length xs"
    | "length xs + k < length ys" "length ys > ms" | "length xs + k < length ys" "length ys \<le> ms"
    by linarith
  then show ?thesis
  proof cases
    case 1
    from vec_copy_assign [of m v xs "[]" k "take (length xs) ys"] v 1 obtain m1 where
      2: "copy_assign (take (length xs) ys) (v_begin v) m = Some m1"
      "vec_step m v (take (length xs) ys) k v m1" by auto
    then have "vec_rep m1 v (take (length xs) ys) k" by (simp add: vec_step_def)
    moreover have "length (drop (length xs) ys) \<le> k" using 1 by simp
    ultimately obtain v2 m2 where
      "v_construct_at_end (drop (length xs) ys) v m1 = Some (v2, m2)"
      "vec_step m1 v (take (length xs) ys @ drop (length xs) ys) (k - length (drop (length xs) ys)) v2 m2"
      using v_construct_at_end_step by blast
    with 1 2 sizes show ?thesis by (auto simp: v_assign_with_size_def intro: vec_step_trans)
  next
    case 2
    have "vec_rep m v (take (length ys) xs @ drop (length ys) xs) k" using v by simp
    from vec_copy_assign [OF this, of ys] 2 obtain m1 where
      3: "copy_assign ys (v_begin v) m = Some m1" "vec_step m v (ys @ drop (length ys) xs) k v m1" by auto
    then have "vec_rep m1 v (ys @ drop (length ys) xs) k" by (simp add: vec_step_def)
    from v_destruct_at_end_step [OF this] obtain v2 m2 j where
      "v_destruct_at_end (padd (v_begin v) (length ys)) v m1 = Some (v2, m2)" "vec_step m1 v ys j v2 m2" by auto
    with 2 3 sizes show ?thesis by (auto simp: v_assign_with_size_def intro: vec_step_trans)
  next
    case 3
    from v_vdeallocate_step [OF v] 3 sizes show ?thesis
      by (auto simp: v_assign_with_size_def v_recommend_error vec_step_def)
  next
    case 4
    from v_fresh_step [OF v 4(2,1)] 4 sizes show ?thesis
      by (auto simp: v_assign_with_size_def)
  qed
qed

text \<open>The two other forms of \<open>assign\<close> come to the same.\<close>

lemma v_assign_fill_eq:
  assumes v: "vec_rep m v xs k"
  shows "v_assign_fill ms n u v m = v_assign_with_size ms (replicate n u) v m"
  using vec_rep_sizes [OF v]
  unfolding v_assign_fill_def v_assign_with_size_def fill_n_def v_construct_at_end_fill_eq
  by (auto simp: min_absorb1 min_absorb2)

lemma v_assign_with_sentinel_step:
  assumes v: "vec_rep m v xs k" and "length ys \<le> ms"
  shows "\<exists>v' m' j. v_assign_with_sentinel ms ys v m = Some (Inr (), v', m') \<and> vec_step m v ys j v' m'"
proof (cases "length ys < length xs")
  case True
  have "vec_rep m v (take (length ys) xs @ drop (length ys) xs) k" using v by simp
  from vec_copy_assign [OF this, of ys] True obtain m1 where
    1: "copy_assign ys (v_begin v) m = Some m1" "vec_step m v (ys @ drop (length ys) xs) k v m1" by auto
  then have "vec_rep m1 v (ys @ drop (length ys) xs) k" by (simp add: vec_step_def)
  from v_destruct_at_end_step [OF this] obtain v2 m2 j where
    "v_destruct_at_end (padd (v_begin v) (length ys)) v m1 = Some (v2, m2)" "vec_step m1 v ys j v2 m2" by auto
  moreover have "padd (v_begin v) (length ys) \<noteq> v_end v"
    using v True by (auto elim!: vec_rep_cases)
  ultimately show ?thesis using True 1 vec_rep_sizes [OF v]
    by (auto simp: v_assign_with_sentinel_def min_absorb1 Let_def intro: vec_step_trans)
next
  case False
  from vec_copy_assign [of m v xs "[]" k "take (length xs) ys"] v False obtain m1 where
    1: "copy_assign (take (length xs) ys) (v_begin v) m = Some m1"
    "vec_step m v (take (length xs) ys) k v m1" by auto
  then have "vec_rep m1 v (take (length xs) ys) k" by (simp add: vec_step_def)
  from v_emplace_all_step [OF this, of "drop (length xs) ys" ms] assms(2) False obtain v2 m2 j where
    "v_emplace_all ms (drop (length xs) ys) v m1 = Some (Inr (), v2, m2)" "vec_step m1 v ys j v2 m2" by auto
  with 1 False vec_rep_sizes [OF v] show ?thesis
    by (auto simp: v_assign_with_sentinel_def min_absorb2 Let_def intro: vec_step_trans)
qed

section \<open>Erasure\<close>

lemma v_close_gap:
  assumes v: "vec_rep m v (hs @ ds @ ts) k" "ds \<noteq> []"
  shows "\<exists>m1 v' m'. move_forward (length ts) (padd (v_begin v) (length hs + length ds)) (padd (v_begin v) (length hs)) m =
      Some m1 \<and> v_destruct_at_end (padd (v_begin v) (length hs + length ts)) v m1 = Some (v', m') \<and>
    vec_step m v (hs @ ts) (length ds + k) v' m' \<and> v_begin v' = v_begin v"
  using v(1)
proof (cases rule: vec_rep_cases)
  case (view b)
  have "block m b = Some (map Live hs @ map Live ds @ map Live ts @ replicate k Raw)"
    using view by simp
  then have "\<exists>cs. length cs = length (map Live ds :: 'a cell list) \<and> Raw \<notin> set cs \<and>
      move_forward (length ts) (Ptr b (length hs + length ds)) (Ptr b (length hs)) m =
        Some (set_block m b (map Live hs @ map Live ts @ cs @ replicate k Raw))"
    by (rule move_forward_ok) auto
  then obtain cs where cs: "length cs = length ds" "Raw \<notin> set cs"
    "move_forward (length ts) (Ptr b (length hs + length ds)) (Ptr b (length hs)) m =
      Some (set_block m b (map Live hs @ map Live ts @ cs @ replicate k Raw))"
    unfolding length_map by blast
  let ?m1 = "set_block m b (map Live hs @ map Live ts @ cs @ replicate k Raw)"
  have "destroy_back (length cs) (Ptr b (length hs + (length ds + length ts))) ?m1 =
      Some (set_block ?m1 b ((map Live hs @ map Live ts) @ replicate (length cs) Raw @ replicate k Raw))"
    by (rule destroy_back_ok) (use view cs in \<open>auto simp: mem_simps\<close>)
  then have "v_destruct_at_end (Ptr b (length hs + length ts)) v ?m1 =
      Some (vview b (length hs + length ts) (length ds + k),
        set_block m b (map Live (hs @ ts) @ replicate (length ds + k) Raw))"
    using view(1) cs(1) by (simp add: v_destruct_at_end_def replicate_add)
  moreover have "vec_step m v (hs @ ts) (length ds + k) (vview b (length hs + length ts) (length ds + k))
      (set_block m b (map Live (hs @ ts) @ replicate (length ds + k) Raw))"
    unfolding view(1) by (rule vec_step_in_place [OF view(2)]) (use v(2) in auto)
  ultimately show ?thesis using view(1) cs(3) by auto
qed (use v(2) in simp)

lemma v_erase_step:
  assumes v: "vec_rep m v (hs @ x # ts) k"
  shows "\<exists>v' m'. v_erase (padd (v_begin v) (length hs)) v m = Some (padd (v_begin v') (length hs), v', m') \<and>
    vec_step m v (hs @ ts) (Suc k) v' m'"
proof -
  from v_close_gap [of m v hs "[x]" ts k] v obtain m1 v' m' where
    "move_forward (length ts) (padd (v_begin v) (Suc (length hs))) (padd (v_begin v) (length hs)) m = Some m1"
    "v_destruct_at_end (padd (v_begin v) (length hs + length ts)) v m1 = Some (v', m')"
    "vec_step m v (hs @ ts) (Suc k) v' m'" "v_begin v' = v_begin v" by auto
  moreover have "padd (v_begin v) (length hs) \<noteq> v_end v"
    "pdiff (padd (v_begin v) (length hs)) (v_begin v) = Some (length hs)"
    "pdiff (v_end v) (padd (v_begin v) (Suc (length hs))) = Some (length ts)"
    using v by (auto elim!: vec_rep_cases)
  ultimately show ?thesis by (simp add: v_erase_def Let_def)
qed

lemma v_erase_range_step:
  assumes v: "vec_rep m v (hs @ ds @ ts) k"
  shows "\<exists>v' m'. v_erase_range (padd (v_begin v) (length hs)) (padd (v_begin v) (length hs + length ds)) v m =
      Some (padd (v_begin v') (length hs), v', m') \<and> vec_step m v (hs @ ts) (length ds + k) v' m'"
proof -
  have p: "plt (padd (v_begin v) (length hs + length ds)) (padd (v_begin v) (length hs)) = Some False"
    "pdiff (padd (v_begin v) (length hs)) (v_begin v) = Some (length hs)"
    "pdiff (padd (v_begin v) (length hs + length ds)) (padd (v_begin v) (length hs)) = Some (length ds)"
    "pdiff (v_end v) (padd (v_begin v) (length hs + length ds)) = Some (length ts)"
    "padd (v_begin v) (length hs) = padd (v_begin v) (length hs + length ds) \<longleftrightarrow> ds = []"
    using v by (auto elim!: vec_rep_cases)
  show ?thesis
  proof (cases "ds = []")
    case True
    with p v show ?thesis by (auto simp: v_erase_range_def intro: vec_step_refl)
  next
    case False
    from v_close_gap [OF v False] p False show ?thesis
      by (auto simp: v_erase_range_def Let_def)
  qed
qed

end
