(* ===== verification/Vector_Insert.thy ===== *)
theory Vector_Insert
  imports Vector_Correct
begin

text \<open>
  The insertions of \<open>Vector\<close>: in place through \<open>move_range\<close>, through a new block, from an input
  iterator, each with an argument that may live in the vector itself; then construction, copy,
  move, comparison and \<open>erase_if\<close>. Same vocabulary as \<open>Vector_Correct\<close>.
\<close>

section \<open>Insertion\<close>

text \<open>\<open>move_range\<close> opens a gap of \<open>g\<close> cells that hold objects; either all of it lies before the old
  end, or the cells behind the tail \<open>ts\<close> were filled first.\<close>

lemma v_move_range_tail:
  assumes b: "block m b = Some (map Live hs @ map Live ts @ replicate k Raw)" and g: "g \<le> length ts" "g \<le> k"
  shows "\<exists>cs. length cs = g \<and> Raw \<notin> set cs \<and>
    v_move_range (Ptr b (length hs)) (Ptr b (length hs + length ts)) (Ptr b (length hs + g))
      (vview b (length hs + length ts) k) m =
      Some (vview b (length hs + length ts + g) (k - g),
        set_block m b (map Live hs @ cs @ map Live ts @ replicate (k - g) Raw))"
proof -
  obtain us ws where ts: "ts = us @ ws" and gw: "g = length ws"
    by (metis append_take_drop_id length_drop diff_diff_cancel g(1))
  let ?R = "replicate (k - length ws) Raw"
  let ?m1 = "set_block m b ((map Live hs @ map Live us) @ replicate (length ws) Husk @ [] @ map Live ws @ ?R)"
  have 1: "move_construct (length ws) (Ptr b (length hs + length us)) (Ptr b (length hs + length us + length ws)) m = Some ?m1"
    by (rule move_construct_within) (use b g in \<open>auto simp: ts gw simp flip: replicate_add\<close>)
  have "\<exists>cs. length cs = length (replicate (length ws) Husk :: 'a cell list) \<and> Raw \<notin> set cs \<and>
      move_backward (length us) (Ptr b (length hs + length us)) (Ptr b (length hs + length us + length ws)) ?m1 =
        Some (set_block ?m1 b (map Live hs @ cs @ map Live us @ map Live ws @ ?R))"
    by (rule move_backward_ok) (use b in \<open>auto simp: ts mem_simps dest: block_less\<close>)
  then obtain cs where cs: "length cs = length ws" "Raw \<notin> set cs"
      "move_backward (length us) (Ptr b (length hs + length us)) (Ptr b (length hs + length us + length ws)) ?m1 =
        Some (set_block ?m1 b (map Live hs @ cs @ map Live us @ map Live ws @ ?R))"
    unfolding length_replicate by blast
  have "v_move_range (Ptr b (length hs)) (Ptr b (length hs + length (us @ ws))) (Ptr b (length hs + length ws))
      (vview b (length hs + length (us @ ws)) k) m =
      Some (vview b (length hs + length (us @ ws) + length ws) (k - length ws),
        set_block m b (map Live hs @ cs @ map Live (us @ ws) @ ?R))"
    using 1 cs(3) g(2) gw by (simp add: v_move_range_def vview_def Let_def add.assoc)
  with cs show ?thesis unfolding ts gw by blast
qed

lemma v_move_range_beyond:
  assumes b: "block m b = Some (map Live hs @ map Live ts @ map Live es @ replicate k Raw)" and k: "length ts \<le> k"
  shows "v_move_range (Ptr b (length hs)) (Ptr b (length hs + length ts))
      (Ptr b (length hs + length ts + length es)) (vview b (length hs + length ts + length es) k) m =
    Some (vview b (length hs + length ts + length es + length ts) (k - length ts),
      set_block m b (map Live hs @ replicate (length ts) Husk @ map Live es @ map Live ts @
        replicate (k - length ts) Raw))"
proof -
  have "move_construct (length ts) (Ptr b (length hs)) (Ptr b (length hs + length ts + length es)) m =
    Some (set_block m b (map Live hs @ replicate (length ts) Husk @ map Live es @ map Live ts @
        replicate (k - length ts) Raw))"
    by (rule move_construct_within) (use b k in \<open>auto simp flip: replicate_add\<close>)
  with k show ?thesis by (simp add: v_move_range_def vview_def Let_def)
qed

lemma read_shifted:
  assumes "block m b = Some (map Live hs @ cs @ map Live ts @ R)" "length cs = g"
    and "arg_denotes (vview b n k) (hs @ ts) x a" "length hs + length ts \<le> i"
  shows "read_arg m (shift_arg g (Ptr b (length hs)) (Ptr b i) x) = Some a"
proof (cases "x = Ext a")
  case True
  then show ?thesis by (simp add: shift_arg_def)
next
  case False
  with assms(3) obtain j where j: "x = At (Ptr b j)" "j < length hs + length ts" "(hs @ ts) ! j = a"
    by (auto simp: arg_denotes_def)
  show ?thesis
  proof (cases "j < length hs")
    case True
    with j assms show ?thesis by (auto simp: shift_arg_def read_at_def nth_append)
  next
    case False
    with j assms show ?thesis
      by (auto simp: shift_arg_def read_at_def nth_append)
  qed
qed

lemma sb_emplace_back_eq:
  "sb_emplace_back a (sb_view c f n (Suc j)) m = construct_at_end_with_size [a] (sb_view c f n (Suc j)) m"
  by (auto simp: sb_emplace_back_def construct_at_end_with_size_def split: Option.bind_splits)

lemma v_insert_realloc_step:
  assumes v: "vec_rep m v (hs @ ts) k" and ys: "ys \<noteq> []" "length (hs @ ts) + length ys \<le> ms"
    and c: "c = grown ms (length (hs @ ts) + k) (length (hs @ ts) + length ys)"
    and fill: "fill (sb_view (length m) (length hs) 0 (c - length hs)) (m @ [Some (sb_cells (length hs) [] (c - length hs))]) =
      construct_at_end_with_size ys (sb_view (length m) (length hs) 0 (c - length hs))
        (m @ [Some (sb_cells (length hs) [] (c - length hs))])"
  shows "\<exists>v' m' j. v_insert_realloc ms (length ys) (padd (v_begin v) (length hs)) fill v m =
      Some (Inr (padd (v_begin v') (length hs)), v', m') \<and> vec_step m v (hs @ ys @ ts) j v' m'"
proof -
  let ?m1 = "m @ [Some (sb_cells (length hs) [] (c - length hs))]"
  let ?m2 = "set_block ?m1 (length m) (sb_cells (length hs) ys (c - length hs - length ys))"
  let ?j = "c - length hs - length ys"
  have le: "length (hs @ ts) + length ys \<le> c" unfolding c by (rule grown_ge) (rule ys(2))
  have c0: "0 < c" using le ys(1) by (cases ys) auto
  note new = sb_new_behind [OF v, of "length hs" c]
  have n: "length m \<notin> v_own v" and vm1: "vec_rep ?m1 v (hs @ ts) k" using new le ys(1) by auto
  have 1: "construct_at_end_with_size ys (sb_view (length m) (length hs) (length ([] :: 'a list)) (c - length hs)) ?m1 =
      Some (sb_view (length m) (length hs) (length ([] @ ys)) (c - length hs - length ys),
        set_block ?m1 (length m) (sb_cells (length hs) ([] @ ys) (c - length hs - length ys)))"
    by (rule construct_at_end_with_size_view) (use le in \<open>auto simp: mem_simps\<close>)
  have vm2: "vec_rep ?m2 v (hs @ ts) k"
    by (rule vec_rep_owner [OF vm1, of "{length m}" "{length m}"]) (use n in \<open>auto simp: owner_step_def mem_simps\<close>)
  have b: "block ?m2 (length m) = Some (sb_cells (length hs) ys ?j)" by (simp add: mem_simps)
  obtain sb m3 m4 where 2:
    "v_swap_out_at v (sb_view (length m) (length hs) (length ys) ?j) (padd (v_begin v) (length hs)) ?m2 =
      Some (Ptr (length m) (length hs), vview (length m) (length (hs @ ys @ ts)) (?j - length ts), sb, m3)"
    "sb_delete sb m3 = Some m4"
    "vec_rep m4 (vview (length m) (length (hs @ ys @ ts)) (?j - length ts)) (hs @ ys @ ts) (?j - length ts)"
    "owner_step (insert (length m) (v_own v)) {length m} ?m2 m4"
    by (rule v_swap_out_at_step [OF vm2 b n]) (use le ys c0 in auto)
  have 3: "vec_step m v (hs @ ys @ ts) (?j - length ts)
      (vview (length m) (length (hs @ ys @ ts)) (?j - length ts)) m4"
    by (rule vec_step_new_block [OF 2(4) n]) (use 2(3) in \<open>auto simp: mem_simps\<close>)
  have "pdiff (padd (v_begin v) (length hs)) (v_begin v) = Some (length hs)"
    using v by (auto elim!: vec_rep_cases)
  moreover have "v_recommend ms (length (hs @ ts) + length ys) v = Some (Inr c)"
    using v_recommend_grown [OF v ys(2)] by (simp add: c)
  moreover have "v_size v = Some (length (hs @ ts))" using vec_rep_sizes(1) [OF v] .
  ultimately show ?thesis using 1 2(1,2) 3 new(1) c0 le fill
    by (auto simp: v_insert_realloc_def simp del: sb_cells_0)
qed

text \<open>Room enough: the gap is opened and filled.\<close>

lemma vec_gap_positions:
  assumes "vec_rep m v (hs @ ts) k"
  shows "pdiff (padd (v_begin v) (length hs)) (v_begin v) = Some (length hs)"
    "pdiff (v_end v) (padd (v_begin v) (length hs)) = Some (length ts)"
    "padd (v_begin v) (length hs) = v_end v \<longleftrightarrow> ts = []"
  using assms by (auto elim!: vec_rep_cases)

lemma vec_view_of:
  assumes "vec_rep m v (hs @ ts) k" "0 < k"
  obtains b where "v = vview b (length hs + length ts) k"
    "block m b = Some (map Live hs @ map Live ts @ replicate k Raw)"
  using assms(1)
proof (cases rule: vec_rep_cases)
  case (view b)
  then show ?thesis by (intro that [of b]) simp_all
qed (use assms(2) in simp)

lemma v_insert_tail_step:
  assumes v: "vec_rep m v (hs @ ts) k" and g: "0 < length ys" "length ys \<le> length ts" "length ys \<le> k"
  shows "\<exists>v1 m1 m2. v_move_range (padd (v_begin v) (length hs)) (v_end v) (padd (v_begin v) (length hs + length ys)) v m =
      Some (v1, m1) \<and>
    (\<forall>a. arg_denotes v (hs @ ts) x a \<longrightarrow>
      read_arg m1 (shift_arg (length ys) (padd (v_begin v) (length hs)) (v_end v1) x) = Some a) \<and>
    copy_assign ys (padd (v_begin v) (length hs)) m1 = Some m2 \<and>
    vec_step m v (hs @ ys @ ts) (k - length ys) v1 m2 \<and> v_begin v1 = v_begin v"
proof -
  obtain b where v': "v = vview b (length hs + length ts) k"
    and b: "block m b = Some (map Live hs @ map Live ts @ replicate k Raw)"
    by (rule vec_view_of [OF v]) (use g in linarith)
  from v_move_range_tail [OF b g(2,3)] obtain cs where cs: "length cs = length ys" "Raw \<notin> set cs"
    "v_move_range (Ptr b (length hs)) (Ptr b (length hs + length ts)) (Ptr b (length hs + length ys)) v m =
      Some (vview b (length hs + length ts + length ys) (k - length ys),
        set_block m b (map Live hs @ cs @ map Live ts @ replicate (k - length ys) Raw))"
    unfolding v' by blast
  let ?m1 = "set_block m b (map Live hs @ cs @ map Live ts @ replicate (k - length ys) Raw)"
  have b1: "block ?m1 b = Some (map Live hs @ cs @ (map Live ts @ replicate (k - length ys) Raw))"
    using b by (auto simp: mem_simps dest: block_less)
  have 1: "copy_assign ys (Ptr b (length hs)) ?m1 =
      Some (set_block ?m1 b (map Live hs @ map Live ys @ (map Live ts @ replicate (k - length ys) Raw)))"
    by (rule copy_assign_ok [OF b1 cs(2)]) (use cs in auto)
  have 2: "vec_step m v (hs @ ys @ ts) (k - length ys) (vview b (length hs + length ts + length ys) (k - length ys))
      (set_block m b (map Live (hs @ ys @ ts) @ replicate (k - length ys) Raw))"
    unfolding v' by (rule vec_step_in_place [OF b]) (use g in auto)
  have 3: "read_arg ?m1 (shift_arg (length ys) (Ptr b (length hs)) (Ptr b (length hs + length ts + length ys)) x) = Some a"
    if "arg_denotes v (hs @ ts) x a" for a
    by (rule read_shifted [OF b1 cs(1) that [unfolded v']]) simp
  show ?thesis using 1 2 3 cs(3) v'
    by (intro exI [of _ "vview b (length hs + length ts + length ys) (k - length ys)"] exI [of _ ?m1] exI) auto
qed

lemma v_insert_beyond_step:
  assumes v: "vec_rep m v (hs @ ts) k" and g: "length ts < length ys" "length ys \<le> k"
  shows "\<exists>v1 m1 v2 m2 m3. v_construct_at_end (drop (length ts) ys) v m = Some (v1, m1) \<and>
    (ts = [] \<longrightarrow> vec_step m v (hs @ ys @ ts) (k - length ys) v1 m1) \<and> v_begin v1 = v_begin v \<and>
    v_move_range (padd (v_begin v) (length hs)) (v_end v) (padd (v_begin v) (length hs + length ys)) v1 m1 =
      Some (v2, m2) \<and>
    (\<forall>x a. arg_denotes v (hs @ ts) x a \<longrightarrow>
      read_arg m2 (shift_arg (length ys) (padd (v_begin v) (length hs)) (v_end v2) x) = Some a) \<and>
    copy_assign (take (length ts) ys) (padd (v_begin v) (length hs)) m2 = Some m3 \<and>
    vec_step m v (hs @ ys @ ts) (k - length ys) v2 m3 \<and> v_begin v2 = v_begin v"
proof -
  let ?es = "drop (length ts) ys" and ?k = "k - (length ys - length ts)" and ?j = "k - length ys"
  have es: "length ?es \<le> k" using g by simp
  from v_construct_at_end_step [OF v es] obtain v1 m1 where
    1: "v_construct_at_end ?es v m = Some (v1, m1)" and 2: "vec_step m v (hs @ ts @ ?es) ?k v1 m1"
    and 3: "v_begin v1 = v_begin v"
    by auto
  then have r1: "vec_rep m1 v1 ((hs @ ts) @ ?es) ?k" by (simp add: vec_step_def)
  obtain b where v': "v = vview b (length hs + length ts) k"
    by (rule vec_view_of [OF v]) (use g in linarith)
  have lt: "length ts + length ?es = length ys" using g by simp
  have v1: "v1 = vview b (length hs + length ys) ?k"
    and b: "block m1 b = Some (map Live hs @ map Live ts @ map Live ?es @ replicate ?k Raw)"
    using r1 3 v' g by (auto elim!: vec_rep_cases)
  let ?m2 = "set_block m1 b (map Live hs @ replicate (length ts) Husk @ map Live ?es @ map Live ts @ replicate ?j Raw)"
  let ?v2 = "vview b (length hs + length ys + length ts) ?j"
  have kj: "?k - length ts = ?j" using g by simp
  have "v_move_range (Ptr b (length hs)) (Ptr b (length hs + length ts))
      (Ptr b (length hs + length ts + length ?es)) (vview b (length hs + length ts + length ?es) ?k) m1 =
    Some (vview b (length hs + length ts + length ?es + length ts) (?k - length ts),
      set_block m1 b (map Live hs @ replicate (length ts) Husk @ map Live ?es @ map Live ts @
        replicate (?k - length ts) Raw))"
    by (rule v_move_range_beyond [OF b]) (use g in auto)
  then have 4: "v_move_range (Ptr b (length hs)) (Ptr b (length hs + length ts)) (Ptr b (length hs + length ys)) v1 m1 =
      Some (?v2, ?m2)"
    unfolding kj by (simp only: add.assoc lt v1)
  have b2: "block ?m2 b = Some (map Live hs @ replicate (length ts) Husk @ (map Live ?es @ map Live ts @ replicate ?j Raw))"
    using b by (auto simp: mem_simps dest: block_less)
  have 5: "copy_assign (take (length ts) ys) (Ptr b (length hs)) ?m2 =
      Some (set_block ?m2 b (map Live hs @ map Live (take (length ts) ys) @ (map Live ?es @ map Live ts @ replicate ?j Raw)))"
    by (rule copy_assign_ok [OF b2]) (use g in auto)
  let ?m3 = "set_block m1 b (map Live (hs @ ys @ ts) @ replicate ?j Raw)"
  have five: "copy_assign (take (length ts) ys) (Ptr b (length hs)) ?m2 = Some ?m3"
  proof -
    have "map Live (take (length ts) ys) @ map Live ?es = (map Live ys :: 'a cell list)"
      unfolding map_append [symmetric] by simp
    then have "map Live hs @ map Live (take (length ts) ys) @ map Live ?es @ map Live ts @ replicate ?j Raw =
        map Live (hs @ ys @ ts) @ replicate ?j Raw"
      unfolding map_append by (metis append_assoc)
    with 5 show ?thesis by simp
  qed
  have "vec_step m1 v1 (hs @ ys @ ts) ?j ?v2 ?m3"
    unfolding v1 by (rule vec_step_in_place [OF b]) (use g in auto)
  then have 6: "vec_step m v (hs @ ys @ ts) ?j ?v2 ?m3"
    using 2 by (rule vec_step_trans [rotated])
  have 7: "read_arg ?m2 (shift_arg (length ys) (Ptr b (length hs)) (Ptr b (length hs + length ys + length ts)) x) = Some a"
    if "arg_denotes v (hs @ ts) x a" for x a
  proof (rule read_shifted)
    show "block ?m2 b = Some (map Live hs @ (replicate (length ts) Husk @ map Live ?es) @ map Live ts @ replicate ?j Raw)"
      using b2 by simp
    show "arg_denotes (vview b (length hs + length ts) k) (hs @ ts) x a" using that v' by simp
  qed (use g in auto)
  have 8: "ts = [] \<longrightarrow> vec_step m v (hs @ ys @ ts) ?j v1 m1" using 2 by auto
  show ?thesis
    using 1 3 4 five 6 7 8 v' by (intro exI [of _ v1] exI [of _ m1] exI [of _ ?v2] exI [of _ ?m2] exI [of _ ?m3]) simp
qed

lemma v_insert_with_size_step:
  assumes v: "vec_rep m v (hs @ ts) k" and len: "length ys \<le> k \<or> length (hs @ ts) + length ys \<le> ms"
  shows "\<exists>v' m' j. v_insert_with_size ms (padd (v_begin v) (length hs)) ys v m =
      Some (Inr (padd (v_begin v') (length hs)), v', m') \<and> vec_step m v (hs @ ys @ ts) j v' m'"
proof -
  note pos = vec_gap_positions [OF v] and sizes = vec_rep_sizes [OF v]
  consider "ys = []" | "ys \<noteq> []" "length ys \<le> k" "length ys \<le> length ts"
    | "length ys \<le> k" "length ts < length ys" | "k < length ys" by linarith
  then show ?thesis
  proof cases
    case 1
    with v pos show ?thesis by (auto simp: v_insert_with_size_def intro: vec_step_refl)
  next
    case 2
    then have "0 < length ys" by simp
    from v_insert_tail_step [OF v this 2(3,2)] 2 pos sizes(3) show ?thesis
      by (fastforce simp: v_insert_with_size_def Let_def)
  next
    case 3
    then have ys: "ys \<noteq> []" by auto
    from v_insert_beyond_step [OF v 3(2,1)] obtain v1 m1 v2 m2 m3 where
      "v_construct_at_end (drop (length ts) ys) v m = Some (v1, m1)"
      "ts = [] \<longrightarrow> vec_step m v (hs @ ys @ ts) (k - length ys) v1 m1" "v_begin v1 = v_begin v"
      "v_move_range (padd (v_begin v) (length hs)) (v_end v) (padd (v_begin v) (length hs + length ys)) v1 m1 =
        Some (v2, m2)"
      "copy_assign (take (length ts) ys) (padd (v_begin v) (length hs)) m2 = Some m3"
      "vec_step m v (hs @ ys @ ts) (k - length ys) v2 m3" "v_begin v2 = v_begin v" by blast
    with 3 ys pos sizes(3) show ?thesis
      by (cases "ts = []") (auto simp: v_insert_with_size_def Let_def)
  next
    case 4
    then have "ys \<noteq> []" "length (hs @ ts) + length ys \<le> ms" using len by auto
    from v_insert_realloc_step [OF v this refl, of "construct_at_end_with_size ys"] 4 \<open>ys \<noteq> []\<close> pos sizes(3) show ?thesis
      by (auto simp: v_insert_with_size_def Let_def)
  qed
qed

text \<open>Several copies of an argument that may live in the vector itself.\<close>

lemma v_insert_fill_step:
  assumes v: "vec_rep m v (hs @ ts) k" and x: "arg_denotes v (hs @ ts) x a"
    and len: "n \<le> k \<or> length (hs @ ts) + n \<le> ms"
  shows "\<exists>v' m' j. v_insert_fill ms (padd (v_begin v) (length hs)) n x v m =
      Some (Inr (padd (v_begin v') (length hs)), v', m') \<and> vec_step m v (hs @ replicate n a @ ts) j v' m'"
proof -
  note pos = vec_gap_positions [OF v] and sizes = vec_rep_sizes [OF v]
  let ?ys = "replicate n a"
  consider "n = 0" | "0 < n" "n \<le> k" "n \<le> length ts" | "n \<le> k" "length ts < n" | "k < n" by linarith
  then show ?thesis
  proof cases
    case 1
    with v pos show ?thesis by (auto simp: v_insert_fill_def intro: vec_step_refl)
  next
    case 2
    then have "0 < length ?ys" "length ?ys \<le> length ts" "length ?ys \<le> k" by auto
    from v_insert_tail_step [OF v this, of x] x obtain v1 m1 m2 where
      "v_move_range (padd (v_begin v) (length hs)) (v_end v) (padd (v_begin v) (length hs + n)) v m = Some (v1, m1)"
      "read_arg m1 (shift_arg n (padd (v_begin v) (length hs)) (v_end v1) x) = Some a"
      "copy_assign ?ys (padd (v_begin v) (length hs)) m1 = Some m2"
      "vec_step m v (hs @ ?ys @ ts) (k - n) v1 m2" "v_begin v1 = v_begin v" by auto
    with 2 pos sizes(3) show ?thesis by (auto simp: v_insert_fill_def fill_n_def Let_def)
  next
    case 3
    then have "length ts < length ?ys" "length ?ys \<le> k" by auto
    from v_insert_beyond_step [OF v this] x obtain v1 m1 v2 m2 m3 where
      "v_construct_at_end (replicate (n - length ts) a) v m = Some (v1, m1)"
      "ts = [] \<longrightarrow> vec_step m v (hs @ ?ys @ ts) (k - n) v1 m1" "v_begin v1 = v_begin v"
      "v_move_range (padd (v_begin v) (length hs)) (v_end v) (padd (v_begin v) (length hs + n)) v1 m1 =
        Some (v2, m2)"
      "read_arg m2 (shift_arg n (padd (v_begin v) (length hs)) (v_end v2) x) = Some a"
      "copy_assign (replicate (length ts) a) (padd (v_begin v) (length hs)) m2 = Some m3"
      "vec_step m v (hs @ ?ys @ ts) (k - n) v2 m3" "v_begin v2 = v_begin v"
      using 3 by (fastforce simp: min_absorb1)
    with 3 pos sizes(3) read_arg_denotes [OF x v] show ?thesis
      by (cases "ts = []")
        (auto simp: v_insert_fill_def fill_n_def Let_def v_construct_at_end_fill_eq)
  next
    case 4
    then have ys: "?ys \<noteq> []" "length (hs @ ts) + length ?ys \<le> ms" using len by auto
    let ?fill = "\<lambda>sb m1. do { b \<leftarrow> read_arg m1 x; construct_at_end_fill n b sb m1 }"
    let ?c = "grown ms (length (hs @ ts) + k) (length (hs @ ts) + length ?ys)"
    have c: "length hs \<le> ?c" "0 < ?c" using grown_ge [OF ys(2), of "length (hs @ ts) + k"] 4 by auto
    have "read_arg (m @ [Some (sb_cells (length hs) [] (?c - length hs))]) x = Some a"
      by (rule read_arg_denotes [OF x]) (rule sb_new_behind(2) [OF v c])
    then have "?fill (sb_view (length m) (length hs) 0 (?c - length hs)) (m @ [Some (sb_cells (length hs) [] (?c - length hs))]) =
      construct_at_end_with_size ?ys (sb_view (length m) (length hs) 0 (?c - length hs))
        (m @ [Some (sb_cells (length hs) [] (?c - length hs))])"
      by (simp add: construct_at_end_fill_eq)
    from v_insert_realloc_step [OF v ys refl, of ?fill, OF this] 4 pos sizes(3) show ?thesis
      by (auto simp: v_insert_fill_def Let_def)
  qed
qed

text \<open>One element: \<open>emplace\<close>, and \<open>insert\<close> of an argument that may live in the vector itself.\<close>

lemma v_insert_step:
  assumes v: "vec_rep m v (hs @ ts) k" and x: "arg_denotes v (hs @ ts) x a"
    and len: "0 < k \<or> length (hs @ ts) < ms"
  shows "\<exists>v' m' j. v_insert ms (padd (v_begin v) (length hs)) x v m =
      Some (Inr (padd (v_begin v') (length hs)), v', m') \<and> vec_step m v (hs @ a # ts) j v' m'"
proof -
  note pos = vec_gap_positions [OF v] and sizes = vec_rep_sizes [OF v]
  consider j where "k = Suc j" "ts = []" | "0 < k" "ts \<noteq> []" | "k = 0" by (cases k) auto
  then show ?thesis
  proof cases
    case 1
    from v_emplace_back_assume_capacity_step [OF v [unfolded 1] x [unfolded 1]] 1 pos sizes(5)
    obtain v' m' where "v_emplace_back_assume_capacity x v m = Some (v', m')"
      "vec_step m v (hs @ [a]) j v' m'" "v_begin v' = v_begin v" by auto
    with 1 pos sizes(5) show ?thesis by (auto simp: v_insert_def Let_def)
  next
    case 2
    then have "0 < length [a]" "length [a] \<le> length ts" "length [a] \<le> k" by (auto simp: Suc_le_eq)
    from v_insert_tail_step [OF v this, of x] x obtain v1 m1 m2 where
      "v_move_range (padd (v_begin v) (length hs)) (v_end v) (padd (v_begin v) (Suc (length hs))) v m = Some (v1, m1)"
      "read_arg m1 (shift_arg 1 (padd (v_begin v) (length hs)) (v_end v1) x) = Some a"
      "assign_at a (padd (v_begin v) (length hs)) m1 = Some m2"
      "vec_step m v (hs @ a # ts) (k - 1) v1 m2" "v_begin v1 = v_begin v"
      by (auto split: Option.bind_splits)
    with 2 pos sizes(5) show ?thesis by (auto simp: v_insert_def Let_def)
  next
    case 3
    then have ys: "[a] \<noteq> []" "length (hs @ ts) + length [a] \<le> ms" using len by auto
    let ?fill = "\<lambda>sb m1. do { b \<leftarrow> read_arg m1 x; sb_emplace_back b sb m1 }"
    let ?c = "grown ms (length (hs @ ts) + k) (length (hs @ ts) + length [a])"
    have ge: "length (hs @ ts) + length [a] \<le> ?c" by (rule grown_ge [OF ys(2)])
    then have c: "length hs \<le> ?c" "0 < ?c" by auto
    have room: "?c - length hs = Suc (?c - length hs - 1)" using ge by simp
    have "read_arg (m @ [Some (sb_cells (length hs) [] (?c - length hs))]) x = Some a"
      by (rule read_arg_denotes [OF x]) (rule sb_new_behind(2) [OF v c])
    then have "?fill (sb_view (length m) (length hs) 0 (?c - length hs)) (m @ [Some (sb_cells (length hs) [] (?c - length hs))]) =
      construct_at_end_with_size [a] (sb_view (length m) (length hs) 0 (?c - length hs))
        (m @ [Some (sb_cells (length hs) [] (?c - length hs))])"
      by (subst (1 3) room) (simp add: sb_emplace_back_eq)
    from v_insert_realloc_step [OF v ys refl, of ?fill, OF this] 3 pos sizes(5) show ?thesis
      by (auto simp: v_insert_def Let_def)
  qed
qed

lemma v_emplace_eq: "v_emplace ms p a v m = v_insert ms p (Ext a) v m"
  unfolding v_emplace_def v_insert_def shift_arg_def arg.case read_arg.simps Option.bind_lunit ..

section \<open>Insertion from an input iterator\<close>

lemma v_fill_spare_step:
  assumes "vec_rep m v xs k"
  shows "\<exists>v' m'. v_fill_spare ys v m = Some (drop k ys, v', m') \<and>
    vec_step m v (xs @ take k ys) (k - length ys) v' m' \<and> v_begin v' = v_begin v"
  using assms
proof (induction ys arbitrary: m v xs k)
  case Nil
  then show ?case by (auto intro: vec_step_refl)
next
  case (Cons y ys)
  show ?case
  proof (cases k)
    case 0
    then have "v_end v = v_cap v" using vec_rep_sizes [OF Cons.prems] by simp
    with 0 Cons.prems show ?thesis by (auto intro: vec_step_refl)
  next
    case (Suc j)
    have "arg_denotes v xs (Ext y) y" by (simp add: arg_denotes_def)
    from v_emplace_back_assume_capacity_step [OF Cons.prems [unfolded Suc] this] obtain v1 m1 where
      1: "v_emplace_back_assume_capacity (Ext y) v m = Some (v1, m1)" "vec_step m v (xs @ [y]) j v1 m1"
      "v_begin v1 = v_begin v" by auto
    then have "vec_rep m1 v1 (xs @ [y]) j" by (simp add: vec_step_def)
    from Cons.IH [OF this] obtain v2 m2 where
      "v_fill_spare ys v1 m1 = Some (drop j ys, v2, m2)"
      "vec_step m1 v1 ((xs @ [y]) @ take j ys) (j - length ys) v2 m2" "v_begin v2 = v_begin v1" by blast
    moreover have "v_end v \<noteq> v_cap v"
      using Cons.prems Suc by (auto elim!: vec_rep_cases)
    ultimately show ?thesis using 1 Suc by (auto intro: vec_step_trans)
  qed
qed

text \<open>The elements behind \<open>zs\<close> relocated into the front of an empty buffer's block.\<close>

lemma relocate_tail:
  assumes v: "vec_rep m v (zs @ es) 0" and e: "block m e = Some (sb_cells f [] r)" "e \<notin> v_own v" "length es \<le> r"
  obtains m' where "relocate (length es) (padd (v_begin v) (length zs)) (Ptr e f) m = Some m'"
    "vec_rep m' (v\<lparr>v_end := padd (v_begin v) (length zs)\<rparr>) zs (length es)"
    "block m' e = Some (sb_cells f es (r - length es))"
    "\<And>c. c \<notin> v_own v \<Longrightarrow> c \<noteq> e \<Longrightarrow> block m' c = block m c"
  using v
proof (cases rule: vec_rep_cases)
  case empty
  then show ?thesis using e by (intro that [of m]) (auto simp: relocate_def)
next
  case (view b)
  then have be: "b \<noteq> e" using e by auto
  let ?m1 = "set_block (set_block m b (map Live zs @ replicate (length es) Raw @ [])) e
    (replicate f Raw @ map Live es @ replicate (r - length es) Raw)"
  have "relocate (length es) (Ptr b (length zs)) (Ptr e f) m = Some ?m1"
    by (rule relocate_ok) (use view e be in \<open>auto simp: sb_cells_def simp flip: replicate_add\<close>)
  moreover have "vec_rep ?m1 (vview b (length zs) (length es)) zs (length es)"
    by (rule vec_rep_view) (use view be in \<open>auto simp: mem_simps\<close>)
  moreover have "v\<lparr>v_end := padd (v_begin v) (length zs)\<rparr> = vview b (length zs) (length es)"
    using view(1) by (simp add: vview_def)
  ultimately show ?thesis
    using view be e(1) by (intro that [of ?m1]) (auto simp: mem_simps sb_cells_def dest: block_less)
qed

lemma relocate_buffer:
  assumes d: "block m d = Some (sb_cells g ys j)" and e: "block m e = Some (sb_cells f es r)" and "d \<noteq> e" "length ys \<le> r"
  shows "relocate (length ys) (Ptr d g) (Ptr e (f + length es)) m =
    Some (set_block (set_block m d (sb_cells g [] (length ys + j))) e (sb_cells f (es @ ys) (r - length ys)))"
proof -
  have "relocate (length ys) (Ptr d g) (Ptr e (f + length es)) m =
    Some (set_block (set_block m d (replicate g Raw @ replicate (length ys) Raw @ replicate j Raw)) e
      ((replicate f Raw @ map Live es) @ map Live ys @ replicate (r - length ys) Raw))"
    by (rule relocate_ok) (use assms in \<open>auto simp: sb_cells_def simp flip: replicate_add\<close>)
  then show ?thesis by (simp add: sb_cells_def replicate_add)
qed

text \<open>
  The merge: the elements \<open>es\<close> that were appended and the buffered \<open>rest\<close> are relocated into a
  third block, the others around them, and the two old blocks are released.
\<close>

lemma v_merge_step:
  assumes v: "vec_rep m v ((hs @ ts) @ es) 0" and d: "block m d = Some (sb_cells g rest j)" "d \<notin> v_own v"
    and c: "length (hs @ ts) + length (es @ rest) \<le> c" "0 < c"
  obtains sb m3 m4 m5 m6 m7 m8 l where
    "sb_new c (length hs) m = Some (sb_view (length m) (length hs) 0 (c - length hs), m3)"
    "relocate (length es) (padd (v_begin v) (length (hs @ ts))) (Ptr (length m) (length hs)) m3 = Some m4"
    "relocate (length rest) (Ptr d g) (Ptr (length m) (length hs + length es)) m4 = Some m5"
    "v_swap_out_at (v\<lparr>v_end := padd (v_begin v) (length (hs @ ts))\<rparr>)
       (sb_view (length m) (length hs) (length (es @ rest)) (c - length hs - length es - length rest))
       (padd (v_begin v) (length hs)) m5 =
       Some (Ptr (length m) (length hs), vview (length m) (length (hs @ (es @ rest) @ ts)) l, sb, m6)"
    "sb_delete sb m6 = Some m7" "sb_delete (sb_view d g 0 (length rest + j)) m7 = Some m8"
    "vec_rep m8 (vview (length m) (length (hs @ (es @ rest) @ ts)) l) (hs @ (es @ rest) @ ts) l"
    "\<And>b. b \<in> v_own v \<or> b = d \<Longrightarrow> block m8 b = None"
    "\<And>b. b \<notin> v_own v \<Longrightarrow> b \<noteq> d \<Longrightarrow> b \<noteq> length m \<Longrightarrow> block m8 b = block m b"
proof -
  let ?e = "length m" and ?r = "c - length hs - length es"
  let ?l = "?r - length rest - length ts"
  let ?v2 = "v\<lparr>v_end := padd (v_begin v) (length (hs @ ts))\<rparr>"
  let ?m3 = "m @ [Some (sb_cells (length hs) [] (c - length hs))]"
  have hc: "length hs \<le> c" and esc: "length es \<le> c - length hs" and rr: "length rest \<le> ?r" using c by auto
  note new = sb_new_behind [OF v hc c(2)]
  have de: "d \<noteq> ?e" using d(1) by (auto dest: block_less)
  have own2: "v_own ?v2 = v_own v" by (simp add: v_own_def)
  have b3: "block ?m3 ?e = Some (sb_cells (length hs) [] (c - length hs))" "block ?m3 d = Some (sb_cells g rest j)"
    using d(1) de by (simp_all add: mem_simps)
  obtain m4 where m4: "relocate (length es) (padd (v_begin v) (length (hs @ ts))) (Ptr ?e (length hs)) ?m3 = Some m4"
    "vec_rep m4 ?v2 (hs @ ts) (length es)" "block m4 ?e = Some (sb_cells (length hs) es ?r)"
    "\<And>b. b \<notin> v_own v \<Longrightarrow> b \<noteq> ?e \<Longrightarrow> block m4 b = block ?m3 b"
    by (rule relocate_tail [OF new(2) b3(1) new(3) esc]) blast
  have d4: "block m4 d = Some (sb_cells g rest j)"
    using m4(4) [of d] d(2) de b3(2) by simp
  let ?m5 = "set_block (set_block m4 d (sb_cells g [] (length rest + j))) ?e
    (sb_cells (length hs) (es @ rest) (?r - length rest))"
  have m5: "relocate (length rest) (Ptr d g) (Ptr ?e (length hs + length es)) m4 = Some ?m5"
    by (rule relocate_buffer [OF d4 m4(3) de rr])
  have r5: "vec_rep ?m5 ?v2 (hs @ ts) (length es)"
    by (rule vec_rep_owner [OF m4(2), of "{d, ?e}" "{d, ?e}"])
      (use d(2) new(3) own2 in \<open>auto simp: owner_step_def mem_simps\<close>)
  have b5: "block ?m5 ?e = Some (sb_cells (length hs) (es @ rest) (?r - length rest))"
    "block ?m5 d = Some (sb_cells g [] (length rest + j))"
    using m4(3) d4 de by (auto simp: mem_simps dest: block_less)
  have e2: "?e \<notin> v_own ?v2" using new(3) own2 by simp
  obtain sb m6 m7 where swap:
    "v_swap_out_at ?v2 (sb_view ?e (length hs) (length (es @ rest)) (?r - length rest)) (padd (v_begin ?v2) (length hs)) ?m5 =
      Some (Ptr ?e (length hs), vview ?e (length (hs @ (es @ rest) @ ts)) ?l, sb, m6)"
    "sb_delete sb m6 = Some m7"
    "vec_rep m7 (vview ?e (length (hs @ (es @ rest) @ ts)) ?l) (hs @ (es @ rest) @ ts) ?l"
    "owner_step (insert ?e (v_own ?v2)) {?e} ?m5 m7"
    by (rule v_swap_out_at_step [OF r5 b5(1) e2]) (use c in auto)
  have d7: "block m7 d = Some (sb_cells g [] (length rest + j))"
    using swap(4) b5(2) d(2) own2 de by (auto simp: owner_step_def)
  let ?m8 = "drop_block (set_block m7 d (replicate (g + 0 + (length rest + j)) Raw)) d"
  have del: "sb_delete (sb_view d g 0 (length rest + j)) m7 = Some ?m8"
    by (rule sb_delete_view [of _ _ _ "[]"]) (use d7 in \<open>auto simp: sb_cells_def\<close>)
  have r8: "vec_rep ?m8 (vview ?e (length (hs @ (es @ rest) @ ts)) ?l) (hs @ (es @ rest) @ ts) ?l"
    by (rule vec_rep_owner [OF swap(3), of "{d}" "{}"]) (use de in \<open>auto simp: owner_step_def mem_simps\<close>)
  have freed: "block ?m8 b = None" if "b \<in> v_own v \<or> b = d" for b
    using that swap(4) own2 new(3) by (auto simp: owner_step_def mem_simps)
  have other: "block ?m8 b = block m b" if "b \<notin> v_own v" "b \<noteq> d" "b \<noteq> ?e" for b
    using that swap(4) own2 m4(4) by (auto simp: owner_step_def mem_simps)
  show ?thesis
    by (rule that [OF new(1) m4(1) m5 _ swap(2) del r8 freed other]) (use swap(1) in simp_all)
qed

lemma v_insert_with_sentinel_spare:
  assumes v: "vec_rep m v (hs @ ts) k" and len: "length ys \<le> k"
  shows "\<exists>v' m' j. v_insert_with_sentinel ms (padd (v_begin v) (length hs)) ys v m =
      Some (Inr (padd (v_begin v') (length hs)), v', m') \<and> vec_step m v (hs @ ys @ ts) j v' m'"
proof -
  from v_fill_spare_step [OF v, of ys] obtain v1 m1 where
    fill: "v_fill_spare ys v m = Some ([], v1, m1)"
      "vec_step m v ((hs @ ts) @ ys) (k - length ys) v1 m1" "v_begin v1 = v_begin v" using len by auto
  then have r1: "vec_rep m1 v1 ((hs @ ts) @ ys) (k - length ys)" by (simp add: vec_step_def)
  have added: "pdiff (v_end v1) (v_end v) = Some (length ys)"
    using vec_rep_sizes(6) [OF v] fill(3) vec_gap_positions(2) [OF r1] by simp
  from r1 have "vec_rep m1 v1 (hs @ ts @ ys) (k - length ys)" by simp
  then have "\<exists>m2. rotate_range (length ts) (length ys) (padd (v_begin v1) (length hs)) m1 = Some m2 \<and>
      vec_step m1 v1 (hs @ ys @ ts) (k - length ys) v1 m2"
  proof (cases rule: vec_rep_cases)
    case (view b)
    have "block m1 b = Some (map Live hs @ map Live ts @ map Live ys @ replicate (k - length ys) Raw)"
      using view by simp
    from rotate_range_ok [OF this, of "length hs"] view
      vec_step_in_place [of m1 b _ "length (hs @ ts @ ys)" "hs @ ys @ ts" "k - length ys"
        "length (hs @ ts @ ys)" "k - length ys"]
    show ?thesis by (auto simp: add.commute add.left_commute)
  qed (auto simp: rotate_range_def vec_step_def)
  then obtain m2 where "rotate_range (length ts) (length ys) (padd (v_begin v) (length hs)) m1 = Some m2"
      "vec_step m1 v1 (hs @ ys @ ts) (k - length ys) v1 m2" using fill(3) by auto
  with fill vec_gap_positions [OF v] added show ?thesis
    by (auto simp: v_insert_with_sentinel_def Let_def intro: vec_step_trans)
qed

text \<open>The state in front of the merge: the spare capacity is used up and the rest is buffered.\<close>

lemma v_insert_with_sentinel_buffered:
  assumes v: "vec_rep m v xs k" and len: "k < length ys"
  obtains v1 m1 m2 d g j where
    "v_fill_spare ys v m = Some (drop k ys, v1, m1)" "v_begin v1 = v_begin v"
    "pdiff (v_end v1) (v_end v) = Some k"
    "construct_at_end_with_sentinel (drop k ys) sb_empty_layout m1 = Some (sb_view d g (length ys - k) j, m2)"
    "vec_rep m2 v1 (xs @ take k ys) 0" "block m2 d = Some (sb_cells g (drop k ys) j)" "d \<notin> v_own v1"
    "block m1 d = None" "owner_step {} {d} m1 m2" "vec_step m v (xs @ take k ys) 0 v1 m1"
proof -
  from v_fill_spare_step [OF v, of ys] len obtain v1 m1 where
    fill: "v_fill_spare ys v m = Some (drop k ys, v1, m1)"
      "vec_step m v (xs @ take k ys) 0 v1 m1" "v_begin v1 = v_begin v" by auto
  then have r1: "vec_rep m1 v1 (xs @ take k ys) 0" by (simp add: vec_step_def)
  have "sb_rep m1 sb_empty_layout 0 [] 0" by (simp add: sb_rep_def)
  from construct_at_end_with_sentinel_rep [OF this, of "drop k ys"] obtain sb m2 g j where
    sb: "construct_at_end_with_sentinel (drop k ys) sb_empty_layout m1 = Some (sb, m2)"
    "sb_rep m2 sb g (drop k ys) j" "owner_step {} (sb_own sb) m1 m2"
    by auto
  from sb(2) len obtain d where d: "sb = sb_view d g (length ys - k) j" "block m2 d = Some (sb_cells g (drop k ys) j)"
    by (cases rule: sb_rep_cases) auto
  have d1: "block m1 d = None" using sb(3) d(1) by (auto simp: owner_step_def)
  have dv: "d \<notin> v_own v1" using r1 d1 by (auto elim!: vec_rep_cases)
  have r2: "vec_rep m2 v1 (xs @ take k ys) 0"
    by (rule vec_rep_owner [OF r1 sb(3)]) (use dv d in auto)
  have "pdiff (v_end v1) (v_end v) = Some k"
    using vec_rep_sizes(6) [OF v] fill(3) vec_gap_positions(2) [OF r1] len by (simp add: min_absorb2)
  with fill sb d d1 dv r2 show ?thesis by (intro that) simp_all
qed

lemma v_insert_with_sentinel_merge:
  assumes v: "vec_rep m v (hs @ ts) k" and len: "k < length ys" "length (hs @ ts) + length ys \<le> ms"
  shows "\<exists>v' m' j. v_insert_with_sentinel ms (padd (v_begin v) (length hs)) ys v m =
      Some (Inr (padd (v_begin v') (length hs)), v', m') \<and> vec_step m v (hs @ ys @ ts) j v' m'"
proof -
  let ?es = "take k ys" and ?rest = "drop k ys"
  have es: "length ?es = k" using len by simp
  obtain v1 m1 m2 d g j where b:
    "v_fill_spare ys v m = Some (?rest, v1, m1)" "v_begin v1 = v_begin v"
    "pdiff (v_end v1) (v_end v) = Some k"
    "construct_at_end_with_sentinel ?rest sb_empty_layout m1 = Some (sb_view d g (length ys - k) j, m2)"
    "vec_rep m2 v1 ((hs @ ts) @ ?es) 0" "block m2 d = Some (sb_cells g ?rest j)" "d \<notin> v_own v1"
    "block m1 d = None" "owner_step {} {d} m1 m2" "vec_step m v ((hs @ ts) @ ?es) 0 v1 m1"
    by (rule v_insert_with_sentinel_buffered [OF v len(1)]) blast
  define c where "c = grown ms (length (hs @ ts) + k) (length (hs @ ts) + length ys)"
  have c: "length (hs @ ts) + length (?es @ ?rest) \<le> c"
    unfolding c_def by (simp only: append_take_drop_id) (rule grown_ge [OF len(2)])
  have c0: "0 < c" using c len by auto
  have rec: "v_recommend ms (length (hs @ ts) + length ys) v1 = Some (Inr c)"
    using v_recommend_grown [OF b(5) len(2)] es by (simp add: c_def add.assoc)
  obtain sb m3 m4 m5 m6 m7 m8 l where t:
    "sb_new c (length hs) m2 = Some (sb_view (length m2) (length hs) 0 (c - length hs), m3)"
    "relocate (length ?es) (padd (v_begin v1) (length (hs @ ts))) (Ptr (length m2) (length hs)) m3 = Some m4"
    "relocate (length ?rest) (Ptr d g) (Ptr (length m2) (length hs + length ?es)) m4 = Some m5"
    "v_swap_out_at (v1\<lparr>v_end := padd (v_begin v1) (length (hs @ ts))\<rparr>)
       (sb_view (length m2) (length hs) (length (?es @ ?rest)) (c - length hs - length ?es - length ?rest))
       (padd (v_begin v1) (length hs)) m5 =
       Some (Ptr (length m2) (length hs), vview (length m2) (length (hs @ (?es @ ?rest) @ ts)) l, sb, m6)"
    "sb_delete sb m6 = Some m7" "sb_delete (sb_view d g 0 (length ?rest + j)) m7 = Some m8"
    "vec_rep m8 (vview (length m2) (length (hs @ (?es @ ?rest) @ ts)) l) (hs @ (?es @ ?rest) @ ts) l"
    "\<And>b. b \<in> v_own v1 \<or> b = d \<Longrightarrow> block m8 b = None"
    "\<And>b. b \<notin> v_own v1 \<Longrightarrow> b \<noteq> d \<Longrightarrow> b \<noteq> length m2 \<Longrightarrow> block m8 b = block m2 b"
    by (rule v_merge_step [OF b(5-7) c c0]) blast
  let ?e = "length m2"
  have de: "d \<noteq> ?e" using b(6) by (auto dest: block_less)
  have o8: "owner_step (v_own v1) {?e} m1 m8"
    unfolding owner_step_def
  proof (intro conjI ballI allI impI)
    fix x assume "x \<notin> v_own v1 \<union> {?e}"
    then show "block m8 x = block m1 x"
      using t(8) [of x] t(9) [of x] b(8,9) by (cases "x = d") (auto simp: owner_step_def)
  next
    fix x assume "x \<in> {?e} - v_own v1"
    then show "block m1 x = None" using b(9) de by (auto simp: owner_step_def)
  qed (use t(8) in auto)
  have fin: "vec_step m v (hs @ ys @ ts) l (vview ?e (length (hs @ ys @ ts)) l) m8"
    using t(7) b(10) owner_step_trans [OF _ o8] by (auto simp: vec_step_def)
  have s1: "set_sentinel (Ptr ?e (length hs + k)) (sb_view ?e (length hs) 0 (c - length hs)) =
      Some (sb_view ?e (length hs) k (c - length hs - k))"
    and s2: "set_sentinel_size (k + (length ys - k)) (sb_view ?e (length hs) k (c - length hs - k)) =
      sb_view ?e (length hs) (length (?es @ ?rest)) (c - length hs - length ?es - length ?rest)"
    and s3: "set_sentinel (Ptr d g) (sb_view d g (length ys - k) j) = Some (sb_view d g 0 (length ?rest + j))"
    using c len(1) es by auto
  have "v_insert_with_sentinel ms (padd (v_begin v) (length hs)) ys v m =
      Some (Inr (Ptr ?e (length hs)), vview ?e (length (hs @ ys @ ts)) l, m8)"
    using b(1-4) t(1-6) s1 s2 s3 rec rec [simplified add.assoc length_append] len(1) es vec_gap_positions [OF v] vec_rep_sizes [OF b(5)] vec_rep_sizes(6) [OF v]
    by (simp add: v_insert_with_sentinel_def Let_def)
  with fin show ?thesis by auto
qed

text \<open>
  When the result would be too long the guard destroys the appended elements but the vector still
  counts them: its destructor then destroys raw storage.
\<close>

lemma v_insert_with_sentinel_error:
  assumes v: "vec_rep m v (hs @ ts) k" and len: "k < length ys" "length (hs @ ts) + length ys > ms" and k: "0 < k"
  shows "\<exists>v' m'. v_insert_with_sentinel ms (padd (v_begin v) (length hs)) ys v m = Some (Inl Length_Error, v', m') \<and>
    v_size v' = Some (length (hs @ ts) + k) \<and> v_delete v' m' = None"
proof -
  let ?es = "take k ys" and ?rest = "drop k ys"
  obtain v1 m1 m2 d g j where b:
    "v_fill_spare ys v m = Some (?rest, v1, m1)" "v_begin v1 = v_begin v"
    "pdiff (v_end v1) (v_end v) = Some k"
    "construct_at_end_with_sentinel ?rest sb_empty_layout m1 = Some (sb_view d g (length ys - k) j, m2)"
    "vec_rep m2 v1 ((hs @ ts) @ ?es) 0" "block m2 d = Some (sb_cells g ?rest j)" "d \<notin> v_own v1"
    by (rule v_insert_with_sentinel_buffered [OF v len(1)]) blast
  have rec: "v_recommend ms (length (hs @ ts) + length ys) v1 = Some (Inl Length_Error)"
    using len(2) by (simp add: v_recommend_error)
  obtain c where c: "v1 = vview c (length (hs @ ts) + k) 0"
    "block m2 c = Some (map Live (hs @ ts) @ map Live ?es)" "c < length m2"
    using b(5)
  proof (cases rule: vec_rep_cases)
    case (view c)
    then show ?thesis using len(1) by (intro that [of c]) (simp_all add: add.assoc)
  qed (use k len(1) in simp)
  let ?m3 = "set_block m2 c (map Live (hs @ ts) @ replicate k Raw @ [])"
  have 1: "destroy_back (length (map Live ?es :: 'a cell list)) (v_end v1) m2 =
      Some (set_block m2 c (map Live (hs @ ts) @ replicate (length (map Live ?es :: 'a cell list)) Raw @ []))"
    unfolding c(1) vview_simps by (rule destroy_back_ok) (use c len(1) in auto)
  then have 1: "destroy_back k (v_end v1) m2 = Some ?m3" using len(1) by simp
  have cd: "c \<noteq> d" using b(7) c(1) by auto
  have "sb_delete (sb_view d g (length ys - k) j) ?m3 =
      Some (drop_block (set_block ?m3 d (replicate (g + (length ys - k) + j) Raw)) d)" (is "_ = Some ?m4")
    by (rule sb_delete_view [of _ _ _ "map Live ?rest"]) (use b(6) cd in \<open>auto simp: mem_simps sb_cells_def\<close>)
  with 1 b rec rec [simplified add.assoc length_append] have e: "v_insert_with_sentinel ms (padd (v_begin v) (length hs)) ys v m = Some (Inl Length_Error, v1, ?m4)"
    using len(1) vec_gap_positions [OF v] vec_rep_sizes [OF b(5)]
    by (simp add: v_insert_with_sentinel_def Let_def)
  have "block ?m4 c = Some (map Live (hs @ ts) @ replicate k Raw)" using c cd by (simp add: mem_simps)
  then have "cell_at ?m4 (Ptr c (length (hs @ ts) + (k - 1))) = Some Raw" using k by (cases k) (simp_all add: nth_append nth_Cons')
  then have "destroy (Ptr c (length (hs @ ts) + (k - 1))) ?m4 = None" by (simp add: destroy_def)
  moreover have "length (hs @ ts) + k = Suc (length (hs @ ts) + (k - 1))" using k by simp
  ultimately have "destroy_back (length (hs @ ts) + k) (Ptr c (length (hs @ ts) + k)) ?m4 = None"
    by (metis destroy_back.simps(2) Option.bind_lzero psub.simps(1) diff_Suc_1 le_add1 plus_1_eq_Suc)
  then have "v_delete v1 ?m4 = None"
    using c(1) by (simp add: v_delete_def v_clear_def v_destruct_at_end_def)
  with e show ?thesis using c(1) by auto
qed

section \<open>Construction, copy and move\<close>

lemma v_init_with_size_step:
  "if length xs > ms then v_init_with_size ms xs m = Some (Inl Length_Error, v_empty_layout, m)
   else \<exists>v' m' j. v_init_with_size ms xs m = Some (Inr (), v', m') \<and> vec_rep m' v' xs j \<and>
     owner_step {} (v_own v') m m'"
proof (cases "xs = [] \<or> length xs > ms")
  case True
  then show ?thesis
    by (auto simp: v_init_with_size_def v_vallocate_def v_delete_def intro!: exI [of _ "0 :: nat"])
next
  case False
  from v_vallocate_ok [of "length xs" ms v_empty_layout m] False obtain v1 m1 where
    1: "v_vallocate ms (length xs) v_empty_layout m = Some (Inr (), v1, m1)"
    "vec_rep m1 v1 [] (length xs)" "owner_step {} (v_own v1) m m1" by auto
  from v_construct_at_end_step [OF 1(2), of xs] obtain v2 m2 where
    2: "v_construct_at_end xs v1 m1 = Some (v2, m2)" "vec_step m1 v1 xs 0 v2 m2" by auto
  from 1 2 False show ?thesis
    by (auto simp: v_init_with_size_def vec_step_def intro: owner_step_trans)
qed

lemma v_init_fill_eq: "v_init_fill ms n x m = v_init_with_size ms (replicate n x) m"
  unfolding v_init_fill_def v_init_with_size_def v_construct_at_end_fill_eq by auto

lemma v_copy_new_eq: "vec_rep m x xs k \<Longrightarrow> v_copy_new ms x m = v_init_with_size ms xs m"
  using vec_values [of m x xs k] by (simp add: v_copy_new_def v_values_def vec_rep_sizes)

lemma v_copy_assign_eq:
  "vec_rep m x xs k \<Longrightarrow> v_copy_assign ms False x v m = v_assign_with_size ms xs v m"
  using vec_values [of m x xs k] by (simp add: v_copy_assign_def v_values_def vec_rep_sizes)

lemma v_init_with_sentinel_step:
  assumes "length xs \<le> ms"
  shows "\<exists>v' m' j. v_init_with_sentinel ms xs m = Some (Inr (), v', m') \<and> vec_rep m' v' xs j \<and>
     owner_step {} (v_own v') m m'"
  using v_emplace_all_step [of m v_empty_layout "[]" 0 xs ms] assms
  by (auto simp: v_init_with_sentinel_def vec_step_def)

text \<open>A move steals the block: nothing is copied and the source is left empty.\<close>

lemma v_move_assign_step:
  assumes v: "vec_rep m v xs k" and c: "vec_rep m c ys j" and "v_own v \<inter> v_own c = {}"
  shows "\<exists>m'. v_move_assign c v m = Some (c, v_empty_layout, m') \<and> vec_rep m' c ys j \<and>
    owner_step (v_own v \<union> v_own c) (v_own c) m m'"
proof -
  from v_vdeallocate_step [OF v] obtain m' where
    1: "v_vdeallocate v m = Some (v_empty_layout, m')" "owner_step (v_own v) {} m m'" by blast
  have "vec_rep m' c ys j" by (rule vec_rep_owner [OF c 1(2)]) (use assms(3) in auto)
  moreover have "owner_step (v_own v \<union> v_own c) (v_own c) m m'"
    using 1(2) assms(3) by (auto simp: owner_step_def)
  ultimately show ?thesis using 1(1) by (simp add: v_move_assign_def)
qed

lemma v_move_new_eq: "v_move_new x = (x, v_empty_layout)"
  by (simp add: v_move_new_def)

lemma v_swap_eq: "v_swap (v, x) = (x, v)"
  by (simp add: v_swap_def)

section \<open>Comparison and filtering\<close>

lemma v_equal_iff:
  "vec_rep m v xs k \<Longrightarrow> vec_rep m w ys j \<Longrightarrow> v_equal v w m = Some (xs = ys)"
  by (auto simp: v_equal_def vec_rep_sizes vec_values)

lemma v_compare_eq:
  "vec_rep m v xs k \<Longrightarrow> vec_rep m w ys j \<Longrightarrow> v_compare cmp v w m = Some (compare_three_way cmp xs ys)"
  by (simp add: v_compare_def vec_values)

lemma compare_three_way_eq:
  "(\<And>x y. cmp x y = 0 \<longleftrightarrow> x = y) \<Longrightarrow> compare_three_way cmp xs ys = 0 \<longleftrightarrow> xs = ys"
  by (induction cmp xs ys rule: compare_three_way.induct) auto

text \<open>
  \<open>remove_if\<close>: \<open>kept\<close> elements in front, \<open>gap\<close> cells that hold an object each, the \<open>rest\<close> to look at.
\<close>

lemma remove_if_loop_ok:
  "block m b = Some (map Live kept @ gap @ map Live rest @ C) \<Longrightarrow> Raw \<notin> set gap \<Longrightarrow>
   q = length kept \<Longrightarrow> p = length kept + length gap \<Longrightarrow>
   \<exists>gap'. remove_if_loop P (length rest) (Ptr b p) (Ptr b q) m =
      Some (Ptr b (length (kept @ filter (\<lambda>x. \<not> P x) rest)),
        set_block m b (map Live (kept @ filter (\<lambda>x. \<not> P x) rest) @ gap' @ C)) \<and>
     Raw \<notin> set gap' \<and> length gap' = length gap + length (filter P rest)"
proof (induction rest arbitrary: m kept gap p q)
  case Nil
  then show ?case by (intro exI [of _ gap]) (simp add: set_block_id)
next
  case (Cons x rest)
  have rd: "read_at m (Ptr b p) = Some x"
    by (rule read_mid [of _ _ "map Live kept @ gap"]) (use Cons.prems in simp_all)
  consider "P x" | "\<not> P x" "gap = []" | g gs where "\<not> P x" "gap = g # gs" by (cases gap) auto
  then show ?case
  proof cases
    case 1
    have "block m b = Some (map Live kept @ (gap @ [Live x]) @ map Live rest @ C)"
      using Cons.prems by simp
    from Cons.IH [OF this _ Cons.prems(3), of "Suc p"] 1 rd Cons.prems(2,4) show ?thesis by auto
  next
    case 2
    have "block m b = Some (map Live (kept @ [x]) @ [] @ map Live rest @ C)"
      using Cons.prems 2 by simp
    from Cons.IH [OF this, of "Suc q" "Suc p"] 2 rd Cons.prems(3,4) show ?thesis by auto
  next
    case 3
    let ?m1 = "set_block m b ((map Live kept @ gap) @ Husk # map Live rest @ C)"
    let ?m2 = "set_block ?m1 b (map Live kept @ Live x # (gs @ [Husk]) @ map Live rest @ C)"
    have mv: "move_from (Ptr b p) m = Some (x, ?m1)"
      by (rule move_from_mid) (use Cons.prems in simp_all)
    have as: "assign_at x (Ptr b q) ?m1 = Some ?m2"
      by (rule assign_mid [of _ _ _ g]) (use Cons.prems 3 in \<open>auto simp: mem_simps dest: block_less\<close>)
    have "block ?m2 b = Some (map Live (kept @ [x]) @ (gs @ [Husk]) @ map Live rest @ C)"
      using Cons.prems by (auto simp: mem_simps dest: block_less)
    from Cons.IH [OF this, of "Suc q" "Suc p"] Cons.prems 3
    obtain gap' where "remove_if_loop P (length rest) (Ptr b (Suc p)) (Ptr b (Suc q)) ?m2 =
      Some (Ptr b (length ((kept @ [x]) @ filter (\<lambda>x. \<not> P x) rest)),
        set_block ?m2 b (map Live ((kept @ [x]) @ filter (\<lambda>x. \<not> P x) rest) @ gap' @ C))"
      "Raw \<notin> set gap'" "length gap' = length gap + length (filter P rest)"
      by auto
    with mv as rd 3 Cons.prems show ?thesis by (intro exI [of _ gap']) simp
  qed
qed

lemma v_erase_if_step:
  assumes v: "vec_rep m v xs k"
  shows "\<exists>v' m' j. v_erase_if P v m = Some (length (filter P xs), v', m') \<and>
    vec_step m v (filter (\<lambda>x. \<not> P x) xs) j v' m'"
  using v
proof (cases rule: vec_rep_cases)
  case empty
  then show ?thesis by (auto simp: v_erase_if_def v_erase_range_def vec_step_def intro!: exI [of _ "0 :: nat"])
next
  case (view b)
  let ?ys = "filter (\<lambda>x. \<not> P x) xs"
  have lf: "length ?ys + length (filter P xs) = length xs"
    using sum_length_filter_compl [of P xs] by simp
  have "block m b = Some (map Live [] @ [] @ map Live xs @ replicate k Raw)" using view by simp
  from remove_if_loop_ok [OF this, of 0 0 P] obtain gap where
    1: "remove_if_loop P (length xs) (Ptr b 0) (Ptr b 0) m =
      Some (Ptr b (length ?ys), set_block m b (map Live ?ys @ gap @ replicate k Raw))"
    and gap: "Raw \<notin> set gap" "length gap = length (filter P xs)" by auto
  let ?m1 = "set_block m b (map Live ?ys @ gap @ replicate k Raw)"
  have 2: "destroy_back (length gap) (Ptr b (length xs)) ?m1 =
      Some (set_block ?m1 b (map Live ?ys @ replicate (length gap) Raw @ replicate k Raw))"
    by (rule destroy_back_ok) (use view gap lf in \<open>auto simp: mem_simps\<close>)
  have 3: "vec_step m v ?ys (length gap + k) (vview b (length ?ys) (length gap + k))
      (set_block m b (map Live ?ys @ replicate (length gap + k) Raw))"
    unfolding view(1) by (rule vec_step_in_place [OF view(2)]) (use view(3) lf gap in auto)
  have r: "length xs - length ?ys = length gap" "length ?ys \<le> length xs" using lf gap by auto
  have w: "length xs + k - length ?ys = length (filter P xs) + k" using lf by simp
  show ?thesis
  proof (cases "gap = []")
    case True
    then have "length ?ys = length xs" using lf gap by simp
    then show ?thesis using view(1) 1 3 gap(2) True
      by (auto simp: v_erase_if_def v_erase_range_def)
  next
    case False
    then have "length ?ys \<noteq> length xs" using r by auto
    then show ?thesis using view(1) 1 2 3 r w lf gap(2)
      by (auto simp: v_erase_if_def v_erase_range_def v_destruct_at_end_def replicate_add)
  qed
qed

end
