(* ===== verification/Vector_Edits.thy ===== *)
theory Vector_Edits
  imports Vector_Insert Edit_Machine
begin

text \<open>
  Every sequence of edits on a \<open>plg::vector\<close> is the sequence of list operations, and the vector
  alone answers for its block: it touches no other block and leaks none.
\<close>

section \<open>The edits\<close>












section \<open>Refinement\<close>












section \<open>A failed insertion\<close>

text \<open>When \<open>insert\<close> from input iterators fills the spare capacity and then finds the result
  longer than max_size, it throws length_error with the appended elements destroyed but still
  counted: the size of the vector names objects that do not exist, and destroying the vector is
  undefined.\<close>

lemma insert_error_breaks_vector:
  assumes "vec_rep m v (hs @ ts) k" "0 < k" "k < length ys" "ms < length (hs @ ts) + length ys"
  shows "\<exists>v' m'. v_insert_with_sentinel ms (padd (v_begin v) (length hs)) ys v m = Some (Inl Length_Error, v', m') \<and>
    v_size v' = Some (length (hs @ ts) + k) \<and> v_delete v' m' = None"
  using v_insert_with_sentinel_error [OF assms(1,3,4,2)] .

theorem insert_error_breaks_vector_witness:
  "\<exists>v' m'. v_insert_with_sentinel 2 (padd (v_begin (vview 0 1 1)) (length [1 :: int])) [2, 3] (vview 0 1 1)
      [Some [Live (1 :: int), Raw]] = Some (Inl Length_Error, v', m') \<and>
    v_size v' = Some (length ([1 :: int] @ []) + 1) \<and> v_delete v' m' = None"
proof (rule insert_error_breaks_vector)
  show "vec_rep [Some [Live (1 :: int), Raw]] (vview 0 1 1) ([1] @ []) 1"
    using vec_rep_view [of "[Some [Live (1 :: int), Raw]]" 0 "[1]" 1 1] by (simp add: block_def)
qed simp_all

end
