(* ===== verification/Jit.thy ===== *)
theory Jit
  imports Value_Types "HOL-Library.Word"
begin

text \<open>
  Calls and callbacks by generated code on x86 (src/jit/x86/call.cpp, callback.cpp, helpers.cpp and
  src/jit/helpers.hpp): \<open>JitCall\<close> makes a stub that reads its arguments from an array of 64-bit
  slots and calls a function of any signature, \<open>JitCallback\<close> one that is called with any signature
  and hands its arguments to a handler as such an array.

  The compiler of asmjit is not in the repository. What the program asks of it is a list of nodes:
  an \<open>emitter\<close> has the virtual registers, the stack slots and the nodes made so far, and every
  member function the code calls on the compiler appends to it. What the nodes do is \<open>runs\<close> of
  \<open>Jit_Machine\<close>; what becomes of the finished code is the parameter \<open>jit_runtime\<close>.
\<close>

section \<open>Types and signatures of asmjit\<close>

text \<open>The types the program uses, with their numbers, since the ranges of types are ranges of them.\<close>

datatype type_id =
    TVoid | TUIntPtr | TInt8 | TUInt8 | TInt16 | TUInt16 | TInt32 | TUInt32 | TInt64 | TUInt64
  | TFloat32 | TFloat64 | TFloat32x2 | TInt8x16 | TUInt64x2 | TFloat32x4 | TFloat64x2

fun type_id_code :: "type_id \<Rightarrow> nat" where
  "type_id_code TVoid = 0" | "type_id_code TUIntPtr = 33" | "type_id_code TInt8 = 34"
| "type_id_code TUInt8 = 35" | "type_id_code TInt16 = 36" | "type_id_code TUInt16 = 37"
| "type_id_code TInt32 = 38" | "type_id_code TUInt32 = 39" | "type_id_code TInt64 = 40"
| "type_id_code TUInt64 = 41" | "type_id_code TFloat32 = 42" | "type_id_code TFloat64 = 43"
| "type_id_code TFloat32x2 = 69" | "type_id_code TInt8x16 = 71" | "type_id_code TUInt64x2 = 78"
| "type_id_code TFloat32x4 = 79" | "type_id_code TFloat64x2 = 80"

definition id_between :: "type_id \<Rightarrow> type_id \<Rightarrow> type_id \<Rightarrow> bool" where
  "id_between t a b \<longleftrightarrow> type_id_code a \<le> type_id_code t \<and> type_id_code t \<le> type_id_code b"

definition id_is_int :: "type_id \<Rightarrow> bool" where
  "id_is_int t = id_between t TUIntPtr TUInt64"

definition id_is_float :: "type_id \<Rightarrow> bool" where
  "id_is_float t = id_between t TFloat32 TFloat64"

definition id_is_vec128 :: "type_id \<Rightarrow> bool" where
  "id_is_vec128 t = id_between t TInt8x16 TFloat64x2"

datatype call_conv_id =
    KCDecl | KStdCall | KFastCall | KVectorCall | KThisCall | KRegParm1 | KRegParm2 | KRegParm3
  | KLightCall2 | KLightCall3 | KLightCall4 | KSoftFloat | KHardFloat | KX64SystemV | KX64Windows

record func_sig =
  fs_conv :: call_conv_id
  fs_var :: nat
  fs_ret :: type_id
  fs_args :: "type_id list"

text \<open>\<open>FuncSignature::build\<close> for functions of pointers and sizes.\<close>

definition build_sig :: "type_id \<Rightarrow> nat \<Rightarrow> func_sig" where
  "build_sig r n = \<lparr>fs_conv = KCDecl, fs_var = 255, fs_ret = r, fs_args = replicate n TUIntPtr\<rparr>"

section \<open>Conversion of signatures\<close>

definition has_hi_arg_slot :: "target \<Rightarrow> type_id \<Rightarrow> bool" where
  "has_hi_arg_slot tg t = (if \<not> t_ptr32 tg then False
     else case t of TInt64 \<Rightarrow> True | TUInt64 \<Rightarrow> True | _ \<Rightarrow> False)"

definition get_value_type_id :: "value_type \<Rightarrow> type_id" where
  "get_value_type_id v = (case v of
     Invalid \<Rightarrow> TVoid | Void \<Rightarrow> TVoid | Bool \<Rightarrow> TUInt8 | Char8 \<Rightarrow> TInt8 | Char16 \<Rightarrow> TUInt16
   | Int8 \<Rightarrow> TInt8 | Int16 \<Rightarrow> TInt16 | Int32 \<Rightarrow> TInt32 | Int64 \<Rightarrow> TInt64
   | UInt8 \<Rightarrow> TUInt8 | UInt16 \<Rightarrow> TUInt16 | UInt32 \<Rightarrow> TUInt32 | UInt64 \<Rightarrow> TUInt64
   | Float \<Rightarrow> TFloat32 | Double \<Rightarrow> TFloat64
   | _ \<Rightarrow> TUIntPtr)"

definition get_ret_type_id :: "target \<Rightarrow> value_type \<Rightarrow> type_id" where
  "get_ret_type_id tg v = (case v of
     Invalid \<Rightarrow> TVoid | Void \<Rightarrow> TVoid | Bool \<Rightarrow> TUInt8 | Char8 \<Rightarrow> TInt8 | Char16 \<Rightarrow> TUInt16
   | Int8 \<Rightarrow> TInt8 | Int16 \<Rightarrow> TInt16 | Int32 \<Rightarrow> TInt32 | Int64 \<Rightarrow> TInt64
   | UInt8 \<Rightarrow> TUInt8 | UInt16 \<Rightarrow> TUInt16 | UInt32 \<Rightarrow> TUInt32 | UInt64 \<Rightarrow> TUInt64
   | Float \<Rightarrow> TFloat32 | Double \<Rightarrow> TFloat64
   | Vector2 \<Rightarrow> (if t_ptr32 tg \<or> t_windows tg then TInt64 else TFloat64)
   | Vector3 \<Rightarrow> (if t_ptr32 tg \<or> t_windows tg then TUIntPtr else TFloat32x4)
   | Vector4 \<Rightarrow> (if t_ptr32 tg \<or> t_windows tg then TUIntPtr else TFloat32x4)
   | _ \<Rightarrow> TUIntPtr)"

definition get_call_conv_id :: "call_conv \<Rightarrow> call_conv_id" where
  "get_call_conv_id c = (case c of
     CDecl \<Rightarrow> KCDecl | StdCall \<Rightarrow> KStdCall | FastCall \<Rightarrow> KFastCall | VectorCall \<Rightarrow> KVectorCall
   | ThisCall \<Rightarrow> KThisCall | RegParm1 \<Rightarrow> KRegParm1 | RegParm2 \<Rightarrow> KRegParm2 | RegParm3 \<Rightarrow> KRegParm3
   | LightCall2 \<Rightarrow> KLightCall2 | LightCall3 \<Rightarrow> KLightCall3 | LightCall4 \<Rightarrow> KLightCall4
   | SoftFloat \<Rightarrow> KSoftFloat | HardFloat \<Rightarrow> KHardFloat | X64SystemV \<Rightarrow> KX64SystemV
   | X64Windows \<Rightarrow> KX64Windows)"

definition convert_signature :: "target \<Rightarrow> signature \<Rightarrow> func_sig" where
  "convert_signature tg s = \<lparr>fs_conv = get_call_conv_id (sig_call_conv s), fs_var = sig_var_index s,
     fs_ret = get_ret_type_id tg (sig_ret_type s), fs_args = map get_value_type_id (sig_arg_types s)\<rparr>"

definition sig_has_ret :: "func_sig \<Rightarrow> bool" where
  "sig_has_ret s \<longleftrightarrow> fs_ret s \<noteq> TVoid"

section \<open>The emitter\<close>

text \<open>Registers the program names itself, and virtual ones.\<close>

datatype phys = Rax | Rdx | Eax | Edx | Xmm0 | Xmm1 | X0 | X1 | X8 | V0 | V1 | V2 | V3

datatype reg = Virt nat | Phys phys

text \<open>An address: a register or a stack slot as the base (or none), an index register, an offset.\<close>

datatype base = Base reg | Stack nat | No_base

record mem_op =
  mo_base :: base
  mo_index :: "reg option"
  mo_offset :: nat

definition mem_at :: "base \<Rightarrow> reg option \<Rightarrow> nat \<Rightarrow> mem_op" where
  "mem_at b i d = \<lparr>mo_base = b, mo_index = i, mo_offset = d\<rparr>"

datatype callee = Addr "64 word" | In_reg reg

text \<open>Loads and stores carry their number of bytes. The arguments of an \<open>Invoke\<close> node are those of
  \<open>set_arg(i, 0, r)\<close>, then \<open>set_arg(i, 1, r)\<close>.\<close>

datatype node =
    Mov_imm reg "64 word" | Mov reg reg | Add_imm reg nat
  | Load nat reg mem_op | Store nat mem_op reg | Lea reg mem_op
  | Trap | Invoke callee func_sig "(nat \<times> nat \<times> reg) list" "reg option" | Ret "reg option"

record emitter =
  em_next :: nat
  em_stacks :: "nat list"
  em_params :: "(nat \<times> nat \<times> reg) list"
  em_code :: "node list"

definition new_emitter :: emitter where
  "new_emitter = \<lparr>em_next = 0, em_stacks = [], em_params = [], em_code = []\<rparr>"

definition new_reg :: "emitter \<Rightarrow> reg \<times> emitter" where
  "new_reg e = (Virt (em_next e), e\<lparr>em_next := em_next e + 1\<rparr>)"

definition new_stack :: "nat \<Rightarrow> emitter \<Rightarrow> base \<times> emitter" where
  "new_stack n e = (Stack (length (em_stacks e)), e\<lparr>em_stacks := em_stacks e @ [n]\<rparr>)"

definition emit_node :: "node \<Rightarrow> emitter \<Rightarrow> emitter" where
  "emit_node n e = e\<lparr>em_code := em_code e @ [n]\<rparr>"

definition func_set_arg :: "nat \<Rightarrow> nat \<Rightarrow> reg \<Rightarrow> emitter \<Rightarrow> emitter" where
  "func_set_arg i j r e = e\<lparr>em_params := em_params e @ [(i, j, r)]\<rparr>"

text \<open>The invoke node is kept by its position, as the code keeps a pointer to it.\<close>

definition emit_invoke :: "callee \<Rightarrow> func_sig \<Rightarrow> emitter \<Rightarrow> nat \<times> emitter" where
  "emit_invoke f s e = (length (em_code e), emit_node (Invoke f s [] None) e)"

fun node_set_arg :: "nat \<Rightarrow> nat \<Rightarrow> reg \<Rightarrow> node \<Rightarrow> node" where
  "node_set_arg i j r (Invoke f s as rt) = Invoke f s (as @ [(i, j, r)]) rt"
| "node_set_arg i j r n = n"

fun node_set_ret :: "reg \<Rightarrow> node \<Rightarrow> node" where
  "node_set_ret r (Invoke f s as rt) = Invoke f s as (Some r)"
| "node_set_ret r n = n"

definition invoke_set_arg :: "nat \<Rightarrow> nat \<Rightarrow> nat \<Rightarrow> reg \<Rightarrow> emitter \<Rightarrow> emitter" where
  "invoke_set_arg k i j r e = e\<lparr>em_code := (em_code e)[k := node_set_arg i j r (em_code e ! k)]\<rparr>"

definition invoke_set_ret :: "nat \<Rightarrow> reg \<Rightarrow> emitter \<Rightarrow> emitter" where
  "invoke_set_ret k r e = e\<lparr>em_code := (em_code e)[k := node_set_ret r (em_code e ! k)]\<rparr>"

text \<open>The width of a general register of native size.\<close>

definition native :: "target \<Rightarrow> nat" where
  "native tg = (if t_ptr32 tg then 4 else 8)"

section \<open>Stubs that call\<close>

datatype wait_type = No_wait | Breakpoint | Wait_keypress

record arg_slot =
  as_low :: reg
  as_high :: "reg option"
  as_index :: nat

definition wide_params :: string where
  "wide_params = ''Parameters wider than 64bits not supported''"

definition wide_return :: string where
  "wide_return = ''Return wider than 64bits not supported''"

text \<open>The loop over the arguments: \<open>i\<close> is the register with the offset of the next slot, \<open>off\<close> is
  \<open>offsetNextSlot\<close>.\<close>

fun x86_load_args ::
    "target \<Rightarrow> mem_op \<Rightarrow> reg \<Rightarrow> nat \<Rightarrow> type_id list \<Rightarrow> arg_slot list \<Rightarrow> emitter \<Rightarrow> string + arg_slot list \<times> emitter" where
  "x86_load_args tg pm i k [] slots e = Inr (slots, e)"
| "x86_load_args tg pm i k (t # ts) slots e =
     (if id_is_int t then
        let (low, e) = new_reg e;
            e = emit_node (Load (native tg) low pm) e;
            (high, off, e) =
              (if has_hi_arg_slot tg t then
                 let e = emit_node (Add_imm i 4) e;
                     (h, e) = new_reg e;
                     e = emit_node (Load (native tg) h pm) e
                 in (Some h, 8 - 4, e)
               else (None, 8, e))
        in x86_load_args tg pm i (k + 1) ts (slots @ [\<lparr>as_low = low, as_high = high, as_index = k\<rparr>])
             (emit_node (Add_imm i off) e)
      else if id_is_float t then
        let (low, e) = new_reg e;
            e = emit_node (Load 8 low pm) e
        in x86_load_args tg pm i (k + 1) ts (slots @ [\<lparr>as_low = low, as_high = None, as_index = k\<rparr>])
             (emit_node (Add_imm i 8) e)
      else Inl wide_params)"

text \<open>\<open>getchar\<close> is the address of the library function.\<close>

definition x86_wait :: "64 word \<Rightarrow> wait_type \<Rightarrow> emitter \<Rightarrow> emitter" where
  "x86_wait getchar w e = (case w of
     No_wait \<Rightarrow> e
   | Breakpoint \<Rightarrow> emit_node Trap e
   | Wait_keypress \<Rightarrow> snd (emit_invoke (Addr getchar) (build_sig TInt32 0) e))"

definition pass_args :: "nat \<Rightarrow> arg_slot list \<Rightarrow> emitter \<Rightarrow> emitter" where
  "pass_args k slots e = fold (\<lambda>s e.
     let e = invoke_set_arg k (as_index s) 0 (as_low s) e
     in case as_high s of None \<Rightarrow> e | Some h \<Rightarrow> invoke_set_arg k (as_index s) 1 h e) slots e"

definition x86_store_ret :: "target \<Rightarrow> func_sig \<Rightarrow> nat \<Rightarrow> reg \<Rightarrow> emitter \<Rightarrow> string + emitter" where
  "x86_store_ret tg sig node rimm e =
     (let to = (\<lambda>d. mem_at (Base rimm) None d) in
      if \<not> sig_has_ret sig then Inr e
      else if t_ptr32 tg \<and> id_between (fs_ret sig) TInt64 TUInt64 then
        Inr (emit_node (Store 4 (to 4) (Phys Edx)) (emit_node (Store 4 (to 0) (Phys Eax)) e))
      else if id_is_int (fs_ret sig) then
        let (tmp, e) = new_reg e
        in Inr (emit_node (Store (native tg) (to 0) tmp) (invoke_set_ret node tmp e))
      else if \<not> t_windows tg \<and> \<not> t_ptr32 tg \<and> id_between (fs_ret sig) TInt8x16 TUInt64x2 then
        Inr (emit_node (Store 8 (to 8) (Phys Rdx)) (emit_node (Store 8 (to 0) (Phys Rax)) e))
      else if \<not> t_windows tg \<and> \<not> t_ptr32 tg \<and> id_between (fs_ret sig) TFloat32x4 TFloat64x2 then
        Inr (emit_node (Store 8 (to 8) (Phys Xmm1)) (emit_node (Store 8 (to 0) (Phys Xmm0)) e))
      else if id_is_float (fs_ret sig) then
        let (ret, e) = new_reg e
        in Inr (emit_node (Store 8 (to 0) ret) (invoke_set_ret node ret e))
      else Inl wide_return)"

text \<open>The function of the stub takes the address of the slots and the address of the return.\<close>

definition x86_call_code ::
    "target \<Rightarrow> 64 word \<Rightarrow> func_sig \<Rightarrow> 64 word \<Rightarrow> wait_type \<Rightarrow> string + emitter" where
  "x86_call_code tg getchar sig target w =
     (let (pimm, e) = new_reg new_emitter;
          e = func_set_arg 0 0 pimm e;
          (rimm, e) = new_reg e;
          e = func_set_arg 1 0 rimm e;
          (i, e) = new_reg e;
          e = emit_node (Mov_imm i 0) e
      in rbind (x86_load_args tg (mem_at (Base pimm) (Some i) 0) i 0 (fs_args sig) [] e) (\<lambda>(slots, e).
           let e = x86_wait getchar w e;
               (node, e) = emit_invoke (Addr target) sig e;
               e = pass_args node slots e
           in rbind (x86_store_ret tg sig node rimm e) (\<lambda>e. Inr (emit_node (Ret None) e))))"

section \<open>Stubs that are called\<close>

fun x86_bind_args :: "target \<Rightarrow> nat \<Rightarrow> type_id list \<Rightarrow> arg_slot list \<Rightarrow> emitter \<Rightarrow> string + arg_slot list \<times> emitter" where
  "x86_bind_args tg k [] slots e = Inr (slots, e)"
| "x86_bind_args tg k (t # ts) slots e =
     (if id_is_int t then
        let (low, e) = new_reg e;
            (high, e) = (if has_hi_arg_slot tg t then let (h, e) = new_reg e in (Some h, e) else (None, e));
            e = func_set_arg k 0 low e;
            e = (case high of None \<Rightarrow> e | Some h \<Rightarrow> func_set_arg k 1 h e)
        in x86_bind_args tg (k + 1) ts (slots @ [\<lparr>as_low = low, as_high = high, as_index = k\<rparr>]) e
      else if id_is_float t then
        let (low, e) = new_reg e
        in x86_bind_args tg (k + 1) ts (slots @ [\<lparr>as_low = low, as_high = None, as_index = k\<rparr>])
             (func_set_arg k 0 low e)
      else Inl wide_params)"

text \<open>The two loops between the registers of the arguments and the array on the stack.\<close>

fun x86_spill :: "target \<Rightarrow> func_sig \<Rightarrow> mem_op \<Rightarrow> reg \<Rightarrow> arg_slot list \<Rightarrow> emitter \<Rightarrow> string + emitter" where
  "x86_spill tg sig st i [] e = Inr e"
| "x86_spill tg sig st i (s # ss) e =
     (let t = fs_args sig ! as_index s in
      if id_is_int t then
        let e = emit_node (Store (native tg) st (as_low s)) e
        in case as_high s of
             None \<Rightarrow> x86_spill tg sig st i ss (emit_node (Add_imm i 8) e)
           | Some h \<Rightarrow>
               let e = emit_node (Add_imm i 4) e; e = emit_node (Store (native tg) st h) e
               in x86_spill tg sig st i ss (emit_node (Add_imm i (8 - 4)) e)
      else if id_is_float t then
        x86_spill tg sig st i ss (emit_node (Add_imm i 8) (emit_node (Store 8 st (as_low s)) e))
      else Inl wide_params)"

fun x86_reload :: "target \<Rightarrow> func_sig \<Rightarrow> mem_op \<Rightarrow> reg \<Rightarrow> arg_slot list \<Rightarrow> emitter \<Rightarrow> string + emitter" where
  "x86_reload tg sig st i [] e = Inr e"
| "x86_reload tg sig st i (s # ss) e =
     (let t = fs_args sig ! as_index s in
      if id_is_int t then
        let e = emit_node (Load (native tg) (as_low s) st) e
        in case as_high s of
             None \<Rightarrow> x86_reload tg sig st i ss (emit_node (Add_imm i 8) e)
           | Some h \<Rightarrow>
               let e = emit_node (Add_imm i 4) e; e = emit_node (Load (native tg) h st) e
               in x86_reload tg sig st i ss (emit_node (Add_imm i (8 - 4)) e)
      else if id_is_float t then
        x86_reload tg sig st i ss (emit_node (Add_imm i 8) (emit_node (Load 8 (as_low s) st) e))
      else Inl wide_params)"

text \<open>The end of the stub: the return value out of its stack slot.\<close>

definition x86_return :: "target \<Rightarrow> func_sig \<Rightarrow> bool \<Rightarrow> reg \<Rightarrow> base \<Rightarrow> emitter \<Rightarrow> string + emitter" where
  "x86_return tg sig hidden rstruct rstack e =
     (let from = (\<lambda>d. mem_at rstack None d) in
      if hidden then Inr (emit_node (Ret (Some rstruct)) e)
      else if \<not> sig_has_ret sig then Inr (emit_node (Ret None) e)
      else if t_ptr32 tg \<and> id_between (fs_ret sig) TInt64 TUInt64 then
        Inr (emit_node (Ret None) (emit_node (Load 4 (Phys Edx) (from 4))
          (emit_node (Load 4 (Phys Eax) (from 0)) e)))
      else if id_is_int (fs_ret sig) then
        let (tmp, e) = new_reg e
        in Inr (emit_node (Ret (Some tmp)) (emit_node (Load (native tg) tmp (from 0)) e))
      else if \<not> t_windows tg \<and> \<not> t_ptr32 tg \<and> id_between (fs_ret sig) TInt8x16 TUInt64x2 then
        Inr (emit_node (Ret None) (emit_node (Load 8 (Phys Rdx) (from 8))
          (emit_node (Load 8 (Phys Rax) (from 0)) e)))
      else if \<not> t_windows tg \<and> \<not> t_ptr32 tg \<and> id_between (fs_ret sig) TFloat32x4 TFloat64x2 then
        Inr (emit_node (Ret None) (emit_node (Load 8 (Phys Xmm1) (from 8))
          (emit_node (Load 8 (Phys Xmm0) (from 0)) e)))
      else if id_is_float (fs_ret sig) then
        let (tmp, e) = new_reg e
        in Inr (emit_node (Ret (Some tmp)) (emit_node (Load 8 tmp (from 0)) e))
      else Inl wide_return)"

definition x86_handler_call ::
    "func_sig \<Rightarrow> bool \<Rightarrow> 64 word \<Rightarrow> 64 word \<Rightarrow> 64 word \<Rightarrow> base \<Rightarrow> emitter \<Rightarrow> reg \<times> base \<times> emitter" where
  "x86_handler_call sig hidden callback method_ptr data args e =
     (let (mreg, e) = new_reg e;
          e = emit_node (Mov_imm mreg method_ptr) e;
          (dreg, e) = new_reg e;
          e = emit_node (Mov_imm dreg data) e;
          (astruct, e) = new_reg e;
          count = (of_nat (length (fs_args sig)) :: 64 word);
          (count, e) =
            (if hidden then
               (count - 1, if count - 1 \<noteq> 0 then emit_node (Lea astruct (mem_at args None 8)) e else e)
             else (count, emit_node (Lea astruct (mem_at args None 0)) e));
          (creg, e) = new_reg e;
          e = emit_node (Mov_imm creg count) e;
          (rstruct, e) = new_reg e;
          (rstack, e) =
            (if hidden then (No_base, emit_node (Load 8 rstruct (mem_at args None 0)) e)
             else let (rs, e) = new_stack (8 * (if id_is_vec128 (fs_ret sig) then 2 else 1)) e
                  in (rs, emit_node (Lea rstruct (mem_at rs None 0)) e));
          (node, e) = emit_invoke (Addr callback) (build_sig TVoid 5) e;
          e = invoke_set_arg node 0 0 mreg e;
          e = invoke_set_arg node 1 0 dreg e;
          e = invoke_set_arg node 2 0 astruct e;
          e = invoke_set_arg node 3 0 creg e;
          e = invoke_set_arg node 4 0 rstruct e
      in (rstruct, rstack, e))"

definition x86_callback_code ::
    "target \<Rightarrow> func_sig \<Rightarrow> 64 word \<Rightarrow> 64 word \<Rightarrow> 64 word \<Rightarrow> bool \<Rightarrow> string + emitter" where
  "x86_callback_code tg sig method_ptr callback data hidden =
     rbind (x86_bind_args tg 0 (fs_args sig) [] new_emitter) (\<lambda>(slots, e).
       let size = 8 * length (fs_args sig);
           (args, e) = (if 0 < size then new_stack size e else (No_base, e));
           (i, e) = new_reg e;
           st = mem_at args (Some i) 0;
           e = emit_node (Mov_imm i 0) e
       in rbind (x86_spill tg sig st i slots e) (\<lambda>e.
            let (rstruct, rstack, e) = x86_handler_call sig hidden callback method_ptr data args e;
                e = emit_node (Mov_imm i 0) e
            in rbind (x86_reload tg sig st i slots e) (x86_return tg sig hidden rstruct rstack)))"

section \<open>The objects\<close>

text \<open>
  \<open>Impl\<close> of both classes: the function, and a union of the address the stub was made for (or the
  user's data) with the text of the last error. A stub is made by \<open>finalize\<close>, which reports errors
  to the handler, and by \<open>JitRuntime::add\<close>, which gives the null pointer when it fails; the code
  does not look at what \<open>add\<close> returns.
\<close>

datatype jit_union = Address_of "64 word" | Error_code "string option"

record jit_impl =
  ji_function :: "64 word"
  ji_union :: jit_union

record jit_runtime =
  jr_finalize :: "emitter \<Rightarrow> string option"
  jr_add :: "emitter \<Rightarrow> 64 word"

definition new_jit :: jit_impl where
  "new_jit = \<lparr>ji_function = 0, ji_union = Address_of 0\<rparr>"

definition add_function :: "jit_runtime \<Rightarrow> string + emitter \<Rightarrow> 64 word \<Rightarrow> jit_impl \<Rightarrow> 64 word \<times> jit_impl" where
  "add_function rt code addr j =
     (if ji_function j \<noteq> 0 then (ji_function j, j)
      else let j = j\<lparr>ji_union := Address_of addr\<rparr> in
        case code of
          Inl m \<Rightarrow> (0, j\<lparr>ji_union := Error_code (Some m)\<rparr>)
        | Inr e \<Rightarrow>
            (let f = jr_add rt e; j = j\<lparr>ji_function := f\<rparr> in
             case jr_finalize rt e of
               Some m \<Rightarrow> (0, j\<lparr>ji_function := 0, ji_union := Error_code (Some m)\<rparr>)
             | None \<Rightarrow> (f, j)))"

definition x86_get_call ::
    "jit_runtime \<Rightarrow> target \<Rightarrow> 64 word \<Rightarrow> signature \<Rightarrow> 64 word \<Rightarrow> wait_type \<Rightarrow> jit_impl \<Rightarrow> 64 word \<times> jit_impl" where
  "x86_get_call rt tg getchar s target w j =
     add_function rt (x86_call_code tg getchar (convert_signature tg s) target w) target j"

definition x86_get_callback ::
    "jit_runtime \<Rightarrow> target \<Rightarrow> signature \<Rightarrow> 64 word \<Rightarrow> 64 word \<Rightarrow> 64 word \<Rightarrow> bool \<Rightarrow> jit_impl \<Rightarrow> 64 word \<times> jit_impl" where
  "x86_get_callback rt tg s method_ptr callback data hidden j =
     add_function rt (x86_callback_code tg (convert_signature tg s) method_ptr callback data hidden) data j"

text \<open>The signature of a method: a hidden return is a first argument. \<open>AddArg\<close> throws on the 33rd.
  A parameter is its type and whether it is a reference.\<close>

definition signature_of_method ::
    "call_conv \<Rightarrow> nat \<Rightarrow> value_type \<Rightarrow> (value_type \<times> bool) list \<Rightarrow> (value_type \<Rightarrow> bool) \<Rightarrow> signature option" where
  "signature_of_method conv var ret params hidden =
     (let s = \<lparr>sig_call_conv = conv, sig_ret_type = (if hidden ret then Pointer else ret),
                sig_var_index = var, sig_arg_types = []\<rparr>;
          s = (if hidden ret then add_arg ret s else Some s)
      in fold (\<lambda>(t, r) s. Option.bind s (add_arg (if r then Pointer else t))) params s)"

definition get_function :: "jit_impl \<Rightarrow> 64 word" where
  "get_function j = ji_function j"

text \<open>Reading the member of the union that was not written has no value in the model.\<close>

definition get_target_func :: "jit_impl \<Rightarrow> 64 word option" where
  "get_target_func j = (case ji_union j of Address_of a \<Rightarrow> Some a | Error_code m \<Rightarrow> None)"

definition get_jit_error :: "jit_impl \<Rightarrow> string option" where
  "get_jit_error j =
     (if ji_function j \<noteq> 0 then Some []
      else case ji_union j of
        Address_of a \<Rightarrow> if a = 0 then Some [] else None
      | Error_code m \<Rightarrow> Some (case m of None \<Rightarrow> [] | Some t \<Rightarrow> t))"

end
