(* ===== verification/Jit_Machine.thy ===== *)
theory Jit_Machine
  imports Jit
begin

text \<open>
  What the nodes of a stub do, for a 64-bit target: a machine of registers and memory, the laws a
  run obeys (\<open>runs\<close>), and the run of the pieces the emitters make. The called functions are a
  parameter: a function of their arguments and of the memory that answers with the registers of
  the return and the memory afterwards.
\<close>

unbundle bit_operations_syntax

section \<open>Memory\<close>

type_synonym byte_memory = "64 word \<Rightarrow> 8 word"

fun load_le :: "nat \<Rightarrow> byte_memory \<Rightarrow> 64 word \<Rightarrow> 64 word" where
  "load_le 0 m a = 0"
| "load_le (Suc n) m a = ucast (m a) OR push_bit 8 (load_le n m (a + 1))"

definition store_le :: "nat \<Rightarrow> 64 word \<Rightarrow> 64 word \<Rightarrow> byte_memory \<Rightarrow> byte_memory" where
  "store_le n a v m = (\<lambda>b. if unat (b - a) < n then ucast (drop_bit (8 * unat (b - a)) v) else m b)"

lemma bit_load_le:
  "n \<le> 8 \<Longrightarrow> bit (load_le n m a) j \<longleftrightarrow> j < 8 * n \<and> bit (m (a + of_nat (j div 8))) (j mod 8)"
proof (induction n arbitrary: a j)
  case (Suc n)
  show ?case
  proof (cases "j < 8")
    case True
    with Suc.prems show ?thesis by (simp add: bit_or_iff bit_push_bit_iff bit_ucast_iff)
  next
    case False
    have 1: "j div 8 = Suc ((j - 8) div 8)" and 2: "j mod 8 = (j - 8) mod 8"
      using False by (simp_all add: le_div_geq le_mod_geq)
    have "bit (load_le (Suc n) m a) j \<longleftrightarrow> j < 64 \<and> bit (load_le n m (a + 1)) (j - 8)"
      using False by (auto simp: bit_or_iff bit_push_bit_iff bit_ucast_iff dest: bit_imp_le_length)
    also have "\<dots> \<longleftrightarrow> j < 8 * Suc n \<and> bit (m (a + of_nat (j div 8))) (j mod 8)"
      using Suc False by (auto simp: Suc.IH [of "a + 1" "j - 8"] 1 2 add.assoc)
    finally show ?thesis .
  qed
qed simp

lemma load_store_same: "load_le 8 (store_le 8 a v m) a = v"
proof (rule bit_word_eqI)
  fix j assume "j < LENGTH(64)"
  then have j: "j < 64" by simp
  then have d: "j div 8 < 8" by simp
  then have u: "unat (of_nat (j div 8) :: 64 word) = j div 8" by (simp add: unat_of_nat)
  have "bit (load_le 8 (store_le 8 a v m) a) j \<longleftrightarrow> bit (store_le 8 a v m (a + of_nat (j div 8))) (j mod 8)"
    using j by (simp add: bit_load_le)
  also have "\<dots> \<longleftrightarrow> bit (drop_bit (8 * (j div 8)) v) (j mod 8)"
    using d by (simp add: store_le_def u bit_ucast_iff)
  also have "\<dots> \<longleftrightarrow> bit v j"
    by (simp add: bit_drop_bit_eq)
  finally show "bit (load_le 8 (store_le 8 a v m) a) j \<longleftrightarrow> bit v j" .
qed

lemma load_le_cong: "(\<And>k. k < n \<Longrightarrow> m (a + of_nat k) = m' (a + of_nat k)) \<Longrightarrow> load_le n m a = load_le n m' a"
proof (induction n arbitrary: a)
  case (Suc n)
  have "load_le n m (a + 1) = load_le n m' (a + 1)"
    by (rule Suc.IH) (use Suc.prems [of "Suc k" for k] in \<open>simp add: add.assoc\<close>)
  with Suc.prems [of 0] show ?case by simp
qed simp

text \<open>Slots of eight bytes at different places of one array do not overlap.\<close>

definition slot :: "64 word \<Rightarrow> nat \<Rightarrow> 64 word" where
  "slot a k = a + of_nat (8 * k)"

lemma load_store_other:
  assumes "j \<noteq> k" "j < 64" "k < 64"
  shows "load_le 8 (store_le 8 (slot a k) v m) (slot a j) = load_le 8 m (slot a j)"
proof (rule load_le_cong)
  fix b :: nat assume b: "b < 8"
  have "\<not> unat (slot a j + of_nat b - slot a k) < 8"
  proof (cases "k < j")
    case True
    then have "slot a j + of_nat b - slot a k = of_nat (8 * (j - k) + b)"
      by (simp add: slot_def of_nat_diff algebra_simps)
    moreover have "8 * (j - k) + b < 2 ^ 64" using assms b by simp
    ultimately have "unat (slot a j + of_nat b - slot a k) = 8 * (j - k) + b"
      by (simp add: unat_of_nat del: of_nat_add of_nat_mult)
    with True show ?thesis by simp
  next
    case False
    define d where "d = 8 * (k - j) - b"
    have d: "0 < d" "d \<le> 8 * 64" using False assms b by (auto simp: d_def)
    have "of_nat (8 * (k - j)) = (of_nat d + of_nat b :: 64 word)"
      using False assms b unfolding of_nat_add [symmetric] d_def by (intro arg_cong [of _ _ of_nat]) auto
    moreover have "of_nat (8 * (k - j)) = (of_nat (8 * k) - of_nat (8 * j) :: 64 word)"
      using False by (simp add: of_nat_diff algebra_simps)
    ultimately have "slot a j + of_nat b - slot a k = - of_nat d"
      by (simp add: slot_def algebra_simps)
    moreover have "unat (- of_nat d :: 64 word) = 2 ^ 64 - d"
    proof -
      have "(of_nat (2 ^ 64 - d) :: 64 word) = of_nat (2 ^ 64) - of_nat d"
        using d by (intro of_nat_diff) simp
      then have "- of_nat d = (of_nat (2 ^ 64 - d) :: 64 word)" by simp
      then have "unat (- of_nat d :: 64 word) = unat (of_nat (2 ^ 64 - d) :: 64 word)" by (rule arg_cong)
      also have "\<dots> = 2 ^ 64 - d" unfolding unat_of_nat using d by simp
      finally show ?thesis .
    qed
    ultimately show ?thesis using d by simp
  qed
  then show "store_le 8 (slot a k) v m (slot a j + of_nat b) = m (slot a j + of_nat b)"
    by (simp add: store_le_def)
qed

section \<open>The machine\<close>

text \<open>
  \<open>m_stack\<close> has the addresses of the stack slots. \<open>m_calls\<close> lists the calls made: whom, with which
  signature and which arguments.
\<close>

record machine =
  m_reg :: "reg \<Rightarrow> 64 word"
  m_mem :: byte_memory
  m_stack :: "nat \<Rightarrow> 64 word"
  m_calls :: "(64 word \<times> func_sig \<times> 64 word list) list"

definition phys_regs :: "machine \<Rightarrow> phys \<Rightarrow> 64 word" where
  "phys_regs s = (\<lambda>q. m_reg s (Phys q))"

type_synonym callees =
  "64 word \<Rightarrow> func_sig \<Rightarrow> 64 word list \<Rightarrow> (phys \<Rightarrow> 64 word) \<Rightarrow> byte_memory \<Rightarrow> (phys \<Rightarrow> 64 word) \<times> byte_memory"

definition address_of :: "machine \<Rightarrow> mem_op \<Rightarrow> 64 word" where
  "address_of s m =
     (case mo_base m of Base r \<Rightarrow> m_reg s r | Stack k \<Rightarrow> m_stack s k | No_base \<Rightarrow> 0) +
     (case mo_index m of None \<Rightarrow> 0 | Some r \<Rightarrow> m_reg s r) + of_nat (mo_offset m)"

definition target_of :: "machine \<Rightarrow> callee \<Rightarrow> 64 word" where
  "target_of s f = (case f of Addr a \<Rightarrow> a | In_reg r \<Rightarrow> m_reg s r)"

definition set_reg :: "reg \<Rightarrow> 64 word \<Rightarrow> machine \<Rightarrow> machine" where
  "set_reg r v s = s\<lparr>m_reg := (m_reg s)(r := v)\<rparr>"

text \<open>After a call the physical registers are the callee's, the virtual ones are kept.\<close>

definition after_call :: "callees \<Rightarrow> 64 word \<Rightarrow> func_sig \<Rightarrow> 64 word list \<Rightarrow> machine \<Rightarrow> machine" where
  "after_call B f sig vs s =
     (let (ph, m) = B f sig vs (phys_regs s) (m_mem s) in
      s\<lparr>m_reg := (\<lambda>r. case r of Virt v \<Rightarrow> m_reg s r | Phys q \<Rightarrow> ph q), m_mem := m,
        m_calls := m_calls s @ [(f, sig, vs)]\<rparr>)"

definition numbered :: "reg list \<Rightarrow> (nat \<times> nat \<times> reg) list" where
  "numbered rs = map2 (\<lambda>k r. (k, 0, r)) [0..<length rs] rs"

text \<open>
  The documented behaviour of the nodes. \<open>rr\<close> is the register the calling convention returns the
  value of a signature in, \<open>own\<close> the signature of the stub itself.
\<close>

definition runs ::
    "(func_sig \<Rightarrow> phys) \<Rightarrow> func_sig \<Rightarrow> callees \<Rightarrow> (node \<Rightarrow> machine \<Rightarrow> machine) \<Rightarrow> bool" where
  "runs rr own B ex \<longleftrightarrow>
     (\<forall>r v s. ex (Mov_imm r v) s = set_reg r v s) \<and>
     (\<forall>r q s. ex (Mov r q) s = set_reg r (m_reg s q) s) \<and>
     (\<forall>r n s. ex (Add_imm r n) s = set_reg r (m_reg s r + of_nat n) s) \<and>
     (\<forall>n r m s. ex (Load n r m) s = set_reg r (load_le n (m_mem s) (address_of s m)) s) \<and>
     (\<forall>n m r s. ex (Store n m r) s = s\<lparr>m_mem := store_le n (address_of s m) (m_reg s r) (m_mem s)\<rparr>) \<and>
     (\<forall>r m s. ex (Lea r m) s = set_reg r (address_of s m) s) \<and>
     (\<forall>s. ex Trap s = s) \<and>
     (\<forall>f sig rs s. length rs = length (fs_args sig) \<longrightarrow>
        ex (Invoke f sig (numbered rs) None) s = after_call B (target_of s f) sig (map (m_reg s) rs) s) \<and>
     (\<forall>f sig rs q s. length rs = length (fs_args sig) \<longrightarrow>
        ex (Invoke f sig (numbered rs) (Some q)) s =
          (let s' = after_call B (target_of s f) sig (map (m_reg s) rs) s
           in set_reg q (m_reg s' (Phys (rr sig))) s')) \<and>
     (\<forall>s. ex (Ret None) s = s) \<and>
     (\<forall>r s. ex (Ret (Some r)) s = set_reg (Phys (rr own)) (m_reg s r) s)"

lemma runs_simps:
  assumes "runs rr own B ex"
  shows "ex (Mov_imm r v) s = set_reg r v s" "ex (Mov r q) s = set_reg r (m_reg s q) s"
    "ex (Add_imm r n) s = set_reg r (m_reg s r + of_nat n) s"
    "ex (Load n r m) s = set_reg r (load_le n (m_mem s) (address_of s m)) s"
    "ex (Store n m r) s = s\<lparr>m_mem := store_le n (address_of s m) (m_reg s r) (m_mem s)\<rparr>"
    "ex (Lea r m) s = set_reg r (address_of s m) s" "ex Trap s = s" "ex (Ret None) s = s"
    "ex (Ret (Some r)) s = set_reg (Phys (rr own)) (m_reg s r) s"
    "length rs = length (fs_args sig) \<Longrightarrow>
       ex (Invoke f sig (numbered rs) None) s = after_call B (target_of s f) sig (map (m_reg s) rs) s"
    "length rs = length (fs_args sig) \<Longrightarrow>
       ex (Invoke f sig (numbered rs) (Some q)) s =
         set_reg q (m_reg (after_call B (target_of s f) sig (map (m_reg s) rs) s) (Phys (rr sig)))
           (after_call B (target_of s f) sig (map (m_reg s) rs) s)"
  using assms by (simp_all add: runs_def Let_def)

text \<open>A run that obeys the laws.\<close>

fun doc_run :: "(func_sig \<Rightarrow> phys) \<Rightarrow> func_sig \<Rightarrow> callees \<Rightarrow> node \<Rightarrow> machine \<Rightarrow> machine" where
  "doc_run rr own B (Mov_imm r v) s = set_reg r v s"
| "doc_run rr own B (Mov r q) s = set_reg r (m_reg s q) s"
| "doc_run rr own B (Add_imm r n) s = set_reg r (m_reg s r + of_nat n) s"
| "doc_run rr own B (Load n r m) s = set_reg r (load_le n (m_mem s) (address_of s m)) s"
| "doc_run rr own B (Store n m r) s = s\<lparr>m_mem := store_le n (address_of s m) (m_reg s r) (m_mem s)\<rparr>"
| "doc_run rr own B (Lea r m) s = set_reg r (address_of s m) s"
| "doc_run rr own B Trap s = s"
| "doc_run rr own B (Invoke f sig as rt) s =
     (let s' = after_call B (target_of s f) sig (map (\<lambda>(i, j, r). m_reg s r) as) s
      in case rt of None \<Rightarrow> s' | Some q \<Rightarrow> set_reg q (m_reg s' (Phys (rr sig))) s')"
| "doc_run rr own B (Ret None) s = s"
| "doc_run rr own B (Ret (Some r)) s = set_reg (Phys (rr own)) (m_reg s r) s"

lemma map_numbered: "map (\<lambda>(i, j, r). f r) (numbered rs) = map f rs"
  by (rule nth_equalityI) (simp_all add: numbered_def)

lemma doc_run_runs: "runs rr own B (doc_run rr own B)"
  by (simp add: runs_def map_numbered Let_def)

text \<open>The arguments of the stub in the registers its function node names.\<close>

definition enter :: "emitter \<Rightarrow> 64 word list \<Rightarrow> machine \<Rightarrow> machine" where
  "enter e vs s = fold (\<lambda>(i, j, r). set_reg r (vs ! i)) (em_params e) s"

lemma set_reg_simps [simp]:
  "m_reg (set_reg r v s) = (m_reg s)(r := v)" "m_mem (set_reg r v s) = m_mem s"
  "m_stack (set_reg r v s) = m_stack s" "m_calls (set_reg r v s) = m_calls s"
  by (simp_all add: set_reg_def)

lemma phys_regs_set [simp]: "phys_regs (set_reg (Virt v) x s) = phys_regs s" "phys_regs (s\<lparr>m_mem := m\<rparr>) = phys_regs s"
  by (simp_all add: phys_regs_def)

lemma after_call_simps [simp]:
  "m_reg (after_call B f sig vs s) (Virt v) = m_reg s (Virt v)"
  "m_reg (after_call B f sig vs s) (Phys q) = fst (B f sig vs (phys_regs s) (m_mem s)) q"
  "m_mem (after_call B f sig vs s) = snd (B f sig vs (phys_regs s) (m_mem s))"
  "m_stack (after_call B f sig vs s) = m_stack s"
  "m_calls (after_call B f sig vs s) = m_calls s @ [(f, sig, vs)]"
  by (simp_all add: after_call_def split: prod.split)

end
