(* ===== verification/Jit_Correct.thy ===== *)
theory Jit_Correct
  imports Jit_Machine
begin

text \<open>
  Correctness of the x86 stubs on a 64-bit target: the code in closed form, and what its run does.
\<close>

section \<open>The code in closed form\<close>

definition supported :: "type_id \<Rightarrow> bool" where
  "supported t \<longleftrightarrow> id_is_int t \<or> id_is_float t"

definition load_nodes :: "mem_op \<Rightarrow> reg \<Rightarrow> nat \<Rightarrow> nat \<Rightarrow> node list" where
  "load_nodes m i n k = concat (map (\<lambda>j. [Load 8 (Virt (n + j)) m, Add_imm i 8]) [0..<k])"

definition store_nodes :: "mem_op \<Rightarrow> reg \<Rightarrow> nat \<Rightarrow> nat \<Rightarrow> node list" where
  "store_nodes m i n k = concat (map (\<lambda>j. [Store 8 m (Virt (n + j)), Add_imm i 8]) [0..<k])"

definition slots_from :: "nat \<Rightarrow> nat \<Rightarrow> nat \<Rightarrow> arg_slot list" where
  "slots_from n i k = map (\<lambda>j. \<lparr>as_low = Virt (n + j), as_high = None, as_index = i + j\<rparr>) [0..<k]"

lemma upt_Suc_map: "map f [0..<Suc k] = f 0 # map (\<lambda>j. f (Suc j)) [0..<k]"
  by (simp add: upt_conv_Cons map_Suc_upt [symmetric] del: upt_Suc)

lemma load_nodes_Suc: "load_nodes m i n (Suc k) = Load 8 (Virt n) m # Add_imm i 8 # load_nodes m i (Suc n) k"
  unfolding load_nodes_def upt_Suc_map by simp

lemma store_nodes_Suc: "store_nodes m i n (Suc k) = Store 8 m (Virt n) # Add_imm i 8 # store_nodes m i (Suc n) k"
  unfolding store_nodes_def upt_Suc_map by simp

lemma slots_from_Suc:
  "slots_from n i (Suc k) = \<lparr>as_low = Virt n, as_high = None, as_index = i\<rparr> # slots_from (Suc n) (Suc i) k"
  unfolding slots_from_def upt_Suc_map by simp

lemma closed_form_0 [simp]: "load_nodes m i n 0 = []" "store_nodes m i n 0 = []" "slots_from n l 0 = []"
  by (simp_all add: load_nodes_def store_nodes_def slots_from_def)


lemma x86_bind_args_code:
  assumes "\<not> t_ptr32 tg"
  shows "x86_bind_args tg k ts slots e =
    (if \<forall>t \<in> set ts. supported t
     then Inr (slots @ slots_from (em_next e) k (length ts),
       e\<lparr>em_next := em_next e + length ts,
         em_params := em_params e @ map (\<lambda>j. (k + j, 0, Virt (em_next e + j))) [0..<length ts]\<rparr>)
     else Inl wide_params)"
proof (induction ts arbitrary: k slots e)
  case (Cons t ts)
  have "map (\<lambda>j. (k + j, 0::nat, Virt (n + j))) [0..<Suc m] =
      (k, 0, Virt n) # map (\<lambda>j. (Suc k + j, 0, Virt (Suc n + j))) [0..<m]" for m n
    unfolding upt_Suc_map by simp
  with assms show ?case
    by (simp add: Cons.IH supported_def new_reg_def func_set_arg_def has_hi_arg_slot_def slots_from_Suc
        Let_def del: upt_Suc) blast
qed simp

lemma slots_types:
  "list_all (\<lambda>s. supported (fs_args sig ! as_index s) \<and> as_high s = None) (slots_from n 0 (length (fs_args sig)))"
  if "\<forall>t \<in> set (fs_args sig). supported t"
  using that by (simp add: slots_from_def list_all_iff)

lemma x86_spill_code:
  assumes "\<not> t_ptr32 tg" "list_all (\<lambda>s. supported (fs_args sig ! as_index s) \<and> as_high s = None) ss"
  shows "x86_spill tg sig st i ss e =
    Inr (e\<lparr>em_code := em_code e @ concat (map (\<lambda>s. [Store 8 st (as_low s), Add_imm i 8]) ss)\<rparr>)"
  using assms(2)
  by (induction ss arbitrary: e)
    (use assms(1) in \<open>auto simp: supported_def emit_node_def native_def Let_def\<close>)

lemma x86_reload_code:
  assumes "\<not> t_ptr32 tg" "list_all (\<lambda>s. supported (fs_args sig ! as_index s) \<and> as_high s = None) ss"
  shows "x86_reload tg sig st i ss e =
    Inr (e\<lparr>em_code := em_code e @ concat (map (\<lambda>s. [Load 8 (as_low s) st, Add_imm i 8]) ss)\<rparr>)"
  using assms(2)
  by (induction ss arbitrary: e)
    (use assms(1) in \<open>auto simp: supported_def emit_node_def native_def Let_def\<close>)

lemma slots_store_nodes: "concat (map (\<lambda>s. [Store 8 st (as_low s), Add_imm i 8]) (slots_from n k m)) = store_nodes st i n m"
  by (simp add: slots_from_def store_nodes_def comp_def)

lemma slots_load_nodes: "concat (map (\<lambda>s. [Load 8 (as_low s) st, Add_imm i 8]) (slots_from n k m)) = load_nodes st i n m"
  by (simp add: slots_from_def load_nodes_def comp_def)


lemma invoke_set_ret_last:
  "em_code e = c @ [Invoke f sig as rt] \<Longrightarrow> k = length c \<Longrightarrow>
   invoke_set_ret k r e = e\<lparr>em_code := c @ [Invoke f sig as (Some r)]\<rparr>"
  by (simp add: invoke_set_ret_def)



section \<open>Runs of the pieces\<close>


text \<open>Where the stub puts the value its callee returns.\<close>

definition x86_ret_reg :: "func_sig \<Rightarrow> phys" where
  "x86_ret_reg sig = (if id_is_int (fs_ret sig) then Rax else Xmm0)"


lemma id_disjoint:
  "id_is_int t \<Longrightarrow> \<not> id_between t TInt8x16 TUInt64x2 \<and> \<not> id_between t TFloat32x4 TFloat64x2 \<and> \<not> id_is_float t"
  "id_is_float t \<Longrightarrow> \<not> id_between t TInt8x16 TUInt64x2 \<and> \<not> id_between t TFloat32x4 TFloat64x2"
  "id_between t TInt8x16 TUInt64x2 \<Longrightarrow> \<not> id_between t TFloat32x4 TFloat64x2 \<and> \<not> id_is_float t \<and> \<not> id_is_int t"
  by (cases t; simp add: id_is_int_def id_is_float_def id_between_def)+


section \<open>Calls\<close>


section \<open>Callbacks\<close>

lemma run_load_frame:
  assumes ex: "runs rr own B ex"
  shows "let s' = fold ex (load_nodes m (Virt b) n k) s in
    m_mem s' = m_mem s \<and> m_stack s' = m_stack s \<and> m_calls s' = m_calls s \<and> phys_regs s' = phys_regs s \<and>
    (\<forall>v. v \<noteq> b \<longrightarrow> v < n \<or> n + k \<le> v \<longrightarrow> m_reg s' (Virt v) = m_reg s (Virt v))"
proof (induction k arbitrary: n s)
  case (Suc k)
  let ?s = "ex (Add_imm (Virt b) 8) (ex (Load 8 (Virt n) m) s)"
  have "m_mem ?s = m_mem s" "m_stack ?s = m_stack s" "m_calls ?s = m_calls s" "phys_regs ?s = phys_regs s"
    "\<And>v. v \<noteq> b \<Longrightarrow> v \<noteq> n \<Longrightarrow> m_reg ?s (Virt v) = m_reg s (Virt v)"
    by (simp_all add: runs_simps [OF ex] phys_regs_def)
  with Suc.IH [of "Suc n" ?s] show ?case by (simp add: load_nodes_Suc Let_def)
qed simp

definition put_slots :: "64 word \<Rightarrow> 64 word list \<Rightarrow> byte_memory \<Rightarrow> byte_memory" where
  "put_slots a vs m = fold (\<lambda>j. store_le 8 (slot a j) (vs ! j)) [0..<length vs] m"

lemma fold_store_other:
  "k < 64 \<Longrightarrow> \<forall>j \<in> set js. j \<noteq> k \<and> j < 64 \<Longrightarrow>
   load_le 8 (fold (\<lambda>j. store_le 8 (slot a j) (f j)) js m) (slot a k) = load_le 8 m (slot a k)"
  by (induction js arbitrary: m) (simp_all add: load_store_other)

lemma load_put_slots:
  assumes "k < length vs" "length vs \<le> 64"
  shows "load_le 8 (put_slots a vs m) (slot a k) = vs ! k"
proof -
  have "[0..<length vs] = [0..<k] @ k # [Suc k..<length vs]"
    using assms(1) by (metis le_add1 le_add_same_cancel1 less_imp_le_nat upt_add_eq_append upt_conv_Cons le_add_diff_inverse zero_le)
  then show ?thesis
    using assms by (simp add: put_slots_def fold_store_other load_store_same)
qed

text \<open>The loop of stores fills the array with the registers from \<open>n\<close> on.\<close>

lemma run_store_nodes:
  assumes ex: "runs rr own B ex" and b: "b < n \<or> n + k \<le> b" and st: "st = mem_at (Stack q) (Some (Virt b)) 0"
  shows "let s' = fold ex (store_nodes st (Virt b) n k) s in
    m_mem s' = fold (\<lambda>j. store_le 8 (slot (m_stack s q + m_reg s (Virt b)) j) (m_reg s (Virt (n + j)))) [0..<k] (m_mem s) \<and>
    m_stack s' = m_stack s \<and> m_calls s' = m_calls s \<and> phys_regs s' = phys_regs s \<and>
    (\<forall>v. v \<noteq> b \<longrightarrow> m_reg s' (Virt v) = m_reg s (Virt v))"
  using b
proof (induction k arbitrary: n s)
  case (Suc k)
  let ?s = "ex (Add_imm (Virt b) 8) (ex (Store 8 st (Virt n)) s)"
  let ?f = "\<lambda>s n j. store_le 8 (slot (m_stack s q + m_reg s (Virt b)) j) (m_reg s (Virt (n + j)))"
  have s: "m_mem ?s = ?f s n 0 (m_mem s)" "m_stack ?s = m_stack s" "m_calls ?s = m_calls s"
    "phys_regs ?s = phys_regs s" "\<And>v. v \<noteq> b \<Longrightarrow> m_reg ?s (Virt v) = m_reg s (Virt v)"
    "m_reg ?s (Virt b) = m_reg s (Virt b) + 8"
    by (simp_all add: runs_simps [OF ex] phys_regs_def st mem_at_def address_of_def slot_def)
  have b: "b < Suc n \<or> Suc n + k \<le> b" using Suc.prems by auto
  have sl: "slot (x + (y + 8)) j = slot (x + y) (Suc j)" for x y :: "64 word" and j
    by (simp add: slot_def algebra_simps)
  have "fold (?f ?s (Suc n)) [0..<k] (m_mem ?s) = fold (\<lambda>j. ?f s n (Suc j)) [0..<k] (m_mem ?s)"
    using Suc.prems by (intro fold_cong) (auto simp: s sl)
  then have "fold (?f ?s (Suc n)) [0..<k] (m_mem ?s) = fold (?f s n) [0..<Suc k] (m_mem s)"
    by (simp add: s(1) upt_conv_Cons map_Suc_upt [symmetric] fold_map comp_def del: upt_Suc)
  with Suc.IH [OF b, of ?s] s show ?case by (simp add: store_nodes_Suc Let_def)
qed simp

text \<open>The nodes before the call of the handler; \<open>k\<close> is the next free register.\<close>

definition handler_count :: "func_sig \<Rightarrow> bool \<Rightarrow> 64 word" where
  "handler_count sig hidden = of_nat (length (fs_args sig)) - (if hidden then 1 else 0)"

definition handler_nodes ::
    "func_sig \<Rightarrow> bool \<Rightarrow> 64 word \<Rightarrow> 64 word \<Rightarrow> base \<Rightarrow> base \<Rightarrow> nat \<Rightarrow> node list" where
  "handler_nodes sig hidden mp data args rs k =
     [Mov_imm (Virt k) mp, Mov_imm (Virt (k + 1)) data] @
     (if hidden then if handler_count sig hidden \<noteq> 0 then [Lea (Virt (k + 2)) (mem_at args None 8)] else []
      else [Lea (Virt (k + 2)) (mem_at args None 0)]) @
     [Mov_imm (Virt (k + 3)) (handler_count sig hidden),
      (if hidden then Load 8 (Virt (k + 4)) (mem_at args None 0) else Lea (Virt (k + 4)) (mem_at rs None 0))]"

lemma x86_handler_call_code:
  assumes "k = em_next e" "rs = (if hidden then No_base else Stack (length (em_stacks e)))"
  shows "x86_handler_call sig hidden cb mp data args e = (Virt (k + 4), rs,
     e\<lparr>em_next := k + 5,
       em_stacks := em_stacks e @ (if hidden then [] else [8 * (if id_is_vec128 (fs_ret sig) then 2 else 1)]),
       em_code := em_code e @ handler_nodes sig hidden mp data args rs k @
       [Invoke (Addr cb) (build_sig TVoid 5) (numbered (map Virt [k, k + 1, k + 2, k + 3, k + 4])) None]\<rparr>)"
  using assms
  by (simp add: x86_handler_call_def new_reg_def emit_node_def new_stack_def emit_invoke_def
      invoke_set_arg_def Let_def handler_nodes_def handler_count_def numbered_def numeral_eq_Suc)

lemma handler_nodes_run:
  assumes ex: "runs rr own B ex" and rs: "rs = (if hidden then No_base else Stack q)" and args: "args = Stack p \<or> args = No_base"
  shows "let s' = fold ex (handler_nodes sig hidden mp data args rs k) s;
      stk = (case args of Stack p \<Rightarrow> m_stack s p | _ \<Rightarrow> 0) in
    m_mem s' = m_mem s \<and> m_stack s' = m_stack s \<and> m_calls s' = m_calls s \<and> phys_regs s' = phys_regs s \<and>
    m_reg s' (Virt k) = mp \<and> m_reg s' (Virt (k + 1)) = data \<and>
    (hidden \<longrightarrow> handler_count sig hidden \<noteq> 0 \<longrightarrow> m_reg s' (Virt (k + 2)) = slot stk 1) \<and>
    (\<not> hidden \<longrightarrow> m_reg s' (Virt (k + 2)) = stk) \<and>
    m_reg s' (Virt (k + 3)) = handler_count sig hidden \<and>
    m_reg s' (Virt (k + 4)) = (if hidden then load_le 8 (m_mem s) stk else m_stack s q)"
  using args rs
  by (cases hidden) (auto simp: handler_nodes_def runs_simps [OF ex] Let_def phys_regs_def mem_at_def address_of_def slot_def)

text \<open>What the stub returns after its handler, read from memory \<open>m\<close>.\<close>

definition returned :: "func_sig \<Rightarrow> bool \<Rightarrow> 64 word \<Rightarrow> byte_memory \<Rightarrow> machine \<Rightarrow> bool" where
  "returned sig hidden rp m s \<longleftrightarrow>
     (if hidden then m_reg s (Phys (x86_ret_reg sig)) = rp
      else if \<not> sig_has_ret sig then True
      else if id_is_int (fs_ret sig) then m_reg s (Phys Rax) = load_le 8 m rp
      else if id_is_float (fs_ret sig) then m_reg s (Phys Xmm0) = load_le 8 m rp
      else if id_between (fs_ret sig) TInt8x16 TUInt64x2 then
        m_reg s (Phys Rax) = load_le 8 m rp \<and> m_reg s (Phys Rdx) = load_le 8 m (slot rp 1)
      else m_reg s (Phys Xmm0) = load_le 8 m rp \<and> m_reg s (Phys Xmm1) = load_le 8 m (slot rp 1))"

lemma x86_return_run:
  assumes ex: "runs x86_ret_reg sig B ex" and tg: "\<not> t_ptr32 tg"
    and e': "x86_return tg sig hidden (Virt r) rs e = Inr e'" and rs: "\<not> hidden \<Longrightarrow> rs = Stack q"
  shows "em_params e' = em_params e \<and>
    (let s = fold ex (em_code e) start; s' = fold ex (em_code e') start in
     m_mem s' = m_mem s \<and> m_calls s' = m_calls s \<and>
     returned sig hidden (if hidden then m_reg s (Virt r) else m_stack s q) (m_mem s) s')"
proof -
  note simps = runs_simps [OF ex] emit_node_def new_reg_def mem_at_def address_of_def returned_def
    x86_ret_reg_def slot_def Let_def tg
  let ?t = "fs_ret sig"
  have iv: "id_is_int ?t \<Longrightarrow> \<not> id_is_float ?t" using id_disjoint(1) by blast
  have vv: "id_between ?t TInt8x16 TUInt64x2 \<Longrightarrow> \<not> id_is_float ?t \<and> \<not> id_is_int ?t"
    and fv: "id_between ?t TFloat32x4 TFloat64x2 \<Longrightarrow> \<not> id_is_float ?t \<and> \<not> id_is_int ?t"
    by (cases ?t; simp add: id_is_int_def id_is_float_def id_between_def)+
  show ?thesis
  proof (cases hidden)
    case True
    with e' show ?thesis by (auto simp: x86_return_def simps)
  next
    case False
    then have q: "rs = Stack q" by (rule rs)
    from e' False iv vv fv show ?thesis
      by (auto simp: x86_return_def simps q native_def split: if_splits)
  qed
qed

lemma enter_regs:
  assumes "em_params e = map (\<lambda>j. (j, 0, Virt j)) [0..<k]" "k \<le> n"
  shows "m_mem (enter e vs s) = m_mem s \<and> m_stack (enter e vs s) = m_stack s \<and> m_calls (enter e vs s) = m_calls s \<and>
    phys_regs (enter e vs s) = phys_regs s \<and> (\<forall>j < k. m_reg (enter e vs s) (Virt j) = vs ! j)"
proof -
  have "m_mem (fold (\<lambda>(i, j, r). set_reg r (vs ! i)) (map (\<lambda>j. (j, 0, Virt j)) [0..<k]) s) = m_mem s \<and>
    m_stack (fold (\<lambda>(i, j, r). set_reg r (vs ! i)) (map (\<lambda>j. (j, 0, Virt j)) [0..<k]) s) = m_stack s \<and>
    m_calls (fold (\<lambda>(i, j, r). set_reg r (vs ! i)) (map (\<lambda>j. (j, 0, Virt j)) [0..<k]) s) = m_calls s \<and>
    phys_regs (fold (\<lambda>(i, j, r). set_reg r (vs ! i)) (map (\<lambda>j. (j, 0, Virt j)) [0..<k]) s) = phys_regs s \<and>
    (\<forall>i < k. m_reg (fold (\<lambda>(i, j, r). set_reg r (vs ! i)) (map (\<lambda>j. (j, 0, Virt j)) [0..<k]) s) (Virt i) = vs ! i)"
    by (induction k) (auto simp: phys_regs_def less_Suc_eq)
  with assms show ?thesis by (simp add: enter_def)
qed

lemma x86_callback_code_eq:
  assumes tg: "\<not> t_ptr32 tg" and code: "x86_callback_code tg sig mp cb data hidden = Inr e"
    and n: "n = length (fs_args sig)" and args: "args = (if 0 < n then Stack 0 else No_base)"
    and rs: "rs = (if hidden then No_base else Stack (if 0 < n then 1 else 0))"
  shows "\<exists>e1. em_params e1 = map (\<lambda>j. (j, 0, Virt j)) [0..<n] \<and>
     em_code e1 = Mov_imm (Virt n) 0 # store_nodes (mem_at args (Some (Virt n)) 0) (Virt n) 0 n @
       handler_nodes sig hidden mp data args rs (n + 1) @
       [Invoke (Addr cb) (build_sig TVoid 5) (numbered (map Virt [n + 1, n + 2, n + 3, n + 4, n + 5])) None,
        Mov_imm (Virt n) 0] @ load_nodes (mem_at args (Some (Virt n)) 0) (Virt n) 0 n \<and>
     x86_return tg sig hidden (Virt (n + 5)) rs e1 = Inr e"
proof -
  define st where "st = mem_at args (Some (Virt n)) 0"
  define e0 where "e0 = \<lparr>em_next = Suc n, em_stacks = (if 0 < n then [8 * n] else []),
    em_params = map (\<lambda>j. (j, 0, Virt j)) [0..<n], em_code = Mov_imm (Virt n) 0 # store_nodes st (Virt n) 0 n\<rparr>"
  have sup: "\<forall>t \<in> set (fs_args sig). supported t"
    using code tg by (auto simp: x86_callback_code_def x86_bind_args_code split: if_splits)
  note sl = slots_types [OF sup]
  let ?hc = "x86_handler_call sig hidden cb mp data args e0"
  have "x86_callback_code tg sig mp cb data hidden =
    (let (rstruct, rstack, e) = ?hc; e = emit_node (Mov_imm (Virt n) 0) e
     in rbind (x86_reload tg sig st (Virt n) (slots_from 0 0 n) e) (x86_return tg sig hidden rstruct rstack))"
    using sup by (cases "0 < n") (simp_all add: x86_callback_code_def x86_bind_args_code [OF tg] new_emitter_def new_reg_def
        new_stack_def emit_node_def Let_def n [symmetric] x86_spill_code [OF tg sl [folded n]] st_def args
        slots_store_nodes e0_def)
  moreover define e1 where "e1 = e0\<lparr>em_next := n + 6,
    em_stacks := em_stacks e0 @ (if hidden then [] else [8 * (if id_is_vec128 (fs_ret sig) then 2 else 1)]),
    em_code := em_code e0 @ handler_nodes sig hidden mp data args rs (n + 1) @
      [Invoke (Addr cb) (build_sig TVoid 5) (numbered (map Virt [n + 1, n + 2, n + 3, n + 4, n + 5])) None,
       Mov_imm (Virt n) 0] @ load_nodes st (Virt n) 0 n\<rparr>"
  moreover have "?hc = (Virt (n + 5), rs, e0\<lparr>em_next := n + 6,
    em_stacks := em_stacks e0 @ (if hidden then [] else [8 * (if id_is_vec128 (fs_ret sig) then 2 else 1)]),
    em_code := em_code e0 @ handler_nodes sig hidden mp data args rs (n + 1) @
      [Invoke (Addr cb) (build_sig TVoid 5) (numbered (map Virt [n + 1, n + 2, n + 3, n + 4, n + 5])) None]\<rparr>)"
  proof -
    have nums: "n + 1 + 1 = n + 2" "n + 1 + 2 = n + 3" "n + 1 + 3 = n + 4" "n + 1 + 4 = n + 5" "n + 1 + 5 = n + 6"
      by simp_all
    show ?thesis by (rule x86_handler_call_code [of "n + 1", unfolded nums]) (simp_all add: rs e0_def)
  qed
  ultimately have "x86_return tg sig hidden (Virt (n + 5)) rs e1 = Inr e"
    using code by (simp add: Let_def x86_reload_code [OF tg sl [folded n]] slots_load_nodes emit_node_def)
  moreover have "em_params e1 = map (\<lambda>j. (j, 0, Virt j)) [0..<n]"
    by (simp add: e1_def e0_def)
  moreover have "em_code e1 = Mov_imm (Virt n) 0 # store_nodes (mem_at args (Some (Virt n)) 0) (Virt n) 0 n @
       handler_nodes sig hidden mp data args rs (n + 1) @
       [Invoke (Addr cb) (build_sig TVoid 5) (numbered (map Virt [n + 1, n + 2, n + 3, n + 4, n + 5])) None,
        Mov_imm (Virt n) 0] @ load_nodes (mem_at args (Some (Virt n)) 0) (Virt n) 0 n"
    by (simp add: e1_def e0_def st_def)
  ultimately show ?thesis by blast
qed

lemma run_spill:
  assumes ex: "runs rr own B ex" and st: "st = mem_at (if 0 < n then Stack 0 else No_base) (Some (Virt n)) 0"
    and vs: "length vs = n" "\<And>j. j < n \<Longrightarrow> m_reg s (Virt j) = vs ! j"
  shows "let s' = fold ex (store_nodes st (Virt n) 0 n) (ex (Mov_imm (Virt n) 0) s) in
    m_mem s' = put_slots (m_stack s 0) vs (m_mem s) \<and> m_stack s' = m_stack s \<and> m_calls s' = m_calls s \<and>
    phys_regs s' = phys_regs s"
proof (cases "n = 0")
  case True
  with vs(1) show ?thesis by (simp add: runs_simps [OF ex] put_slots_def)
next
  case False
  have "fold (\<lambda>j. store_le 8 (slot a j) (m_reg (set_reg (Virt n) 0 s) (Virt j))) [0..<n] m = put_slots a vs m" for a m
    unfolding put_slots_def by (rule fold_cong) (simp_all add: vs)
  with False run_store_nodes [OF ex, of n 0 n st 0 "ex (Mov_imm (Virt n) 0) s"] show ?thesis
    by (simp add: st runs_simps [OF ex] Let_def)
qed

lemma length_word_neq_0:
  assumes "length xs \<le> 32" "xs \<noteq> []"
  shows "(of_nat (length xs) :: 64 word) \<noteq> 0"
proof -
  have "unat (of_nat (length xs) :: 64 word) = length xs" using assms(1) by (simp add: unat_of_nat)
  with assms(2) show ?thesis by auto
qed

lemma handler_count_eq:
  assumes "length vs = length (fs_args sig)" "length vs \<le> 32" "hidden \<Longrightarrow> vs \<noteq> []"
  shows "handler_count sig hidden = of_nat (length (if hidden then tl vs else vs))"
    and "(if hidden then tl vs else vs) \<noteq> [] \<Longrightarrow> handler_count sig hidden \<noteq> 0"
proof -
  let ?n = "length (if hidden then tl vs else vs)"
  show eq: "handler_count sig hidden = of_nat ?n"
    using assms by (cases vs) (auto simp: handler_count_def simp flip: assms(1))
  show "(if hidden then tl vs else vs) \<noteq> [] \<Longrightarrow> handler_count sig hidden \<noteq> 0"
    unfolding eq by (rule length_word_neq_0) (use assms(2) in auto)
qed

lemma handler_array:
  assumes vs: "length vs \<le> 32" and hid: "hidden \<Longrightarrow> vs \<noteq> []" and j: "j < length (if hidden then tl vs else vs)"
  shows "load_le 8 (put_slots a vs m) (slot (if hidden then slot a 1 else a) j) = (if hidden then tl vs else vs) ! j"
proof (cases hidden)
  case True
  have "slot (slot a 1) j = slot a (Suc j)" by (simp add: slot_def algebra_simps)
  with True j vs load_put_slots [of "Suc j" vs a m] show ?thesis by (simp add: nth_tl)
next
  case False
  with j vs load_put_slots [of j vs a m] show ?thesis by simp
qed

text \<open>The state of a stub at the call of its handler.\<close>

lemma run_to_handler:
  fixes vs :: "64 word list" and sig hidden mp data
  defines "n \<equiv> length (fs_args sig)" and "as \<equiv> (if hidden then tl vs else vs)"
  defines "args \<equiv> (if 0 < n then Stack 0 else No_base)"
    and "rs \<equiv> (if hidden then No_base else Stack (if 0 < n then 1 else 0))"
  assumes ex: "runs rr own B ex" and regs: "\<forall>j < n. m_reg s (Virt j) = vs ! j"
    and vs: "length vs = n" "length vs \<le> 32" and hd: "hidden \<longrightarrow> vs \<noteq> []"
  shows "let s' = fold ex (handler_nodes sig hidden mp data args rs (n + 1))
        (fold ex (store_nodes (mem_at args (Some (Virt n)) 0) (Virt n) 0 n) (ex (Mov_imm (Virt n) 0) s));
      hs = map (m_reg s') (map Virt [n + 1, n + 2, n + 3, n + 4, n + 5]) in
    m_mem s' = put_slots (m_stack s 0) vs (m_mem s) \<and> m_stack s' = m_stack s \<and> m_calls s' = m_calls s \<and>
    hs ! 0 = mp \<and> hs ! 1 = data \<and> hs ! 3 = of_nat (length as) \<and>
    hs ! 4 = (if hidden then hd vs else m_stack s (if vs = [] then 0 else 1)) \<and>
    (\<forall>j < length as. load_le 8 (m_mem s') (slot (hs ! 2) j) = as ! j)"
proof -
  have hid: "hidden \<Longrightarrow> vs \<noteq> []" using hd by simp
  define one where "one = fold ex (store_nodes (mem_at args (Some (Virt n)) 0) (Virt n) 0 n) (ex (Mov_imm (Virt n) 0) s)"
  define two where "two = fold ex (handler_nodes sig hidden mp data args rs (n + 1)) one"
  define stk where "stk = (case args of Stack p \<Rightarrow> m_stack one p | _ \<Rightarrow> 0)"
  have one: "m_mem one = put_slots (m_stack s 0) vs (m_mem s)" "m_stack one = m_stack s" "m_calls one = m_calls s"
    using run_spill [OF ex refl vs(1) regs [rule_format]] unfolding one_def args_def Let_def by blast+
  have argsc: "args = Stack 0 \<or> args = No_base" by (simp add: args_def)
  note handler_nodes_run [OF ex rs_def [unfolded atomize_eq] argsc, of sig mp data "n + 1" one, folded two_def stk_def]
  then have two: "m_mem two = m_mem one" "m_stack two = m_stack one" "m_calls two = m_calls one"
    "m_reg two (Virt (n + 1)) = mp" "m_reg two (Virt (n + 2)) = data"
    "hidden \<longrightarrow> handler_count sig hidden \<noteq> 0 \<longrightarrow> m_reg two (Virt (n + 3)) = slot stk 1"
    "\<not> hidden \<longrightarrow> m_reg two (Virt (n + 3)) = stk" "m_reg two (Virt (n + 4)) = handler_count sig hidden"
    "m_reg two (Virt (n + 5)) = (if hidden then load_le 8 (m_mem one) stk else m_stack one (if 0 < n then 1 else 0))"
    unfolding Let_def by (simp_all add: numeral_eq_Suc)
  have stk: "stk = m_stack s 0" if "vs \<noteq> []" using that vs(1) by (auto simp: stk_def args_def one)
  have rp: "m_reg two (Virt (n + 5)) = (if hidden then hd vs else m_stack s (if vs = [] then 0 else 1))"
  proof (cases hidden)
    case True
    with hid have "vs \<noteq> []" "0 < n" using vs(1) by auto
    with True stk vs load_put_slots [of 0 vs "m_stack s 0" "m_mem s"] show ?thesis
      by (simp add: two one slot_def hd_conv_nth)
  next
    case False
    with vs(1) show ?thesis by (auto simp: two one)
  qed
  have "load_le 8 (m_mem two) (slot (m_reg two (Virt (n + 3))) j) = as ! j" if j: "j < length as" for j
  proof -
    from j have "as \<noteq> []" by auto
    then have "vs \<noteq> []" by (auto simp: as_def split: if_splits)
    with \<open>as \<noteq> []\<close> have "m_reg two (Virt (n + 3)) = (if hidden then slot (m_stack s 0) 1 else m_stack s 0)"
      using two(6,7) stk handler_count_eq(2) [OF vs(1) [unfolded n_def] vs(2) hid] unfolding as_def by auto
    with handler_array [OF vs(2) hid j [unfolded as_def]] show ?thesis by (simp add: two one as_def)
  qed
  then show ?thesis
    unfolding one_def [symmetric] two_def [symmetric] Let_def
    using two one rp handler_count_eq(1) [OF vs(1) [unfolded n_def] vs(2) hid] by (simp add: as_def)
qed

text \<open>The handler finds the arguments in an array on the stack and its answer is returned.\<close>

definition handler_sig :: func_sig where
  "handler_sig = build_sig TVoid 5"

lemma x86_callback_code_run:
  assumes ex: "runs x86_ret_reg sig B ex" and tg: "\<not> t_ptr32 tg"
    and code: "x86_callback_code tg sig mp cb data hidden = Inr e"
    and vs: "length vs = length (fs_args sig)" "length vs \<le> 32" and hid: "hidden \<Longrightarrow> vs \<noteq> []"
  shows "\<exists>argp mem ph. let s' = fold ex (em_code e) (enter e vs s);
      as = (if hidden then tl vs else vs);
      rp = (if hidden then hd vs else m_stack s (if vs = [] then 0 else 1));
      hs = [mp, data, argp, of_nat (length as), rp] in
    (\<forall>j < length as. load_le 8 mem (slot argp j) = as ! j) \<and>
    mem = put_slots (m_stack s 0) vs (m_mem s) \<and>
    m_calls s' = m_calls s @ [(cb, handler_sig, hs)] \<and> m_mem s' = snd (B cb handler_sig hs ph mem) \<and>
    returned sig hidden rp (m_mem s') s'"
proof -
  define n where "n = length (fs_args sig)"
  define args where "args = (if 0 < n then Stack 0 else No_base)"
  define rs where "rs = (if hidden then No_base else Stack (if 0 < n then 1 else 0))"
  define st where "st = mem_at args (Some (Virt n)) 0"
  define hr where "hr = map Virt [n + 1, n + 2, n + 3, n + 4, n + 5]"
  define as where "as = (if hidden then tl vs else vs)"
  define rp where "rp = (if hidden then hd vs else m_stack s (if vs = [] then 0 else 1))"
  let ?q = "if 0 < n then 1 else 0 :: nat" and ?start = "enter e vs s"
  obtain e1 where e1: "em_params e1 = map (\<lambda>j. (j, 0, Virt j)) [0..<n]"
    "em_code e1 = Mov_imm (Virt n) 0 # store_nodes st (Virt n) 0 n @ handler_nodes sig hidden mp data args rs (n + 1) @
      [Invoke (Addr cb) handler_sig (numbered hr) None, Mov_imm (Virt n) 0] @ load_nodes st (Virt n) 0 n"
    "x86_return tg sig hidden (Virt (n + 5)) rs e1 = Inr e"
    using x86_callback_code_eq [OF tg code n_def args_def rs_def] unfolding st_def hr_def handler_sig_def by blast
  have ret: "em_params e = em_params e1 \<and> (let s = fold ex (em_code e1) ?start; s' = fold ex (em_code e) ?start in
     m_mem s' = m_mem s \<and> m_calls s' = m_calls s \<and>
     returned sig hidden (if hidden then m_reg s (Virt (n + 5)) else m_stack s ?q) (m_mem s) s')"
    by (rule x86_return_run [OF ex tg e1(3)]) (simp add: rs_def)
  then have start: "m_mem ?start = m_mem s" "m_stack ?start = m_stack s" "m_calls ?start = m_calls s"
    "\<forall>j < n. m_reg ?start (Virt j) = vs ! j"
    using enter_regs [of e n n vs s] e1(1) by simp_all
  have hid': "hidden \<longrightarrow> vs \<noteq> []" using hid by simp
  define two where "two = fold ex (handler_nodes sig hidden mp data args rs (n + 1))
    (fold ex (store_nodes st (Virt n) 0 n) (ex (Mov_imm (Virt n) 0) ?start))"
  define hs where "hs = map (m_reg two) hr"
  have two: "m_mem two = put_slots (m_stack s 0) vs (m_mem s)" "m_stack two = m_stack s" "m_calls two = m_calls s"
    "hs ! 0 = mp" "hs ! 1 = data" "hs ! 3 = of_nat (length as)" "hs ! 4 = rp"
    "\<forall>j < length as. load_le 8 (m_mem two) (slot (hs ! 2) j) = as ! j"
    using run_to_handler [OF ex start(4) [unfolded n_def] vs hid', where mp = mp and data = data, folded n_def]
    unfolding Let_def st_def [symmetric] args_def [symmetric] rs_def [symmetric] two_def [symmetric]
      hr_def [symmetric] hs_def [symmetric] as_def rp_def start
    by - (elim conjE, assumption)+
  have hs5: "hs = [mp, data, hs ! 2, of_nat (length as), rp]"
    using two(4,5,6,7) by (simp add: hs_def hr_def numeral_eq_Suc)
  have hl: "length hr = length (fs_args handler_sig)" by (simp add: hr_def handler_sig_def build_sig_def)
  define three where "three = ex (Invoke (Addr cb) handler_sig (numbered hr) None) two"
  have three: "three = after_call B cb handler_sig hs two"
    unfolding three_def runs_simps(10) [OF ex hl] hs_def by (simp add: target_of_def)
  let ?four = "fold ex (em_code e1) ?start"
  have "?four = fold ex (load_nodes st (Virt n) 0 n) (ex (Mov_imm (Virt n) 0) three)"
    by (simp add: e1(2) three_def two_def)
  then have four: "m_mem ?four = m_mem three" "m_stack ?four = m_stack three" "m_calls ?four = m_calls three"
    "m_reg ?four (Virt (n + 5)) = m_reg three (Virt (n + 5))"
    using run_load_frame [OF ex, of st n 0 n "ex (Mov_imm (Virt n) 0) three"]
    by (simp_all add: runs_simps [OF ex] Let_def)
  have "m_reg two (Virt (n + 5)) = rp" using two(7) by (simp add: hs_def hr_def)
  then have rp4: "(if hidden then m_reg ?four (Virt (n + 5)) else m_stack ?four ?q) = rp"
    using vs(1) four(2,4) two(2) by (simp add: three rp_def n_def) auto
  from ret have fin: "m_mem (fold ex (em_code e) ?start) = m_mem ?four" "m_calls (fold ex (em_code e) ?start) = m_calls ?four"
    "returned sig hidden rp (m_mem ?four) (fold ex (em_code e) ?start)"
    unfolding Let_def rp4 by blast+
  show ?thesis
    unfolding Let_def as_def [symmetric] rp_def [symmetric]
    by (intro exI [of _ "hs ! 2"] exI [of _ "m_mem two"] exI [of _ "phys_regs two"], fold hs5)
      (use two(1,3,8) fin in \<open>simp add: four three\<close>)
qed

section \<open>Signatures of the program\<close>

lemma supported_value: "supported (get_value_type_id v) \<longleftrightarrow> v \<noteq> Invalid \<and> v \<noteq> Void"
  by (cases v) (simp_all add: get_value_type_id_def supported_def id_is_int_def id_is_float_def id_between_def)

definition passable :: "signature \<Rightarrow> bool" where
  "passable sg \<longleftrightarrow> Invalid \<notin> set (sig_arg_types sg) \<and> Void \<notin> set (sig_arg_types sg)"

lemma supported_args: "(\<forall>t \<in> set (fs_args (convert_signature tg sg)). supported t) \<longleftrightarrow> passable sg"
  by (auto simp: convert_signature_def supported_value passable_def)

lemma ret_types:
  assumes "\<not> t_ptr32 tg"
  shows "get_ret_type_id tg v = TVoid \<or> id_is_int (get_ret_type_id tg v) \<or> id_is_float (get_ret_type_id tg v) \<or>
    \<not> t_windows tg \<and> id_between (get_ret_type_id tg v) TFloat32x4 TFloat64x2"
  using assms by (cases v) (simp_all add: get_ret_type_id_def id_is_int_def id_is_float_def id_between_def)

lemma supported_ret:
  assumes "\<not> t_ptr32 tg"
  shows "\<exists>e'. x86_store_ret tg (convert_signature tg sg) node r e = Inr e'"
    and "\<exists>e'. x86_return tg (convert_signature tg sg) hidden r rs e = Inr e'"
proof -
  have ret: "fs_ret (convert_signature tg sg) = get_ret_type_id tg (sig_ret_type sg)"
    by (simp add: convert_signature_def)
  show "\<exists>e'. x86_store_ret tg (convert_signature tg sg) node r e = Inr e'"
    using assms ret_types [OF assms, of "sig_ret_type sg"]
    by (auto simp: x86_store_ret_def sig_has_ret_def new_reg_def ret Let_def)
  show "\<exists>e'. x86_return tg (convert_signature tg sg) hidden r rs e = Inr e'"
    using assms ret_types [OF assms, of "sig_ret_type sg"]
    by (auto simp: x86_return_def sig_has_ret_def new_reg_def ret Let_def)
qed



lemma x86_callback_code_supported:
  assumes "\<not> t_ptr32 tg"
  shows "passable sg \<Longrightarrow> \<exists>e. x86_callback_code tg (convert_signature tg sg) mp cb data hidden = Inr e"
    and "\<not> passable sg \<Longrightarrow> x86_callback_code tg (convert_signature tg sg) mp cb data hidden = Inl wide_params"
proof -
  let ?sig = "convert_signature tg sg"
  show "\<exists>e. x86_callback_code tg ?sig mp cb data hidden = Inr e" if "passable sg"
  proof -
    have sup: "\<forall>t \<in> set (fs_args ?sig). supported t" using that by (simp add: supported_args)
    show ?thesis
      using supported_ret(2) [OF assms] sup
      by (auto simp: x86_callback_code_def x86_bind_args_code [OF assms] x86_spill_code [OF assms slots_types [OF sup]]
          x86_reload_code [OF assms slots_types [OF sup]] Let_def split: prod.splits)
  qed
  show "\<not> passable sg \<Longrightarrow> x86_callback_code tg ?sig mp cb data hidden = Inl wide_params"
    by (simp add: x86_callback_code_def x86_bind_args_code [OF assms] supported_args)
qed

text \<open>When \<open>JitRuntime::add\<close> fails there is no function and no error either: the union still has the
  address of the target, which \<open>GetError\<close> takes for the text of an error.\<close>

lemma failed_add_has_no_error_text:
  assumes "jr_add rt e = 0" "jr_finalize rt e = None" "addr \<noteq> 0"
  shows "fst (add_function rt (Inr e) addr new_jit) = 0" "get_jit_error (snd (add_function rt (Inr e) addr new_jit)) = None"
  using assms by (simp_all add: add_function_def new_jit_def get_jit_error_def)

section \<open>Properties\<close>


definition linux64 :: target where
  "linux64 = \<lparr>t_windows = False, t_arm64 = False, t_ptr32 = False\<rparr>"


text \<open>C14: On a 64-bit x86 target \<open>JitCallback\<close> makes a stub for every signature whose arguments have
  a type. Called with any arguments, it calls its handler once, with the method and the data it was
  made for, the number of arguments, an array that holds them in order, and the address of the
  return; it returns what the handler left there. With a hidden return the first argument is that
  address: the handler gets it as the address of the return, the array and the count are those of
  the other arguments, and the stub returns the address.\<close>

theorem callback_stub_correct:
  assumes "runs x86_ret_reg (convert_signature tg sg) B ex" "\<not> t_ptr32 tg" "passable sg"
    and "length vs = length (sig_arg_types sg)" "length vs \<le> max_func_args" "hidden \<Longrightarrow> vs \<noteq> []"
  shows "\<exists>e. x86_callback_code tg (convert_signature tg sg) mp cb data hidden = Inr e \<and>
    (\<forall>s. \<exists>argp mem ph. let s' = fold ex (em_code e) (enter e vs s);
         as = (if hidden then tl vs else vs);
         rp = (if hidden then hd vs else m_stack s (if vs = [] then 0 else 1));
         hs = [mp, data, argp, of_nat (length as), rp] in
       (\<forall>j < length as. load_le 8 mem (slot argp j) = as ! j) \<and>
       mem = put_slots (m_stack s 0) vs (m_mem s) \<and>
       m_calls s' = m_calls s @ [(cb, handler_sig, hs)] \<and> m_mem s' = snd (B cb handler_sig hs ph mem) \<and>
       returned (convert_signature tg sg) hidden rp (m_mem s') s')"
proof -
  obtain e where e: "x86_callback_code tg (convert_signature tg sg) mp cb data hidden = Inr e"
    using x86_callback_code_supported(1) [OF assms(2,3)] by blast
  have "length vs = length (fs_args (convert_signature tg sg))" "length vs \<le> 32"
    using assms(4,5) by (simp_all add: convert_signature_def max_func_args_def)
  then show ?thesis
    using x86_callback_code_run [OF assms(1,2) e _ _ assms(6)] e by blast
qed

lemma callback_stub_correct_witness:
  "\<exists>e. x86_callback_code linux64 (convert_signature linux64 \<lparr>sig_call_conv = CDecl, sig_ret_type = Pointer,
      sig_var_index = 255, sig_arg_types = [String, Float]\<rparr>) 1 2 3 True = Inr e"
  using callback_stub_correct [OF doc_run_runs [where B = "\<lambda>f sig vs ph m. (ph, m)"], of linux64 "\<lparr>sig_call_conv = CDecl, sig_ret_type = Pointer,
      sig_var_index = 255, sig_arg_types = [String, Float]\<rparr>" "[4, 5]" True 1 2 3]
  by (auto simp: linux64_def passable_def max_func_args_def)



end
