(* ===== verification/Jit_Arm.thy ===== *)
theory Jit_Arm
  imports Jit_Correct
begin

text \<open>
  The stubs on 64-bit ARM (src/jit/a64/call.cpp, callback.cpp, helpers.cpp). A register is as wide as
  the type it is made for, the address of a hidden return goes into x8 and structures of floats
  come back in one vector register for each member.
\<close>

section \<open>Types\<close>

definition arm_has_hi_arg_slot :: "type_id \<Rightarrow> bool" where
  "arm_has_hi_arg_slot t = False"

definition arm_get_value_type_id :: "value_type \<Rightarrow> type_id" where
  "arm_get_value_type_id v = (case v of
     Invalid \<Rightarrow> TVoid | Void \<Rightarrow> TVoid | Bool \<Rightarrow> TUInt8 | Char8 \<Rightarrow> TInt8 | Char16 \<Rightarrow> TUInt16
   | Int8 \<Rightarrow> TInt8 | Int16 \<Rightarrow> TInt16 | Int32 \<Rightarrow> TInt32 | Int64 \<Rightarrow> TInt64
   | UInt8 \<Rightarrow> TUInt8 | UInt16 \<Rightarrow> TUInt16 | UInt32 \<Rightarrow> TUInt32 | UInt64 \<Rightarrow> TUInt64
   | Float \<Rightarrow> TFloat32 | Double \<Rightarrow> TFloat64
   | _ \<Rightarrow> TUIntPtr)"

definition arm_get_call_conv_id :: "call_conv \<Rightarrow> call_conv_id" where
  "arm_get_call_conv_id c = (case c of
     CDecl \<Rightarrow> KCDecl | StdCall \<Rightarrow> KStdCall | FastCall \<Rightarrow> KFastCall | VectorCall \<Rightarrow> KVectorCall
   | ThisCall \<Rightarrow> KThisCall | RegParm1 \<Rightarrow> KRegParm1 | RegParm2 \<Rightarrow> KRegParm2 | RegParm3 \<Rightarrow> KRegParm3
   | LightCall2 \<Rightarrow> KLightCall2 | LightCall3 \<Rightarrow> KLightCall3 | LightCall4 \<Rightarrow> KLightCall4
   | SoftFloat \<Rightarrow> KSoftFloat | HardFloat \<Rightarrow> KHardFloat | X64SystemV \<Rightarrow> KX64SystemV
   | X64Windows \<Rightarrow> KX64Windows)"

text \<open>The two architectures have their own copies of these tables, which agree.\<close>

lemma arm_tables [simp]: "arm_get_value_type_id = get_value_type_id" "arm_get_call_conv_id = get_call_conv_id"
  by (simp_all add: fun_eq_iff arm_get_value_type_id_def get_value_type_id_def arm_get_call_conv_id_def get_call_conv_id_def)

definition arm_get_ret_type_id :: "value_type \<Rightarrow> type_id" where
  "arm_get_ret_type_id v = (case v of
     Bool \<Rightarrow> TUInt8 | Char8 \<Rightarrow> TInt8 | Char16 \<Rightarrow> TUInt16
   | Int8 \<Rightarrow> TInt8 | Int16 \<Rightarrow> TInt16 | Int32 \<Rightarrow> TInt32 | Int64 \<Rightarrow> TInt64
   | UInt8 \<Rightarrow> TUInt8 | UInt16 \<Rightarrow> TUInt16 | UInt32 \<Rightarrow> TUInt32 | UInt64 \<Rightarrow> TUInt64
   | Float \<Rightarrow> TFloat32 | Double \<Rightarrow> TFloat64 | Pointer \<Rightarrow> TUIntPtr | Function \<Rightarrow> TUIntPtr
   | Vector2 \<Rightarrow> TFloat32x2 | Vector3 \<Rightarrow> TFloat64x2 | Vector4 \<Rightarrow> TFloat32x4
   | _ \<Rightarrow> TVoid)"

definition arm_convert_signature :: "signature \<Rightarrow> func_sig" where
  "arm_convert_signature s = \<lparr>fs_conv = arm_get_call_conv_id (sig_call_conv s), fs_var = sig_var_index s,
     fs_ret = arm_get_ret_type_id (sig_ret_type s), fs_args = map arm_get_value_type_id (sig_arg_types s)\<rparr>"

text \<open>The bytes of the register \<open>new_gp\<close> or \<open>new_vec\<close> gives for a type.\<close>

definition arm_width :: "type_id \<Rightarrow> nat" where
  "arm_width t = (case t of
     TInt8 \<Rightarrow> 4 | TUInt8 \<Rightarrow> 4 | TInt16 \<Rightarrow> 4 | TUInt16 \<Rightarrow> 4 | TInt32 \<Rightarrow> 4 | TUInt32 \<Rightarrow> 4
   | TFloat32 \<Rightarrow> 4 | _ \<Rightarrow> 8)"

section \<open>Stubs that call\<close>

fun arm_load_args :: "mem_op \<Rightarrow> reg \<Rightarrow> type_id list \<Rightarrow> reg list \<Rightarrow> emitter \<Rightarrow> string + reg list \<times> emitter" where
  "arm_load_args pm i [] regs e = Inr (regs, e)"
| "arm_load_args pm i (t # ts) regs e =
     (if id_is_int t \<or> id_is_float t then
        let (arg, e) = new_reg e;
            e = emit_node (Load (arm_width t) arg pm) e
        in arm_load_args pm i ts (regs @ [arg]) (emit_node (Add_imm i 8) e)
      else Inl wide_params)"

definition arm_wait :: "64 word \<Rightarrow> wait_type \<Rightarrow> emitter \<Rightarrow> emitter" where
  "arm_wait getchar w e = (case w of
     No_wait \<Rightarrow> e
   | Breakpoint \<Rightarrow> emit_node Trap e
   | Wait_keypress \<Rightarrow>
       let (dest, e) = new_reg e; e = emit_node (Mov_imm dest getchar) e
       in snd (emit_invoke (In_reg dest) (build_sig TInt32 0) e))"

definition arm_pass_args :: "nat \<Rightarrow> reg list \<Rightarrow> emitter \<Rightarrow> emitter" where
  "arm_pass_args k regs e = fold (\<lambda>(i, r). invoke_set_arg k i 0 r) (enumerate 0 regs) e"

definition arm_store_ret :: "func_sig \<Rightarrow> nat \<Rightarrow> reg \<Rightarrow> emitter \<Rightarrow> emitter" where
  "arm_store_ret sig node rimm e =
     (let st = (\<lambda>w d r. emit_node (Store w (mem_at (Base rimm) None d) r)); t = fs_ret sig in
      if \<not> sig_has_ret sig then e
      else if id_is_int t then
        let (tmp, e) = new_reg e in st (arm_width t) 0 tmp (invoke_set_ret node tmp e)
      else if id_between t TInt8x16 TUInt64x2 then st 8 8 (Phys X1) (st 8 0 (Phys X0) e)
      else if t = TFloat32x2 then st 4 4 (Phys V1) (st 4 0 (Phys V0) e)
      else if t = TFloat64x2 then st 4 8 (Phys V2) (st 4 4 (Phys V1) (st 4 0 (Phys V0) e))
      else if t = TFloat32x4 then st 4 12 (Phys V3) (st 4 8 (Phys V2) (st 4 4 (Phys V1) (st 4 0 (Phys V0) e)))
      else let (ret, e) = new_reg e in st (arm_width t) 0 ret (invoke_set_ret node ret e))"

definition arm_call_code ::
    "64 word \<Rightarrow> func_sig \<Rightarrow> 64 word \<Rightarrow> wait_type \<Rightarrow> bool \<Rightarrow> string + emitter" where
  "arm_call_code getchar sig target w hidden =
     (let (pimm, e) = new_reg new_emitter;
          e = func_set_arg 0 0 pimm e;
          (rimm, e) = new_reg e;
          e = func_set_arg 1 0 rimm e;
          (i, e) = new_reg e;
          pm = mem_at (Base pimm) (Some i) 0;
          rm = mem_at (Base rimm) None 0;
          e = emit_node (Mov_imm i 0) e;
          e = (if hidden then
                 let (tmp, e) = new_reg e
                 in emit_node (Add_imm i 8) (emit_node (Store 8 rm tmp) (emit_node (Load 8 tmp pm) e))
               else e)
      in rbind (arm_load_args pm i (fs_args sig) [] e) (\<lambda>(regs, e).
           let e = arm_wait getchar w e;
               (dest, e) = new_reg e;
               e = emit_node (Mov_imm dest target) e;
               e = (if hidden then
                      let (tmp, e) = new_reg e in emit_node (Mov (Phys X8) tmp) (emit_node (Load 8 tmp rm) e)
                    else e);
               (node, e) = emit_invoke (In_reg dest) sig e;
               e = arm_pass_args node regs e
           in Inr (emit_node (Ret None) (arm_store_ret sig node rimm e))))"

section \<open>Stubs that are called\<close>

fun arm_bind_args :: "nat \<Rightarrow> type_id list \<Rightarrow> reg list \<Rightarrow> emitter \<Rightarrow> string + reg list \<times> emitter" where
  "arm_bind_args k [] regs e = Inr (regs, e)"
| "arm_bind_args k (t # ts) regs e =
     (if id_is_int t \<or> id_is_float t then
        let (arg, e) = new_reg e
        in arm_bind_args (k + 1) ts (regs @ [arg]) (func_set_arg k 0 arg e)
      else Inl wide_params)"

fun arm_spill :: "mem_op \<Rightarrow> reg \<Rightarrow> (type_id \<times> reg) list \<Rightarrow> emitter \<Rightarrow> string + emitter" where
  "arm_spill st i [] e = Inr e"
| "arm_spill st i ((t, r) # xs) e =
     (if id_is_int t \<or> id_is_float t then
        arm_spill st i xs (emit_node (Add_imm i 8) (emit_node (Store (arm_width t) st r) e))
      else Inl wide_params)"

fun arm_reload :: "mem_op \<Rightarrow> reg \<Rightarrow> (type_id \<times> reg) list \<Rightarrow> emitter \<Rightarrow> string + emitter" where
  "arm_reload st i [] e = Inr e"
| "arm_reload st i ((t, r) # xs) e =
     (if id_is_int t \<or> id_is_float t then
        arm_reload st i xs (emit_node (Add_imm i 8) (emit_node (Load (arm_width t) r st) e))
      else Inl wide_params)"

definition arm_return :: "func_sig \<Rightarrow> bool \<Rightarrow> reg \<Rightarrow> base \<Rightarrow> emitter \<Rightarrow> emitter" where
  "arm_return sig hidden rstruct rstack e =
     (let ld = (\<lambda>w d r. emit_node (Load w r (mem_at rstack None d))); t = fs_ret sig in
      if hidden then emit_node (Ret None) (emit_node (Mov (Phys X8) rstruct) e)
      else if \<not> sig_has_ret sig then emit_node (Ret None) e
      else if id_is_int t then
        let (tmp, e) = new_reg e in emit_node (Ret (Some tmp)) (ld (arm_width t) 0 tmp e)
      else if id_between t TInt8x16 TUInt64x2 then
        emit_node (Ret None) (ld 8 8 (Phys X1) (ld 8 0 (Phys X0) e))
      else if t = TFloat32x2 then emit_node (Ret None) (ld 4 4 (Phys V1) (ld 4 0 (Phys V0) e))
      else if t = TFloat64x2 then
        emit_node (Ret None) (ld 4 8 (Phys V2) (ld 4 4 (Phys V1) (ld 4 0 (Phys V0) e)))
      else if t = TFloat32x4 then
        emit_node (Ret None) (ld 4 12 (Phys V3) (ld 4 8 (Phys V2) (ld 4 4 (Phys V1) (ld 4 0 (Phys V0) e))))
      else let (tmp, e) = new_reg e in emit_node (Ret (Some tmp)) (ld (arm_width t) 0 tmp e))"

definition arm_handler_call ::
    "func_sig \<Rightarrow> bool \<Rightarrow> 64 word \<Rightarrow> 64 word \<Rightarrow> 64 word \<Rightarrow> base \<Rightarrow> reg \<Rightarrow> emitter \<Rightarrow> base \<times> emitter" where
  "arm_handler_call sig hidden callback method_ptr data args rstruct e =
     (let (mreg, e) = new_reg e;
          e = emit_node (Mov_imm mreg method_ptr) e;
          (dreg, e) = new_reg e;
          e = emit_node (Mov_imm dreg data) e;
          (astruct, e) = new_reg e;
          e = emit_node (Lea astruct (mem_at args None 0)) e;
          (creg, e) = new_reg e;
          e = emit_node (Mov_imm creg (of_nat (length (fs_args sig)))) e;
          (rstack, e) =
            (if hidden then (No_base, e)
             else let (rs, e) = new_stack (8 * (if id_is_vec128 (fs_ret sig) then 2 else 1)) e
                  in (rs, emit_node (Lea rstruct (mem_at rs None 0)) e));
          (dest, e) = new_reg e;
          e = emit_node (Mov_imm dest callback) e;
          (node, e) = emit_invoke (In_reg dest) (build_sig TVoid 5) e;
          e = invoke_set_arg node 0 0 mreg e;
          e = invoke_set_arg node 1 0 dreg e;
          e = invoke_set_arg node 2 0 astruct e;
          e = invoke_set_arg node 3 0 creg e;
          e = invoke_set_arg node 4 0 rstruct e
      in (rstack, e))"

definition arm_callback_code ::
    "func_sig \<Rightarrow> 64 word \<Rightarrow> 64 word \<Rightarrow> 64 word \<Rightarrow> bool \<Rightarrow> string + emitter" where
  "arm_callback_code sig method_ptr callback data hidden =
     rbind (arm_bind_args 0 (fs_args sig) [] new_emitter) (\<lambda>(regs, e).
       let (rstruct, e) = new_reg e;
           e = (if hidden then emit_node (Mov rstruct (Phys X8)) e else e);
           size = 8 * length (fs_args sig);
           (args, e) = (if 0 < size then new_stack size e else (No_base, e));
           (i, e) = new_reg e;
           st = mem_at args (Some i) 0;
           e = emit_node (Mov_imm i 0) e
       in rbind (arm_spill st i (zip (fs_args sig) regs) e) (\<lambda>e.
            let (rstack, e) = arm_handler_call sig hidden callback method_ptr data args rstruct e;
                e = emit_node (Mov_imm i 0) e
            in rbind (arm_reload st i (zip (fs_args sig) regs) e) (\<lambda>e.
                 Inr (arm_return sig hidden rstruct rstack e))))"

definition arm_get_call ::
    "jit_runtime \<Rightarrow> 64 word \<Rightarrow> signature \<Rightarrow> 64 word \<Rightarrow> wait_type \<Rightarrow> bool \<Rightarrow> jit_impl \<Rightarrow> 64 word \<times> jit_impl" where
  "arm_get_call rt getchar s target w hidden j =
     add_function rt (arm_call_code getchar (arm_convert_signature s) target w hidden) target j"

definition arm_get_callback ::
    "jit_runtime \<Rightarrow> signature \<Rightarrow> 64 word \<Rightarrow> 64 word \<Rightarrow> 64 word \<Rightarrow> bool \<Rightarrow> jit_impl \<Rightarrow> 64 word \<times> jit_impl" where
  "arm_get_callback rt s method_ptr callback data hidden j =
     add_function rt (arm_callback_code (arm_convert_signature s) method_ptr callback data hidden) data j"

section \<open>Calls\<close>





















end
