(* ===== verification/Call_Slots.thy ===== *)
theory Call_Slots
  imports Jit_Machine
begin

text \<open>
  The arrays of slots a stub reads and fills (include/plugify/call.hpp, callback.hpp): the builder
  \<open>Parameters\<close>, the return \<open>Return\<close>, and the views \<open>ParametersSpan\<close> and \<open>ReturnSlot\<close> a handler has.
  A value is its bytes, the first one lowest; a slot is a word of eight bytes.
\<close>

section \<open>Bytes and slots\<close>

type_synonym bytes = "8 word list"

fun word_of_bytes :: "bytes \<Rightarrow> 64 word" where
  "word_of_bytes [] = 0"
| "word_of_bytes (b # bs) = ucast b OR push_bit 8 (word_of_bytes bs)"

definition bytes_of_word :: "64 word \<Rightarrow> bytes" where
  "bytes_of_word w = map (\<lambda>k. ucast (drop_bit (8 * k) w)) [0..<8]"

text \<open>\<open>memcpy\<close> of a value over the first bytes of a slot.\<close>

definition copy_to_slot :: "bytes \<Rightarrow> 64 word \<Rightarrow> 64 word" where
  "copy_to_slot bs w = word_of_bytes (bs @ drop (length bs) (bytes_of_word w))"

definition copy_from_slot :: "nat \<Rightarrow> 64 word \<Rightarrow> bytes" where
  "copy_from_slot n w = take n (bytes_of_word w)"

section \<open>The builder\<close>

text \<open>The vector has room for \<open>max_func_args\<close> slots; \<open>reserve\<close>, \<open>emplace_back\<close>, \<open>resize\<close> and \<open>at\<close>
  throw beyond it, which is no result.\<close>

type_synonym parameters = "64 word list"

definition new_parameters :: "nat \<Rightarrow> parameters option" where
  "new_parameters n = (if n \<le> max_func_args then Some [] else None)"

definition add_param :: "bytes \<Rightarrow> parameters \<Rightarrow> parameters option" where
  "add_param bs ps = (if length ps < max_func_args then Some (ps @ [copy_to_slot bs 0]) else None)"

fun chunks8 :: "bytes \<Rightarrow> 64 word list" where
  "chunks8 [] = []"
| "chunks8 (b # bs) = copy_to_slot (take 8 (b # bs)) 0 # chunks8 (drop 8 (b # bs))"

definition add_large_param :: "bytes \<Rightarrow> parameters \<Rightarrow> parameters option" where
  "add_large_param bs ps =
     (let slots_needed = (length bs + 8 - 1) div 8 in
      if length ps + slots_needed \<le> max_func_args then Some (ps @ chunks8 bs) else None)"

definition add_params :: "bytes list \<Rightarrow> parameters \<Rightarrow> parameters option" where
  "add_params vs ps = fold (\<lambda>bs r. Option.bind r (add_param bs)) vs (Some ps)"

definition set_param_at :: "nat \<Rightarrow> bytes \<Rightarrow> parameters \<Rightarrow> parameters option" where
  "set_param_at k bs ps = (if k < length ps then Some (ps[k := copy_to_slot bs 0]) else None)"

definition used_slots :: "parameters \<Rightarrow> nat" where
  "used_slots ps = length ps"

definition reset_params :: "parameters \<Rightarrow> parameters" where
  "reset_params ps = []"

definition has_space :: "nat \<Rightarrow> parameters \<Rightarrow> bool" where
  "has_space n ps \<longleftrightarrow> length ps + n < max_func_args"

section \<open>The views of a handler\<close>

text \<open>The asserts on the index and the size are the option.\<close>

definition span_get :: "nat \<Rightarrow> nat \<Rightarrow> 64 word list \<Rightarrow> bytes option" where
  "span_get n k ps = (if k < length ps then Some (copy_from_slot n (ps ! k)) else None)"

definition span_set :: "nat \<Rightarrow> bytes \<Rightarrow> 64 word list \<Rightarrow> 64 word list option" where
  "span_set k bs ps = (if k < length ps then Some (ps[k := copy_to_slot bs (ps ! k)]) else None)"

definition return_size :: nat where
  "return_size = 16"

definition return_set :: "bytes \<Rightarrow> bytes option" where
  "return_set bs = (if length bs \<le> return_size then Some (bs @ replicate (return_size - length bs) 0) else None)"

definition return_get :: "nat \<Rightarrow> bytes \<Rightarrow> bytes option" where
  "return_get n r = (if n \<le> return_size then Some (take n r) else None)"

definition return_slot_set :: "nat \<Rightarrow> bytes \<Rightarrow> bytes \<Rightarrow> bytes option" where
  "return_slot_set m bs r = (if length bs \<le> m then Some (bs @ drop (length bs) r) else None)"

definition return_slot_get :: "nat \<Rightarrow> nat \<Rightarrow> bytes \<Rightarrow> bytes option" where
  "return_slot_get m n r = (if n \<le> m then Some (take n r) else None)"

section \<open>Facts\<close>

lemma bit_word_of_bytes:
  "length bs \<le> 8 \<Longrightarrow> bit (word_of_bytes bs) j \<longleftrightarrow> j < 8 * length bs \<and> bit (bs ! (j div 8)) (j mod 8)"
proof (induction bs arbitrary: j)
  case (Cons b bs)
  show ?case
  proof (cases "j < 8")
    case True
    with Cons.prems show ?thesis by (simp add: bit_or_iff bit_push_bit_iff bit_ucast_iff)
  next
    case False
    have 1: "j div 8 = Suc ((j - 8) div 8)" and 2: "j mod 8 = (j - 8) mod 8"
      using False by (simp_all add: le_div_geq le_mod_geq)
    have "bit (word_of_bytes (b # bs)) j \<longleftrightarrow> j < 64 \<and> bit (word_of_bytes bs) (j - 8)"
      using False by (auto simp: bit_or_iff bit_push_bit_iff bit_ucast_iff dest: bit_imp_le_length)
    also have "\<dots> \<longleftrightarrow> j < 8 * length (b # bs) \<and> bit ((b # bs) ! (j div 8)) (j mod 8)"
      using Cons.prems False by (auto simp: Cons.IH [of "j - 8"] 1 2)
    finally show ?thesis .
  qed
qed simp

lemma length_bytes_of_word [simp]: "length (bytes_of_word w) = 8"
  by (simp add: bytes_of_word_def)

lemma bytes_of_word_of_bytes:
  assumes "length bs = 8"
  shows "bytes_of_word (word_of_bytes bs) = bs"
proof (rule nth_equalityI)
  fix k assume "k < length (bytes_of_word (word_of_bytes bs))"
  then have k: "k < 8" by simp
  show "bytes_of_word (word_of_bytes bs) ! k = bs ! k"
  proof (rule bit_word_eqI)
    fix j assume "j < LENGTH(8)"
    then have j: "j < 8" by simp
    have "(8 * k + j) div 8 = k" "(8 * k + j) mod 8 = j" "8 * k + j < 64" using k j by simp_all
    with k j assms show "bit (bytes_of_word (word_of_bytes bs) ! k) j \<longleftrightarrow> bit (bs ! k) j"
      by (simp add: bytes_of_word_def bit_ucast_iff bit_drop_bit_eq bit_word_of_bytes)
  qed
qed (use assms in simp)

lemma copy_from_to_slot:
  assumes "length bs \<le> 8"
  shows "copy_from_slot (length bs) (copy_to_slot bs w) = bs"
  using assms by (simp add: copy_from_slot_def copy_to_slot_def bytes_of_word_of_bytes)

text \<open>What was added as a parameter is what a handler reads at its index, whatever is added later.\<close>

lemma params_roundtrip:
  assumes "length bs \<le> 8" "add_param bs ps = Some qs"
  shows "span_get (length bs) (length ps) (qs @ rs) = Some bs"
  using assms by (auto simp: add_param_def span_get_def nth_append copy_from_to_slot split: if_splits)

text \<open>\<open>HasSpace\<close> asks for one slot more than it needs: a builder with one slot left has none.\<close>

lemma has_space_too_strict:
  "length ps + 1 = max_func_args \<Longrightarrow> \<not> has_space 1 ps \<and> add_param bs ps \<noteq> None"
  by (simp add: has_space_def add_param_def)

end
