(* ===== verification/File_System.thy ===== *)
theory File_System
  imports Manager "HOL-Library.Word"
begin

text \<open>
  src/core/standart_file_system.cpp and include/plugify/file_system.hpp on a POSIX target. The
  operating system is a parameter: the record \<open>os\<close> holds the calls of \<open>std::filesystem\<close>, of the file
  streams and of the C library over a world of type \<open>'w\<close>. An \<open>std::error_code\<close> is its value, 0 being
  success; permission bits are a number. \<open>File_System_Correct\<close> states the laws it needs of them.
\<close>

section \<open>The operating system\<close>

datatype node_type = Nt_none | Nt_not_found | Nt_regular | Nt_directory | Nt_symlink | Nt_block
  | Nt_character | Nt_fifo | Nt_socket | Nt_unknown

datatype open_mode = Open_read | Open_truncate | Open_append

text \<open>A directory iterator is the list of the paths it still visits, with the error that ends it. As
  the standard has it, an iterator that meets an error is the end iterator.\<close>

type_synonym dir_iterator = "path list \<times> int"

record file_status =
  fs_type :: node_type
  fs_perms :: nat

text \<open>\<open>os_open\<close> gives a handle or none; \<open>os_read h offset count\<close> gives the bytes, fewer than asked for
  at the end of the file, and whether the read failed.\<close>

record 'w os =
  os_errno :: "'w \<Rightarrow> int"
  os_set_errno :: "int \<Rightarrow> 'w \<Rightarrow> 'w"
  os_strerror :: "int \<Rightarrow> nat \<Rightarrow> int + string"
  os_message :: "int \<Rightarrow> string"
  os_open :: "open_mode \<Rightarrow> path \<Rightarrow> 'w \<Rightarrow> nat option \<times> 'w"
  os_seek_end :: "nat \<Rightarrow> 'w \<Rightarrow> int \<times> 'w"
  os_read :: "nat \<Rightarrow> nat \<Rightarrow> nat \<Rightarrow> 'w \<Rightarrow> (string \<times> bool) \<times> 'w"
  os_write :: "nat \<Rightarrow> string \<Rightarrow> 'w \<Rightarrow> bool \<times> 'w"
  os_flush :: "nat \<Rightarrow> 'w \<Rightarrow> bool \<times> 'w"
  os_close :: "nat \<Rightarrow> 'w \<Rightarrow> 'w"
  os_max_buffer :: nat
  os_status :: "path \<Rightarrow> 'w \<Rightarrow> file_status \<times> int"
  os_symlink_status :: "path \<Rightarrow> 'w \<Rightarrow> file_status \<times> int"
  os_file_size :: "path \<Rightarrow> 'w \<Rightarrow> nat \<times> int"
  os_write_time :: "path \<Rightarrow> 'w \<Rightarrow> int \<times> int"
  os_entries :: "path \<Rightarrow> 'w \<Rightarrow> dir_iterator"
  os_walk :: "bool \<Rightarrow> bool \<Rightarrow> path \<Rightarrow> 'w \<Rightarrow> dir_iterator"
  os_create_directories :: "path \<Rightarrow> 'w \<Rightarrow> int \<times> 'w"
  os_remove :: "path \<Rightarrow> 'w \<Rightarrow> int \<times> 'w"
  os_remove_all :: "path \<Rightarrow> 'w \<Rightarrow> int \<times> 'w"
  os_copy :: "path \<Rightarrow> path \<Rightarrow> 'w \<Rightarrow> int \<times> 'w"
  os_rename :: "path \<Rightarrow> path \<Rightarrow> 'w \<Rightarrow> int \<times> 'w"
  os_canonical :: "path \<Rightarrow> 'w \<Rightarrow> path \<times> int"
  os_absolute :: "path \<Rightarrow> 'w \<Rightarrow> path \<times> int"
  os_relative :: "path \<Rightarrow> path \<Rightarrow> 'w \<Rightarrow> path \<times> int"
  os_temp_directory :: "'w \<Rightarrow> path \<times> int"
  os_now :: "'w \<Rightarrow> int \<times> 'w"
  os_space :: "path \<Rightarrow> 'w \<Rightarrow> (nat \<times> nat \<times> nat) \<times> int"
  os_permissions :: "path \<Rightarrow> nat \<Rightarrow> 'w \<Rightarrow> int \<times> 'w"
  os_set_write_time :: "path \<Rightarrow> int \<Rightarrow> 'w \<Rightarrow> int \<times> 'w"
  os_create_symlink :: "path \<Rightarrow> path \<Rightarrow> 'w \<Rightarrow> int \<times> 'w"
  os_read_symlink :: "path \<Rightarrow> 'w \<Rightarrow> path \<times> int"

definition eperm_denied :: int where "eperm_denied = 13"
definition eno_entry :: int where "eno_entry = 2"
definition erange :: int where "erange = 34"

lemmas error_numbers = eperm_denied_def eno_entry_def erange_def

section \<open>Error texts\<close>

text \<open>The loop of \<open>GetStringError\<close> over the \<open>strerror_r\<close> of glibc or POSIX, after \<open>k\<close> doublings of a
  buffer of 80 characters.\<close>

function string_error_loop :: "'w os \<Rightarrow> int \<Rightarrow> nat \<Rightarrow> string" where
  "string_error_loop os error k =
     (case os_strerror os error (80 * 2 ^ k) of
        Inr msg \<Rightarrow> msg
      | Inl err \<Rightarrow>
          if err = erange \<and> 80 * 2 ^ k < (1024 * 1024 :: nat) then string_error_loop os error (k + 1)
          else ''Unknown error ('' @ show_int err @ '')'')"
  by pat_completeness auto
termination
proof (relation "measure (\<lambda>(os, error, k). 1024 * 1024 - k)")
  fix os :: "'w os" and error err :: int and k :: nat
  assume "err = erange \<and> 80 * 2 ^ k < (1024 * 1024 :: nat)"
  with less_exp [of k] have "k < 1024 * 1024" by linarith
  then show "((os, error, k + 1), os, error, k) \<in> measure (\<lambda>(os, error, k). 1024 * 1024 - k)" by simp
qed simp

declare string_error_loop.simps [simp del]

definition get_string_error :: "'w os \<Rightarrow> int \<Rightarrow> string" where
  "get_string_error os error = string_error_loop os error 0"

record stream_state =
  st_bad :: bool
  st_fail :: bool
  st_eof :: bool

definition get_stream_error :: "'w os \<Rightarrow> stream_state \<Rightarrow> path \<Rightarrow> string \<Rightarrow> 'w \<Rightarrow> string" where
  "get_stream_error os st p operation w =
     (let err = os_errno os w in
      if err \<noteq> 0 then operation @ '' '' @ p @ '': '' @ get_string_error os err
      else operation @ '' '' @ p @ '': '' @
        (if st_bad st then ''badbit (hardware/buffer error)''
         else if st_fail st then ''failbit (logical error)''
         else if st_eof st then ''eofbit (unexpected EOF)''
         else ''unknown stream error''))"

definition failed_stream :: stream_state where
  "failed_stream = \<lparr>st_bad = False, st_fail = True, st_eof = False\<rparr>"

text \<open>\<open>read\<close> of an input stream: a failed read sets \<open>badbit\<close>, a short one \<open>eofbit\<close> and \<open>failbit\<close>.\<close>

definition after_read :: "nat \<Rightarrow> string \<times> bool \<Rightarrow> stream_state" where
  "after_read n = (\<lambda>(bytes, failed). let short = \<not> failed \<and> length bytes < n in
     \<lparr>st_bad = failed, st_fail = short, st_eof = short\<rparr>)"

definition stream_ok :: "stream_state \<Rightarrow> bool" where
  "stream_ok st \<longleftrightarrow> \<not> st_bad st \<and> \<not> st_fail st"

section \<open>Reading\<close>

text \<open>\<open>ReadTextFile\<close>. The file is closed on every path, since the stream is a local object. A size
  beyond what can be allocated makes the construction of the buffer throw.\<close>

definition read_text_file :: "'w os \<Rightarrow> path \<Rightarrow> 'w \<Rightarrow> string outcome \<times> 'w" where
  "read_text_file os p w =
     (let w = os_set_errno os 0 w; (f, w) = os_open os Open_read p w in
      case f of
        None \<Rightarrow> (Returned (Inl (get_stream_error os failed_stream p ''Failed to open file for reading'' w)), w)
      | Some h \<Rightarrow>
          (let (size, w) = os_seek_end os h w in
           if size = -1 then
             (Returned (Inl (get_stream_error os failed_stream p ''Failed to determine file size'' w)), os_close os h w)
           else if os_max_buffer os < nat size then (Bad_alloc, os_close os h w)
           else
             (let (got, w) = os_read os h 0 (nat size) w; st = after_read (nat size) got in
              if \<not> stream_ok st then
                (Returned (Inl (get_stream_error os st p ''Failed to read file content'' w)), os_close os h w)
              else (Returned (Inr (fst got)), os_close os h w))))"

text \<open>\<open>ReadBinaryFile\<close> has the same body; the bytes come as \<open>uint8_t\<close>.\<close>

definition read_binary_file :: "'w os \<Rightarrow> path \<Rightarrow> 'w \<Rightarrow> 8 word list outcome \<times> 'w" where
  "read_binary_file os p w =
     (let w = os_set_errno os 0 w; (f, w) = os_open os Open_read p w in
      case f of
        None \<Rightarrow> (Returned (Inl (get_stream_error os failed_stream p ''Failed to open file for reading'' w)), w)
      | Some h \<Rightarrow>
          (let (size, w) = os_seek_end os h w in
           if size = -1 then
             (Returned (Inl (get_stream_error os failed_stream p ''Failed to determine file size'' w)), os_close os h w)
           else if os_max_buffer os < nat size then (Bad_alloc, os_close os h w)
           else
             (let (got, w) = os_read os h 0 (nat size) w; st = after_read (nat size) got in
              if \<not> stream_ok st then
                (Returned (Inl (get_stream_error os st p ''Failed to read file content'' w)), os_close os h w)
              else (Returned (Inr (map of_char (fst got))), os_close os h w))))"

section \<open>Writing\<close>

text \<open>\<open>file.write\<close> and \<open>file.flush\<close>, which does nothing after an error; each reports one with \<open>badbit\<close>.\<close>

definition put_all :: "'w os \<Rightarrow> nat \<Rightarrow> string \<Rightarrow> 'w \<Rightarrow> stream_state \<times> 'w" where
  "put_all os h content w =
     (let (ok, w) = os_write os h content w;
          (ok, w) = (if ok then os_flush os h w else (False, w))
      in (\<lparr>st_bad = \<not> ok, st_fail = False, st_eof = False\<rparr>, w))"

text \<open>The directory a file is put into.\<close>

definition make_parent :: "'w os \<Rightarrow> path \<Rightarrow> 'w \<Rightarrow> unit result \<times> 'w" where
  "make_parent os p w =
     (let parent = path_parent p in
      if parent = [] then (Inr (), w)
      else let (ec, w) = os_create_directories os parent w in
        (if ec \<noteq> 0 then Inl (''Failed to create parent directories: '' @ os_message os ec) else Inr (), w))"

text \<open>Opening, writing and closing, as the four functions that write or append do it.\<close>

definition put_file ::
    "'w os \<Rightarrow> open_mode \<Rightarrow> string \<Rightarrow> string \<Rightarrow> path \<Rightarrow> string \<Rightarrow> 'w \<Rightarrow> unit result \<times> 'w" where
  "put_file os mode not_opened not_written p content w =
     (let w = os_set_errno os 0 w; (f, w) = os_open os mode p w in
      case f of
        None \<Rightarrow> (Inl (get_stream_error os failed_stream p not_opened w), w)
      | Some h \<Rightarrow>
          (let (st, w) = put_all os h content w in
           (if \<not> stream_ok st then Inl (get_stream_error os st p not_written w) else Inr (), os_close os h w)))"

definition write_text_file :: "'w os \<Rightarrow> path \<Rightarrow> string \<Rightarrow> 'w \<Rightarrow> unit result \<times> 'w" where
  "write_text_file os p content w =
     (case make_parent os p w of
        (Inl e, w) \<Rightarrow> (Inl e, w)
      | (Inr _, w) \<Rightarrow>
          put_file os Open_truncate ''Failed to open file for writing'' ''Failed to write to file'' p content w)"

definition write_binary_file :: "'w os \<Rightarrow> path \<Rightarrow> 8 word list \<Rightarrow> 'w \<Rightarrow> unit result \<times> 'w" where
  "write_binary_file os p data w =
     (case make_parent os p w of
        (Inl e, w) \<Rightarrow> (Inl e, w)
      | (Inr _, w) \<Rightarrow>
          put_file os Open_truncate ''Failed to open file for writing'' ''Failed to write to file'' p
            (map (\<lambda>b. char_of (unat b)) data) w)"

definition append_text_file :: "'w os \<Rightarrow> path \<Rightarrow> string \<Rightarrow> 'w \<Rightarrow> unit result \<times> 'w" where
  "append_text_file os p content w =
     put_file os Open_append ''Failed to open file for appending'' ''Failed to append to file'' p content w"

definition append_binary_file :: "'w os \<Rightarrow> path \<Rightarrow> 8 word list \<Rightarrow> 'w \<Rightarrow> unit result \<times> 'w" where
  "append_binary_file os p data w =
     put_file os Open_append ''Failed to open file for appending'' ''Failed to append to file'' p
       (map (\<lambda>b. char_of (unat b)) data) w"

text \<open>\<open>WriteFileAtomic\<close>: the clean-up overwrites the error of the rename, which the message then
  reports, and a failed write leaves what it wrote behind.\<close>

definition write_file_atomic :: "'w os \<Rightarrow> path \<Rightarrow> string \<Rightarrow> 'w \<Rightarrow> unit result \<times> 'w" where
  "write_file_atomic os p content w =
     (let (now, w) = os_now os w;
          temp = p @ ''.tmp'' @ show_int now
      in case write_text_file os temp content w of
           (Inl e, w) \<Rightarrow> (Inl e, w)
         | (Inr _, w) \<Rightarrow>
             (let (ec, w) = os_rename os temp p w in
              if ec \<noteq> 0 then
                let (ec, w) = os_remove os temp w
                in (Inl (''Failed to atomically replace file: '' @ os_message os ec), w)
              else (Inr (), w)))"

section \<open>Queries\<close>

text \<open>\<open>exists\<close>, \<open>is_directory\<close> and \<open>is_regular_file\<close> of the standard look at the status only.\<close>

definition is_exists :: "'w os \<Rightarrow> path \<Rightarrow> 'w \<Rightarrow> bool" where
  "is_exists os p w \<longleftrightarrow> fs_type (fst (os_status os p w)) \<notin> {Nt_none, Nt_not_found}"

definition is_directory_at :: "'w os \<Rightarrow> path \<Rightarrow> 'w \<Rightarrow> bool" where
  "is_directory_at os p w \<longleftrightarrow> fs_type (fst (os_status os p w)) = Nt_directory"

definition is_regular_file_at :: "'w os \<Rightarrow> path \<Rightarrow> 'w \<Rightarrow> bool" where
  "is_regular_file_at os p w \<longleftrightarrow> fs_type (fst (os_status os p w)) = Nt_regular"

definition is_symlink_at :: "'w os \<Rightarrow> path \<Rightarrow> 'w \<Rightarrow> bool" where
  "is_symlink_at os p w \<longleftrightarrow> fs_type (fst (os_symlink_status os p w)) = Nt_symlink"

record file_details =
  fd_path :: path
  fd_size :: nat
  fd_write_time :: int
  fd_type :: node_type
  fd_perms :: nat

definition details_is_directory :: "file_details \<Rightarrow> bool" where
  "details_is_directory i \<longleftrightarrow> fd_type i = Nt_directory"

definition details_is_regular_file :: "file_details \<Rightarrow> bool" where
  "details_is_regular_file i \<longleftrightarrow> fd_type i = Nt_regular"

definition details_is_symlink :: "file_details \<Rightarrow> bool" where
  "details_is_symlink i \<longleftrightarrow> fd_type i = Nt_symlink"

definition get_file_info :: "'w os \<Rightarrow> path \<Rightarrow> 'w \<Rightarrow> file_details result" where
  "get_file_info os p w =
     (let (status, ec) = os_status os p w in
      if ec \<noteq> 0 then Inl (''Failed to get file status: '' @ p @ '' - '' @ os_message os ec)
      else
        let size =
              (if fs_type status = Nt_regular then
                 let (n, ec) = os_file_size os p w in if ec \<noteq> 0 then 0 else n
               else 0);
            (time, ec) = os_write_time os p w
        in Inr \<lparr>fd_path = p, fd_size = size, fd_write_time = (if ec \<noteq> 0 then 0 else time),
             fd_type = fs_type status, fd_perms = fs_perms status\<rparr>)"

section \<open>Directories\<close>

definition at_end :: "dir_iterator \<Rightarrow> bool" where
  "at_end it \<longleftrightarrow> fst it = []"

text \<open>The error code after the iterator was made or moved.\<close>

definition iterator_error :: "dir_iterator \<Rightarrow> int" where
  "iterator_error it = (if fst it = [] then snd it else 0)"

definition increment :: "dir_iterator \<Rightarrow> dir_iterator" where
  "increment it = (tl (fst it), snd it)"

text \<open>The loop of \<open>ListDirectory\<close> and the two of \<open>IterateDirectory\<close>; \<open>ec\<close> is the variable with the last
  error, \<open>skip\<close> whether a denied permission is passed over. \<open>++it\<close> throws when it meets an error.\<close>

function directory_loop ::
    "(path \<Rightarrow> 'b list) \<Rightarrow> bool \<Rightarrow> (int \<Rightarrow> string) \<Rightarrow> dir_iterator \<Rightarrow> int \<Rightarrow> 'b list \<Rightarrow> 'b list outcome" where
  "directory_loop process skip message it ec files =
     (if at_end it then Returned (Inr files)
      else if ec \<noteq> 0 then
        (if skip \<and> ec = eperm_denied then
           (if iterator_error (increment it) \<noteq> 0 then Exception ''filesystem_error''
            else directory_loop process skip message (increment it) 0 files)
         else Returned (Inl (message ec)))
      else directory_loop process skip message (increment it) (iterator_error (increment it))
        (files @ process (hd (fst it))))"
  by pat_completeness auto
termination
  by (relation "measure (\<lambda>(process, skip, message, it, ec, files). length (fst it))")
    (auto simp: at_end_def increment_def)

declare directory_loop.simps [simp del]

definition list_directory :: "'w os \<Rightarrow> path \<Rightarrow> 'w \<Rightarrow> file_details list outcome" where
  "list_directory os dir w =
     (if \<not> is_directory_at os dir w then Returned (Inl (''Path is not a directory: '' @ dir))
      else
        let it = os_entries os dir w in
        directory_loop (\<lambda>p. case get_file_info os p w of Inl _ \<Rightarrow> [] | Inr i \<Rightarrow> [i]) True
          (\<lambda>ec. ''Error iterating directory: '' @ os_message os ec) it (iterator_error it) [])"

text \<open>\<open>filter_pattern\<close> is the test a \<open>std::regex\<close> makes of a whole name.\<close>

record iteration_options =
  io_recursive :: bool
  io_follow_symlinks :: bool
  io_skip_denied :: bool
  io_pattern :: "(string \<Rightarrow> bool) option"
  io_predicate :: "(file_details \<Rightarrow> bool) option"

definition default_options :: iteration_options where
  "default_options = \<lparr>io_recursive = False, io_follow_symlinks = False, io_skip_denied = True,
     io_pattern = None, io_predicate = None\<rparr>"

definition process_entry :: "'w os \<Rightarrow> iteration_options \<Rightarrow> 'w \<Rightarrow> path \<Rightarrow> file_details list" where
  "process_entry os opts w p =
     (case get_file_info os p w of
        Inl _ \<Rightarrow> []
      | Inr i \<Rightarrow>
          if (case io_pattern opts of None \<Rightarrow> False | Some m \<Rightarrow> \<not> m (path_filename (fd_path i))) then []
          else if (case io_predicate opts of None \<Rightarrow> False | Some f \<Rightarrow> \<not> f i) then []
          else [i])"

definition iterate_directory :: "'w os \<Rightarrow> path \<Rightarrow> iteration_options \<Rightarrow> 'w \<Rightarrow> file_details list outcome" where
  "iterate_directory os dir opts w =
     (if \<not> is_directory_at os dir w then Returned (Inl (''Path is not a directory: '' @ dir))
      else if io_recursive opts then
        let it = os_walk os (io_follow_symlinks opts) False dir w in
        directory_loop (process_entry os opts w) (io_skip_denied opts)
          (\<lambda>ec. ''Error iterating directory recursively: '' @ os_message os ec) it (iterator_error it) []
      else
        let it = os_entries os dir w in
        directory_loop (process_entry os opts w) (io_skip_denied opts)
          (\<lambda>ec. ''Error iterating directory: '' @ os_message os ec) it (iterator_error it) [])"

section \<open>Changes of the tree\<close>

definition create_directories_at :: "'w os \<Rightarrow> path \<Rightarrow> 'w \<Rightarrow> unit result \<times> 'w" where
  "create_directories_at os p w =
     (let (ec, w) = os_create_directories os p w in
      (if ec \<noteq> 0 then Inl (''Failed to create directories: '' @ p @ '' - '' @ os_message os ec) else Inr (), w))"

definition remove_path :: "'w os \<Rightarrow> path \<Rightarrow> 'w \<Rightarrow> unit result \<times> 'w" where
  "remove_path os p w =
     (let (ec, w) = os_remove os p w in
      (if ec \<noteq> 0 \<and> ec \<noteq> eno_entry then Inl (''Failed to remove: '' @ p @ '' - '' @ os_message os ec) else Inr (), w))"

definition remove_all_path :: "'w os \<Rightarrow> path \<Rightarrow> 'w \<Rightarrow> unit result \<times> 'w" where
  "remove_all_path os p w =
     (let (ec, w) = os_remove_all os p w in
      (if ec \<noteq> 0 \<and> ec \<noteq> eno_entry then Inl (''Failed to remove all: '' @ p @ '' - '' @ os_message os ec) else Inr (), w))"

text \<open>The copies are recursive and overwrite.\<close>

definition copy_path :: "'w os \<Rightarrow> path \<Rightarrow> path \<Rightarrow> 'w \<Rightarrow> unit result \<times> 'w" where
  "copy_path os from_path to w =
     (case make_parent os to w of
        (Inl e, w) \<Rightarrow> (Inl e, w)
      | (Inr _, w) \<Rightarrow>
          (let (ec, w) = os_copy os from_path to w in
           (if ec \<noteq> 0 then Inl (''Failed to copy from '' @ from_path @ '' to '' @ to @ '' - '' @ os_message os ec)
            else Inr (), w)))"

definition move_path :: "'w os \<Rightarrow> path \<Rightarrow> path \<Rightarrow> 'w \<Rightarrow> unit result \<times> 'w" where
  "move_path os from_path to w =
     (case make_parent os to w of
        (Inl e, w) \<Rightarrow> (Inl e, w)
      | (Inr _, w) \<Rightarrow>
          (let (ec, w) = os_rename os from_path to w in
           if ec = 0 then (Inr (), w)
           else
             let (ec, w) = os_copy os from_path to w in
             if ec \<noteq> 0 then
               (Inl (''Failed to move from '' @ from_path @ '' to '' @ to @ '' - '' @ os_message os ec), w)
             else
               let (ec, w) = os_remove_all os from_path w in
               (if ec \<noteq> 0 then Inl (''Warning: moved file but failed to remove source: '' @ os_message os ec)
                else Inr (), w)))"

section \<open>Paths\<close>

definition get_canonical_path :: "'w os \<Rightarrow> path \<Rightarrow> 'w \<Rightarrow> path result" where
  "get_canonical_path os p w =
     (let (q, ec) = os_canonical os p w in
      if ec \<noteq> 0 then Inl (''Failed to get canonical path: '' @ os_message os ec) else Inr q)"

definition get_absolute_path :: "'w os \<Rightarrow> path \<Rightarrow> 'w \<Rightarrow> path result" where
  "get_absolute_path os p w =
     (let (q, ec) = os_absolute os p w in
      if ec \<noteq> 0 then Inl (''Failed to get absolute path: '' @ os_message os ec) else Inr q)"

definition get_relative_path :: "'w os \<Rightarrow> path \<Rightarrow> path \<Rightarrow> 'w \<Rightarrow> path result" where
  "get_relative_path os p base_path w =
     (let (q, ec) = os_relative os p base_path w in
      if ec \<noteq> 0 then
        Inl (''Failed to relative path to '' @ p @ '' with '' @ base_path @ '' - '' @ os_message os ec)
      else Inr q)"

section \<open>The extended file system\<close>

definition get_space_info :: "'w os \<Rightarrow> path \<Rightarrow> 'w \<Rightarrow> (nat \<times> nat \<times> nat) result" where
  "get_space_info os p w =
     (let (s, ec) = os_space os p w in
      if ec \<noteq> 0 then Inl (''Failed to get space info: '' @ os_message os ec) else Inr s)"

text \<open>The directory of \<open>CreateTempFile\<close> and \<open>CreateTempDirectory\<close>, and the name they try.\<close>

definition temp_place :: "'w os \<Rightarrow> path \<Rightarrow> 'w \<Rightarrow> path result" where
  "temp_place os dir w =
     (let (d, ec) = (if dir = [] then os_temp_directory os w else (dir, 0)) in
      if ec \<noteq> 0 then Inl (''Failed to get temp directory: '' @ os_message os ec) else Inr d)"

definition temp_path :: "path \<Rightarrow> string \<Rightarrow> int \<Rightarrow> path" where
  "temp_path dir prefix timestamp = path_append dir (prefix @ ''_'' @ show_int timestamp)"

definition create_temp_file :: "'w os \<Rightarrow> path \<Rightarrow> string \<Rightarrow> 'w \<Rightarrow> path result \<times> 'w" where
  "create_temp_file os dir prefix w =
     (case temp_place os dir w of
        Inl e \<Rightarrow> (Inl e, w)
      | Inr d \<Rightarrow>
          (let (now, w) = os_now os w;
               p = temp_path d prefix now;
               w = os_set_errno os 0 w;
               (f, w) = os_open os Open_truncate p w
           in case f of
                None \<Rightarrow> (Inl (get_stream_error os failed_stream p ''Failed to create temp file'' w), w)
              | Some h \<Rightarrow> (Inr p, os_close os h w)))"

definition create_temp_directory :: "'w os \<Rightarrow> path \<Rightarrow> string \<Rightarrow> 'w \<Rightarrow> path result \<times> 'w" where
  "create_temp_directory os dir prefix w =
     (case temp_place os dir w of
        Inl e \<Rightarrow> (Inl e, w)
      | Inr d \<Rightarrow>
          (let (now, w) = os_now os w;
               p = temp_path d prefix now;
               (ec, w) = os_create_directories os p w
           in (if ec \<noteq> 0 then Inl (''Failed to create temp directory: '' @ os_message os ec) else Inr p, w)))"

text \<open>The loop of \<open>FilesEqual\<close>. Both streams are at the same offset and in a good state at its head,
  since it ends at the first short read; it runs on as long as both deliver full buffers.\<close>

definition compare_size :: nat where
  "compare_size = 8192"

partial_function (option) compare_loop :: "'w os \<Rightarrow> nat \<Rightarrow> nat \<Rightarrow> nat \<Rightarrow> 'w \<Rightarrow> (bool \<times> 'w) option" where
  "compare_loop os h1 h2 off w =
     (let (got1, w) = os_read os h1 off compare_size w;
          (got2, w) = os_read os h2 off compare_size w;
          read1 = length (fst got1); read2 = length (fst got2)
      in if read1 \<noteq> read2 then Some (False, w)
         else if fst got1 \<noteq> fst got2 then Some (False, w)
         else if read1 < compare_size then Some (True, w)
         else compare_loop os h1 h2 (off + read1) w)"

declare compare_loop.simps [code]

definition files_equal :: "'w os \<Rightarrow> path \<Rightarrow> path \<Rightarrow> 'w \<Rightarrow> (bool result \<times> 'w) option" where
  "files_equal os p1 p2 w =
     (let (size1, ec1) = os_file_size os p1 w; (size2, ec2) = os_file_size os p2 w in
      if ec1 \<noteq> 0 then Some (Inl (''Failed to get size of first file: '' @ os_message os ec1), w)
      else if ec2 \<noteq> 0 then Some (Inl (''Failed to get size of second file: '' @ os_message os ec2), w)
      else if size1 \<noteq> size2 then Some (Inr False, w)
      else
        let w = os_set_errno os 0 w; (f1, w) = os_open os Open_read p1 w in
        case f1 of
          None \<Rightarrow> Some (Inl (get_stream_error os failed_stream p1 ''Failed to open file for comparison'' w), w)
        | Some h1 \<Rightarrow>
            (let (f2, w) = os_open os Open_read p2 w in
             case f2 of
               None \<Rightarrow> Some (Inl (get_stream_error os failed_stream p2 ''Failed to open file for comparison'' w),
                 os_close os h1 w)
             | Some h2 \<Rightarrow>
                 map_option (\<lambda>(r, w). (Inr r, os_close os h1 (os_close os h2 w))) (compare_loop os h1 h2 0 w)))"

text \<open>\<open>hash\<close> is the \<open>std::hash\<close> of the library.\<close>

definition compute_simple_hash :: "(8 word list \<Rightarrow> nat) \<Rightarrow> 'w os \<Rightarrow> path \<Rightarrow> 'w \<Rightarrow> nat outcome \<times> 'w" where
  "compute_simple_hash hash os p w =
     (case read_binary_file os p w of
        (Returned (Inl e), w) \<Rightarrow> (Returned (Inl (''Failed to read file for hashing: '' @ e)), w)
      | (Returned (Inr content), w) \<Rightarrow> (Returned (Inr (hash content)), w)
      | (Bad_alloc, w) \<Rightarrow> (Bad_alloc, w)
      | (Exception e, w) \<Rightarrow> (Exception e, w)
      | (Unknown_exception, w) \<Rightarrow> (Unknown_exception, w))"

definition get_permissions :: "'w os \<Rightarrow> path \<Rightarrow> 'w \<Rightarrow> nat result" where
  "get_permissions os p w =
     (let (status, ec) = os_status os p w in
      if ec \<noteq> 0 then Inl (''Failed to get file permissions: '' @ os_message os ec) else Inr (fs_perms status))"

definition set_permissions :: "'w os \<Rightarrow> path \<Rightarrow> nat \<Rightarrow> 'w \<Rightarrow> unit result \<times> 'w" where
  "set_permissions os p perms w =
     (let (ec, w) = os_permissions os p perms w in
      (if ec \<noteq> 0 then Inl (''Failed to set file permissions: '' @ os_message os ec) else Inr (), w))"

text \<open>The bits \<open>owner_write\<close> and \<open>owner_read\<close> are 0200 and 0400.\<close>

definition is_writable :: "'w os \<Rightarrow> path \<Rightarrow> 'w \<Rightarrow> bool" where
  "is_writable os p w =
     (let (status, ec) = os_status os p w in if ec \<noteq> 0 then False else bit (fs_perms status) 7)"

definition is_readable :: "'w os \<Rightarrow> path \<Rightarrow> 'w \<Rightarrow> bool" where
  "is_readable os p w =
     (let (status, ec) = os_status os p w in if ec \<noteq> 0 then False else bit (fs_perms status) 8)"

definition get_last_write_time :: "'w os \<Rightarrow> path \<Rightarrow> 'w \<Rightarrow> int result" where
  "get_last_write_time os p w =
     (let (t, ec) = os_write_time os p w in
      if ec \<noteq> 0 then Inl (''Failed to get last write time: '' @ os_message os ec) else Inr t)"

definition set_last_write_time :: "'w os \<Rightarrow> path \<Rightarrow> int \<Rightarrow> 'w \<Rightarrow> unit result \<times> 'w" where
  "set_last_write_time os p t w =
     (let (ec, w) = os_set_write_time os p t w in
      (if ec \<noteq> 0 then Inl (''Failed to set last write time: '' @ os_message os ec) else Inr (), w))"

definition create_symlink :: "'w os \<Rightarrow> path \<Rightarrow> path \<Rightarrow> 'w \<Rightarrow> unit result \<times> 'w" where
  "create_symlink os target link w =
     (let (ec, w) = os_create_symlink os target link w in
      (if ec \<noteq> 0 then Inl (''Failed to create symbolic link: '' @ os_message os ec) else Inr (), w))"

definition read_symlink :: "'w os \<Rightarrow> path \<Rightarrow> 'w \<Rightarrow> path result" where
  "read_symlink os p w =
     (let (q, ec) = os_read_symlink os p w in
      if ec \<noteq> 0 then Inl (''Failed to read symbolic link: '' @ os_message os ec) else Inr q)"

end
