(* ===== verification/Glob.thy ===== *)
theory Glob
  imports File_System
begin

text \<open>
  \<open>FindFiles\<close> of src/core/standart_file_system.cpp: each glob pattern becomes the text of a regular
  expression, which \<open>std::regex\<close> reads in its ECMAScript grammar without regard to case. Of that
  grammar the theory has what the translation can produce: characters, escaped punctuation, the dot,
  a star, and bracket expressions. The characters of the grammar that are left out reach the
  expression only with a backslash (\<open>translation_plain\<close>).
\<close>

section \<open>From globs to regular expressions\<close>

definition glob_char :: "char \<Rightarrow> string" where
  "glob_char c =
     (if c = CHR ''*'' then ''.*''
      else if c = CHR ''?'' then ''.''
      else if c = CHR ''.'' then [CHR 0x5C, CHR ''.'']
      else if c = CHR 0x5C then [CHR 0x5C, CHR 0x5C]
      else if c = CHR ''['' then ''[''
      else if c = CHR '']'' then '']''
      else if c = CHR ''^'' then [CHR 0x5C, CHR ''^'']
      else if c = CHR ''$'' then [CHR 0x5C, CHR ''$'']
      else if c = CHR ''+'' then [CHR 0x5C, CHR ''+'']
      else if c = CHR ''|'' then [CHR 0x5C, CHR ''|'']
      else if c = CHR ''('' then [CHR 0x5C, CHR ''('']
      else if c = CHR '')'' then [CHR 0x5C, CHR '')'']
      else if c = CHR ''{'' then [CHR 0x5C, CHR ''{'']
      else if c = CHR ''}'' then [CHR 0x5C, CHR ''}'']
      else [c])"

definition glob_to_regex :: "string \<Rightarrow> string" where
  "glob_to_regex pattern = concat (map glob_char pattern)"

section \<open>Regular expressions\<close>

datatype atom = Any | Literal char | Class "char \<Rightarrow> bool"
datatype item = One atom | Many atom

definition to_upper :: "char \<Rightarrow> char" where
  "to_upper c = (let n = of_char c :: nat in if 97 \<le> n \<and> n \<le> 122 then char_of (n - 32) else c)"

text \<open>An element of a bracket expression is a character or a class in brackets of its own, like
  \<open>[:alpha:]\<close>, whose meaning \<open>named\<close> gives.\<close>

datatype class_atom = Class_char char | Class_named "char \<Rightarrow> bool"

fun until_close :: "char \<Rightarrow> string \<Rightarrow> (string \<times> string) option" where
  "until_close x [] = None"
| "until_close x (a # as) =
     (if a = x \<and> as \<noteq> [] \<and> hd as = CHR '']'' then Some ([], tl as)
      else map_option (\<lambda>(n, r). (a # n, r)) (until_close x as))"

definition class_atom_of :: "(char \<Rightarrow> string \<Rightarrow> (char \<Rightarrow> bool) option) \<Rightarrow> string \<Rightarrow> (class_atom \<times> string) option" where
  "class_atom_of named s =
     (case s of
        [] \<Rightarrow> None
      | c # cs \<Rightarrow>
          if c = CHR 0x5C then (case cs of [] \<Rightarrow> None | d # ds \<Rightarrow> Some (Class_char d, ds))
          else if c = CHR ''['' \<and> cs \<noteq> [] \<and> hd cs \<in> {CHR '':'', CHR ''.'', CHR ''=''} then
            (case until_close (hd cs) (tl cs) of
               None \<Rightarrow> None
             | Some (n, r) \<Rightarrow> map_option (\<lambda>p. (Class_named p, r)) (named (hd cs) n))
          else Some (Class_char c, cs))"

text \<open>What an element matches when case is ignored.\<close>

fun class_single :: "class_atom \<Rightarrow> char \<Rightarrow> bool" where
  "class_single (Class_char a) c \<longleftrightarrow> to_lower c = to_lower a"
| "class_single (Class_named p) c \<longleftrightarrow> p c"

definition class_range :: "char \<Rightarrow> char \<Rightarrow> char \<Rightarrow> bool" where
  "class_range a b c =
     (let inside = (\<lambda>x. (of_char a :: nat) \<le> of_char x \<and> (of_char x :: nat) \<le> of_char b)
      in inside (to_lower c) \<or> inside (to_upper c))"

lemma until_close_shorter: "until_close x s = Some (n, r) \<Longrightarrow> length r < length s"
proof (induction s arbitrary: n)
  case (Cons a s)
  then show ?case by (cases s) (fastforce split: if_splits)+
qed simp

lemma class_atom_shorter: "class_atom_of named s = Some (a, r) \<Longrightarrow> length r < length s"
  by (auto simp: class_atom_of_def split: list.splits if_splits option.splits dest: until_close_shorter)

text \<open>The body of a bracket expression up to its end, and what follows it; \<open>None\<close> is a \<open>regex_error\<close>.\<close>

function class_body ::
    "(char \<Rightarrow> string \<Rightarrow> (char \<Rightarrow> bool) option) \<Rightarrow> string \<Rightarrow> ((char \<Rightarrow> bool) \<times> string) option" where
  "class_body named s =
     (if s \<noteq> [] \<and> hd s = CHR '']'' then Some (\<lambda>_. False, tl s)
      else
        case class_atom_of named s of
          None \<Rightarrow> None
        | Some (a, r) \<Rightarrow>
            if 2 \<le> length r \<and> hd r = CHR ''-'' \<and> r ! 1 \<noteq> CHR '']'' then
              (case class_atom_of named (tl r) of
                 None \<Rightarrow> None
               | Some (b, r') \<Rightarrow>
                   case (a, b) of
                     (Class_char x, Class_char y) \<Rightarrow>
                       if (of_char y :: nat) < of_char x then None
                       else map_option (\<lambda>(p, t). (\<lambda>c. class_range x y c \<or> p c, t)) (class_body named r')
                   | _ \<Rightarrow> None)
            else map_option (\<lambda>(p, t). (\<lambda>c. class_single a c \<or> p c, t)) (class_body named r))"
  by pat_completeness auto
termination
  by (relation "measure (\<lambda>(named, s). length s)")
    (auto dest!: class_atom_shorter)

declare class_body.simps [simp del]

lemma class_body_shorter: "class_body named s = Some (p, r) \<Longrightarrow> length r < length s"
proof (induction "length s" arbitrary: s p r rule: less_induct)
  case less
  have IH: "class_body named y = Some (q, t) \<Longrightarrow> length s \<le> length y \<or> length t < length y" for y q t
    using less.hyps [of y q t] by linarith
  from less.prems show ?case
    by (subst (asm) class_body.simps)
      (auto split: if_splits option.splits class_atom.splits dest!: class_atom_shorter IH, linarith+)
qed

text \<open>One atom; a star is read after it. What else repeats, groups or asserts cannot occur here.\<close>

definition read_atom :: "(char \<Rightarrow> string \<Rightarrow> (char \<Rightarrow> bool) option) \<Rightarrow> string \<Rightarrow> (atom \<times> string) option" where
  "read_atom named s =
     (case s of
        [] \<Rightarrow> None
      | c # cs \<Rightarrow>
          if c = CHR 0x5C then (case cs of [] \<Rightarrow> None | d # ds \<Rightarrow> Some (Literal d, ds))
          else if c = CHR ''.'' then Some (Any, cs)
          else if c = CHR ''['' then map_option (\<lambda>(p, r). (Class p, r)) (class_body named cs)
          else if c = CHR ''*'' then None
          else Some (Literal c, cs))"

lemma read_atom_shorter: "read_atom named s = Some (a, r) \<Longrightarrow> length r < length s"
  by (fastforce simp: read_atom_def split: list.splits if_splits dest: class_body_shorter)

function parse_regex :: "(char \<Rightarrow> string \<Rightarrow> (char \<Rightarrow> bool) option) \<Rightarrow> string \<Rightarrow> item list option" where
  "parse_regex named s =
     (if s = [] then Some []
      else
        case read_atom named s of
          None \<Rightarrow> None
        | Some (a, r) \<Rightarrow>
            if r \<noteq> [] \<and> hd r = CHR ''*'' then map_option ((#) (Many a)) (parse_regex named (tl r))
            else map_option ((#) (One a)) (parse_regex named r))"
  by pat_completeness auto
termination
  by (relation "measure (\<lambda>(named, s). length s)") (auto dest!: read_atom_shorter)

declare parse_regex.simps [simp del]

text \<open>\<open>regex_match\<close>: the whole text, by backtracking. The dot matches no line break.\<close>

fun atom_matches :: "atom \<Rightarrow> char \<Rightarrow> bool" where
  "atom_matches Any c \<longleftrightarrow> c \<noteq> CHR 0x0A \<and> c \<noteq> CHR 0x0D"
| "atom_matches (Literal d) c \<longleftrightarrow> to_lower c = to_lower d"
| "atom_matches (Class p) c \<longleftrightarrow> p c"

function regex_match :: "item list \<Rightarrow> string \<Rightarrow> bool" where
  "regex_match [] s \<longleftrightarrow> s = []"
| "regex_match (One a # is) s \<longleftrightarrow> (case s of [] \<Rightarrow> False | c # cs \<Rightarrow> atom_matches a c \<and> regex_match is cs)"
| "regex_match (Many a # is) s \<longleftrightarrow>
     regex_match is s \<or> (case s of [] \<Rightarrow> False | c # cs \<Rightarrow> atom_matches a c \<and> regex_match (Many a # is) cs)"
  by pat_completeness auto
termination
  by (relation "measures [\<lambda>(is, s). length is, \<lambda>(is, s). length s]") auto

section \<open>Finding files\<close>

text \<open>The constructor of \<open>std::regex\<close> throws \<open>regex_error\<close>, which nothing catches.\<close>

fun compile_patterns :: "(char \<Rightarrow> string \<Rightarrow> (char \<Rightarrow> bool) option) \<Rightarrow> string list \<Rightarrow> item list list option" where
  "compile_patterns named [] = Some []"
| "compile_patterns named (g # gs) =
     (case parse_regex named (glob_to_regex g) of
        None \<Rightarrow> None
      | Some re \<Rightarrow> map_option ((#) re) (compile_patterns named gs))"

definition check_file :: "'w os \<Rightarrow> item list list \<Rightarrow> 'w \<Rightarrow> path \<Rightarrow> path list" where
  "check_file os res w p =
     (if \<not> is_regular_file_at os p w then []
      else if list_ex (\<lambda>re. regex_match re (path_filename p)) res then [p] else [])"

text \<open>The two loops. The check of a file leaves its error in the same variable as the iterator does,
  but the increment that follows sets it again.\<close>

function find_loop :: "(path \<Rightarrow> path list) \<Rightarrow> dir_iterator \<Rightarrow> int \<Rightarrow> path list \<Rightarrow> path list" where
  "find_loop check it ec matches =
     (if at_end it then matches
      else find_loop check (increment it) (iterator_error (increment it))
        (if ec = 0 then matches @ check (hd (fst it)) else matches))"
  by pat_completeness auto
termination
  by (relation "measure (\<lambda>(check, it, ec, matches). length (fst it))") (auto simp: at_end_def increment_def)

declare find_loop.simps [simp del]

definition find_files ::
    "'w os \<Rightarrow> (char \<Rightarrow> string \<Rightarrow> (char \<Rightarrow> bool) option) \<Rightarrow> path \<Rightarrow> string list \<Rightarrow> bool \<Rightarrow> 'w \<Rightarrow> path list outcome" where
  "find_files os named dir patterns recursive w =
     (if \<not> is_directory_at os dir w then Returned (Inl (''Path is not a directory: '' @ dir))
      else
        case compile_patterns named patterns of
          None \<Rightarrow> Exception ''regex_error''
        | Some res \<Rightarrow>
            let it = (if recursive then os_walk os False True dir w else os_entries os dir w) in
            Returned (Inr (find_loop (check_file os res w) it (iterator_error it) [])))"

section \<open>What a glob means\<close>

text \<open>The usual meaning of a pattern without brackets, letters being compared without case.\<close>

fun glob_matches :: "string \<Rightarrow> string \<Rightarrow> bool" where
  "glob_matches [] s \<longleftrightarrow> s = []"
| "glob_matches (g # gs) s \<longleftrightarrow>
     (if g = CHR ''*'' then list_ex (\<lambda>k. glob_matches gs (drop k s)) [0..<Suc (length s)]
      else s \<noteq> [] \<and> (g = CHR ''?'' \<or> to_lower g = to_lower (hd s)) \<and> glob_matches gs (tl s))"

text \<open>The items of a pattern without brackets.\<close>

definition glob_item :: "char \<Rightarrow> item" where
  "glob_item c = (if c = CHR ''*'' then Many Any else if c = CHR ''?'' then One Any else One (Literal c))"

lemma glob_to_regex_simps [simp]:
  "glob_to_regex [] = []" "glob_to_regex (c # cs) = glob_char c @ glob_to_regex cs"
  by (simp_all add: glob_to_regex_def)

lemma glob_char_start: "hd (glob_char c) \<noteq> CHR ''*''" "glob_char c \<noteq> []"
  by (simp_all add: glob_char_def)

lemma translation_start: "glob_to_regex g = [] \<or> hd (glob_to_regex g) \<noteq> CHR ''*''"
  by (cases g) (simp_all add: glob_char_start)

lemma translation_plain:
  "CHR ''['' \<notin> set g \<Longrightarrow> parse_regex named (glob_to_regex g) = Some (map glob_item g)"
proof (induction g)
  case (Cons c g)
  then have IH: "parse_regex named (glob_to_regex g) = Some (map glob_item g)" by simp
  have "c \<noteq> CHR ''[''" using Cons.prems by auto
  with IH translation_start [of g] show ?case
    by (subst parse_regex.simps) (auto simp: glob_char_def glob_item_def read_atom_def)
qed (simp add: parse_regex.simps)

lemma compile_plain:
  "list_all (\<lambda>g. CHR ''['' \<notin> set g) gs \<Longrightarrow> compile_patterns named gs = Some (map (map glob_item) gs)"
  by (induction gs) (simp_all add: translation_plain)

lemma list_ex_upt_Suc: "list_ex P [0..<Suc n] \<longleftrightarrow> P 0 \<or> list_ex (\<lambda>k. P (Suc k)) [0..<n]"
  by (auto simp: list_ex_iff upt_conv_Cons simp del: upt_Suc) (metis Suc_le_D Suc_less_eq atLeastLessThan_iff less_Suc_eq_le not_less_eq zero_less_iff_neq_zero)+

lemma many_any_matches:
  assumes "\<And>c. c \<in> set s \<Longrightarrow> c \<noteq> CHR 0x0A \<and> c \<noteq> CHR 0x0D"
  shows "regex_match (Many Any # is) s \<longleftrightarrow> list_ex (\<lambda>k. regex_match is (drop k s)) [0..<Suc (length s)]"
  using assms by (induction s) (simp_all add: list_ex_upt_Suc del: upt_Suc)

lemma regex_match_glob:
  "(\<And>c. c \<in> set s \<Longrightarrow> c \<noteq> CHR 0x0A \<and> c \<noteq> CHR 0x0D) \<Longrightarrow> regex_match (map glob_item g) s \<longleftrightarrow> glob_matches g s"
proof (induction g arbitrary: s)
  case (Cons c g)
  have sub: "regex_match (map glob_item g) (drop k s) \<longleftrightarrow> glob_matches g (drop k s)" for k
    by (rule Cons.IH) (use Cons.prems in \<open>auto dest: in_set_dropD\<close>)
  show ?case
  proof (cases "c = CHR ''*''")
    case True
    have "regex_match (Many Any # map glob_item g) s \<longleftrightarrow> glob_matches (c # g) s"
      using True by (subst many_any_matches) (use Cons.prems in \<open>auto simp: sub simp del: upt_Suc\<close>)
    moreover have "glob_item c = Many Any" using True by (simp add: glob_item_def)
    ultimately show ?thesis by (simp del: regex_match.simps glob_matches.simps)
  next
    case False
    then have "glob_item c = One (if c = CHR ''?'' then Any else Literal c)" by (simp add: glob_item_def)
    with False show ?thesis using sub [of 1] Cons.prems by (cases s) auto
  qed
qed simp

section \<open>The loops\<close>

lemma find_loop_collects:
  "find_loop check (ps, fin) (iterator_error (ps, fin)) acc = acc @ concat (map check ps)"
proof (induction ps arbitrary: acc)
  case (Cons p ps)
  then show ?case
    by (subst find_loop.simps) (simp add: at_end_def increment_def iterator_error_def)
qed (simp add: find_loop.simps at_end_def)

lemma concat_map_select: "concat (map (\<lambda>p. if P p then [p] else []) ps) = filter P ps"
  by (induction ps) auto

lemma find_files_selects:
  assumes "is_directory_at os dir w" "compile_patterns named patterns = Some res"
  shows "find_files os named dir patterns recursive w = Returned (Inr (filter (\<lambda>p. is_regular_file_at os p w \<and>
      list_ex (\<lambda>re. regex_match re (path_filename p)) res)
      (fst (if recursive then os_walk os False True dir w else os_entries os dir w))))"
proof -
  have check: "check_file os res w = (\<lambda>p. if is_regular_file_at os p w \<and>
      list_ex (\<lambda>re. regex_match re (path_filename p)) res then [p] else [])"
    by (auto simp: check_file_def fun_eq_iff)
  have "find_loop check it (iterator_error it) [] = concat (map check (fst it))" for check it
    using find_loop_collects [of check "fst it" "snd it" "[]"] by simp
  then show ?thesis
    using assms by (simp add: find_files_def check concat_map_select Let_def)
qed

text \<open>Brackets behave differently from a glob: an exclamation mark is an element like any other, so
  that \<open>[!a]\<close> matches \<open>a\<close>, and a bracket that is not closed ends the function with an exception.\<close>

lemma glob_brackets:
  "map_option (\<lambda>re. regex_match re ''a'') (parse_regex named (glob_to_regex ''[!a]'')) = Some True"
  "is_directory_at os dir w \<Longrightarrow> find_files os named dir [''a['' ] recursive w = Exception ''regex_error''"
  by (simp_all add: glob_to_regex_def glob_char_def parse_regex.simps read_atom_def class_body.simps
      class_atom_of_def to_lower_def find_files_def)

end
