(* ===== verification/File_System_Correct.thy ===== *)
theory File_System_Correct
  imports Glob Manager_Correct
begin

text \<open>
  What the functions of the file system do on every operating system that keeps the documented laws
  of files: writing, appending and reading, replacing a file, comparing two files, and listing
  directories. A file system in memory shows that the laws can hold.
\<close>

section \<open>The laws of files\<close>

text \<open>
  \<open>content p w\<close> is what the file \<open>p\<close> holds, \<open>place h w\<close> the path a handle was opened with, and
  \<open>same p q\<close> says that two paths may name one file. The laws: an opened handle has its place; a
  truncated file is empty, an appended one as it was; a write that succeeds adds its bytes at the
  end; a read that does not fail gives the bytes from its offset on; the end and the size of a file
  are its length; what works on one file leaves the others alone; a rename happens as a whole or not
  at all; and nothing else changes a file.
\<close>

definition reading_laws :: "'w os \<Rightarrow> (path \<Rightarrow> 'w \<Rightarrow> string option) \<Rightarrow> (nat \<Rightarrow> 'w \<Rightarrow> path) \<Rightarrow> bool" where
  "reading_laws os content place \<longleftrightarrow>
     (\<forall>e w q. content q (os_set_errno os e w) = content q w) \<and>
     (\<forall>e w h. place h (os_set_errno os e w) = place h w) \<and>
     (\<forall>p w f w' q. os_open os Open_read p w = (f, w') \<longrightarrow> content q w' = content q w) \<and>
     (\<forall>p w h w'. os_open os Open_read p w = (Some h, w') \<longrightarrow> place h w' = p) \<and>
     (\<forall>p w g h w'. os_open os Open_read p w = (Some g, w') \<longrightarrow> g = h \<or> place h w' = place h w) \<and>
     (\<forall>p q w h w' g w''. os_open os Open_read p w = (Some h, w') \<longrightarrow> os_open os Open_read q w' = (Some g, w'') \<longrightarrow> g \<noteq> h) \<and>
     (\<forall>h w n w' q. os_seek_end os h w = (n, w') \<longrightarrow> content q w' = content q w) \<and>
     (\<forall>h w n w' g. os_seek_end os h w = (n, w') \<longrightarrow> place g w' = place g w) \<and>
     (\<forall>h w n w' c. os_seek_end os h w = (n, w') \<longrightarrow> content (place h w) w = Some c \<longrightarrow> n \<in> {- 1, int (length c)}) \<and>
     (\<forall>h off m w got w' q. os_read os h off m w = (got, w') \<longrightarrow> content q w' = content q w) \<and>
     (\<forall>h off m w got w' g. os_read os h off m w = (got, w') \<longrightarrow> place g w' = place g w) \<and>
     (\<forall>h off m w b w' c. os_read os h off m w = ((b, False), w') \<longrightarrow> content (place h w) w = Some c \<longrightarrow> b = take m (drop off c)) \<and>
     (\<forall>p w k c. os_file_size os p w = (k, 0) \<longrightarrow> content p w = Some c \<longrightarrow> k = length c)"

definition writing_laws :: 
    "'w os \<Rightarrow> (path \<Rightarrow> 'w \<Rightarrow> string option) \<Rightarrow> (nat \<Rightarrow> 'w \<Rightarrow> path) \<Rightarrow> (path \<Rightarrow> path \<Rightarrow> bool) \<Rightarrow> bool" where
  "writing_laws os content place same \<longleftrightarrow>
     (\<forall>mode p w f w' q. os_open os mode p w = (f, w') \<longrightarrow> same p q \<or> content q w' = content q w) \<and>
     (\<forall>mode p w h w'. os_open os mode p w = (Some h, w') \<longrightarrow> place h w' = p) \<and>
     (\<forall>p w h w'. os_open os Open_truncate p w = (Some h, w') \<longrightarrow> content p w' = Some []) \<and>
     (\<forall>p w h w' c. os_open os Open_append p w = (Some h, w') \<longrightarrow> content p w = Some c \<longrightarrow> content p w' = Some c) \<and>
     (\<forall>h d w ok w' q. os_write os h d w = (ok, w') \<longrightarrow> same (place h w) q \<or> content q w' = content q w) \<and>
     (\<forall>h d w ok w' g. os_write os h d w = (ok, w') \<longrightarrow> place g w' = place g w) \<and>
     (\<forall>h d w w' c. os_write os h d w = (True, w') \<longrightarrow> content (place h w) w = Some c \<longrightarrow> content (place h w) w' = Some (c @ d)) \<and>
     (\<forall>h w ok w' q. os_flush os h w = (ok, w') \<longrightarrow> same (place h w) q \<or> content q w' = content q w) \<and>
     (\<forall>h w w'. os_flush os h w = (True, w') \<longrightarrow> content (place h w) w' = content (place h w) w) \<and>
     (\<forall>h w q. content q (os_close os h w) = content q w)"

definition tree_laws :: "'w os \<Rightarrow> (path \<Rightarrow> 'w \<Rightarrow> string option) \<Rightarrow> (path \<Rightarrow> path \<Rightarrow> bool) \<Rightarrow> bool" where
  "tree_laws os content same \<longleftrightarrow>
     (\<forall>w t w' q. os_now os w = (t, w') \<longrightarrow> content q w' = content q w) \<and>
     (\<forall>p w ec w' q. os_create_directories os p w = (ec, w') \<longrightarrow> content q w' = content q w) \<and>
     (\<forall>p w ec w' q. os_remove os p w = (ec, w') \<longrightarrow> same p q \<or> content q w' = content q w) \<and>
     (\<forall>p q w w'. os_rename os p q w = (0, w') \<longrightarrow> content q w' = content p w) \<and>
     (\<forall>p q w ec w' r. os_rename os p q w = (ec, w') \<longrightarrow> ec \<noteq> 0 \<longrightarrow> content r w' = content r w)"

definition file_laws ::
    "'w os \<Rightarrow> (path \<Rightarrow> 'w \<Rightarrow> string option) \<Rightarrow> (nat \<Rightarrow> 'w \<Rightarrow> path) \<Rightarrow> (path \<Rightarrow> path \<Rightarrow> bool) \<Rightarrow> bool" where
  "file_laws os content place same \<longleftrightarrow>
     reading_laws os content place \<and> writing_laws os content place same \<and> tree_laws os content same"

text \<open>Each law as a rule.\<close>

lemmas reading_laws_iff = reading_laws_def [THEN iffD1]
lemmas set_errno_content = reading_laws_iff [THEN conjunct1, rule_format]
lemmas set_errno_place = reading_laws_iff [THEN conjunct2, THEN conjunct1, rule_format]
lemmas open_read_content = reading_laws_iff [THEN conjunct2, THEN conjunct2, THEN conjunct1, rule_format]
lemmas open_read_place = reading_laws_iff [THEN conjunct2, THEN conjunct2, THEN conjunct2, THEN conjunct1, rule_format]
lemmas open_read_other = reading_laws_iff [THEN conjunct2, THEN conjunct2, THEN conjunct2, THEN conjunct2, THEN conjunct1, rule_format]
lemmas open_read_fresh = reading_laws_iff [THEN conjunct2, THEN conjunct2, THEN conjunct2, THEN conjunct2, THEN conjunct2, THEN conjunct1, rule_format]
lemmas seek_content = reading_laws_iff [THEN conjunct2, THEN conjunct2, THEN conjunct2, THEN conjunct2, THEN conjunct2, THEN conjunct2, THEN conjunct1, rule_format]
lemmas seek_place = reading_laws_iff [THEN conjunct2, THEN conjunct2, THEN conjunct2, THEN conjunct2, THEN conjunct2, THEN conjunct2, THEN conjunct2, THEN conjunct1, rule_format]
lemmas seek_end = reading_laws_iff [THEN conjunct2, THEN conjunct2, THEN conjunct2, THEN conjunct2, THEN conjunct2, THEN conjunct2, THEN conjunct2, THEN conjunct2, THEN conjunct1, rule_format]
lemmas read_content = reading_laws_iff [THEN conjunct2, THEN conjunct2, THEN conjunct2, THEN conjunct2, THEN conjunct2, THEN conjunct2, THEN conjunct2, THEN conjunct2, THEN conjunct2, THEN conjunct1, rule_format]
lemmas read_place = reading_laws_iff [THEN conjunct2, THEN conjunct2, THEN conjunct2, THEN conjunct2, THEN conjunct2, THEN conjunct2, THEN conjunct2, THEN conjunct2, THEN conjunct2, THEN conjunct2, THEN conjunct1, rule_format]
lemmas read_bytes = reading_laws_iff [THEN conjunct2, THEN conjunct2, THEN conjunct2, THEN conjunct2, THEN conjunct2, THEN conjunct2, THEN conjunct2, THEN conjunct2, THEN conjunct2, THEN conjunct2, THEN conjunct2, THEN conjunct1, rule_format]
lemmas size_length = reading_laws_iff [THEN conjunct2, THEN conjunct2, THEN conjunct2, THEN conjunct2, THEN conjunct2, THEN conjunct2, THEN conjunct2, THEN conjunct2, THEN conjunct2, THEN conjunct2, THEN conjunct2, THEN conjunct2, rule_format]

lemmas writing_laws_iff = writing_laws_def [THEN iffD1]
lemmas open_other = writing_laws_iff [THEN conjunct1, rule_format]
lemmas open_place = writing_laws_iff [THEN conjunct2, THEN conjunct1, rule_format]
lemmas open_truncated = writing_laws_iff [THEN conjunct2, THEN conjunct2, THEN conjunct1, rule_format]
lemmas open_appended = writing_laws_iff [THEN conjunct2, THEN conjunct2, THEN conjunct2, THEN conjunct1, rule_format]
lemmas write_other = writing_laws_iff [THEN conjunct2, THEN conjunct2, THEN conjunct2, THEN conjunct2, THEN conjunct1, rule_format]
lemmas write_place = writing_laws_iff [THEN conjunct2, THEN conjunct2, THEN conjunct2, THEN conjunct2, THEN conjunct2, THEN conjunct1, rule_format]
lemmas write_bytes = writing_laws_iff [THEN conjunct2, THEN conjunct2, THEN conjunct2, THEN conjunct2, THEN conjunct2, THEN conjunct2, THEN conjunct1, rule_format]
lemmas flush_other = writing_laws_iff [THEN conjunct2, THEN conjunct2, THEN conjunct2, THEN conjunct2, THEN conjunct2, THEN conjunct2, THEN conjunct2, THEN conjunct1, rule_format]
lemmas flush_bytes = writing_laws_iff [THEN conjunct2, THEN conjunct2, THEN conjunct2, THEN conjunct2, THEN conjunct2, THEN conjunct2, THEN conjunct2, THEN conjunct2, THEN conjunct1, rule_format]
lemmas close_content = writing_laws_iff [THEN conjunct2, THEN conjunct2, THEN conjunct2, THEN conjunct2, THEN conjunct2, THEN conjunct2, THEN conjunct2, THEN conjunct2, THEN conjunct2, rule_format]

lemmas tree_laws_iff = tree_laws_def [THEN iffD1]
lemmas now_content = tree_laws_iff [THEN conjunct1, rule_format]
lemmas create_directories_content = tree_laws_iff [THEN conjunct2, THEN conjunct1, rule_format]
lemmas remove_other = tree_laws_iff [THEN conjunct2, THEN conjunct2, THEN conjunct1, rule_format]
lemmas rename_moves = tree_laws_iff [THEN conjunct2, THEN conjunct2, THEN conjunct2, THEN conjunct1, rule_format]
lemmas rename_fails = tree_laws_iff [THEN conjunct2, THEN conjunct2, THEN conjunct2, THEN conjunct2, rule_format]

section \<open>Files written and read\<close>

lemma file_lawsD:
  assumes "file_laws os content place same"
  shows "reading_laws os content place" "writing_laws os content place same" "tree_laws os content same"
  using assms by (simp_all add: file_laws_def)

lemma put_all_keeps:
  assumes L: "writing_laws os content place same"
    and put: "put_all os h d w = (st, w')" and p: "place h w = p" and q: "\<not> same p q"
  shows "content q w' = content q w"
proof -
  obtain ok w1 where w1: "os_write os h d w = (ok, w1)" by fastforce
  have "content q w1 = content q w" "place h w1 = p"
    using write_other [OF L w1] write_place [OF L w1] p q by auto
  moreover from this have "content q w2 = content q w1" if "os_flush os h w1 = (ok2, w2)" for ok2 w2
    using flush_other [OF L that, of q] q by auto
  ultimately show ?thesis using put w1 by (auto simp: put_all_def split: if_splits prod.splits)
qed

lemma put_all_puts:
  assumes L: "writing_laws os content place same"
    and put: "put_all os h d w = (st, w')" and ok: "stream_ok st" and p: "place h w = p" "content p w = Some c"
  shows "content p w' = Some (c @ d)"
proof -
  from put ok obtain w1 where w1: "os_write os h d w = (True, w1)" "os_flush os h w1 = (True, w')"
    by (auto simp: put_all_def stream_ok_def split: if_splits prod.splits)
  then show ?thesis
    using write_bytes [OF L w1(1)] write_place [OF L w1(1)] flush_bytes [OF L w1(2)] p by auto
qed

lemma put_file_keeps:
  assumes L: "file_laws os content place same"
    and put: "put_file os mode m1 m2 p d w = (r, w')" and q: "\<not> same p q"
  shows "content q w' = content q w"
proof -
  note R = file_lawsD(1) [OF L] and W = file_lawsD(2) [OF L]
  obtain f w1 where w1: "os_open os mode p (os_set_errno os 0 w) = (f, w1)" by fastforce
  have c1: "content q w1 = content q w" using open_other [OF W w1, of q] q set_errno_content [OF R] by simp
  show ?thesis
  proof (cases f)
    case (Some h)
    obtain st w2 where w2: "put_all os h d w1 = (st, w2)" by fastforce
    have "content q w2 = content q w1"
      by (rule put_all_keeps [OF W w2 _ q]) (use open_place [OF W] w1 Some in blast)
    with put w1 w2 Some c1 show ?thesis by (auto simp: put_file_def close_content [OF W] split: if_splits)
  qed (use put w1 c1 in \<open>auto simp: put_file_def\<close>)
qed

lemma put_file_puts:
  assumes L: "file_laws os content place same"
    and put: "put_file os mode m1 m2 p d w = (Inr (), w')"
    and start: "mode = Open_truncate \<and> c = [] \<or> mode = Open_append \<and> content p w = Some c"
  shows "content p w' = Some (c @ d)"
proof -
  note R = file_lawsD(1) [OF L] and W = file_lawsD(2) [OF L]
  from put obtain h w1 st w2 where w1: "os_open os mode p (os_set_errno os 0 w) = (Some h, w1)"
    and w2: "put_all os h d w1 = (st, w2)" "stream_ok st" and w': "w' = os_close os h w2"
    by (auto simp: put_file_def split: option.splits if_splits prod.splits)
  have "content p w1 = Some c"
    using start open_truncated [OF W] open_appended [OF W] w1 by (auto simp: set_errno_content [OF R])
  from put_all_puts [OF W w2 open_place [OF W w1] this] show ?thesis by (simp add: w' close_content [OF W])
qed

lemma make_parent_keeps:
  assumes "tree_laws os content same" "make_parent os p w = (r, w')"
  shows "content q w' = content q w"
  using assms(2) create_directories_content [OF assms(1)]
  by (auto simp: make_parent_def Let_def split: if_splits prod.splits)

lemma write_text_file_keeps:
  assumes "file_laws os content place same" "write_text_file os p d w = (r, w')" "\<not> same p q"
  shows "content q w' = content q w"
  using assms(2) make_parent_keeps [OF file_lawsD(3) [OF assms(1)]] put_file_keeps [OF assms(1) _ assms(3)]
  by (auto simp: write_text_file_def split: prod.splits sum.splits)

lemma write_text_file_puts:
  assumes "file_laws os content place same" "write_text_file os p d w = (Inr (), w')"
  shows "content p w' = Some d"
proof -
  from assms(2) obtain w1 where
    "put_file os Open_truncate ''Failed to open file for writing'' ''Failed to write to file'' p d w1 = (Inr (), w')"
    by (auto simp: write_text_file_def split: prod.splits sum.splits)
  from put_file_puts [OF assms(1) this, of "[]"] show ?thesis by simp
qed

lemma append_text_file_puts:
  assumes "file_laws os content place same" "append_text_file os p d w = (Inr (), w')" "content p w = Some c"
  shows "content p w' = Some (c @ d)"
  using put_file_puts [OF assms(1) assms(2) [unfolded append_text_file_def]] assms(3) by simp

lemma read_text_file_reads:
  assumes R: "reading_laws os content place"
    and read: "read_text_file os p w = (Returned (Inr t), w')" and c: "content p w = Some c"
  shows "t = c"
proof -
  from read obtain h w1 size w2 got w3 where
    w1: "os_open os Open_read p (os_set_errno os 0 w) = (Some h, w1)"
    and w2: "os_seek_end os h w1 = (size, w2)" "size \<noteq> - 1"
    and w3: "os_read os h 0 (nat size) w2 = (got, w3)" "stream_ok (after_read (nat size) got)" "fst got = t"
    by (auto simp: read_text_file_def Let_def split: option.splits if_splits prod.splits)
  have p1: "place h w1 = p" "content p w1 = Some c"
    using open_read_place [OF R w1] open_read_content [OF R w1] c by (simp_all add: set_errno_content [OF R])
  then have p2: "place h w2 = p" "content p w2 = Some c"
    using seek_place [OF R w2(1)] seek_content [OF R w2(1)] by auto
  from seek_end [OF R w2(1)] p1 w2(2) have "size = int (length c)" by auto
  moreover from w3 have "got = (t, False)" by (cases got) (auto simp: after_read_def stream_ok_def)
  ultimately show ?thesis using read_bytes [OF R] w3(1) p2 by fastforce
qed

lemma read_binary_as_text:
  "read_binary_file os p w =
     (case read_text_file os p w of
        (Returned (Inr t), w) \<Rightarrow> (Returned (Inr (map of_char t)), w)
      | (Returned (Inl e), w) \<Rightarrow> (Returned (Inl e), w)
      | (Bad_alloc, w) \<Rightarrow> (Bad_alloc, w)
      | (Exception e, w) \<Rightarrow> (Exception e, w)
      | (Unknown_exception, w) \<Rightarrow> (Unknown_exception, w))"
  by (auto simp: read_binary_file_def read_text_file_def Let_def split: prod.splits option.splits)

section \<open>Comparing files\<close>

lemma compare_step:
  assumes R: "reading_laws os content place"
    and r1: "os_read os h1 off n w = ((b1, False), w1)" and r2: "os_read os h2 off n w1 = ((b2, False), w2)"
    and c: "content (place h1 w) w = Some c1" "content (place h2 w) w = Some c2"
  shows "b1 = take n (drop off c1) \<and> b2 = take n (drop off c2) \<and>
     content (place h1 w2) w2 = Some c1 \<and> content (place h2 w2) w2 = Some c2"
  using read_bytes [OF R r1 c(1)] read_bytes [OF R r2]  c
  by (auto simp: read_content [OF R r1] read_place [OF R r1] read_content [OF R r2] read_place [OF R r2])

lemma compare_loop_decides:
  assumes R: "reading_laws os content place" and ok: "\<And>h off n w. \<not> snd (fst (os_read os h off n w))"
    and c: "content (place h1 w) w = Some c1" "content (place h2 w) w = Some c2"
    and len: "length c1 = length c2" and same: "take off c1 = take off c2"
  shows "\<exists>w'. compare_loop os h1 h2 off w = Some (c1 = c2, w')"
  using c same
proof (induction "length c1 - off" arbitrary: off w rule: less_induct)
  case less
  obtain b1 w1 where r1: "os_read os h1 off compare_size w = ((b1, False), w1)"
    using ok [of h1 off compare_size w] by (metis prod.collapse)
  obtain b2 w2 where r2: "os_read os h2 off compare_size w1 = ((b2, False), w2)"
    using ok [of h2 off compare_size w1] by (metis prod.collapse)
  from compare_step [OF R r1 r2 less.prems(1,2)]
  have b: "b1 = take compare_size (drop off c1)" "b2 = take compare_size (drop off c2)"
    and next_c: "content (place h1 w2) w2 = Some c1" "content (place h2 w2) w2 = Some c2" by blast+
  have more: "take (off + compare_size) c1 = take (off + compare_size) c2 \<longleftrightarrow> b1 = b2"
    using less.prems(3) by (simp add: take_add b)
  show ?case
  proof (cases "b1 = b2")
    case False
    then have "c1 \<noteq> c2" by (auto simp: b)
    with False show ?thesis by (subst compare_loop.simps) (simp add: r1 r2 Let_def)
  next
    case True
    show ?thesis
    proof (cases "length b1 < compare_size")
      case short: True
      then have "c1 = c2" using True more len by (auto simp: b)
      with True short show ?thesis by (subst compare_loop.simps) (simp add: r1 r2 Let_def)
    next
      case False
      then have l: "length b1 = compare_size" "off + compare_size \<le> length c1"
        by (auto simp: b compare_size_def)
      have "\<exists>w'. compare_loop os h1 h2 (off + compare_size) w2 = Some (c1 = c2, w')"
        by (rule less.hyps) (use l next_c more True in \<open>auto simp: compare_size_def\<close>)
      with True l show ?thesis by (subst compare_loop.simps) (simp add: r1 r2 Let_def)
    qed
  qed
qed

section \<open>Listing directories\<close>

lemma directory_loop_collects:
  "directory_loop process skip message (ps, fin) (iterator_error (ps, fin)) acc =
     Returned (Inr (acc @ concat (map process ps)))"
proof (induction ps arbitrary: acc)
  case (Cons p ps)
  then show ?case
    by (subst directory_loop.simps) (simp add: at_end_def increment_def iterator_error_def)
qed (simp add: directory_loop.simps at_end_def)

text \<open>What an entry has to satisfy to be returned.\<close>

definition selected :: "iteration_options \<Rightarrow> file_details \<Rightarrow> bool" where
  "selected opts i \<longleftrightarrow>
     (case io_pattern opts of None \<Rightarrow> True | Some m \<Rightarrow> m (path_filename (fd_path i))) \<and>
     (case io_predicate opts of None \<Rightarrow> True | Some f \<Rightarrow> f i)"

definition infos :: "'w os \<Rightarrow> path list \<Rightarrow> 'w \<Rightarrow> file_details list" where
  "infos os ps w = concat (map (\<lambda>p. case get_file_info os p w of Inl _ \<Rightarrow> [] | Inr i \<Rightarrow> [i]) ps)"

lemma process_entry_selected:
  "concat (map (process_entry os opts w) ps) = filter (selected opts) (infos os ps w)"
  by (induction ps) (auto simp: process_entry_def selected_def infos_def split: sum.splits option.splits)

lemma list_directory_lists:
  "is_directory_at os dir w \<Longrightarrow>
     list_directory os dir w = Returned (Inr (infos os (fst (os_entries os dir w)) w))"
  using directory_loop_collects [of _ True _ "fst (os_entries os dir w)" "snd (os_entries os dir w)" "[]"]
  by (simp add: list_directory_def infos_def Let_def)

section \<open>The listing the manager gets\<close>

definition manager_file_type :: "node_type \<Rightarrow> file_type" where
  "manager_file_type t = (case t of Nt_regular \<Rightarrow> Regular_file | Nt_directory \<Rightarrow> Directory
     | Nt_symlink \<Rightarrow> Symlink | _ \<Rightarrow> Other_file)"

definition manager_info :: "file_details \<Rightarrow> file_info" where
  "manager_info i = \<lparr>fi_path = fd_path i, fi_type = manager_file_type (fd_type i)\<rparr>"

definition host_listing :: "'w os \<Rightarrow> 'w \<Rightarrow> path \<Rightarrow> file_info list result" where
  "host_listing os w dir =
     (case list_directory os dir w of
        Returned (Inr fs) \<Rightarrow> Inr (map manager_info fs) | Returned (Inl e) \<Rightarrow> Inl e | _ \<Rightarrow> Inl [])"

definition manifest_at :: "'w os \<Rightarrow> 'w \<Rightarrow> path \<Rightarrow> bool" where
  "manifest_at os w p \<longleftrightarrow> is_regular_file_at os p w \<and> snd (os_status os p w) = 0 \<and> get_extension_type p \<noteq> Unknown_type"

lemma manifest_files_append: "manifest_files (xs @ ys) = manifest_files xs @ manifest_files ys"
  by (simp add: manifest_files_def)

lemma manager_file_type_regular: "manager_file_type t = Regular_file \<longleftrightarrow> t = Nt_regular"
  by (cases t) (simp_all add: manager_file_type_def)

lemma info_fields:
  "get_file_info os p w = Inr i \<Longrightarrow> snd (os_status os p w) = 0 \<and> fd_path i = p \<and> fd_type i = fs_type (fst (os_status os p w))"
  "get_file_info os p w = Inl e \<Longrightarrow> snd (os_status os p w) \<noteq> 0"
  by (cases "os_status os p w"; cases "os_write_time os p w"; auto simp: get_file_info_def Let_def split: if_splits)+

lemma manifest_of_entry:
  "set (manifest_files (map manager_info (case get_file_info os p w of Inl _ \<Rightarrow> [] | Inr i \<Rightarrow> [i]))) =
     (if manifest_at os w p then {p} else {})"
proof (cases "get_file_info os p w")
  case (Inl e)
  then show ?thesis using info_fields(2) [OF Inl] by (simp add: manifest_files_def manifest_at_def)
next
  case (Inr i)
  then show ?thesis using info_fields(1) [OF Inr]
    by (simp add: manifest_files_def manifest_at_def manager_info_def manager_file_type_regular is_regular_file_at_def)
qed

lemma manifests_of_infos: "set (manifest_files (map manager_info (infos os ps w))) = {p \<in> set ps. manifest_at os w p}"
proof (induction ps)
  case (Cons p ps)
  have "infos os (p # ps) w = (case get_file_info os p w of Inl _ \<Rightarrow> [] | Inr i \<Rightarrow> [i]) @ infos os ps w"
    by (simp add: infos_def)
  with Cons manifest_of_entry [of os p w] show ?case by (auto simp: manifest_files_append split: if_splits)
qed (simp add: infos_def manifest_files_def)

lemma host_listing_manifests:
  "manifests_at (host_listing os w) dir =
     (if is_directory_at os dir w then {p \<in> set (fst (os_entries os dir w)). manifest_at os w p} else {})"
  by (simp add: manifests_at_def host_listing_def list_directory_lists manifests_of_infos)
     (simp add: list_directory_def)

section \<open>A file system in memory\<close>

text \<open>Files by path and the directories; a handle is a position in the list of paths opened so far.
  Every call succeeds where it can.\<close>

record disk =
  dk_files :: "(path \<times> string) list"
  dk_dirs :: "path list"
  dk_opened :: "path list"
  dk_errno :: int
  dk_time :: int

definition dk_put :: "path \<Rightarrow> string \<Rightarrow> disk \<Rightarrow> disk" where
  "dk_put p c d = d\<lparr>dk_files := (p, c) # dk_files d\<rparr>"

definition dk_drop :: "path \<Rightarrow> disk \<Rightarrow> disk" where
  "dk_drop p d = d\<lparr>dk_files := filter (\<lambda>(q, c). q \<noteq> p) (dk_files d)\<rparr>"

definition dk_content :: "path \<Rightarrow> disk \<Rightarrow> string option" where
  "dk_content p d = map_of (dk_files d) p"

definition dk_place :: "nat \<Rightarrow> disk \<Rightarrow> path" where
  "dk_place h d = (if h < length (dk_opened d) then dk_opened d ! h else [])"

definition dk_handle :: "path \<Rightarrow> disk \<Rightarrow> nat option \<times> disk" where
  "dk_handle p d = (Some (length (dk_opened d)), d\<lparr>dk_opened := dk_opened d @ [p]\<rparr>)"

definition dk_open :: "open_mode \<Rightarrow> path \<Rightarrow> disk \<Rightarrow> nat option \<times> disk" where
  "dk_open mode p d =
     (case mode of
        Open_read \<Rightarrow> (case dk_content p d of None \<Rightarrow> (None, d\<lparr>dk_errno := eno_entry\<rparr>) | Some _ \<Rightarrow> dk_handle p d)
      | Open_truncate \<Rightarrow> dk_handle p (dk_put p [] d)
      | Open_append \<Rightarrow> dk_handle p (case dk_content p d of None \<Rightarrow> dk_put p [] d | Some _ \<Rightarrow> d))"

definition dk_text :: "nat \<Rightarrow> disk \<Rightarrow> string" where
  "dk_text h d = (case dk_content (dk_place h d) d of None \<Rightarrow> [] | Some c \<Rightarrow> c)"

definition dk_status :: "path \<Rightarrow> disk \<Rightarrow> file_status \<times> int" where
  "dk_status p d =
     (if dk_content p d \<noteq> None then (\<lparr>fs_type = Nt_regular, fs_perms = 420\<rparr>, 0)
      else if p \<in> set (dk_dirs d) then (\<lparr>fs_type = Nt_directory, fs_perms = 493\<rparr>, 0)
      else (\<lparr>fs_type = Nt_not_found, fs_perms = 0\<rparr>, eno_entry))"

definition dk_rename :: "path \<Rightarrow> path \<Rightarrow> disk \<Rightarrow> int \<times> disk" where
  "dk_rename p q d = (case dk_content p d of
     None \<Rightarrow> (eno_entry, d) | Some c \<Rightarrow> (0, dk_put q c (if p = q then d else dk_drop p d)))"

definition memory_os :: "disk os" where
  "memory_os = \<lparr>
     os_errno = dk_errno, os_set_errno = (\<lambda>e d. d\<lparr>dk_errno := e\<rparr>),
     os_strerror = (\<lambda>e n. Inr ''error''), os_message = (\<lambda>e. ''error''),
     os_open = dk_open, os_seek_end = (\<lambda>h d. (int (length (dk_text h d)), d)),
     os_read = (\<lambda>h off n d. ((take n (drop off (dk_text h d)), False), d)),
     os_write = (\<lambda>h c d. (True, dk_put (dk_place h d) (dk_text h d @ c) d)),
     os_flush = (\<lambda>h d. (True, d)), os_close = (\<lambda>h d. d), os_max_buffer = 2 ^ 30,
     os_status = dk_status, os_symlink_status = dk_status,
     os_file_size = (\<lambda>p d. case dk_content p d of None \<Rightarrow> (0, eno_entry) | Some c \<Rightarrow> (length c, 0)),
     os_write_time = (\<lambda>p d. (0, 0)),
     os_entries = (\<lambda>p d. (filter (\<lambda>q. path_parent q = p) (map fst (dk_files d) @ dk_dirs d), 0)),
     os_walk = (\<lambda>follow skip p d. (filter (\<lambda>q. take (length p + 1) q = p @ ''/'') (map fst (dk_files d) @ dk_dirs d), 0)),
     os_create_directories = (\<lambda>p d. (0, d\<lparr>dk_dirs := p # dk_dirs d\<rparr>)),
     os_remove = (\<lambda>p d. (0, dk_drop p d)), os_remove_all = (\<lambda>p d. (0, dk_drop p d)),
     os_copy = (\<lambda>p q d. case dk_content p d of None \<Rightarrow> (eno_entry, d) | Some c \<Rightarrow> (0, dk_put q c d)),
     os_rename = dk_rename, os_canonical = (\<lambda>p d. (p, 0)), os_absolute = (\<lambda>p d. (p, 0)),
     os_relative = (\<lambda>p q d. (p, 0)), os_temp_directory = (\<lambda>d. (''/tmp'', 0)),
     os_now = (\<lambda>d. (dk_time d, d\<lparr>dk_time := dk_time d + 1\<rparr>)), os_space = (\<lambda>p d. ((0, 0, 0), 0)),
     os_permissions = (\<lambda>p n d. (0, d)), os_set_write_time = (\<lambda>p t d. (0, d)),
     os_create_symlink = (\<lambda>p q d. (0, d)), os_read_symlink = (\<lambda>p d. (p, 0))\<rparr>"

lemmas disk_defs = dk_put_def dk_drop_def dk_content_def dk_place_def dk_handle_def dk_open_def dk_text_def
  dk_status_def dk_rename_def

lemma map_of_drop [simp]: "map_of (filter (\<lambda>(q, c). q \<noteq> p) xs) r = (if r = p then None else map_of xs r)"
  by (induction xs) auto

definition sample_disk :: disk where
  "sample_disk = \<lparr>dk_files = [(''d/a.txt'', ''one''), (''d/B.TXT'', ''two''), (''d/c'', ''one''),
     (''extensions/p.pplugin'', ''{}'')], dk_dirs = [''d'', ''extensions''],
     dk_opened = [], dk_errno = 0, dk_time = 7\<rparr>"

lemma memory_reading_laws: "reading_laws memory_os dk_content dk_place"
  unfolding reading_laws_def memory_os_def
  by (auto simp: disk_defs nth_append split: option.splits if_splits)

lemma memory_writing_laws: "writing_laws memory_os dk_content dk_place (=)"
  unfolding writing_laws_def memory_os_def
  by (auto simp: disk_defs split: option.splits if_splits open_mode.splits)

lemma memory_tree_laws: "tree_laws memory_os dk_content (=)"
  unfolding tree_laws_def memory_os_def by (auto simp: disk_defs eno_entry_def split: option.splits if_splits)

lemma memory_file_laws: "file_laws memory_os dk_content dk_place (=)"
  by (simp add: file_laws_def memory_reading_laws memory_writing_laws memory_tree_laws)

lemma memory_fields:
  "os_set_errno memory_os e d = d\<lparr>dk_errno := e\<rparr>" "os_open memory_os = dk_open"
  "os_seek_end memory_os h d = (int (length (dk_text h d)), d)"
  "os_read memory_os h off n d = ((take n (drop off (dk_text h d)), False), d)"
  "os_write memory_os h c d = (True, dk_put (dk_place h d) (dk_text h d @ c) d)"
  "os_flush memory_os h d = (True, d)" "os_close memory_os h d = d" "os_max_buffer memory_os = 2 ^ 30"
  "os_create_directories memory_os p d = (0, d\<lparr>dk_dirs := p # dk_dirs d\<rparr>)"
  "os_rename memory_os = dk_rename" "os_now memory_os d = (dk_time d, d\<lparr>dk_time := dk_time d + 1\<rparr>)"
  "os_status memory_os = dk_status"
  "os_entries memory_os p d = (filter (\<lambda>q. path_parent q = p) (map fst (dk_files d) @ dk_dirs d), 0)"
  "os_write_time memory_os p d = (0, 0)"
  by (simp_all add: memory_os_def)

lemmas memory_eval = memory_fields disk_defs sample_disk_def write_text_file_def append_text_file_def
  read_text_file_def put_file_def put_all_def make_parent_def path_parent_def is_sep_def after_read_def
  stream_ok_def Let_def

section \<open>Properties\<close>

text \<open>C21: What is written is read: after a text was written to a file and another appended, both with
  success, a reading of the file that succeeds gives the first text followed by the second, as
  characters and as bytes.\<close>

theorem written_is_read:
  assumes L: "file_laws os content place same"
    and w: "write_text_file os p c w = (Inr (), w1)" "append_text_file os p d w1 = (Inr (), w2)"
  shows "(\<forall>t w'. read_text_file os p w2 = (Returned (Inr t), w') \<longrightarrow> t = c @ d) \<and>
    (\<forall>b w'. read_binary_file os p w2 = (Returned (Inr b), w') \<longrightarrow> b = map of_char (c @ d))"
proof -
  have "content p w2 = Some (c @ d)"
    by (rule append_text_file_puts [OF L w(2) write_text_file_puts [OF L w(1)]])
  note reads = read_text_file_reads [OF file_lawsD(1) [OF L] _ this]
  then show ?thesis
    by (auto simp: read_binary_as_text split: prod.splits outcome.splits sum.splits)
qed

lemma written_is_read_witness:
  "fst (read_text_file memory_os ''d/n'' (snd (append_text_file memory_os ''d/n'' ''y''
     (snd (write_text_file memory_os ''d/n'' ''x'' sample_disk))))) = Returned (Inr ''xy'')"
proof -
  let ?w1 = "snd (write_text_file memory_os ''d/n'' ''x'' sample_disk)"
  let ?w2 = "snd (append_text_file memory_os ''d/n'' ''y'' ?w1)"
  have "fst (write_text_file memory_os ''d/n'' ''x'' sample_disk) = Inr ()"
    "fst (append_text_file memory_os ''d/n'' ''y'' ?w1) = Inr ()"
    by (simp_all add: memory_eval)
  then have "write_text_file memory_os ''d/n'' ''x'' sample_disk = (Inr (), ?w1)"
    "append_text_file memory_os ''d/n'' ''y'' ?w1 = (Inr (), ?w2)" by (simp_all add: prod_eq_iff)
  from written_is_read [OF memory_file_laws this] have
    "fst (read_text_file memory_os ''d/n'' ?w2) = Returned (Inr t) \<longrightarrow> t = ''xy''" for t
    by (metis append_Cons append_Nil prod.collapse)
  moreover have "\<exists>t. fst (read_text_file memory_os ''d/n'' ?w2) = Returned (Inr t)"
    by (simp add: memory_eval)
  ultimately show ?thesis by blast
qed

text \<open>C20: \<open>WriteFileAtomic\<close> leaves the old file or the new one: when it succeeds the file holds the new
  text, and on every error path, the failed write of the temporary file, the failed rename and the
  clean-up after it, the file is what it was.\<close>

theorem atomic_write_all_or_nothing:
  assumes L: "file_laws os content place same" and other: "\<And>n. \<not> same (p @ ''.tmp'' @ show_int n) p"
    and run: "write_file_atomic os p c w = (r, w')"
  shows "content p w' = (case r of Inr _ \<Rightarrow> Some c | Inl _ \<Rightarrow> content p w)"
proof -
  note T = file_lawsD(3) [OF L]
  obtain now w1 where w1: "os_now os w = (now, w1)" by fastforce
  let ?temp = "p @ ''.tmp'' @ show_int now"
  obtain r2 w2 where w2: "write_text_file os ?temp c w1 = (r2, w2)" by fastforce
  have same2: "content p w2 = content p w"
    using write_text_file_keeps [OF L w2 other] now_content [OF T w1] by simp
  obtain ec w3 where w3: "os_rename os ?temp p w2 = (ec, w3)" by fastforce
  obtain ec' w4 where w4: "os_remove os ?temp w3 = (ec', w4)" by fastforce
  consider (unwritten) e where "r2 = Inl e" | (moved) "r2 = Inr ()" "ec = 0" | (rename) "r2 = Inr ()" "ec \<noteq> 0"
    by (cases r2) auto
  then show ?thesis
  proof cases
    case unwritten
    with run same2 show ?thesis by (auto simp: write_file_atomic_def w1 w2 [simplified] Let_def)
  next
    case moved
    then have "content p w3 = content ?temp w2" using rename_moves [OF T] w3 by simp
    also have "\<dots> = Some c" using write_text_file_puts [OF L] w2 moved by simp
    finally show ?thesis using run moved by (auto simp: write_file_atomic_def w1 w2 [simplified] w3 [simplified] Let_def)
  next
    case rename
    have "content p w4 = content p w3" using remove_other [OF T w4] other [of now] by blast
    also have "\<dots> = content p w2" by (rule rename_fails [OF T w3 rename(2)])
    finally show ?thesis using run rename same2 by (auto simp: write_file_atomic_def w1 w2 [simplified] w3 [simplified] w4 [simplified] Let_def)
  qed
qed

lemma atomic_write_all_or_nothing_witness:
  "dk_content ''d/a.txt'' (snd (write_file_atomic memory_os ''d/a.txt'' ''new'' sample_disk)) = Some ''new''"
proof -
  have "fst (write_file_atomic memory_os ''d/a.txt'' ''new'' sample_disk) = Inr ()"
    by (simp add: memory_eval write_file_atomic_def)
  then obtain w' where run: "write_file_atomic memory_os ''d/a.txt'' ''new'' sample_disk = (Inr (), w')"
    by (metis prod.collapse)
  from atomic_write_all_or_nothing [OF memory_file_laws _ run] show ?thesis by (simp add: run)
qed

text \<open>C22: On files that can be read, \<open>FilesEqual\<close> returns, and what it returns without an error is
  whether the two files hold the same bytes, whatever their length is next to that of the buffers.\<close>

theorem files_equal_exact:
  assumes R: "reading_laws os content place" and ok: "\<And>h off n w. \<not> snd (fst (os_read os h off n w))"
    and c: "content p1 w = Some c1" "content p2 w = Some c2"
  shows "\<exists>r w'. files_equal os p1 p2 w = Some (r, w') \<and> (\<forall>b. r = Inr b \<longrightarrow> b = (c1 = c2))"
proof -
  obtain n1 e1 where n1: "os_file_size os p1 w = (n1, e1)" by fastforce
  obtain n2 e2 where n2: "os_file_size os p2 w = (n2, e2)" by fastforce
  obtain f1 w1 where w1: "os_open os Open_read p1 (os_set_errno os 0 w) = (f1, w1)" by fastforce
  obtain f2 w2 where w2: "os_open os Open_read p2 w1 = (f2, w2)" by fastforce
  show ?thesis
  proof (cases "e1 = 0 \<and> e2 = 0 \<and> n1 = n2")
    case False
    then have "c1 \<noteq> c2" if "e1 = 0" "e2 = 0"
      using size_length [OF R, of p1 w n1 c1] size_length [OF R, of p2 w n2 c2] n1 n2 c that False by auto
    with False show ?thesis by (auto simp: files_equal_def n1 n2)
  next
    case sizes: True
    show ?thesis
    proof (cases "f1 = None \<or> f2 = None")
      case True
      with sizes show ?thesis by (cases f1) (auto simp: files_equal_def n1 n2 w1 w2 Let_def)
    next
      case False
      then obtain h1 h2 where f: "f1 = Some h1" "f2 = Some h2" by auto
      have len: "length c1 = length c2" using size_length [OF R] n1 n2 c sizes by fastforce
      have "h2 \<noteq> h1" using open_read_fresh [OF R] w1 w2 f by blast
      then have "place h1 w2 = p1" "place h2 w2 = p2"
        using open_read_place [OF R] open_read_other [OF R] w1 w2 f by metis+
      moreover have "content p1 w2 = Some c1" "content p2 w2 = Some c2"
        using open_read_content [OF R w1] open_read_content [OF R w2] c by (simp_all add: set_errno_content [OF R])
      ultimately obtain w' where "compare_loop os h1 h2 0 w2 = Some (c1 = c2, w')"
        using compare_loop_decides [OF R ok, of h1 w2 c1 h2 c2 0] len by auto
      with sizes show ?thesis by (auto simp: files_equal_def n1 n2 w1 w2 f Let_def)
    qed
  qed
qed

lemma files_equal_exact_witness:
  "\<exists>r w'. files_equal memory_os ''d/a.txt'' ''d/c'' sample_disk = Some (r, w') \<and> r \<noteq> Inr False"
proof -
  have "dk_content ''d/a.txt'' sample_disk = Some ''one''" "dk_content ''d/c'' sample_disk = Some ''one''"
    by (simp_all add: memory_eval)
  from files_equal_exact [OF memory_reading_laws _ this] show ?thesis by (auto simp: memory_os_def)
qed

text \<open>Without that hypothesis the function is wrong: when both reads fail and give nothing, it takes
  this for the end of the files, and two different files of one size are equal.\<close>

lemma unreadable_files_equal:
  assumes "\<And>h off n w. os_read os h off n w = (([], True), w)"
    and "os_file_size os p1 w = (n, 0)" "os_file_size os p2 w = (n, 0)"
    and "os_open os Open_read p1 (os_set_errno os 0 w) = (Some h1, w1)" "os_open os Open_read p2 w1 = (Some h2, w2)"
  shows "\<exists>w'. files_equal os p1 p2 w = Some (Inr True, w')"
  using assms by (simp add: files_equal_def compare_loop.simps compare_size_def)

text \<open>C24: \<open>IterateDirectory\<close> returns what it can learn of each path visited that its filters select, in the
  order of the visit. The error that ends a visit is lost: by then the iterator is at its end, so the
  branches for errors in the loops are never reached and what was seen so far is returned as if it
  were everything, whatever \<open>skip_permission_denied\<close> says.\<close>

theorem iterate_directory_exact:
  "iterate_directory os dir opts w =
     (if \<not> is_directory_at os dir w then Returned (Inl (''Path is not a directory: '' @ dir))
      else Returned (Inr (filter (selected opts) (infos os
        (fst (if io_recursive opts then os_walk os (io_follow_symlinks opts) False dir w else os_entries os dir w)) w))))"
proof -
  have "directory_loop (process_entry os opts w) skip message it (iterator_error it) [] =
      Returned (Inr (filter (selected opts) (infos os (fst it) w)))" for skip message it
    using directory_loop_collects [of "process_entry os opts w" skip message "fst it" "snd it" "[]"]
    by (simp add: process_entry_selected)
  then show ?thesis by (simp add: iterate_directory_def Let_def)
qed


text \<open>C23: With patterns without brackets, on names without line breaks, \<open>FindFiles\<close> returns exactly the
  regular files that were visited and whose names match one of the patterns in the usual sense,
  letters compared without case, each once and in the order of the visit.\<close>

theorem find_files_exact:
  assumes "is_directory_at os dir w" "list_all (\<lambda>g. CHR ''['' \<notin> set g) patterns"
    "list_all (\<lambda>p. CHR 0x0A \<notin> set (path_filename p) \<and> CHR 0x0D \<notin> set (path_filename p))
      (fst (if recursive then os_walk os False True dir w else os_entries os dir w))"
  shows "find_files os named dir patterns recursive w = Returned (Inr (filter (\<lambda>p. is_regular_file_at os p w \<and>
      list_ex (\<lambda>g. glob_matches g (path_filename p)) patterns)
      (fst (if recursive then os_walk os False True dir w else os_entries os dir w))))"
proof -
  let ?ps = "fst (if recursive then os_walk os False True dir w else os_entries os dir w)"
  have "regex_match (map glob_item g) (path_filename p) \<longleftrightarrow> glob_matches g (path_filename p)" if "p \<in> set ?ps" for g p
    by (rule regex_match_glob) (use that assms(3) in \<open>auto simp: list_all_iff\<close>)
  then show ?thesis
    unfolding find_files_selects [OF assms(1) compile_plain [OF assms(2)]]
    by (auto simp: list_ex_iff intro!: filter_cong)
qed

lemma find_files_exact_witness:
  "find_files memory_os (\<lambda>c n. None) ''d'' [''*.txt''] False sample_disk = Returned (Inr [''d/a.txt'', ''d/B.TXT''])"
proof -
  have dir: "is_directory_at memory_os ''d'' sample_disk"
    and entries: "fst (os_entries memory_os ''d'' sample_disk) = [''d/a.txt'', ''d/B.TXT'', ''d/c'']"
    and regular: "is_regular_file_at memory_os ''d/a.txt'' sample_disk" "is_regular_file_at memory_os ''d/B.TXT'' sample_disk"
    by (simp_all add: is_directory_at_def is_regular_file_at_def memory_eval)
  have names: "path_filename ''d/a.txt'' = ''a.txt''" "path_filename ''d/B.TXT'' = ''B.TXT''" "path_filename ''d/c'' = ''c''"
    by (simp_all add: path_filename_def is_sep_def)
  have matches: "glob_matches ''*.txt'' ''a.txt''" "glob_matches ''*.txt'' ''B.TXT''" "\<not> glob_matches ''*.txt'' ''c''"
    by code_simp+
  show ?thesis
    using find_files_exact [OF dir, of "[''*.txt'']" False "\<lambda>c n. None"]
    by (simp add: entries names matches regular del: glob_matches.simps)
qed

text \<open>The text of an error is found with a buffer that never grows past two megabytes, in at most fifteen
  calls.\<close>

lemma string_error_bounded:
  "\<exists>k \<le> 14. 80 * 2 ^ k \<le> (2 * 1024 * 1024 :: nat) \<and> get_string_error os error =
     (case os_strerror os error (80 * 2 ^ k) of Inr msg \<Rightarrow> msg
      | Inl err \<Rightarrow> ''Unknown error ('' @ show_int err @ '')'')"
proof -
  have "k \<le> 14 \<Longrightarrow> \<exists>m \<le> 14. string_error_loop os error k = (case os_strerror os error (80 * 2 ^ m) of Inr msg \<Rightarrow> msg
      | Inl err \<Rightarrow> ''Unknown error ('' @ show_int err @ '')'')" for k
  proof (induction os error k rule: string_error_loop.induct)
    case (1 os error k)
    show ?case
    proof (cases "\<exists>err. os_strerror os error (80 * 2 ^ k) = Inl err \<and> err = erange \<and> 80 * 2 ^ k < (1024 * 1024 :: nat)")
      case True
      then have "(2::nat) ^ k < 2 ^ 14" by simp
      then have "k < 14" by (simp only: power_strict_increasing_iff)
      with True 1 show ?thesis by (subst string_error_loop.simps) auto
    next
      case False
      with "1.prems" show ?thesis
        by (subst string_error_loop.simps) (auto split: sum.splits)
    qed
  qed
  from this [of 0] obtain m where m: "m \<le> 14" "get_string_error os error =
     (case os_strerror os error (80 * 2 ^ m) of Inr msg \<Rightarrow> msg | Inl err \<Rightarrow> ''Unknown error ('' @ show_int err @ '')'')"
    by (auto simp: get_string_error_def)
  from m(1) have "(2::nat) ^ m \<le> 2 ^ 14" by (rule power_increasing) simp
  with m show ?thesis by auto
qed

text \<open>C25: Discovery over this file system: whatever the manager finds is a regular file with the
  extension of a manifest that the listing of some directory held; and when the extensions directory
  itself holds such files, they are what is found and nothing below it is searched.\<close>

theorem discovery_on_file_system:
  assumes host: "ho_list ho = host_listing os w" and run: "discover_extensions ho cfg = Some exts"
  shows "(\<forall>p \<in> ex_location ` set exts. manifest_at os w p \<and>
      (\<exists>dir. is_directory_at os dir w \<and> p \<in> set (fst (os_entries os dir w)))) \<and>
    (let dir = extensions_dir (cfg_paths cfg); here = {p \<in> set (fst (os_entries os dir w)). manifest_at os w p}
     in is_directory_at os dir w \<and> here \<noteq> {} \<longrightarrow> ex_location ` set exts = here)"
proof -
  let ?ls = "host_listing os w" and ?ex = "excluded_dirs (cfg_security cfg)" and ?root = "extensions_dir (cfg_paths cfg)"
  from run host obtain files where l: "discover_loop ?ls ?ex [?root] [] = Some files"
    and e: "exts = map2 new_extension (map int [0..<length files]) files"
    by (auto simp: discover_extensions_def)
  have "map ex_location exts = files" unfolding e by (rule nth_equalityI) (simp_all add: new_extension_def)
  then have "ex_location ` set exts = set files" by (metis set_map)
  then have found: "ex_location ` set exts = (\<Union>d \<in> {d. searched ?ls ?ex ?root d}. manifests_at ?ls d)"
    using discover_loop_finds [OF l] by simp
  have "searched ?ls ?ex ?root d \<Longrightarrow> d = ?root" if "manifests_at ?ls ?root \<noteq> {}" for d
    by (induction rule: searched.induct) (use that in \<open>auto simp: manifests_at_def\<close>)
  then have "ex_location ` set exts = manifests_at ?ls ?root" if "manifests_at ?ls ?root \<noteq> {}"
    unfolding found using that by (auto intro: searched.start)
  then show ?thesis
    unfolding found by (auto simp: host_listing_manifests Let_def split: if_splits)
qed

lemma discovery_on_file_system_witness:
  "\<exists>exts. discover_extensions (sample_host\<lparr>ho_list := host_listing memory_os sample_disk\<rparr>) sample_config = Some exts \<and>
     ex_location ` set exts = {''extensions/p.pplugin''}"
proof -
  have kind: "get_extension_type ''extensions/p.pplugin'' = Plugin" by code_simp
  have dir: "is_directory_at memory_os ''extensions'' sample_disk"
    and entries: "fst (os_entries memory_os ''extensions'' sample_disk) = [''extensions/p.pplugin'']"
    and at: "manifest_at memory_os sample_disk ''extensions/p.pplugin''"
    by (simp_all add: is_directory_at_def manifest_at_def is_regular_file_at_def kind memory_eval)
  define es where "es = map manager_info (infos memory_os [''extensions/p.pplugin''] sample_disk)"
  have es: "host_listing memory_os sample_disk ''extensions'' = Inr es"
    by (simp only: host_listing_def list_directory_lists [OF dir] entries es_def outcome.case sum.case)
  have "''extensions/p.pplugin'' \<in> set (manifest_files es)"
    unfolding es_def manifests_of_infos using at by simp
  then have nonempty: "manifest_files es \<noteq> []" by auto
  have loop: "discover_loop (host_listing memory_os sample_disk) excl [''extensions''] [] = Some (manifest_files es)" for excl
    by (subst discover_loop.simps) (simp add: es nonempty discover_loop_nil)
  have root: "extensions_dir (cfg_paths sample_config) = ''extensions''"
    by (simp add: sample_config_def config_default_def paths_default_def)
  obtain exts where run: "discover_extensions (sample_host\<lparr>ho_list := host_listing memory_os sample_disk\<rparr>) sample_config = Some exts"
    by (simp add: discover_extensions_def root loop)
  have "{p \<in> set (fst (os_entries memory_os ''extensions'' sample_disk)). manifest_at memory_os sample_disk p} =
      {''extensions/p.pplugin''}"
    unfolding entries using at by auto
  moreover from this have "\<exists>p. p \<in> set (fst (os_entries memory_os ''extensions'' sample_disk)) \<and>
      manifest_at memory_os sample_disk p" by blast
  ultimately show ?thesis
    using discovery_on_file_system [OF _ run, of memory_os sample_disk] run dir by (simp add: root Let_def)
qed

end
