(* ===== verification/Assemblies.thy ===== *)
theory Assemblies
  imports Loader
begin

unbundle bit_operations_syntax

text \<open>
  Shared libraries: src/platform/unix_ops.cpp and windows_ops.cpp over the operating system's calls,
  src/core/assembly_handle.hpp and basic_assembly.hpp, which own a library, and the cache of
  src/core/basic_assembly_loader.hpp. The system's calls are parameters over a world; a handle and an
  address are words, 0 being the null pointer. An assembly is an object in a list, so that its owners
  and the weak pointers of the cache refer to it by position; the last owner letting go of it runs
  its destructor.
\<close>

section \<open>The interface of a platform\<close>

record 'p platform_ops =
  po_load :: "path \<Rightarrow> 32 word \<Rightarrow> 'p \<Rightarrow> 64 word result \<times> 'p"
  po_unload :: "64 word \<Rightarrow> 'p \<Rightarrow> unit result \<times> 'p"
  po_symbol :: "64 word \<Rightarrow> string \<Rightarrow> 'p \<Rightarrow> 64 word result \<times> 'p"
  po_library_path :: "64 word \<Rightarrow> 'p \<Rightarrow> path result \<times> 'p"
  po_runtime_paths :: bool
  po_lazy_binding :: bool
  po_add_path :: "path \<Rightarrow> 'p \<Rightarrow> unit result \<times> 'p"
  po_remove_path :: "path \<Rightarrow> 'p \<Rightarrow> unit result \<times> 'p"

text \<open>The flags are bits 0 to 4 of \<open>LoadFlag\<close>.\<close>

definition flag_no_unload :: "32 word" where "flag_no_unload = 4"

definition has_flag :: "32 word \<Rightarrow> 32 word \<Rightarrow> bool" where
  "has_flag flags f \<longleftrightarrow> flags AND f \<noteq> 0"

lemmas flag_defs = flag_lazy_binding_def flag_global_symbols_def flag_no_unload_def flag_deep_bind_def
  flag_secure_search_def has_flag_def

section \<open>Unix\<close>

text \<open>The values of glibc. \<open>dl_error\<close> gives the last error and clears it.\<close>

definition rtld_lazy :: "32 word" where "rtld_lazy = 1"
definition rtld_now :: "32 word" where "rtld_now = 2"
definition rtld_deepbind :: "32 word" where "rtld_deepbind = 8"
definition rtld_global :: "32 word" where "rtld_global = 0x100"
definition rtld_local :: "32 word" where "rtld_local = 0"
definition rtld_nodelete :: "32 word" where "rtld_nodelete = 0x1000"

lemmas rtld_defs = rtld_lazy_def rtld_now_def rtld_deepbind_def rtld_global_def rtld_local_def rtld_nodelete_def

record 'w dl =
  dl_open :: "path \<Rightarrow> 32 word \<Rightarrow> 'w \<Rightarrow> 64 word \<times> 'w"
  dl_close :: "64 word \<Rightarrow> 'w \<Rightarrow> int \<times> 'w"
  dl_sym :: "64 word \<Rightarrow> string \<Rightarrow> 'w \<Rightarrow> 64 word \<times> 'w"
  dl_error :: "'w \<Rightarrow> string option \<times> 'w"
  dl_addr :: "64 word \<Rightarrow> 'w \<Rightarrow> string option option"

definition unix_translate_flags :: "32 word \<Rightarrow> 32 word" where
  "unix_translate_flags flags =
     (let r = (if has_flag flags flag_lazy_binding then 0 OR rtld_lazy else 0 OR rtld_now);
          r = (if has_flag flags flag_global_symbols then r OR rtld_global else r OR rtld_local);
          r = (if has_flag flags flag_no_unload then r OR rtld_nodelete else r)
      in if has_flag flags flag_deep_bind then r OR rtld_deepbind else r)"

text \<open>\<open>dlerror\<close> as an argument of a message; it is not null after a failure.\<close>

definition error_text :: "'w dl \<Rightarrow> 'w \<Rightarrow> string \<times> 'w" where
  "error_text d w = (case dl_error d w of (None, w) \<Rightarrow> ([], w) | (Some e, w) \<Rightarrow> (e, w))"

definition unix_load_library :: "'w dl \<Rightarrow> path \<Rightarrow> 32 word \<Rightarrow> 'w \<Rightarrow> 64 word result \<times> 'w" where
  "unix_load_library d p flags w =
     (let (h, w) = dl_open d p (unix_translate_flags flags) w in
      if h = 0 then
        let (e, w) = error_text d w in (Inl (''Failed to load library '' @ quoted p @ '': '' @ e), w)
      else (Inr h, w))"

definition unix_unload_library :: "'w dl \<Rightarrow> 64 word \<Rightarrow> 'w \<Rightarrow> unit result \<times> 'w" where
  "unix_unload_library d h w =
     (let (r, w) = dl_close d h w in
      if r \<noteq> 0 then let (e, w) = error_text d w in (Inl (''Failed to unload library: '' @ e), w)
      else (Inr (), w))"

definition unix_get_symbol :: "'w dl \<Rightarrow> 64 word \<Rightarrow> string \<Rightarrow> 'w \<Rightarrow> 64 word result \<times> 'w" where
  "unix_get_symbol d h name w =
     (let (_, w) = dl_error d w; (s, w) = dl_sym d h name w; (e, w) = dl_error d w
      in case e of Some e \<Rightarrow> (Inl (''Symbol '' @ quoted name @ '' not found: '' @ e), w) | None \<Rightarrow> (Inr s, w))"

definition unix_get_library_path :: "'w dl \<Rightarrow> 64 word \<Rightarrow> 'w \<Rightarrow> path result \<times> 'w" where
  "unix_get_library_path d h w =
     (case dl_addr d h w of Some (Some p) \<Rightarrow> (Inr p, w) | _ \<Rightarrow> (Inl ''Failed to get library path'', w))"

text \<open>The search paths are those of the interface, which support nothing.\<close>

definition default_add_search_path :: "path \<Rightarrow> 'p \<Rightarrow> unit result \<times> 'p" where
  "default_add_search_path p s = (Inl ''Runtime path modification not supported on this platform!'', s)"

definition default_remove_search_path :: "path \<Rightarrow> 'p \<Rightarrow> unit result \<times> 'p" where
  "default_remove_search_path p s = (Inl ''Runtime path modification not supported on this platform?'', s)"

definition unix_ops :: "'w dl \<Rightarrow> 'w platform_ops" where
  "unix_ops d = \<lparr>po_load = unix_load_library d, po_unload = unix_unload_library d, po_symbol = unix_get_symbol d,
     po_library_path = unix_get_library_path d, po_runtime_paths = False, po_lazy_binding = True,
     po_add_path = default_add_search_path, po_remove_path = default_remove_search_path\<rparr>"

section \<open>Windows\<close>

text \<open>\<open>wn_module_name\<close> gets the size of the buffer and returns how much of it holds the name, at most
  the whole of it, and what is then in the buffer.\<close>

record 'w win =
  wn_load :: "path \<Rightarrow> 32 word \<Rightarrow> 'w \<Rightarrow> 64 word \<times> 'w"
  wn_pin :: "64 word \<Rightarrow> 'w \<Rightarrow> 'w"
  wn_free :: "64 word \<Rightarrow> 'w \<Rightarrow> bool \<times> 'w"
  wn_proc :: "64 word \<Rightarrow> string \<Rightarrow> 'w \<Rightarrow> 64 word \<times> 'w"
  wn_module_name :: "64 word \<Rightarrow> nat \<Rightarrow> 'w \<Rightarrow> nat \<times> string"
  wn_add_directory :: "path \<Rightarrow> 'w \<Rightarrow> 64 word \<times> 'w"
  wn_remove_directory :: "64 word \<Rightarrow> 'w \<Rightarrow> bool \<times> 'w"
  wn_last_error :: "'w \<Rightarrow> nat"
  wn_format_message :: "nat \<Rightarrow> string"

record 'w windows_state =
  ws_cookies :: "string list \<rightharpoonup> 64 word"
  ws_system :: 'w

text \<open>The map has paths as keys; equal paths have the same elements.\<close>

definition windows_translate_flags :: "32 word \<Rightarrow> 32 word" where
  "windows_translate_flags flags =
     (if has_flag flags flag_secure_search then 0 OR (0x800 OR 0x400 OR 0x100) else 0)"

definition last_error_string :: "'w win \<Rightarrow> 'w \<Rightarrow> string" where
  "last_error_string n w =
     (let err = wn_last_error n w in
      if err = 0 then ''Unknown error''
      else let message = wn_format_message n err in
        if message = [] then ''Unknown error ('' @ show_nat err @ '')'' else message)"

definition windows_load_library :: "'w win \<Rightarrow> path \<Rightarrow> 32 word \<Rightarrow> 'w windows_state \<Rightarrow> 64 word result \<times> 'w windows_state" where
  "windows_load_library n p flags s =
     (let (h, w) = wn_load n p (windows_translate_flags flags) (ws_system s) in
      if h = 0 then (Inl (''Failed to load library '' @ quoted p @ '': '' @ last_error_string n w), s\<lparr>ws_system := w\<rparr>)
      else
        let w = (if has_flag flags flag_no_unload then wn_pin n h w else w)
        in (Inr h, s\<lparr>ws_system := w\<rparr>))"

definition windows_unload_library :: "'w win \<Rightarrow> 64 word \<Rightarrow> 'w windows_state \<Rightarrow> unit result \<times> 'w windows_state" where
  "windows_unload_library n h s =
     (let (ok, w) = wn_free n h (ws_system s) in
      (if \<not> ok then Inl (''Failed to unload library: '' @ last_error_string n w) else Inr (), s\<lparr>ws_system := w\<rparr>))"

definition windows_get_symbol :: "'w win \<Rightarrow> 64 word \<Rightarrow> string \<Rightarrow> 'w windows_state \<Rightarrow> 64 word result \<times> 'w windows_state" where
  "windows_get_symbol n h name s =
     (let (a, w) = wn_proc n h name (ws_system s) in
      (if a = 0 then Inl (''Symbol '' @ quoted name @ '' not found: '' @ last_error_string n w) else Inr a,
       s\<lparr>ws_system := w\<rparr>))"

definition max_path :: nat where "max_path = 260"

definition windows_get_library_path :: "'w win \<Rightarrow> 64 word \<Rightarrow> 'w windows_state \<Rightarrow> path result \<times> 'w windows_state" where
  "windows_get_library_path n h s =
     (let (size, buffer) = wn_module_name n h max_path (ws_system s) in
      (if size = 0 then Inl (''Failed to get module path: '' @ last_error_string n (ws_system s))
       else Inr (take size buffer), s))"

definition windows_add_search_path :: "'w win \<Rightarrow> path \<Rightarrow> 'w windows_state \<Rightarrow> unit result \<times> 'w windows_state" where
  "windows_add_search_path n p s =
     (let (cookie, w) = wn_add_directory n p (ws_system s) in
      if cookie = 0 then
        (Inl (''Failed to add search path '' @ quoted p @ '': '' @ last_error_string n w), s\<lparr>ws_system := w\<rparr>)
      else (Inr (), s\<lparr>ws_system := w, ws_cookies := (ws_cookies s)(path_elements p \<mapsto> cookie)\<rparr>))"

definition windows_remove_search_path :: "'w win \<Rightarrow> path \<Rightarrow> 'w windows_state \<Rightarrow> unit result \<times> 'w windows_state" where
  "windows_remove_search_path n p s =
     (case ws_cookies s (path_elements p) of
        None \<Rightarrow> (Inl (''Failed to find search path '' @ quoted p), s)
      | Some cookie \<Rightarrow>
          (let (ok, w) = wn_remove_directory n cookie (ws_system s) in
           if \<not> ok then
             (Inl (''Failed to remove search path '' @ quoted p @ '': '' @ last_error_string n w), s\<lparr>ws_system := w\<rparr>)
           else (Inr (), s\<lparr>ws_system := w, ws_cookies := (ws_cookies s)(path_elements p := None)\<rparr>)))"

definition windows_ops :: "'w win \<Rightarrow> 'w windows_state platform_ops" where
  "windows_ops n = \<lparr>po_load = windows_load_library n, po_unload = windows_unload_library n,
     po_symbol = windows_get_symbol n, po_library_path = windows_get_library_path n,
     po_runtime_paths = True, po_lazy_binding = False,
     po_add_path = windows_add_search_path n, po_remove_path = windows_remove_search_path n\<rparr>"

text \<open>The destructor, over the cookies in the order of the map.\<close>

fun windows_destroy :: "'w win \<Rightarrow> 64 word list \<Rightarrow> 'w \<Rightarrow> 'w" where
  "windows_destroy n [] w = w"
| "windows_destroy n (c # cs) w = windows_destroy n cs (snd (wn_remove_directory n c w))"

section \<open>Handles and assemblies\<close>

record assembly_handle =
  ah_handle :: "64 word"
  ah_has_ops :: bool
  ah_path :: path

definition empty_handle :: assembly_handle where
  "empty_handle = \<lparr>ah_handle = 0, ah_has_ops = False, ah_path = []\<rparr>"

definition make_handle :: "64 word \<Rightarrow> path \<Rightarrow> assembly_handle" where
  "make_handle h p = \<lparr>ah_handle = h, ah_has_ops = True, ah_path = p\<rparr>"

definition destroy_handle :: "'p platform_ops \<Rightarrow> assembly_handle \<Rightarrow> 'p \<Rightarrow> 'p" where
  "destroy_handle ops a s = (if ah_handle a \<noteq> 0 \<and> ah_has_ops a then snd (po_unload ops (ah_handle a) s) else s)"

text \<open>The moves give the new object and what is left of the old one; a moved path is empty.\<close>

definition move_handle :: "assembly_handle \<Rightarrow> assembly_handle \<times> assembly_handle" where
  "move_handle a = (a, \<lparr>ah_handle = 0, ah_has_ops = False, ah_path = []\<rparr>)"

definition move_assign_handle :: "assembly_handle \<Rightarrow> assembly_handle \<Rightarrow> assembly_handle \<times> assembly_handle" where
  "move_assign_handle this a =
     (\<lparr>ah_handle = ah_handle a, ah_has_ops = ah_has_ops a, ah_path = ah_path a\<rparr>,
      \<lparr>ah_handle = 0, ah_has_ops = False, ah_path = []\<rparr>)"

definition handle_valid :: "assembly_handle \<Rightarrow> bool" where
  "handle_valid a \<longleftrightarrow> ah_handle a \<noteq> 0"

definition handle_symbol :: "'p platform_ops \<Rightarrow> assembly_handle \<Rightarrow> string \<Rightarrow> 'p \<Rightarrow> 64 word result \<times> 'p" where
  "handle_symbol ops a name s = po_symbol ops (ah_handle a) name s"

text \<open>\<open>BasicAssembly\<close> has a pointer to its handle.\<close>

type_synonym basic_assembly = "assembly_handle option"

definition assembly_symbol :: "'p platform_ops \<Rightarrow> basic_assembly \<Rightarrow> string \<Rightarrow> 'p \<Rightarrow> 64 word result \<times> 'p" where
  "assembly_symbol ops a name s = (case a of Some h \<Rightarrow> handle_symbol ops h name s | None \<Rightarrow> (Inr 0, s))"

definition assembly_valid :: "basic_assembly \<Rightarrow> bool" where
  "assembly_valid a = (case a of Some h \<Rightarrow> handle_valid h | None \<Rightarrow> False)"

definition assembly_path :: "basic_assembly \<Rightarrow> path" where
  "assembly_path a = (case a of Some h \<Rightarrow> ah_path h | None \<Rightarrow> [])"

definition assembly_base :: "basic_assembly \<Rightarrow> 64 word" where
  "assembly_base a = (case a of Some h \<Rightarrow> ah_handle h | None \<Rightarrow> 0)"

section \<open>The loader\<close>

record assembly_object =
  ao_assembly :: basic_assembly
  ao_owned :: bool

record 'p assembly_loader =
  al_cache :: "string list \<rightharpoonup> nat"
  al_objects :: "assembly_object list"
  al_platform :: 'p

definition new_assembly_loader :: "'p \<Rightarrow> 'p assembly_loader" where
  "new_assembly_loader s = \<lparr>al_cache = Map.empty, al_objects = [], al_platform = s\<rparr>"

text \<open>What the loader asks of the file system.\<close>

record file_queries =
  fq_exists :: "path \<Rightarrow> bool"
  fq_absolute :: "path \<Rightarrow> path result"

definition resolve_path :: "file_queries \<Rightarrow> path \<Rightarrow> path result" where
  "resolve_path fq p =
     (if path_is_absolute p then (if fq_exists fq p then Inr p else Inl (''File not found: '' @ p))
      else fq_absolute fq p)"

fun add_search_paths :: "'p platform_ops \<Rightarrow> path list \<Rightarrow> 'p \<Rightarrow> unit result \<times> 'p" where
  "add_search_paths ops [] s = (Inr (), s)"
| "add_search_paths ops (p # ps) s = (case po_add_path ops p s of
     (Inl e, s) \<Rightarrow> (Inl e, s) | (Inr _, s) \<Rightarrow> add_search_paths ops ps s)"

fun remove_search_paths :: "'p platform_ops \<Rightarrow> path list \<Rightarrow> 'p \<Rightarrow> 'p" where
  "remove_search_paths ops [] s = s"
| "remove_search_paths ops (p # ps) s = remove_search_paths ops ps (snd (po_remove_path ops p s))"

definition lock_weak :: "'p assembly_loader \<Rightarrow> nat option \<Rightarrow> nat option" where
  "lock_weak l i = (case i of
     Some i \<Rightarrow> if i < length (al_objects l) \<and> ao_owned (al_objects l ! i) then Some i else None | None \<Rightarrow> None)"

text \<open>\<open>emplace\<close> of a map keeps the entry that is there.\<close>

definition emplace :: "'k \<Rightarrow> 'v \<Rightarrow> ('k \<rightharpoonup> 'v) \<Rightarrow> 'k \<rightharpoonup> 'v" where
  "emplace k v m = (case m k of Some _ \<Rightarrow> m | None \<Rightarrow> m(k \<mapsto> v))"

text \<open>The library and the new assembly, between the search paths being added and removed.\<close>

definition open_assembly :: "'p platform_ops \<Rightarrow> path \<Rightarrow> 32 word \<Rightarrow> 'p assembly_loader \<Rightarrow> nat result \<times> 'p assembly_loader" where
  "open_assembly ops q flags l = (case po_load ops q flags (al_platform l) of
     (Inl e, s) \<Rightarrow> (Inl e, l\<lparr>al_platform := s\<rparr>)
   | (Inr h, s) \<Rightarrow>
       let i = length (al_objects l) in
       (Inr i, l\<lparr>al_platform := s,
          al_objects := al_objects l @ [\<lparr>ao_assembly = Some (make_handle h q), ao_owned = True\<rparr>],
          al_cache := emplace (path_elements q) i (al_cache l)\<rparr>))"

definition load_assembly ::
    "'p platform_ops \<Rightarrow> file_queries \<Rightarrow> path \<Rightarrow> 32 word \<Rightarrow> path list \<Rightarrow> 'p assembly_loader \<Rightarrow> nat result \<times> 'p assembly_loader" where
  "load_assembly ops fq p flags search l =
     (case resolve_path fq p of
        Inl e \<Rightarrow> (Inl e, l)
      | Inr q \<Rightarrow>
          case lock_weak l (al_cache l (path_elements q)) of
            Some i \<Rightarrow> (Inr i, l)
          | None \<Rightarrow>
              let runtime_paths = po_runtime_paths ops \<and> search \<noteq> [];
                  (added, s) = (if runtime_paths then add_search_paths ops search (al_platform l) else (Inr (), al_platform l));
                  l = l\<lparr>al_platform := s\<rparr>;
                  (r, l) = (case added of Inl e \<Rightarrow> (Inl e, l) | Inr _ \<Rightarrow> open_assembly ops q flags l)
              in (r, if runtime_paths then l\<lparr>al_platform := remove_search_paths ops search (al_platform l)\<rparr> else l))"

definition unload_assembly :: "nat option \<Rightarrow> 'p assembly_loader \<Rightarrow> unit result \<times> 'p assembly_loader" where
  "unload_assembly a l = (case a of
     None \<Rightarrow> (Inl ''Cannot unload null assembly'', l)
   | Some i \<Rightarrow> (Inr (), l\<lparr>al_cache := (al_cache l)(path_elements (assembly_path (ao_assembly (al_objects l ! i))) := None)\<rparr>))"

text \<open>The last owner of an assembly lets go of it: its handle is destroyed.\<close>

definition release_assembly :: "'p platform_ops \<Rightarrow> nat \<Rightarrow> 'p assembly_loader \<Rightarrow> 'p assembly_loader" where
  "release_assembly ops i l =
     (if i < length (al_objects l) \<and> ao_owned (al_objects l ! i) then
        l\<lparr>al_objects := (al_objects l)[i := (al_objects l ! i)\<lparr>ao_owned := False\<rparr>],
          al_platform := (case ao_assembly (al_objects l ! i) of
            None \<Rightarrow> al_platform l | Some a \<Rightarrow> destroy_handle ops a (al_platform l))\<rparr>
      else l)"

text \<open>What the program does with a loader, call by call.\<close>

datatype loader_call = Load_call path "32 word" "path list" | Unload_call "nat option" | Release_call nat

fun loader_step :: "'p platform_ops \<Rightarrow> file_queries \<Rightarrow> loader_call \<Rightarrow> 'p assembly_loader \<Rightarrow> 'p assembly_loader" where
  "loader_step ops fq (Load_call p flags search) l = snd (load_assembly ops fq p flags search l)"
| "loader_step ops fq (Unload_call a) l = snd (unload_assembly a l)"
| "loader_step ops fq (Release_call i) l = release_assembly ops i l"

definition loader_run :: "'p platform_ops \<Rightarrow> file_queries \<Rightarrow> loader_call list \<Rightarrow> 'p assembly_loader \<Rightarrow> 'p assembly_loader" where
  "loader_run ops fq calls l = fold (loader_step ops fq) calls l"

end
