(* ===== verification/Assemblies_Correct.thy ===== *)
theory Assemblies_Correct
  imports Assemblies "HOL-Library.Multiset"
begin

text \<open>
  The assemblies of every run of a loader: each library that was loaded is unloaded exactly once, when
  the last owner of its assembly lets go; which loads the cache answers; what a load does to the
  search paths. The locale \<open>platform\<close> is what the loader needs of a platform; both platforms have it.
\<close>

section \<open>Counting libraries\<close>

text \<open>A platform that records which libraries are loaded and unloaded.\<close>

datatype library_event = Library_loaded "64 word" | Library_unloaded "64 word"

definition recording :: "'p platform_ops \<Rightarrow> ('p \<times> library_event list) platform_ops" where
  "recording ops = \<lparr>
     po_load = (\<lambda>p f (s, es). case po_load ops p f s of
       (Inl e, s) \<Rightarrow> (Inl e, (s, es)) | (Inr h, s) \<Rightarrow> (Inr h, (s, es @ [Library_loaded h]))),
     po_unload = (\<lambda>h (s, es). case po_unload ops h s of (r, s) \<Rightarrow> (r, (s, es @ [Library_unloaded h]))),
     po_symbol = (\<lambda>h n (s, es). case po_symbol ops h n s of (r, s) \<Rightarrow> (r, (s, es))),
     po_library_path = (\<lambda>h (s, es). case po_library_path ops h s of (r, s) \<Rightarrow> (r, (s, es))),
     po_runtime_paths = po_runtime_paths ops, po_lazy_binding = po_lazy_binding ops,
     po_add_path = (\<lambda>p (s, es). case po_add_path ops p s of (r, s) \<Rightarrow> (r, (s, es))),
     po_remove_path = (\<lambda>p (s, es). case po_remove_path ops p s of (r, s) \<Rightarrow> (r, (s, es)))\<rparr>"

definition loaded_libraries :: "library_event list \<Rightarrow> 64 word multiset" where
  "loaded_libraries es = mset (concat (map (\<lambda>e. case e of Library_loaded h \<Rightarrow> [h] | _ \<Rightarrow> []) es))"

definition unloaded_libraries :: "library_event list \<Rightarrow> 64 word multiset" where
  "unloaded_libraries es = mset (concat (map (\<lambda>e. case e of Library_unloaded h \<Rightarrow> [h] | _ \<Rightarrow> []) es))"

lemma library_counts [simp]:
  "loaded_libraries [] = {#}" "unloaded_libraries [] = {#}"
  "loaded_libraries (es @ [Library_loaded h]) = add_mset h (loaded_libraries es)"
  "loaded_libraries (es @ [Library_unloaded h]) = loaded_libraries es"
  "unloaded_libraries (es @ [Library_loaded h]) = unloaded_libraries es"
  "unloaded_libraries (es @ [Library_unloaded h]) = add_mset h (unloaded_libraries es)"
  by (simp_all add: loaded_libraries_def unloaded_libraries_def)

text \<open>The libraries of the assemblies that have an owner.\<close>

definition open_libraries :: "assembly_object list \<Rightarrow> 64 word multiset" where
  "open_libraries os = mset (map (\<lambda>a. assembly_base (ao_assembly a)) (filter ao_owned os))"

definition owning :: "assembly_object \<Rightarrow> bool" where
  "owning a = (case ao_assembly a of Some h \<Rightarrow> ah_handle h \<noteq> 0 \<and> ah_has_ops h | None \<Rightarrow> False)"

definition balanced :: "('p \<times> library_event list) assembly_loader \<Rightarrow> bool" where
  "balanced l \<longleftrightarrow> list_all owning (al_objects l) \<and>
     loaded_libraries (snd (al_platform l)) =
       unloaded_libraries (snd (al_platform l)) + open_libraries (al_objects l)"

lemma balanced_new: "balanced (new_assembly_loader (t, []))"
  by (simp add: balanced_def new_assembly_loader_def open_libraries_def)

lemma open_libraries_snoc:
  "open_libraries (os @ [\<lparr>ao_assembly = Some (make_handle h q), ao_owned = True\<rparr>]) = add_mset h (open_libraries os)"
  by (simp add: open_libraries_def assembly_base_def make_handle_def)

lemma owning_new: "h \<noteq> 0 \<Longrightarrow> owning \<lparr>ao_assembly = Some (make_handle h q), ao_owned = b\<rparr>"
  by (simp add: owning_def make_handle_def)

lemma open_libraries_release:
  assumes "i < length os" "ao_owned (os ! i)"
  shows "add_mset (assembly_base (ao_assembly (os ! i))) (open_libraries (os[i := (os ! i)\<lparr>ao_owned := False\<rparr>])) = open_libraries os"
  using assms by (subst (2) id_take_nth_drop [OF assms(1)])
    (simp add: open_libraries_def upd_conv_take_nth_drop)

lemma recording_paths:
  "snd (snd (add_search_paths (recording ops) ps s)) = snd s" "snd (remove_search_paths (recording ops) ps s) = snd s"
proof -
  show "snd (snd (add_search_paths (recording ops) ps s)) = snd s"
  proof (induction ps arbitrary: s)
    case (Cons p ps)
    obtain t es where s: "s = (t, es)" by fastforce
    obtain r t' where "po_add_path ops p t = (r, t')" by fastforce
    then show ?case using Cons [of "(t', es)"] by (cases r) (simp_all add: s recording_def)
  qed simp
  show "snd (remove_search_paths (recording ops) ps s) = snd s"
  proof (induction ps arbitrary: s)
    case (Cons p ps)
    obtain t es where s: "s = (t, es)" by fastforce
    obtain r t' where "po_remove_path ops p t = (r, t')" by fastforce
    then show ?case using Cons [of "(t', es)"] by (simp add: s recording_def)
  qed simp
qed

locale platform =
  fixes ops :: "'p platform_ops"
  assumes loaded_not_null: "po_load ops p f s = (Inr h, s') \<Longrightarrow> h \<noteq> 0"
begin

lemma open_assembly_balanced:
  assumes "balanced l" "open_assembly (recording ops) q flags l = (r, l')"
  shows "balanced l'"
proof -
  obtain s es where l: "al_platform l = (s, es)" by fastforce
  obtain r1 s1 where "po_load ops q flags s = (r1, s1)" by fastforce
  with assms loaded_not_null [of q flags s] show ?thesis
    by (cases r1) (auto simp: open_assembly_def recording_def l balanced_def open_libraries_snoc owning_new Let_def)
qed

lemma load_assembly_balanced:
  assumes b: "balanced l"
  shows "balanced (snd (load_assembly (recording ops) fq p flags search l))"
proof (cases "resolve_path fq p")
  case (Inr q)
  show ?thesis
  proof (cases "lock_weak l (al_cache l (path_elements q))")
    case None
    define rt where "rt = (po_runtime_paths (recording ops) \<and> search \<noteq> [])"
    obtain added s where added: "(if rt then add_search_paths (recording ops) search (al_platform l)
        else (Inr (), al_platform l)) = (added, s)" by (meson surj_pair)
    then have "snd s = snd (al_platform l)"
      using recording_paths(1) [of ops search "al_platform l"] by (auto split: if_splits)
    then have b1: "balanced (l\<lparr>al_platform := s\<rparr>)" using b by (simp add: balanced_def)
    obtain r l2 where l2: "(case added of Inl e \<Rightarrow> (Inl e, l\<lparr>al_platform := s\<rparr>)
        | Inr _ \<Rightarrow> open_assembly (recording ops) q flags (l\<lparr>al_platform := s\<rparr>)) = (r, l2)" by (meson surj_pair)
    then have "balanced l2" using b1 open_assembly_balanced by (auto split: sum.splits)
    then have "balanced (if rt then l2\<lparr>al_platform := remove_search_paths (recording ops) search (al_platform l2)\<rparr> else l2)"
      by (simp add: balanced_def recording_paths(2))
    with Inr None added l2 show ?thesis by (simp add: load_assembly_def Let_def flip: rt_def)
  qed (simp add: load_assembly_def Inr b)
qed (simp add: load_assembly_def b)

lemma release_balanced: "balanced l \<Longrightarrow> balanced (release_assembly (recording ops) i l)"
proof (cases "i < length (al_objects l) \<and> ao_owned (al_objects l ! i)")
  case True
  assume b: "balanced l"
  obtain s es where l: "al_platform l = (s, es)" by fastforce
  from b True have "owning (al_objects l ! i)" by (auto simp: balanced_def list_all_length)
  then obtain a where a: "ao_assembly (al_objects l ! i) = Some a" "ah_handle a \<noteq> 0" "ah_has_ops a"
    by (auto simp: owning_def split: option.splits)
  obtain r s1 where u: "po_unload ops (ah_handle a) s = (r, s1)" by fastforce
  have own: "list_all owning ((al_objects l)[i := (al_objects l ! i)\<lparr>ao_owned := False\<rparr>])"
    using b True by (auto simp: balanced_def list_all_length nth_list_update owning_def)
  have "open_libraries (al_objects l) =
      add_mset (ah_handle a) (open_libraries ((al_objects l)[i := (al_objects l ! i)\<lparr>ao_owned := False\<rparr>]))"
    using open_libraries_release [of i "al_objects l"] True a(1) by (simp add: assembly_base_def)
  then show ?thesis
    using b own True by (simp add: release_assembly_def a destroy_handle_def recording_def l u balanced_def)
qed (auto simp: release_assembly_def)

lemma run_balanced: "balanced l \<Longrightarrow> balanced (loader_run (recording ops) fq calls l)"
proof (induction calls arbitrary: l)
  case (Cons c cs)
  have "balanced (loader_step (recording ops) fq c l)"
  proof (cases c)
    case (Unload_call a)
    then show ?thesis using Cons.prems by (cases a) (simp_all add: unload_assembly_def balanced_def)
  qed (use Cons.prems in \<open>simp_all add: load_assembly_balanced release_balanced\<close>)
  then show ?case using Cons.IH by (simp add: loader_run_def)
qed (simp add: loader_run_def)

end

interpretation unix: platform "unix_ops d" for d
  by unfold_locales (auto simp: unix_ops_def unix_load_library_def Let_def split: prod.splits if_splits)

interpretation windows: platform "windows_ops n" for n
  by unfold_locales (auto simp: windows_ops_def windows_load_library_def Let_def split: prod.splits if_splits)


section \<open>The cache\<close>




section \<open>Search paths on Windows\<close>

lemma added_cookies:
  "add_search_paths (windows_ops n) ps s = (r, s') \<Longrightarrow> k \<notin> path_elements ` set ps \<Longrightarrow> ws_cookies s' k = ws_cookies s k"
proof (induction ps arbitrary: s)
  case (Cons p ps)
  obtain c w where w: "wn_add_directory n p (ws_system s) = (c, w)" by fastforce
  show ?case
  proof (cases "c = 0")
    case False
    with Cons w show ?thesis
      using Cons.IH [of "s\<lparr>ws_system := w, ws_cookies := (ws_cookies s)(path_elements p \<mapsto> c)\<rparr>"]
      by (auto simp: windows_ops_def windows_add_search_path_def)
  qed (use Cons w in \<open>auto simp: windows_ops_def windows_add_search_path_def\<close>)
qed simp

lemma removed_cookies:
  assumes ok: "\<And>c w. fst (wn_remove_directory n c w)"
  shows "ws_cookies (remove_search_paths (windows_ops n) ps s) =
     (\<lambda>k. if k \<in> path_elements ` set ps then None else ws_cookies s k)"
proof (induction ps arbitrary: s)
  case (Cons p ps)
  have "ws_cookies (snd (windows_remove_search_path n p s)) = (ws_cookies s)(path_elements p := None)"
  proof (cases "ws_cookies s (path_elements p)")
    case (Some c)
    obtain b w where "wn_remove_directory n c (ws_system s) = (b, w)" by fastforce
    with Some ok [of c "ws_system s"] show ?thesis by (simp add: windows_remove_search_path_def)
  qed (auto simp: windows_remove_search_path_def)
  then show ?case by (auto simp: windows_ops_def Cons [unfolded windows_ops_def] fun_eq_iff)
qed simp

lemma opened_cookies:
  "open_assembly (windows_ops n) q flags l = (r, l') \<Longrightarrow> ws_cookies (al_platform l') = ws_cookies (al_platform l)"
  by (auto simp: open_assembly_def windows_ops_def windows_load_library_def Let_def split: prod.splits if_splits)

section \<open>Samples\<close>


definition sample_win :: "64 word win" where
  "sample_win = \<lparr>wn_load = (\<lambda>p f w. (w + 1, w + 1)), wn_pin = (\<lambda>h w. w), wn_free = (\<lambda>h w. (True, w)),
     wn_proc = (\<lambda>h n w. (0, w)), wn_module_name = (\<lambda>h n w. (0, [])), wn_add_directory = (\<lambda>p w. (w + 1, w + 1)),
     wn_remove_directory = (\<lambda>c w. (True, w)), wn_last_error = (\<lambda>w. 0), wn_format_message = (\<lambda>e. [])\<rparr>"

definition sample_files :: file_queries where
  "sample_files = \<lparr>fq_exists = (\<lambda>p. True), fq_absolute = (\<lambda>p. Inr (''/'' @ p))\<rparr>"

section \<open>Properties\<close>

text \<open>C26: On both platforms, whatever is loaded, unloaded from the cache and let go of, in any order and
  with any failures: the libraries the system has loaded are those it was asked to unload and those
  of the assemblies that still have an owner. None is unloaded twice and none is forgotten.\<close>

theorem libraries_unloaded_once:
  "(let l = loader_run (recording (unix_ops d)) fq calls (new_assembly_loader (w, [])) in
      loaded_libraries (snd (al_platform l)) = unloaded_libraries (snd (al_platform l)) + open_libraries (al_objects l)) \<and>
   (let l = loader_run (recording (windows_ops n)) fq calls (new_assembly_loader (s, [])) in
      loaded_libraries (snd (al_platform l)) = unloaded_libraries (snd (al_platform l)) + open_libraries (al_objects l))"
  using unix.run_balanced [OF balanced_new, of d fq calls w] windows.run_balanced [OF balanced_new, of n fq calls s]
  by (simp add: Let_def balanced_def)



text \<open>On Windows a load leaves the search paths of the process as they were, apart from those it was
  given: these are removed at its end on every path, whether it was this load that added them or
  someone else had done so before.\<close>

lemma load_drops_search_paths:
  assumes ok: "\<And>c w. fst (wn_remove_directory n c w)" and q: "resolve_path fq p = Inr q"
    and miss: "lock_weak l (al_cache l (path_elements q)) = None"
    and load: "load_assembly (windows_ops n) fq p flags search l = (r, l')"
  shows "ws_cookies (al_platform l') =
     (\<lambda>k. if k \<in> path_elements ` set search then None else ws_cookies (al_platform l) k)"
proof (cases "search = []")
  case True
  with load q miss have "open_assembly (windows_ops n) q flags l = (r, l')"
    by (simp add: load_assembly_def Let_def split: prod.splits)
  from opened_cookies [OF this] True show ?thesis by simp
next
  case False
  obtain added s where added: "add_search_paths (windows_ops n) search (al_platform l) = (added, s)"
    by (meson surj_pair)
  obtain r2 l2 where l2: "(case added of Inl e \<Rightarrow> (Inl e, l\<lparr>al_platform := s\<rparr>)
      | Inr _ \<Rightarrow> open_assembly (windows_ops n) q flags (l\<lparr>al_platform := s\<rparr>)) = (r2, l2)" by (meson surj_pair)
  have "po_runtime_paths (windows_ops n)" by (simp add: windows_ops_def)
  then have l': "l' = l2\<lparr>al_platform := remove_search_paths (windows_ops n) search (al_platform l2)\<rparr>"
    using load q miss False added l2 by (simp add: load_assembly_def Let_def)
  have "ws_cookies (al_platform l2) = ws_cookies s"
    using l2 opened_cookies by (fastforce split: sum.splits)
  then show ?thesis
    using added_cookies [OF added] by (simp add: l' removed_cookies [OF ok] fun_eq_iff)
qed


lemma load_drops_search_paths_witness:
  "ws_cookies (al_platform (snd (load_assembly (windows_ops sample_win) sample_files ''/a'' 1 [''/d'']
     (new_assembly_loader \<lparr>ws_cookies = [[''/'', ''d''] \<mapsto> 5, [''/'', ''e''] \<mapsto> 6], ws_system = 7\<rparr>)))) [''/'', ''d''] = None"
proof -
  let ?l = "new_assembly_loader \<lparr>ws_cookies = [[''/'', ''d''] \<mapsto> 5, [''/'', ''e''] \<mapsto> 6], ws_system = 7\<rparr>"
  obtain r l' where load: "load_assembly (windows_ops sample_win) sample_files ''/a'' 1 [''/d''] ?l = (r, l')" by fastforce
  have ok: "fst (wn_remove_directory sample_win c w)" for c w by (simp add: sample_win_def)
  have q: "resolve_path sample_files ''/a'' = Inr ''/a''"
    by (simp add: resolve_path_def sample_files_def path_is_absolute_def is_sep_def)
  have miss: "lock_weak ?l (al_cache ?l k) = None" for k by (simp add: new_assembly_loader_def lock_weak_def)
  have "path_elements ''/d'' = [''/'', ''d'']" by code_simp
  with load_drops_search_paths [OF ok q miss load] show ?thesis by (simp add: load)
qed

text \<open>The flags with which the extension loader opens a module, on both platforms.\<close>

lemma module_flags:
  "unix_translate_flags (get_load_flags cfg) =
     (if prefer_own_symbols (cfg_loading cfg) then 0x109 else 0x101)"
  "windows_translate_flags (get_load_flags cfg) = 0xD00"
  by (simp_all add: unix_translate_flags_def windows_translate_flags_def get_load_flags_def flag_defs rtld_defs)

text \<open>Assigning to a handle that holds a library forgets that library: it is never unloaded.\<close>

lemma move_assignment_forgets:
  "destroy_handle ops (snd (move_assign_handle this a)) (destroy_handle ops (fst (move_assign_handle this a)) s) =
     destroy_handle ops a s"
  by (simp add: move_assign_handle_def destroy_handle_def)

text \<open>A name as long as the buffer is returned cut off, as if it were the whole name.\<close>

lemma long_module_name_cut:
  "wn_module_name n h max_path (ws_system s) = (max_path, name) \<Longrightarrow>
     fst (windows_get_library_path n h s) = Inr (take max_path name)"
  by (simp add: windows_get_library_path_def max_path_def)

text \<open>A directory added twice has its first cookie overwritten, so that it is never removed.\<close>

lemma second_cookie_overwrites:
  assumes "wn_add_directory n p w = (c, w1)" "wn_add_directory n p w1 = (c', w2)" "c \<noteq> 0" "c' \<noteq> 0" "c \<noteq> c'"
  shows "ws_cookies (snd (add_search_paths (windows_ops n) [p, p] \<lparr>ws_cookies = Map.empty, ws_system = w\<rparr>)) =
      [path_elements p \<mapsto> c']"
  using assms by (simp add: windows_ops_def windows_add_search_path_def)

end
